(* ===== verification/Go_Prelude.thy ===== *)
theory Go_Prelude imports Main "HOL-Library.AList" "HOL-Library.Char_ord" "HOL-Library.List_Lexorder" "HOL-Library.Product_Lexorder" "HOL-Library.Multiset" "HOL-Library.Sublist" begin

text \<open>
  The part of Go every component of the model shares.

  \<^item> Strings are byte strings (\<open>string\<close>); the functions of the package \<open>strings\<close> that the
    sources call are defined below. \<open>ToLower\<close> and \<open>ToUpper\<close> are the ASCII mapping, which
    is what Go computes on an ASCII string; bytes from 128 up are left alone.
  \<^item> A Go map with string keys is an association list with distinct keys. The order of the
    list is the order a \<open>range\<close> loop happens to visit, so a theorem for every list of
    distinct keys holds for every iteration order.
  \<^item> An error return is \<open>'e option\<close> where a function returns only an error (\<open>None\<close> is Go's
    \<open>nil\<close>), and a sum \<open>'e + 'a\<close> where it also returns a value.
  \<^item> Sorting with a comparison function is a stable insertion sort; the locale \<open>go_order\<close>
    says when every correct sort gives the same list.
\<close>

named_theorems go_str \<open>facts about Go's string functions\<close>
named_theorems go_err \<open>what it means that no check reports an error\<close>

section \<open>Strings\<close>

definition has_prefix :: "string \<Rightarrow> string \<Rightarrow> bool" where
  "has_prefix s p \<longleftrightarrow> take (length p) s = p"

definition has_suffix :: "string \<Rightarrow> string \<Rightarrow> bool" where
  "has_suffix s p \<longleftrightarrow> length p \<le> length s \<and> drop (length s - length p) s = p"

definition trim_prefix :: "string \<Rightarrow> string \<Rightarrow> string" where
  "trim_prefix s p = (if has_prefix s p then drop (length p) s else s)"

definition cut_prefix :: "string \<Rightarrow> string \<Rightarrow> string option" where
  "cut_prefix s p = (if has_prefix s p then Some (drop (length p) s) else None)"

fun str_contains :: "string \<Rightarrow> string \<Rightarrow> bool" where
  "str_contains [] sub \<longleftrightarrow> sub = []"
| "str_contains (c # s) sub \<longleftrightarrow> has_prefix (c # s) sub \<or> str_contains s sub"

definition contains_any :: "string \<Rightarrow> string \<Rightarrow> bool" where
  "contains_any s chars \<longleftrightarrow> list_ex (\<lambda>c. c \<in> set chars) s"

definition char_code :: "char \<Rightarrow> nat" where
  "char_code c = of_char c"

definition in_range :: "char \<Rightarrow> char \<Rightarrow> char \<Rightarrow> bool" where
  "in_range lo hi c \<longleftrightarrow> char_code lo \<le> char_code c \<and> char_code c \<le> char_code hi"

definition is_lower_letter :: "char \<Rightarrow> bool" where
  "is_lower_letter c \<longleftrightarrow> in_range CHR ''a'' CHR ''z'' c"

definition is_upper_letter :: "char \<Rightarrow> bool" where
  "is_upper_letter c \<longleftrightarrow> in_range CHR ''A'' CHR ''Z'' c"

definition is_digit :: "char \<Rightarrow> bool" where
  "is_digit c \<longleftrightarrow> in_range CHR ''0'' CHR ''9'' c"

definition lower_char :: "char \<Rightarrow> char" where
  "lower_char c = (if is_upper_letter c then char_of (char_code c + 32) else c)"

definition upper_char :: "char \<Rightarrow> char" where
  "upper_char c = (if is_lower_letter c then char_of (char_code c - 32) else c)"

definition to_lower :: "string \<Rightarrow> string" where
  "to_lower s = map lower_char s"

definition to_upper :: "string \<Rightarrow> string" where
  "to_upper s = map upper_char s"

fun split_on :: "char \<Rightarrow> string \<Rightarrow> string list" where
  "split_on sep [] = [[]]"
| "split_on sep (c # s) =
     (if c = sep then [] # split_on sep s
      else (case split_on sep s of [] \<Rightarrow> [[c]] | w # ws \<Rightarrow> (c # w) # ws))"

fun str_join :: "string \<Rightarrow> string list \<Rightarrow> string" where
  "str_join sep [] = []"
| "str_join sep [w] = w"
| "str_join sep (w # v # ws) = w @ sep @ str_join sep (v # ws)"

definition replace_char :: "char \<Rightarrow> string \<Rightarrow> string \<Rightarrow> string" where
  "replace_char old new s = concat (map (\<lambda>c. if c = old then new else [c]) s)"

definition trim_chars :: "(char \<Rightarrow> bool) \<Rightarrow> string \<Rightarrow> string" where
  "trim_chars p s = rev (dropWhile p (rev (dropWhile p s)))"

definition is_space :: "char \<Rightarrow> bool" where
  "is_space c \<longleftrightarrow> c = CHR '' '' \<or> (9 \<le> char_code c \<and> char_code c \<le> 13)"

definition trim_space :: "string \<Rightarrow> string" where
  "trim_space s = trim_chars is_space s"

definition str_compare :: "string \<Rightarrow> string \<Rightarrow> int" where
  "str_compare a b = (if a = b then 0 else if a < b then -1 else 1)"

text \<open>\<open>%q\<close> of \<open>fmt\<close> on an ASCII string: the string in double quotes, a quote, a backslash
  and the control characters escaped.\<close>

definition hex_digit :: "nat \<Rightarrow> char" where
  "hex_digit n = (if n < 10 then char_of (48 + n) else char_of (87 + n))"

definition quote_char :: "char \<Rightarrow> string" where
  "quote_char c =
     (let n = char_code c in
      if n = 34 \<or> n = 92 then [CHR 0x5C, c]
      else if n = 7 then [CHR 0x5C, CHR ''a'']
      else if n = 8 then [CHR 0x5C, CHR ''b'']
      else if n = 12 then [CHR 0x5C, CHR ''f'']
      else if n = 10 then [CHR 0x5C, CHR ''n'']
      else if n = 13 then [CHR 0x5C, CHR ''r'']
      else if n = 9 then [CHR 0x5C, CHR ''t'']
      else if n = 11 then [CHR 0x5C, CHR ''v'']
      else if n < 32 \<or> n = 127 then [CHR 0x5C, CHR ''x'', hex_digit (n div 16), hex_digit (n mod 16)]
      else [c])"

definition go_quote :: "string \<Rightarrow> string" where
  "go_quote s = [CHR 0x22] @ concat (map quote_char s) @ [CHR 0x22]"

text \<open>\<open>%d\<close> of \<open>fmt\<close>.\<close>

fun nat_digits :: "nat \<Rightarrow> string" where
  "nat_digits n = (if n < 10 then [char_of (48 + n)] else nat_digits (n div 10) @ [char_of (48 + n mod 10)])"

declare nat_digits.simps [simp del]

definition go_decimal :: "int \<Rightarrow> string" where
  "go_decimal i = (if i < 0 then CHR ''-'' # nat_digits (nat (- i)) else nat_digits (nat i))"

subsection \<open>Facts about strings\<close>

lemma has_prefix_iff [go_str]: "has_prefix s p \<longleftrightarrow> (\<exists>t. s = p @ t)"
  unfolding has_prefix_def by (metis append_eq_conv_conj append_take_drop_id)

lemma has_suffix_iff [go_str]: "has_suffix s p \<longleftrightarrow> (\<exists>t. s = t @ p)"
  unfolding has_suffix_def by (auto intro: exI [of _ "take (length s - length p) s"])
    (metis append_take_drop_id)

lemma has_prefix_append [simp]: "has_prefix (p @ t) p"
  by (simp add: has_prefix_def)

lemma has_suffix_append [simp]: "has_suffix (t @ p) p"
  by (simp add: has_suffix_def)

lemma has_suffix_refl [simp]: "has_suffix s s"
  by (simp add: has_suffix_def)

lemma has_suffix_trans: "has_suffix a b \<Longrightarrow> has_suffix b c \<Longrightarrow> has_suffix a c"
  by (auto simp: has_suffix_iff)

lemma has_suffix_length: "has_suffix s p \<Longrightarrow> length p \<le> length s"
  by (simp add: has_suffix_def)

lemma has_suffix_same_length: "has_suffix s p \<Longrightarrow> has_suffix s q \<Longrightarrow> length p = length q \<Longrightarrow> p = q"
  by (auto simp: has_suffix_def)

lemma has_prefix_Cons [simp]: "has_prefix (c # s) (d # p) \<longleftrightarrow> c = d \<and> has_prefix s p"
  by (auto simp: has_prefix_def)

lemma has_prefix_Nil [simp]: "has_prefix s []" "has_prefix [] (d # p) = False"
  by (simp_all add: has_prefix_def)

lemma trim_prefix_append [simp]: "trim_prefix (p @ t) p = t"
  by (simp add: trim_prefix_def)

lemma str_contains_iff [go_str]: "str_contains s sub \<longleftrightarrow> (\<exists>a b. s = a @ sub @ b)"
proof (induction s)
  case Nil
  then show ?case by simp
next
  case (Cons c s)
  show ?case
  proof
    assume "str_contains (c # s) sub"
    then consider "has_prefix (c # s) sub" | "str_contains s sub" by auto
    then show "\<exists>a b. c # s = a @ sub @ b"
    proof cases
      case 1
      then show ?thesis by (metis append_Nil has_prefix_iff)
    next
      case 2
      then show ?thesis using Cons.IH by (metis append_Cons)
    qed
  next
    assume "\<exists>a b. c # s = a @ sub @ b"
    then obtain a b where ab: "c # s = a @ sub @ b" by blast
    show "str_contains (c # s) sub"
    proof (cases a)
      case Nil
      with ab have "has_prefix (c # s) sub" by (simp add: has_prefix_iff)
      then show ?thesis by simp
    next
      case (Cons d a')
      with ab have "\<exists>a b. s = a @ sub @ b" by auto
      with Cons.IH show ?thesis by simp
    qed
  qed
qed

lemma str_contains_char: "str_contains s [c] \<longleftrightarrow> c \<in> set s"
  by (induction s) auto

lemma contains_any_iff [go_str]: "contains_any s cs \<longleftrightarrow> set s \<inter> set cs \<noteq> {}"
  by (auto simp: contains_any_def list_ex_iff)

lemma split_on_not_Nil [simp]: "split_on sep s \<noteq> []"
  by (induction s) (auto split: list.splits)

lemma length_split_on: "length (split_on sep s) = Suc (count_list s sep)"
  by (induction s) (auto split: list.splits)

lemma concat_split_on: "str_join [sep] (split_on sep s) = s"
proof (induction s)
  case (Cons c s)
  then show ?case
    by (cases "split_on sep s"; cases "tl (split_on sep s)") auto
qed simp

lemma split_on_sep_free: "w \<in> set (split_on sep s) \<Longrightarrow> sep \<notin> set w"
proof (induction s arbitrary: w)
  case (Cons c s)
  then show ?case
    by (cases "split_on sep s") (auto split: if_splits)
qed simp

lemma split_on_inject: "split_on sep s = split_on sep t \<longleftrightarrow> s = t"
  by (metis concat_split_on)

lemma to_lower_append [simp]: "to_lower (a @ b) = to_lower a @ to_lower b"
  by (simp add: to_lower_def)

lemma length_to_lower [simp]: "length (to_lower s) = length s"
  by (simp add: to_lower_def)

section \<open>Maps with string keys\<close>

type_synonym 'v gomap = "(string \<times> 'v) list"

definition wf_map :: "'v gomap \<Rightarrow> bool" where
  "wf_map m \<longleftrightarrow> distinct (map fst m)"

definition mget :: "'v gomap \<Rightarrow> string \<Rightarrow> 'v option" where
  "mget m k = map_of m k"

definition mput :: "string \<Rightarrow> 'v \<Rightarrow> 'v gomap \<Rightarrow> 'v gomap" where
  "mput k v m = AList.update k v m"

definition has_key :: "'v gomap \<Rightarrow> string \<Rightarrow> bool" where
  "has_key m k \<longleftrightarrow> mget m k \<noteq> None"

text \<open>\<open>sortedKeys\<close>, and the loop \<open>for k in sortedKeys(m) { ... m[k] ... }\<close> as the list of
  the pairs it visits.\<close>

definition sorted_keys :: "'v gomap \<Rightarrow> string list" where
  "sorted_keys m = sort (map fst m)"

definition sorted_entries :: "'v gomap \<Rightarrow> (string \<times> 'v) list" where
  "sorted_entries m = map (\<lambda>k. (k, the (map_of m k))) (sorted_keys m)"

lemma set_sorted_keys [simp]: "set (sorted_keys m) = fst ` set m"
  by (simp add: sorted_keys_def)

lemma sorted_sorted_keys [simp]: "sorted (sorted_keys m)"
  by (simp add: sorted_keys_def)

lemma distinct_sorted_keys [simp]: "distinct (sorted_keys m) \<longleftrightarrow> wf_map m"
  by (simp add: sorted_keys_def wf_map_def)

lemma map_fst_sorted_entries [simp]: "map fst (sorted_entries m) = sorted_keys m"
  by (simp add: sorted_entries_def comp_def)

lemma sorted_entries_map_of: "(k, v) \<in> set (sorted_entries m) \<longleftrightarrow> map_of m k = Some v"
proof
  assume "(k, v) \<in> set (sorted_entries m)"
  then have "k \<in> fst ` set m" "v = the (map_of m k)" by (auto simp: sorted_entries_def)
  then show "map_of m k = Some v" by (metis not_None_eq map_of_eq_None_iff option.sel)
next
  assume *: "map_of m k = Some v"
  then have "k \<in> fst ` set m" by (metis image_iff map_of_SomeD fst_conv)
  with * show "(k, v) \<in> set (sorted_entries m)" by (force simp: sorted_entries_def)
qed

lemma set_sorted_entries: "wf_map m \<Longrightarrow> set (sorted_entries m) = set m"
  by (auto simp: sorted_entries_map_of wf_map_def)

lemma distinct_sorted_entries: "wf_map m \<Longrightarrow> distinct (sorted_entries m)"
  by (metis distinct_map distinct_sorted_keys map_fst_sorted_entries)

lemma sorted_entries_Nil [simp]: "sorted_entries [] = []"
  by (simp add: sorted_entries_def sorted_keys_def)

lemma sorted_keys_perm: "mset m = mset m' \<Longrightarrow> sorted_keys m = sorted_keys m'"
  unfolding sorted_keys_def by (metis mset_map properties_for_sort sorted_sort mset_sort)

text \<open>The loop over sorted keys sees the same list whatever the map's iteration order is.\<close>

lemma sorted_entries_perm:
  assumes "wf_map m" and "mset m = mset m'"
  shows "sorted_entries m = sorted_entries m'"
proof -
  have "mset (map fst m) = mset (map fst m')" using assms(2) by simp
  with assms(1) have "distinct (map fst m')"
    unfolding wf_map_def by (metis mset_eq_imp_distinct_iff)
  moreover have "set m = set m'" using assms(2) by (rule mset_eq_setD)
  ultimately have "map_of m = map_of m'"
    using assms(1) by (simp add: wf_map_def map_of_inject_set)
  with sorted_keys_perm [OF assms(2)] show ?thesis by (simp add: sorted_entries_def)
qed

lemma wf_mput [simp]: "wf_map m \<Longrightarrow> wf_map (mput k v m)"
  by (simp add: wf_map_def mput_def distinct_update)

lemma wf_map_Nil [simp]: "wf_map []"
  by (simp add: wf_map_def)

lemma mget_mput [simp]: "mget (mput k v m) k' = (if k' = k then Some v else mget m k')"
  by (simp add: mget_def mput_def update_conv')

lemma mget_Nil [simp]: "mget [] k = None"
  by (simp add: mget_def)

lemma has_key_iff: "has_key m k \<longleftrightarrow> k \<in> fst ` set m"
  by (simp add: has_key_def mget_def map_of_eq_None_iff)

lemma has_key_mput [simp]: "has_key (mput k v m) k' \<longleftrightarrow> k' = k \<or> has_key m k'"
  by (simp add: has_key_def)

lemma mput_not_Nil [simp]: "mput k v m \<noteq> []"
  by (cases m) (auto simp: mput_def)

section \<open>Checks that report the first problem\<close>

text \<open>A Go validation is a sequence of checks, each an early return. \<open>first_of\<close> is the
  sequence, \<open>first_err\<close> a loop over a slice, \<open>scan_seen\<close> the loop that also keeps a set
  of the keys it has seen and refuses a repeated one.\<close>

definition fail_if :: "bool \<Rightarrow> 'e \<Rightarrow> 'e option" where
  "fail_if b e = (if b then Some e else None)"

fun first_of :: "'e option list \<Rightarrow> 'e option" where
  "first_of [] = None"
| "first_of (r # rs) = (case r of Some e \<Rightarrow> Some e | None \<Rightarrow> first_of rs)"

fun first_err :: "('a \<Rightarrow> 'e option) \<Rightarrow> 'a list \<Rightarrow> 'e option" where
  "first_err chk [] = None"
| "first_err chk (x # xs) = (case chk x of Some e \<Rightarrow> Some e | None \<Rightarrow> first_err chk xs)"

fun scan_seen ::
  "(nat \<Rightarrow> 'a \<Rightarrow> 'e option) \<Rightarrow> ('a \<Rightarrow> 'k) \<Rightarrow> (nat \<Rightarrow> 'a \<Rightarrow> 'e) \<Rightarrow> nat \<Rightarrow> 'k list \<Rightarrow> 'a list \<Rightarrow> 'e option"
where
  "scan_seen chk key dup i seen [] = None"
| "scan_seen chk key dup i seen (x # xs) =
     (case chk i x of
        Some e \<Rightarrow> Some e
      | None \<Rightarrow>
          if key x \<in> set seen then Some (dup i x)
          else scan_seen chk key dup (Suc i) (key x # seen) xs)"

lemma fail_if_None [simp, go_err]: "fail_if b e = None \<longleftrightarrow> \<not> b"
  by (simp add: fail_if_def)

lemma fail_if_Some [simp]: "fail_if b e = Some e' \<longleftrightarrow> b \<and> e' = e"
  by (auto simp: fail_if_def)

lemma first_of_None [simp, go_err]:
  "first_of [] = None"
  "first_of (r # rs) = None \<longleftrightarrow> r = None \<and> first_of rs = None"
  by (auto split: option.splits)

lemma first_of_Some: "first_of rs = Some e \<Longrightarrow> Some e \<in> set rs"
  by (induction rs) (auto split: option.splits)

lemma first_err_None [go_err]: "first_err chk xs = None \<longleftrightarrow> (\<forall>x\<in>set xs. chk x = None)"
  by (induction xs) (auto split: option.splits)

lemma first_err_None_Cons [simp]:
  "first_err chk [] = None"
  "first_err chk (x # xs) = None \<longleftrightarrow> chk x = None \<and> first_err chk xs = None"
  by (auto split: option.splits)

declare first_of.simps [simp del] first_err.simps [simp del]

lemma first_err_Some: "first_err chk xs = Some e \<Longrightarrow> \<exists>x\<in>set xs. chk x = Some e"
  by (induction xs) (auto simp: first_err.simps split: option.splits)

lemma all_less_Suc_nth:
  "(\<forall>j<length (x # xs). P (i + j) ((x # xs) ! j)) \<longleftrightarrow> P i x \<and> (\<forall>j<length xs. P (Suc i + j) (xs ! j))"
  by (auto simp: less_Suc_eq_0_disj)

lemma scan_seen_None_gen:
  "scan_seen chk key dup i seen xs = None \<longleftrightarrow>
     (\<forall>j<length xs. chk (i + j) (xs ! j) = None) \<and> distinct (map key xs) \<and>
     set (map key xs) \<inter> set seen = {}"
proof (induction xs arbitrary: i seen)
  case (Cons x xs)
  have all: "(\<forall>j<length (x # xs). chk (i + j) ((x # xs) ! j) = None) \<longleftrightarrow>
      chk i x = None \<and> (\<forall>j<length xs. chk (Suc i + j) (xs ! j) = None)"
    by (rule all_less_Suc_nth)
  show ?case
  proof (cases "chk i x = None \<and> key x \<notin> set seen")
    case True
    then have "scan_seen chk key dup i seen (x # xs) =
        scan_seen chk key dup (Suc i) (key x # seen) xs" by simp
    with True show ?thesis unfolding all by (simp only: Cons.IH) auto
  next
    case False
    then have "scan_seen chk key dup i seen (x # xs) \<noteq> None"
      by (cases "chk i x") auto
    with False show ?thesis unfolding all by (auto simp del: scan_seen.simps)
  qed
qed simp

lemma scan_seen_None [go_err]:
  "scan_seen chk key dup 0 [] xs = None \<longleftrightarrow>
     (\<forall>j<length xs. chk j (xs ! j) = None) \<and> distinct (map key xs)"
  by (simp add: scan_seen_None_gen)

text \<open>\<open>firstDuplicate\<close>: the first value that repeats an earlier one, \<open>""\<close> when there is none.\<close>

fun first_dup_from :: "string list \<Rightarrow> string list \<Rightarrow> string" where
  "first_dup_from seen [] = []"
| "first_dup_from seen (v # vs) = (if v \<in> set seen then v else first_dup_from (v # seen) vs)"

definition first_duplicate :: "string list \<Rightarrow> string" where
  "first_duplicate vs = first_dup_from [] vs"

lemma first_dup_from_Nil:
  "[] \<notin> set vs \<Longrightarrow>
     first_dup_from seen vs = [] \<longleftrightarrow> distinct vs \<and> set vs \<inter> set seen = {}"
  by (induction vs arbitrary: seen) auto

lemma first_duplicate_none: "[] \<notin> set vs \<Longrightarrow> first_duplicate vs = [] \<longleftrightarrow> distinct vs"
  by (simp add: first_duplicate_def first_dup_from_Nil)

lemma first_dup_from_distinct:
  "distinct vs \<Longrightarrow> set vs \<inter> set seen = {} \<Longrightarrow> first_dup_from seen vs = []"
  by (induction vs arbitrary: seen) auto

lemma first_duplicate_distinct [simp]: "distinct vs \<Longrightarrow> first_duplicate vs = []"
  by (simp add: first_duplicate_def first_dup_from_distinct)

subsection \<open>The interface of a check\<close>

text \<open>Every validator of the sources promises the same thing: it returns nil exactly on the
  values its rules accept. A client that loops over a slice of values may rely on that
  alone.\<close>

locale validator =
  fixes check :: "'a \<Rightarrow> 'e option" and accepts :: "'a \<Rightarrow> bool"
  assumes check_None: "check x = None \<longleftrightarrow> accepts x"
begin

lemma loop_accepts: "first_err check xs = None \<longleftrightarrow> list_all accepts xs"
  by (simp add: first_err_None check_None list_all_iff)

lemma scan_accepts:
  "scan_seen (\<lambda>_. check) key dup 0 [] xs = None \<longleftrightarrow> list_all accepts xs \<and> distinct (map key xs)"
  by (simp add: scan_seen_None check_None list_all_length)

lemma refuses: "(\<exists>e. check x = Some e) \<longleftrightarrow> \<not> accepts x"
  by (metis check_None not_None_eq)

end

subsection \<open>Loops over a map in the order of its keys\<close>

lemma concat_entries_iff:
  "y \<in> set (concat (map (\<lambda>(k, v). f k v) (sorted_entries m))) \<longleftrightarrow>
     (\<exists>k v. mget m k = Some v \<and> y \<in> set (f k v))"
proof -
  have "y \<in> set (concat (map (\<lambda>(k, v). f k v) (sorted_entries m))) \<longleftrightarrow>
      (\<exists>(k, v) \<in> set (sorted_entries m). y \<in> set (f k v))"
    by (simp add: case_prod_unfold)
  also have "\<dots> \<longleftrightarrow> (\<exists>k v. map_of m k = Some v \<and> y \<in> set (f k v))"
    unfolding Bex_def split_paired_Ex by (simp add: sorted_entries_map_of)
  finally show ?thesis by (simp add: mget_def)
qed

lemma ball_entries_iff:
  "(\<forall>kv\<in>set (sorted_entries m). case kv of (k, v) \<Rightarrow> P k v) \<longleftrightarrow> (\<forall>k v. mget m k = Some v \<longrightarrow> P k v)"
  by (auto simp: sorted_entries_map_of mget_def)

subsection \<open>A map used as a set\<close>

definition key_set :: "string list \<Rightarrow> bool gomap" where
  "key_set ks = foldl (\<lambda>m k. mput k True m) [] ks"

lemma key_set_gen:
  "wf_map m \<Longrightarrow> wf_map (foldl (\<lambda>m k. mput k v m) m ks) \<and>
     (\<forall>k. has_key (foldl (\<lambda>m k. mput k v m) m ks) k \<longleftrightarrow> k \<in> set ks \<or> has_key m k)"
  by (induction ks arbitrary: m) auto

lemma wf_key_set [simp]: "wf_map (key_set ks)"
  using key_set_gen [of "[]" True ks] by (simp add: key_set_def)

lemma has_key_key_set [simp]: "has_key (key_set ks) k \<longleftrightarrow> k \<in> set ks"
  using key_set_gen [of "[]" True ks] by (auto simp: key_set_def has_key_def)

lemma keys_key_set [simp]: "fst ` set (key_set ks) = set ks"
  by (metis has_key_iff has_key_key_set subsetI subset_antisym)

section \<open>Functions that return a value and an error\<close>

text \<open>\<open>unless err k\<close>: return the error of a check, go on with \<open>k\<close> when it is nil. \<open>fold_err\<close>
  is a loop that updates a state and returns at the first error.\<close>

definition unless :: "'e option \<Rightarrow> 'e + 'a \<Rightarrow> 'e + 'a" where
  "unless err k = (case err of Some e \<Rightarrow> Inl e | None \<Rightarrow> k)"

definition sum_bind :: "'e + 'a \<Rightarrow> ('a \<Rightarrow> 'e + 'b) \<Rightarrow> 'e + 'b" where
  "sum_bind r k = (case r of Inl e \<Rightarrow> Inl e | Inr x \<Rightarrow> k x)"

fun fold_err :: "('a \<Rightarrow> 's \<Rightarrow> 'e + 's) \<Rightarrow> 'a list \<Rightarrow> 's \<Rightarrow> 'e + 's" where
  "fold_err f [] s = Inr s"
| "fold_err f (x # xs) s = sum_bind (f x s) (fold_err f xs)"

text \<open>\<open>collect\<close> is the loop that appends one result for each element.\<close>

fun collect :: "('a \<Rightarrow> 'e + 'b) \<Rightarrow> 'a list \<Rightarrow> 'e + 'b list" where
  "collect f [] = Inr []"
| "collect f (x # xs) = sum_bind (f x) (\<lambda>y. sum_bind (collect f xs) (\<lambda>ys. Inr (y # ys)))"

lemma unless_Inr [simp]: "unless err k = Inr x \<longleftrightarrow> err = None \<and> k = Inr x"
  by (simp add: unless_def split: option.splits)

lemma unless_simps [simp]: "unless None k = k" "unless (Some e) k = Inl e"
  by (simp_all add: unless_def)

lemma sum_bind_simps [simp]: "sum_bind (Inl e) k = Inl e" "sum_bind (Inr x) k = k x"
  by (simp_all add: sum_bind_def)

lemma sum_bind_Inr [simp]: "sum_bind r k = Inr y \<longleftrightarrow> (\<exists>x. r = Inr x \<and> k x = Inr y)"
  by (simp add: sum_bind_def split: sum.splits)

lemma fold_err_append: "fold_err f (xs @ ys) s = sum_bind (fold_err f xs s) (fold_err f ys)"
  by (induction xs arbitrary: s) (auto simp: sum_bind_def split: sum.splits)

lemma fold_err_inv:
  assumes "fold_err f xs s = Inr s'" and "P s"
    and "\<And>x s s'. x \<in> set xs \<Longrightarrow> P s \<Longrightarrow> f x s = Inr s' \<Longrightarrow> P s'"
  shows "P s'"
  using assms by (induction xs arbitrary: s) auto

lemma collect_Inr: "collect f xs = Inr ys \<longleftrightarrow> map f xs = map Inr ys"
proof (induction xs arbitrary: ys)
  case (Cons x xs)
  then show ?case by (cases ys) auto
qed auto

lemma collect_Inr_length: "collect f xs = Inr ys \<Longrightarrow> length ys = length xs"
  unfolding collect_Inr by (metis length_map)

lemma collect_Inr_all: "(\<exists>ys. collect f xs = Inr ys) \<longleftrightarrow> (\<forall>x\<in>set xs. \<exists>y. f x = Inr y)"
  by (induction xs) auto

lemma collect_total: "(\<And>x. x \<in> set xs \<Longrightarrow> f x = Inr (g x)) \<Longrightarrow> collect f xs = Inr (map g xs)"
  by (induction xs) auto

text \<open>A loop that replaces the value of each of its keys leaves a map with the same keys in
  the same order.\<close>

lemma mput_existing:
  "wf_map m \<Longrightarrow> k \<in> fst ` set m \<Longrightarrow> mput k v m = map (\<lambda>(k', v'). (k', if k' = k then v else v')) m"
proof (induction m)
  case (Cons kv m)
  obtain k0 v0 where kv: "kv = (k0, v0)" by (cases kv)
  show ?case
  proof (cases "k = k0")
    case True
    have "map (\<lambda>(k', v'). (k', if k' = k then v else v')) m = m"
      using Cons.prems True kv by (intro map_idI) (auto simp: wf_map_def image_iff)
    with True kv show ?thesis by (simp add: mput_def)
  next
    case False
    with Cons kv have "mput k v m = map (\<lambda>(k', v'). (k', if k' = k then v else v')) m"
      by (auto simp: wf_map_def)
    with False kv show ?thesis by (simp add: mput_def)
  qed
qed simp

definition update_keys :: "(string \<Rightarrow> 'v \<Rightarrow> 'v) \<Rightarrow> string set \<Rightarrow> 'v gomap \<Rightarrow> 'v gomap" where
  "update_keys f ks m = map (\<lambda>(k, v). (k, if k \<in> ks then f k v else v)) m"

lemma keys_update_keys [simp]: "map fst (update_keys f ks m) = map fst m"
  by (auto simp: update_keys_def)

lemma wf_update_keys [simp]: "wf_map (update_keys f ks m) \<longleftrightarrow> wf_map m"
  by (simp add: wf_map_def)

lemma mget_update_keys:
  "mget (update_keys f ks m) k = map_option (\<lambda>v. if k \<in> ks then f k v else v) (mget m k)"
  by (induction m) (auto simp: update_keys_def mget_def)

lemma update_keys_step:
  assumes "wf_map m" and "mget m k = Some v" and "k \<notin> ks"
  shows "update_keys f ks (mput k (f k v) m) = update_keys f (insert k ks) m"
proof -
  have "k \<in> fst ` set m" using assms(2) by (metis has_key_def has_key_iff option.discI)
  moreover have "map (\<lambda>(k', v'). (k', if k' \<in> ks then f k' v' else v')) (map (\<lambda>(k', v'). (k', if k' = k then f k v else v')) m) =
      map (\<lambda>(k', v'). (k', if k' \<in> insert k ks then f k' v' else v')) m"
    unfolding map_map
  proof (rule map_cong [OF refl], clarify)
    fix k' v'
    assume "(k', v') \<in> set m"
    then have "v' = v" if "k' = k" using that assms(1,2) by (simp add: wf_map_def mget_def)
    then show "((\<lambda>(k', v'). (k', if k' \<in> ks then f k' v' else v')) \<circ> (\<lambda>(k', v'). (k', if k' = k then f k v else v'))) (k', v') =
        (k', if k' \<in> insert k ks then f k' v' else v')"
      using assms(3) by simp
  qed
  ultimately show ?thesis
    using assms(1) by (simp add: mput_existing update_keys_def)
qed

lemma fold_err_update:
  assumes step: "\<And>k m v. mget m k = Some v \<Longrightarrow> k \<in> set ks \<Longrightarrow>
      body k m = (case g k v of Inl e \<Rightarrow> Inl e | Inr v' \<Rightarrow> Inr (mput k v' m))"
    and "wf_map m" and "distinct ks" and "set ks \<subseteq> fst ` set m"
  shows "fold_err body ks m = Inr m' \<longleftrightarrow>
     (\<forall>k\<in>set ks. \<exists>v'. g k (the (mget m k)) = Inr v') \<and> m' = update_keys (\<lambda>k v. projr (g k v)) (set ks) m"
  using assms
proof (induction ks arbitrary: m)
  case Nil
  have "update_keys f {} m = m" for f by (simp add: update_keys_def case_prod_unfold)
  then show ?case by auto
next
  case (Cons k ks)
  from Cons.prems(4) obtain v where v: "mget m k = Some v"
    by (metis has_key_def has_key_iff insertI1 list.simps(15) not_None_eq subset_code(1))
  have step: "body k m = (case g k v of Inl e \<Rightarrow> Inl e | Inr v' \<Rightarrow> Inr (mput k v' m))"
    by (rule Cons.prems(1)) (simp_all add: v)
  show ?case
  proof (cases "g k v")
    case (Inl e)
    then show ?thesis by (simp add: step v)
  next
    case (Inr v')
    let ?m = "mput k v' m"
    have keys: "fst ` set ?m = fst ` set m"
    proof -
      have "has_key ?m k' = has_key m k'" for k' using v by (simp add: has_key_def)
      then show ?thesis unfolding has_key_iff by blast
    qed
    have "fold_err body ks ?m = Inr m' \<longleftrightarrow>
        (\<forall>k\<in>set ks. \<exists>v'. g k (the (mget ?m k)) = Inr v') \<and> m' = update_keys (\<lambda>k v. projr (g k v)) (set ks) ?m"
      using Cons.prems keys by (intro Cons.IH) auto
    moreover have "update_keys (\<lambda>k v. projr (g k v)) (set ks) ?m =
        update_keys (\<lambda>k v. projr (g k v)) (insert k (set ks)) m"
      using update_keys_step [of m k v "set ks" "\<lambda>k v. projr (g k v)"] Cons.prems v Inr by simp
    ultimately show ?thesis
      using Cons.prems(3) by (auto simp: step v Inr)
  qed
qed

text \<open>A loop whose state has a part that no step reads: that part is a plain fold.\<close>

lemma fold_err_frame:
  assumes "\<And>x s u. f x (s, u) = sum_bind (body x s) (\<lambda>s'. Inr (s', h x u))"
  shows "fold_err f xs (s, u) = sum_bind (fold_err body xs s) (\<lambda>s'. Inr (s', fold h xs u))"
  by (induction xs arbitrary: s u) (auto simp: assms sum_bind_def split: sum.splits)

definition put_all :: "(string \<times> 'v) list \<Rightarrow> 'v gomap \<Rightarrow> 'v gomap" where
  "put_all kvs m = foldl (\<lambda>m (k, v). mput k v m) m kvs"

lemma put_all_simps [simp]:
  "put_all [] m = m" "put_all ((k, v) # kvs) m = put_all kvs (mput k v m)"
  by (simp_all add: put_all_def)

lemma mget_put_all:
  "distinct (map fst kvs) \<Longrightarrow>
     mget (put_all kvs m) k = (case map_of kvs k of Some v \<Rightarrow> Some v | None \<Rightarrow> mget m k)"
proof (induction kvs arbitrary: m)
  case (Cons kv kvs)
  obtain k' v where kv: "kv = (k', v)" by (cases kv)
  with Cons.prems have "map_of kvs k' = None" by (simp add: map_of_eq_None_iff)
  with Cons kv show ?case by (simp split: option.split)
qed simp

lemma wf_put_all [simp]: "wf_map m \<Longrightarrow> wf_map (put_all kvs m)"
  by (induction kvs arbitrary: m) auto

text \<open>A loop that adds each entry and refuses a key that is already there.\<close>

lemma fold_err_put_fresh:
  assumes "\<And>x m. x \<in> set xs \<Longrightarrow> body x m = (if has_key m (fst (kv x)) then Inl (err x) else Inr (mput (fst (kv x)) (snd (kv x)) m))"
  shows "fold_err body xs m = Inr m' \<longleftrightarrow>
     distinct (map (\<lambda>x. fst (kv x)) xs) \<and> (\<forall>x\<in>set xs. \<not> has_key m (fst (kv x))) \<and> m' = put_all (map kv xs) m"
  using assms
proof (induction xs arbitrary: m)
  case (Cons x xs)
  obtain k v where kv: "kv x = (k, v)" by (cases "kv x")
  have "body x m = (if has_key m k then Inl (err x) else Inr (mput k v m))"
    using Cons.prems [of x m] kv by simp
  moreover have "fold_err body xs (mput k v m) = Inr m' \<longleftrightarrow>
     distinct (map (\<lambda>x. fst (kv x)) xs) \<and> (\<forall>x\<in>set xs. \<not> has_key (mput k v m) (fst (kv x))) \<and>
     m' = put_all (map kv xs) (mput k v m)"
    using Cons.prems by (intro Cons.IH) simp
  ultimately show ?case using kv by auto
qed auto

lemma fold_err_filter:
  "(\<And>x s. x \<in> set xs \<Longrightarrow> \<not> P x \<Longrightarrow> f x s = Inr s) \<Longrightarrow> fold_err f xs s = fold_err f (filter P xs) s"
  by (induction xs arbitrary: s) (auto simp: sum_bind_def split: sum.splits)

lemma ball_keys_iff:
  "wf_map m \<Longrightarrow> (\<forall>k\<in>set (sorted_keys m). P k (the (mget m k))) \<longleftrightarrow> (\<forall>(k, v)\<in>set m. P k v)"
  by (force simp: wf_map_def mget_def)

section \<open>Maps with the same entries\<close>

text \<open>Two Go maps that hold the same entries, each in the order it happens to keep; \<open>R\<close>
  relates the values, which may hold maps themselves.\<close>

definition same_map :: "('v \<Rightarrow> 'v \<Rightarrow> bool) \<Rightarrow> 'v gomap \<Rightarrow> 'v gomap \<Rightarrow> bool" where
  "same_map R m m' \<longleftrightarrow> wf_map m \<and> wf_map m' \<and> (\<forall>k. rel_option R (mget m k) (mget m' k))"

lemma same_map_keys: "same_map R m m' \<Longrightarrow> has_key m k = has_key m' k"
  by (auto simp: same_map_def has_key_def dest!: spec [of _ k] elim: option.rel_cases)

lemma same_map_sorted_keys: "same_map R m m' \<Longrightarrow> sorted_keys m = sorted_keys m'"
proof (rule sorted_distinct_set_unique)
  assume same: "same_map R m m'"
  then have "fst ` set m = fst ` set m'"
    using same_map_keys [OF same] by (auto simp: has_key_iff)
  with same show "set (sorted_keys m) = set (sorted_keys m')" "distinct (sorted_keys m)" "distinct (sorted_keys m')"
    by (simp_all add: same_map_def)
qed simp_all

lemma same_map_entries:
  assumes "same_map R m m'"
  shows "list_all2 (\<lambda>(k, v) (k', v'). k = k' \<and> R v v') (sorted_entries m) (sorted_entries m')"
proof -
  have "R (the (map_of m k)) (the (map_of m' k))" if "k \<in> fst ` set m" for k
  proof -
    have "rel_option R (mget m k) (mget m' k)" using assms by (simp add: same_map_def)
    moreover have "mget m k \<noteq> None" using that by (metis has_key_def has_key_iff)
    ultimately show ?thesis by (auto simp: mget_def elim: option.rel_cases)
  qed
  moreover have "set (sorted_keys m') = fst ` set m" by (metis assms same_map_sorted_keys set_sorted_keys)
  ultimately show ?thesis
    by (auto simp: sorted_entries_def same_map_sorted_keys [OF assms] list_all2_conv_all_nth)
      (metis nth_mem set_sorted_keys)
qed

lemma same_map_eq_entries: "same_map (=) m m' \<Longrightarrow> sorted_entries m = sorted_entries m'"
proof -
  assume "same_map (=) m m'"
  moreover have "(\<lambda>(k, v) (k', v'). k = k' \<and> v = v') = ((=) :: string \<times> 'a \<Rightarrow> _)" by (auto simp: fun_eq_iff)
  ultimately show ?thesis using same_map_entries [of "(=)" m m'] by (simp add: list_all2_eq)
qed

lemma same_map_Nil: "same_map R m m' \<Longrightarrow> m = [] \<longleftrightarrow> m' = []"
  using same_map_sorted_keys [of R m m'] unfolding sorted_keys_def
  by (metis length_0_conv length_map length_sort)

lemma first_err_cong2:
  "list_all2 P xs ys \<Longrightarrow> (\<And>x y. P x y \<Longrightarrow> f x = g y) \<Longrightarrow> first_err f xs = first_err g ys"
  by (induction rule: list_all2_induct) (simp_all add: first_err.simps split: option.split)

lemma concat_map_cong2:
  "list_all2 P xs ys \<Longrightarrow> (\<And>x y. P x y \<Longrightarrow> f x = g y) \<Longrightarrow> concat (map f xs) = concat (map g ys)"
  by (induction rule: list_all2_induct) simp_all

section \<open>Text written line by line\<close>

definition newline :: string where
  "newline = [CHR 0x0A]"

definition text_of :: "string list \<Rightarrow> string" where
  "text_of ls = concat (map (\<lambda>l. l @ newline) ls)"

lemma text_of_append [simp]: "text_of (xs @ ys) = text_of xs @ text_of ys"
  by (simp add: text_of_def)

lemma text_of_simps [simp]: "text_of [] = []" "text_of (l # ls) = l @ newline @ text_of ls"
  by (simp_all add: text_of_def)

text \<open>Text of lines without a line break reads back as those lines.\<close>

lemma split_on_append_sep: "sep \<notin> set w \<Longrightarrow> split_on sep (w @ sep # s) = w # split_on sep s"
  by (induction w) auto

lemma split_text_of:
  "\<forall>l\<in>set ls. CHR 0x0A \<notin> set l \<Longrightarrow> split_on CHR 0x0A (text_of ls) = ls @ [[]]"
  by (induction ls) (auto simp: newline_def split_on_append_sep)

lemma hex_digit_no_newline: "n < 16 \<Longrightarrow> hex_digit n \<noteq> CHR 0x0A"
proof
  assume "n < 16" "hex_digit n = CHR 0x0A"
  then have "of_char (hex_digit n) = (of_char (CHR 0x0A) :: nat)" by simp
  then show False using \<open>n < 16\<close> by (auto simp: hex_digit_def split: if_splits)
qed

lemma quote_char_no_newline: "CHR 0x0A \<notin> set (quote_char c)"
proof -
  have "char_code c \<noteq> 10 \<Longrightarrow> c \<noteq> CHR 0x0A" by (auto simp: char_code_def)
  moreover have "char_code c div 16 < 16" by (simp add: char_code_def less_mult_imp_div_less)
  ultimately show ?thesis
    using hex_digit_no_newline [of "char_code c div 16"] hex_digit_no_newline [of "char_code c mod 16"]
    by (auto simp: quote_char_def Let_def)
qed

text \<open>A quoted string stays on one line, whatever it holds.\<close>

lemma go_quote_no_newline: "CHR 0x0A \<notin> set (go_quote s)"
  using quote_char_no_newline by (auto simp: go_quote_def)

lemma nat_digits_digits: "c \<in> set (nat_digits n) \<Longrightarrow> is_digit c"
proof (induction n rule: nat_digits.induct)
  case (1 n)
  have "is_digit (char_of (48 + k))" if "k < 10" for k :: nat
    using that by (simp add: is_digit_def in_range_def char_code_def of_char_of)
  with 1 show ?case by (cases "n < 10") (auto simp: nat_digits.simps [of n])
qed

lemma go_decimal_no_newline: "CHR 0x0A \<notin> set (go_decimal i)"
proof -
  have "\<not> is_digit CHR 0x0A" by (simp add: is_digit_def in_range_def char_code_def)
  then show ?thesis using nat_digits_digits [of "CHR 0x0A"] by (auto simp: go_decimal_def)
qed

text \<open>A character that is no letter is the lower case of itself only.\<close>

lemma lower_char_fixed:
  assumes "\<not> is_upper_letter c0" and "\<not> is_lower_letter c0"
  shows "lower_char c = c0 \<longleftrightarrow> c = c0"
proof -
  have "is_lower_letter (lower_char c)" if "is_upper_letter c"
  proof -
    from that have r: "65 \<le> char_code c" "char_code c \<le> 90"
      by (simp_all add: is_upper_letter_def in_range_def char_code_def)
    then have "char_code (char_of (char_code c + 32)) = char_code c + 32"
      by (simp add: char_code_def of_char_of)
    with r that show ?thesis by (simp add: lower_char_def is_lower_letter_def in_range_def) (simp add: char_code_def)
  qed
  with assms show ?thesis by (auto simp: lower_char_def split: if_splits)
qed

section \<open>Nested loops\<close>

lemma fold_err_map: "fold_err f (map h xs) s = fold_err (\<lambda>x. f (h x)) xs s"
  by (induction xs arbitrary: s) (auto simp: sum_bind_def split: sum.splits)

lemma fold_err_nested:
  "fold_err (\<lambda>x. fold_err (f x) (g x)) xs s = fold_err (\<lambda>(x, y). f x y) (concat (map (\<lambda>x. map (Pair x) (g x)) xs)) s"
proof (induction xs arbitrary: s)
  case (Cons x xs)
  then have "fold_err (\<lambda>x. fold_err (f x) (g x)) xs = fold_err (\<lambda>(x, y). f x y) (concat (map (\<lambda>x. map (Pair x) (g x)) xs))"
    by (rule ext)
  then show ?case by (simp add: fold_err_append fold_err_map)
qed simp

lemma fold_err_unless:
  "fold_err (\<lambda>x s. unless (c x) (f x s)) xs s = Inr s' \<longleftrightarrow> (\<forall>x\<in>set xs. c x = None) \<and> fold_err f xs s = Inr s'"
  by (induction xs arbitrary: s) auto

lemma fold_err_cong:
  "(\<And>x s. x \<in> set xs \<Longrightarrow> f x s = g x s) \<Longrightarrow> fold_err f xs s = fold_err g xs s"
  by (induction xs arbitrary: s) (auto simp: sum_bind_def split: sum.splits)

text \<open>A loop whose steps each pass a check and then update the state.\<close>

lemma fold_err_checked:
  assumes "\<And>x s. f x s = (case c x of Some e \<Rightarrow> Inl e | None \<Rightarrow> Inr (g x s))"
  shows "fold_err f xs s = Inr s' \<longleftrightarrow> (\<forall>x\<in>set xs. c x = None) \<and> s' = fold g xs s"
  by (induction xs arbitrary: s) (auto simp: assms split: option.splits)

end
