(* ===== verification/Go_Sort.thy ===== *)
theory Go_Sort imports Go_Prelude begin

text \<open>
  Sorting. \<open>sort.Strings\<close> and \<open>slices.Sort\<close> on strings are the library's \<open>sort\<close> over the
  lexicographic order on bytes. The sorts that take a comparison function
  (\<open>slices.SortFunc\<close>, \<open>slices.SortStableFunc\<close>, \<open>sort.SliceStable\<close>) are \<open>sort_cmp\<close>, a stable
  insertion sort. The locale \<open>go_order\<close> is the contract such a comparison function has to
  meet; under it \<open>sort_cmp\<close> sorts, keeps the order of equal elements, and is the only
  sorted arrangement when no two different elements compare equal, so an unstable sort of
  the library returns the same list.
\<close>

fun insert_cmp :: "('a \<Rightarrow> 'a \<Rightarrow> int) \<Rightarrow> 'a \<Rightarrow> 'a list \<Rightarrow> 'a list" where
  "insert_cmp cmp x [] = [x]"
| "insert_cmp cmp x (y # ys) = (if cmp x y \<le> 0 then x # y # ys else y # insert_cmp cmp x ys)"

definition sort_cmp :: "('a \<Rightarrow> 'a \<Rightarrow> int) \<Rightarrow> 'a list \<Rightarrow> 'a list" where
  "sort_cmp cmp xs = foldr (insert_cmp cmp) xs []"

lemma sort_cmp_simps [simp]:
  "sort_cmp cmp [] = []"
  "sort_cmp cmp (x # xs) = insert_cmp cmp x (sort_cmp cmp xs)"
  by (simp_all add: sort_cmp_def)

lemma mset_insert_cmp [simp]: "mset (insert_cmp cmp x xs) = add_mset x (mset xs)"
  by (induction xs) auto

lemma mset_sort_cmp [simp]: "mset (sort_cmp cmp xs) = mset xs"
  by (induction xs) auto

lemma set_insert_cmp [simp]: "set (insert_cmp cmp x xs) = insert x (set xs)"
  by (induction xs) auto

lemma set_sort_cmp [simp]: "set (sort_cmp cmp xs) = set xs"
  by (induction xs) auto

lemma length_sort_cmp [simp]: "length (sort_cmp cmp xs) = length xs"
  using mset_sort_cmp by (rule mset_eq_length)

lemma distinct_sort_cmp [simp]: "distinct (sort_cmp cmp xs) \<longleftrightarrow> distinct xs"
  using mset_sort_cmp by (rule mset_eq_imp_distinct_iff)

locale go_order =
  fixes cmp :: "'a \<Rightarrow> 'a \<Rightarrow> int"
  assumes cmp_flip: "0 < cmp b a \<longleftrightarrow> cmp a b < 0"
    and cmp_trans: "cmp a b \<le> 0 \<Longrightarrow> cmp b c \<le> 0 \<Longrightarrow> cmp a c \<le> 0"
begin

lemma cmp_total: "cmp a b \<le> 0 \<or> cmp b a \<le> 0"
  using cmp_flip [of a b] by linarith

lemma cmp_zero_sym: "cmp a b = 0 \<longleftrightarrow> cmp b a = 0"
  using cmp_flip [of a b] cmp_flip [of b a] by linarith

lemma sorted_insert_cmp:
  "sorted_wrt (\<lambda>a b. cmp a b \<le> 0) xs \<Longrightarrow> sorted_wrt (\<lambda>a b. cmp a b \<le> 0) (insert_cmp cmp x xs)"
proof (induction xs)
  case (Cons y ys)
  show ?case
  proof (cases "cmp x y \<le> 0")
    case True
    with Cons.prems show ?thesis by (auto intro: cmp_trans)
  next
    case False
    then have "cmp y x \<le> 0" using cmp_total by blast
    with Cons False show ?thesis by auto
  qed
qed simp

lemma sorted_sort_cmp: "sorted_wrt (\<lambda>a b. cmp a b \<le> 0) (sort_cmp cmp xs)"
  by (induction xs) (auto intro: sorted_insert_cmp)

lemma filter_insert_cmp_other: "\<not> P x \<Longrightarrow> filter P (insert_cmp cmp x xs) = filter P xs"
  by (induction xs) auto

lemma filter_insert_cmp_equal:
  "cmp a x = 0 \<Longrightarrow>
     filter (\<lambda>y. cmp a y = 0) (insert_cmp cmp x xs) = x # filter (\<lambda>y. cmp a y = 0) xs"
proof (induction xs)
  case (Cons y ys)
  have "cmp x y \<le> 0" if "cmp a y = 0"
    using cmp_trans [of x a y] that Cons.prems cmp_zero_sym [of a x] by simp
  with Cons show ?case by auto
qed simp

text \<open>Equal elements keep their order.\<close>

lemma stable_sort_cmp: "filter (\<lambda>y. cmp a y = 0) (sort_cmp cmp xs) = filter (\<lambda>y. cmp a y = 0) xs"
  by (induction xs) (auto simp: filter_insert_cmp_other filter_insert_cmp_equal)

text \<open>Where the comparison tells every two elements apart, there is one sorted list only.\<close>

lemma sorted_unique:
  assumes "sorted_wrt (\<lambda>a b. cmp a b \<le> 0) xs" and "sorted_wrt (\<lambda>a b. cmp a b \<le> 0) ys"
    and "mset xs = mset ys"
    and strict: "\<And>a b. a \<in> set xs \<Longrightarrow> b \<in> set xs \<Longrightarrow> cmp a b = 0 \<Longrightarrow> a = b"
  shows "xs = ys"
  using assms
proof (induction xs arbitrary: ys)
  case (Cons x xs)
  then obtain y ys' where ys: "ys = y # ys'" by (cases ys) auto
  have sets: "set (x # xs) = set ys" using Cons.prems(3) by (rule mset_eq_setD)
  have x: "x \<in> set ys" and y: "y \<in> set (x # xs)" using sets ys by auto
  have "cmp y x \<le> 0 \<or> x = y" using x ys Cons.prems(2) by auto
  moreover have "cmp x y \<le> 0 \<or> x = y" using y Cons.prems(1) by auto
  ultimately have "cmp x y = 0 \<or> x = y" using cmp_flip [of x y] cmp_flip [of y x] by linarith
  then have xy: "x = y" using Cons.prems(4) y by auto
  have "xs = ys'"
    using Cons.prems ys xy by (intro Cons.IH) auto
  with ys xy show ?case by simp
qed simp

lemma sort_cmp_unique:
  assumes "sorted_wrt (\<lambda>a b. cmp a b \<le> 0) ys" and "mset ys = mset xs"
    and "\<And>a b. a \<in> set xs \<Longrightarrow> b \<in> set xs \<Longrightarrow> cmp a b = 0 \<Longrightarrow> a = b"
  shows "ys = sort_cmp cmp xs"
proof (rule sorted_unique [OF assms(1) sorted_sort_cmp])
  show "mset ys = mset (sort_cmp cmp xs)" using assms(2) by simp
  show "a = b" if "a \<in> set ys" "b \<in> set ys" "cmp a b = 0" for a b
    using that assms(3) mset_eq_setD [OF assms(2)] by auto
qed

lemma sort_cmp_perm:
  assumes "mset xs = mset ys"
    and "\<And>a b. a \<in> set xs \<Longrightarrow> b \<in> set xs \<Longrightarrow> cmp a b = 0 \<Longrightarrow> a = b"
  shows "sort_cmp cmp xs = sort_cmp cmp ys"
  by (rule sort_cmp_unique [OF sorted_sort_cmp])
    (use assms mset_eq_setD [OF assms(1)] in auto)

lemma sort_cmp_idem: "sorted_wrt (\<lambda>a b. cmp a b \<le> 0) xs \<Longrightarrow> sort_cmp cmp xs = xs"
proof (induction xs)
  case (Cons x xs)
  then show ?case by (cases xs) auto
qed simp

end

subsection \<open>Strings\<close>

lemma str_compare_flip: "0 < str_compare b a \<longleftrightarrow> str_compare a b < 0"
  by (auto simp: str_compare_def)

lemma str_compare_le: "str_compare a b \<le> 0 \<longleftrightarrow> a \<le> b"
  by (auto simp: str_compare_def)

lemma str_compare_zero [simp]: "str_compare a b = 0 \<longleftrightarrow> a = b"
  by (auto simp: str_compare_def)

interpretation string_order: go_order str_compare
  by unfold_locales (auto simp: str_compare_flip str_compare_le)

lemma sort_cmp_strings: "sort_cmp str_compare xs = sort xs"
proof -
  have "sort xs = sort_cmp str_compare xs"
    by (rule string_order.sort_cmp_unique) (auto simp: str_compare_le)
  then show ?thesis by simp
qed

text \<open>\<open>slices.Compact\<close> after \<open>slices.Sort\<close>: sorted, without repetition, same set.\<close>

definition sort_compact :: "string list \<Rightarrow> string list" where
  "sort_compact xs = remdups_adj (sort xs)"

lemma set_sort_compact [simp]: "set (sort_compact xs) = set xs"
  by (simp add: sort_compact_def)

lemma sorted_sort_compact [simp]: "sorted (sort_compact xs)"
  by (simp add: sort_compact_def sorted_remdups_adj)

lemma distinct_remdups_adj_sorted: "sorted (xs :: 'a :: linorder list) \<Longrightarrow> distinct (remdups_adj xs)"
  by (induction xs rule: remdups_adj.induct) auto

lemma distinct_sort_compact [simp]: "distinct (sort_compact xs)"
  by (simp add: sort_compact_def distinct_remdups_adj_sorted)

lemma sort_compact_cong: "set xs = set ys \<Longrightarrow> sort_compact xs = sort_compact ys"
  by (rule sorted_distinct_set_unique) auto

lemma sorted_keys_key_set: "sorted_keys (key_set ks) = sort_compact ks"
  by (rule sorted_distinct_set_unique) auto

subsection \<open>Comparing by a key\<close>

text \<open>A comparison function that has the sign of a comparison of keys in a linear order meets
  the contract.\<close>

locale go_keyed =
  fixes cmp :: "'a \<Rightarrow> 'a \<Rightarrow> int" and key :: "'a \<Rightarrow> 'k :: linorder"
  assumes cmp_less: "cmp a b < 0 \<longleftrightarrow> key a < key b"
    and cmp_greater: "0 < cmp a b \<longleftrightarrow> key b < key a"
begin

lemma cmp_le: "cmp a b \<le> 0 \<longleftrightarrow> key a \<le> key b"
  using cmp_greater [of a b] by (simp add: not_less [symmetric])

lemma cmp_zero: "cmp a b = 0 \<longleftrightarrow> key a = key b"
  using cmp_less [of a b] cmp_greater [of a b] by (metis antisym_conv3 less_irrefl not_less_iff_gr_or_eq)

end

sublocale go_keyed \<subseteq> go_order cmp
proof
  show "0 < cmp b a \<longleftrightarrow> cmp a b < 0" for a b by (simp add: cmp_less cmp_greater)
  show "cmp a b \<le> 0 \<Longrightarrow> cmp b c \<le> 0 \<Longrightarrow> cmp a c \<le> 0" for a b c by (auto simp: cmp_le)
qed

end
