(* ===== verification/Go_Regexp.thy ===== *)
theory Go_Regexp imports Go_Prelude begin

text \<open>
  The regular expressions the sources match whole strings with
  (\<open>regexp.MustCompile("^...$").MatchString\<close>): what a pattern means, as an inductive
  relation, and an executable matcher by derivatives, with the proof that they agree.
\<close>

datatype rx =
    Eps
  | Cls "char \<Rightarrow> bool"
  | Cat rx rx
  | Alt rx rx
  | Star rx

abbreviation (input) rx_none :: rx where
  "rx_none \<equiv> Cls (\<lambda>_. False)"

definition rx_opt :: "rx \<Rightarrow> rx" where
  "rx_opt r = Alt Eps r"

definition rx_plus :: "rx \<Rightarrow> rx" where
  "rx_plus r = Cat r (Star r)"

definition rx_lit :: "char \<Rightarrow> rx" where
  "rx_lit c = Cls (\<lambda>d. d = c)"

text \<open>\<open>r{0,n}\<close>\<close>

fun rx_upto :: "nat \<Rightarrow> rx \<Rightarrow> rx" where
  "rx_upto 0 r = Eps"
| "rx_upto (Suc n) r = rx_opt (Cat r (rx_upto n r))"

inductive matches :: "rx \<Rightarrow> string \<Rightarrow> bool" where
  m_eps: "matches Eps []"
| m_cls: "p c \<Longrightarrow> matches (Cls p) [c]"
| m_cat: "matches r s \<Longrightarrow> matches q t \<Longrightarrow> matches (Cat r q) (s @ t)"
| m_alt1: "matches r s \<Longrightarrow> matches (Alt r q) s"
| m_alt2: "matches q s \<Longrightarrow> matches (Alt r q) s"
| m_star0: "matches (Star r) []"
| m_star1: "matches r s \<Longrightarrow> matches (Star r) t \<Longrightarrow> matches (Star r) (s @ t)"

inductive_simps matches_Eps [simp]: "matches Eps s"
inductive_simps matches_Cls [simp]: "matches (Cls p) s"
inductive_simps matches_Cat: "matches (Cat r q) s"
inductive_simps matches_Alt [simp]: "matches (Alt r q) s"
inductive_cases matches_StarE: "matches (Star r) s"

fun nullable :: "rx \<Rightarrow> bool" where
  "nullable Eps \<longleftrightarrow> True"
| "nullable (Cls p) \<longleftrightarrow> False"
| "nullable (Cat r q) \<longleftrightarrow> nullable r \<and> nullable q"
| "nullable (Alt r q) \<longleftrightarrow> nullable r \<or> nullable q"
| "nullable (Star r) \<longleftrightarrow> True"

fun deriv :: "char \<Rightarrow> rx \<Rightarrow> rx" where
  "deriv c Eps = rx_none"
| "deriv c (Cls p) = (if p c then Eps else rx_none)"
| "deriv c (Cat r q) =
     (if nullable r then Alt (Cat (deriv c r) q) (deriv c q) else Cat (deriv c r) q)"
| "deriv c (Alt r q) = Alt (deriv c r) (deriv c q)"
| "deriv c (Star r) = Cat (deriv c r) (Star r)"

fun rx_match :: "rx \<Rightarrow> string \<Rightarrow> bool" where
  "rx_match r [] \<longleftrightarrow> nullable r"
| "rx_match r (c # s) \<longleftrightarrow> rx_match (deriv c r) s"

lemma nullable_matches: "nullable r \<longleftrightarrow> matches r []"
  by (induction r) (auto simp: matches_Cat intro: matches.intros)

lemma star_Cons:
  assumes "matches (Star r) w" and "w = c # s"
  shows "\<exists>t u. s = t @ u \<and> matches r (c # t) \<and> matches (Star r) u"
  using assms
proof (induction "Star r" w rule: matches.induct)
  case (m_star1 x y)
  then show ?case by (cases x) auto
qed simp

lemma deriv_matches: "matches (deriv c r) s \<longleftrightarrow> matches r (c # s)"
proof (induction r arbitrary: s)
  case (Cat r q)
  have "matches (Cat r q) (c # s) \<longleftrightarrow>
      (\<exists>t u. s = t @ u \<and> matches r (c # t) \<and> matches q u) \<or> matches r [] \<and> matches q (c # s)"
    unfolding matches_Cat by (auto simp: Cons_eq_append_conv)
  with Cat show ?case by (auto simp: matches_Cat nullable_matches)
next
  case (Star r)
  show ?case
  proof
    assume "matches (deriv c (Star r)) s"
    then obtain t u where "s = t @ u" "matches r (c # t)" "matches (Star r) u"
      using Star by (auto simp: matches_Cat)
    then show "matches (Star r) (c # s)"
      using matches.m_star1 [of r "c # t" u] by simp
  next
    assume "matches (Star r) (c # s)"
    then show "matches (deriv c (Star r)) s"
      using Star star_Cons [of r "c # s" c s] by (auto simp: matches_Cat)
  qed
qed auto

lemma rx_match_correct: "rx_match r s \<longleftrightarrow> matches r s"
  by (induction s arbitrary: r) (auto simp: nullable_matches deriv_matches)

subsection \<open>The shapes the patterns are built from\<close>

named_theorems rx_shape \<open>what the shapes used in the patterns match\<close>

lemma matches_opt [rx_shape]: "matches (rx_opt r) s \<longleftrightarrow> s = [] \<or> matches r s"
  by (simp add: rx_opt_def)

lemma matches_lit [rx_shape]: "matches (rx_lit c) s \<longleftrightarrow> s = [c]"
  by (auto simp: rx_lit_def)

lemma matches_cls_cat [rx_shape]:
  "matches (Cat (Cls p) r) s \<longleftrightarrow> (\<exists>c t. s = c # t \<and> p c \<and> matches r t)"
  by (auto simp: matches_Cat) (metis append_Cons append_Nil)

lemma matches_star_cls [rx_shape]: "matches (Star (Cls p)) s \<longleftrightarrow> list_all p s"
proof (induction s)
  case Nil
  then show ?case by (auto intro: matches.intros)
next
  case (Cons c s)
  have "matches (Star (Cls p)) (c # s) \<longleftrightarrow> p c \<and> matches (Star (Cls p)) s"
    using star_Cons [of "Cls p" "c # s" c s] matches.m_star1 [of "Cls p" "[c]" s] by auto
  with Cons show ?case by simp
qed

lemma matches_plus_cls [rx_shape]: "matches (rx_plus (Cls p)) s \<longleftrightarrow> s \<noteq> [] \<and> list_all p s"
  by (cases s) (auto simp: rx_plus_def matches_cls_cat matches_star_cls)

lemma matches_upto_cls [rx_shape]: "matches (rx_upto n (Cls p)) s \<longleftrightarrow> length s \<le> n \<and> list_all p s"
proof (induction n arbitrary: s)
  case (Suc n)
  then show ?case by (cases s) (auto simp: matches_opt matches_cls_cat)
qed auto

lemma matches_cat_cls [rx_shape]:
  "matches (Cat r (Cls p)) s \<longleftrightarrow> (\<exists>c t. s = t @ [c] \<and> p c \<and> matches r t)"
  by (auto simp: matches_Cat)

text \<open>One word, then any number of a separator and a word: the split at the separator.\<close>

lemma split_on_free: "sep \<notin> set w \<Longrightarrow> split_on sep w = [w]"
  by (induction w) auto

lemma star_sep_split:
  assumes "matches (Star (Cat (rx_lit sep) r)) t" and free: "\<And>w. matches r w \<Longrightarrow> sep \<notin> set w"
  shows "t = [] \<or> (\<exists>u. t = sep # u \<and> (\<forall>w\<in>set (split_on sep u). matches r w))"
  using assms(1)
proof (induction "Star (Cat (rx_lit sep) r)" t rule: matches.induct)
  case (m_star1 s t)
  then obtain v where v: "s = sep # v" "matches r v" by (auto simp: matches_Cat matches_lit)
  show ?case
  proof (cases "t = []")
    case True
    then show ?thesis using v free by (simp add: split_on_free)
  next
    case False
    with m_star1 obtain u where "t = sep # u" "\<forall>w\<in>set (split_on sep u). matches r w" by auto
    then show ?thesis using v free by (simp add: split_on_append_sep)
  qed
qed simp

lemma split_star_sep:
  "\<forall>w\<in>set (split_on sep u). matches r w \<Longrightarrow> matches (Star (Cat (rx_lit sep) r)) (sep # u)"
proof (induction "split_on sep u" arbitrary: u)
  case Nil
  then show ?case using split_on_not_Nil by metis
next
  case (Cons w ws)
  have step: "matches (Star (Cat (rx_lit sep) r)) (([sep] @ w) @ t)" if "matches (Star (Cat (rx_lit sep) r)) t" for t
    using that Cons.hyps(2) Cons.prems
    by (intro m_star1 m_cat) (auto simp: matches_lit dest: sym)
  show ?case
  proof (cases ws)
    case Nil
    with Cons.hyps(2) have "u = w" by (metis concat_split_on str_join.simps(2))
    with step [OF m_star0] show ?thesis by simp
  next
    case (Cons v vs)
    have "u = w @ [sep] @ str_join [sep] ws"
      using Cons Cons.hyps(2) by (metis concat_split_on str_join.simps(3))
    moreover from this have "split_on sep (str_join [sep] ws) = ws"
      using Cons.hyps(2) split_on_append_sep split_on_sep_free
      by (metis append_Cons append_Nil list.inject list.set_intros(1))
    ultimately show ?thesis
      using Cons.hyps(1) [of "str_join [sep] ws"] Cons.hyps(2) Cons.prems step [of "sep # str_join [sep] ws"]
      by (metis append_Cons append_Nil append.assoc list.set_intros(2))
  qed
qed

lemma matches_sep_list:
  assumes "\<And>w. matches r w \<Longrightarrow> sep \<notin> set w"
  shows "matches (Cat r (Star (Cat (rx_lit sep) r))) s \<longleftrightarrow> (\<forall>w\<in>set (split_on sep s). matches r w)"
proof
  assume "matches (Cat r (Star (Cat (rx_lit sep) r))) s"
  then obtain v t where "s = v @ t" and v: "matches r v" and t: "matches (Star (Cat (rx_lit sep) r)) t"
    by (auto simp: matches_Cat)
  with star_sep_split [OF t assms] assms [OF v] show "\<forall>w\<in>set (split_on sep s). matches r w"
    by (auto simp: split_on_free split_on_append_sep)
next
  assume all: "\<forall>w\<in>set (split_on sep s). matches r w"
  show "matches (Cat r (Star (Cat (rx_lit sep) r))) s"
  proof (cases "sep \<in> set s")
    case False
    with all have "matches r s" by (simp add: split_on_free)
    from m_cat [OF this m_star0] show ?thesis by simp
  next
    case True
    then obtain v u where s: "s = v @ sep # u" "sep \<notin> set v" by (metis split_list_first)
    with all have "matches r v" "\<forall>w\<in>set (split_on sep u). matches r w" by (simp_all add: split_on_append_sep)
    from m_cat [OF this(1) split_star_sep [OF this(2)]] show ?thesis by (simp add: s)
  qed
qed

text \<open>A word matches only with characters of the pattern's classes.\<close>

fun rx_within :: "(char \<Rightarrow> bool) \<Rightarrow> rx \<Rightarrow> bool" where
  "rx_within p Eps \<longleftrightarrow> True"
| "rx_within p (Cls q) \<longleftrightarrow> (\<forall>c. q c \<longrightarrow> p c)"
| "rx_within p (Cat r q) \<longleftrightarrow> rx_within p r \<and> rx_within p q"
| "rx_within p (Alt r q) \<longleftrightarrow> rx_within p r \<and> rx_within p q"
| "rx_within p (Star r) \<longleftrightarrow> rx_within p r"

lemma rx_within_chars: "matches r s \<Longrightarrow> rx_within p r \<Longrightarrow> list_all p s"
  by (induction rule: matches.induct) auto

end
