(* ===== verification/Go_NetIP.thy ===== *)
theory Go_NetIP imports Go_Prelude "HOL-Library.Word" begin

text \<open>
  The part of Go's standard library package \<open>net/netip\<close> the validations call:
  \<open>ParseAddr\<close>, \<open>ParsePrefix\<close>, \<open>Prefix.Masked\<close> and the predicates on an address, with
  \<open>net.ParseIP\<close> on top. The parsers follow the library's loops: the IPv4 one octet by
  octet (no leading zero, at most 255), the IPv6 one group by group, with at most one
  ellipsis and an IPv4 tail.
\<close>

unbundle bit_operations_syntax

datatype ip_addr = IP4 "32 word" | IP6 "128 word" string

record ip_prefix =
  pfx_addr :: ip_addr
  pfx_bits :: nat

definition digit_val :: "char \<Rightarrow> int" where
  "digit_val c = of_char c - 48"

definition hex_val :: "char \<Rightarrow> int" where
  "hex_val c =
     (if is_digit c then of_char c - 48
      else if in_range CHR ''a'' CHR ''f'' c then of_char c - 87
      else of_char c - 55)"

definition is_hex :: "char \<Rightarrow> bool" where
  "is_hex c \<longleftrightarrow> is_digit c \<or> in_range CHR ''a'' CHR ''f'' c \<or> in_range CHR ''A'' CHR ''F'' c"

text \<open>\<open>parseIPv4Fields\<close>: the octet being read, its number of digits, the octets read.\<close>

fun ipv4_loop :: "string \<Rightarrow> char option \<Rightarrow> int \<Rightarrow> nat \<Rightarrow> int list \<Rightarrow> int list option" where
  "ipv4_loop [] prev v d fs = (if length fs < 3 then None else Some (fs @ [v]))"
| "ipv4_loop (c # s) prev v d fs =
     (if is_digit c then
        if d = 1 \<and> v = 0 then None
        else if 255 < v * 10 + digit_val c then None
        else ipv4_loop s (Some c) (v * 10 + digit_val c) (Suc d) fs
      else if c = CHR ''.'' then
        if prev = None \<or> s = [] \<or> prev = Some CHR ''.'' then None
        else if length fs = 3 then None
        else ipv4_loop s (Some c) 0 0 (fs @ [v])
      else None)"

definition ipv4_fields :: "string \<Rightarrow> int list option" where
  "ipv4_fields s = ipv4_loop s None 0 0 []"

definition bytes_value :: "int list \<Rightarrow> int" where
  "bytes_value bs = foldl (\<lambda>acc b. acc * 256 + b) 0 bs"

definition parse_ipv4 :: "string \<Rightarrow> ip_addr option" where
  "parse_ipv4 s = map_option (\<lambda>bs. IP4 (word_of_int (bytes_value bs))) (ipv4_fields s)"

text \<open>The loop of \<open>parseIPv6\<close>; the first argument is how many groups still fit.\<close>

fun ipv6_loop :: "nat \<Rightarrow> string \<Rightarrow> int list \<Rightarrow> nat option \<Rightarrow> (int list \<times> nat option \<times> string) option" where
  "ipv6_loop 0 s bs el = Some (bs, el, s)"
| "ipv6_loop (Suc k) s bs el =
     (let hex = takeWhile is_hex s; rest = dropWhile is_hex s;
          acc = foldl (\<lambda>a c. a * 16 + hex_val c) 0 hex;
          bs' = bs @ [acc div 256, acc mod 256] in
      if 4 < length hex \<or> hex = [] then None
      else (case rest of
          [] \<Rightarrow> Some (bs', el, [])
        | c # r1 \<Rightarrow>
            if c = CHR ''.'' then
              if (el = None \<and> length bs \<noteq> 12) \<or> 16 < length bs + 4 then None
              else map_option (\<lambda>fs. (bs @ fs, el, [])) (ipv4_fields s)
            else if c \<noteq> CHR '':'' then None
            else (case r1 of
                [] \<Rightarrow> None
              | c2 # r2 \<Rightarrow>
                  if c2 \<noteq> CHR '':'' then ipv6_loop k r1 bs' el
                  else if el \<noteq> None then None
                  else if r2 = [] then Some (bs', Some (length bs'), [])
                  else ipv6_loop k r2 bs' (Some (length bs')))))"

definition ipv6_expand :: "int list \<times> nat option \<times> string \<Rightarrow> int list option" where
  "ipv6_expand r = (case r of (bs, el, s) \<Rightarrow>
     if s \<noteq> [] then None
     else if length bs < 16 then
       (case el of None \<Rightarrow> None
         | Some e \<Rightarrow> Some (take e bs @ replicate (16 - length bs) 0 @ drop e bs))
     else if el \<noteq> None then None else Some bs)"

definition parse_ipv6 :: "string \<Rightarrow> ip_addr option" where
  "parse_ipv6 input =
     (let s = takeWhile (\<lambda>c. c \<noteq> CHR ''%'') input; tail = dropWhile (\<lambda>c. c \<noteq> CHR ''%'') input;
          zone = drop 1 tail in
      if tail \<noteq> [] \<and> zone = [] then None
      else if has_prefix s ''::'' then
        if drop 2 s = [] then Some (IP6 0 zone)
        else map_option (\<lambda>bs. IP6 (word_of_int (bytes_value bs)) zone)
          (Option.bind (ipv6_loop 8 (drop 2 s) [] (Some 0)) ipv6_expand)
      else map_option (\<lambda>bs. IP6 (word_of_int (bytes_value bs)) zone)
        (Option.bind (ipv6_loop 8 s [] None) ipv6_expand))"

definition ParseAddr :: "string \<Rightarrow> ip_addr option" where
  "ParseAddr s = (case dropWhile (\<lambda>c. c \<noteq> CHR ''.'' \<and> c \<noteq> CHR '':'' \<and> c \<noteq> CHR ''%'') s of
      [] \<Rightarrow> None
    | c # _ \<Rightarrow> if c = CHR ''.'' then parse_ipv4 s else if c = CHR '':'' then parse_ipv6 s else None)"

fun Is4 :: "ip_addr \<Rightarrow> bool" where
  "Is4 (IP4 w) \<longleftrightarrow> True"
| "Is4 (IP6 w z) \<longleftrightarrow> False"

fun Is6 :: "ip_addr \<Rightarrow> bool" where
  "Is6 (IP4 w) \<longleftrightarrow> False"
| "Is6 (IP6 w z) \<longleftrightarrow> True"

fun Is4In6 :: "ip_addr \<Rightarrow> bool" where
  "Is4In6 (IP4 w) \<longleftrightarrow> False"
| "Is4In6 (IP6 w z) \<longleftrightarrow> drop_bit 32 w = 65535"

fun addr_zone :: "ip_addr \<Rightarrow> string" where
  "addr_zone (IP4 w) = []"
| "addr_zone (IP6 w z) = z"

definition ParseIP :: "string \<Rightarrow> ip_addr option" where
  "ParseIP s = (case ParseAddr s of None \<Rightarrow> None | Some a \<Rightarrow> if addr_zone a \<noteq> [] then None else Some a)"

text \<open>\<open>strconv.Atoi\<close> on the bits, after the check that refuses a sign and a leading zero.\<close>

definition prefix_bits :: "string \<Rightarrow> int option" where
  "prefix_bits s =
     (if 1 < length s \<and> \<not> in_range CHR ''1'' CHR ''9'' (hd s) then None
      else if s = [] \<or> \<not> list_all is_digit s then None
      else Some (foldl (\<lambda>a c. a * 10 + digit_val c) 0 s))"

definition max_bits :: "ip_addr \<Rightarrow> int" where
  "max_bits a = (if Is6 a then 128 else 32)"

definition ParsePrefix :: "string \<Rightarrow> ip_prefix option" where
  "ParsePrefix s =
     (let bits = rev (takeWhile (\<lambda>c. c \<noteq> CHR ''/'') (rev s));
          host = rev (drop 1 (dropWhile (\<lambda>c. c \<noteq> CHR ''/'') (rev s))) in
      if CHR ''/'' \<notin> set s then None
      else (case ParseAddr host of
          None \<Rightarrow> None
        | Some a \<Rightarrow>
            if addr_zone a \<noteq> [] then None
            else (case prefix_bits bits of
                None \<Rightarrow> None
              | Some b \<Rightarrow>
                  if max_bits a < b then None else Some \<lparr>pfx_addr = a, pfx_bits = nat b\<rparr>)))"

fun mask_addr :: "nat \<Rightarrow> ip_addr \<Rightarrow> ip_addr" where
  "mask_addr b (IP4 w) = IP4 (push_bit (32 - b) (drop_bit (32 - b) w))"
| "mask_addr b (IP6 w z) = IP6 (push_bit (128 - b) (drop_bit (128 - b) w)) z"

definition Masked :: "ip_prefix \<Rightarrow> ip_prefix" where
  "Masked p = p\<lparr>pfx_addr := mask_addr (pfx_bits p) (pfx_addr p)\<rparr>"

text \<open>\<open>Prefix.Contains\<close>: the address and the prefix agree on the leading bits.\<close>

fun prefix_contains :: "ip_prefix \<Rightarrow> ip_addr \<Rightarrow> bool" where
  "prefix_contains p a = (case (pfx_addr p, a) of
      (IP4 v, IP4 w) \<Rightarrow> drop_bit (32 - pfx_bits p) v = drop_bit (32 - pfx_bits p) w
    | (IP6 v y, IP6 w z) \<Rightarrow> z = [] \<and> drop_bit (128 - pfx_bits p) v = drop_bit (128 - pfx_bits p) w
    | _ \<Rightarrow> False)"

lemma ParsePrefix_bits: "ParsePrefix s = Some p \<Longrightarrow> int (pfx_bits p) \<le> max_bits (pfx_addr p)"
  by (auto simp: ParsePrefix_def Let_def max_bits_def split: if_splits option.splits)

lemma ParsePrefix_zone: "ParsePrefix s = Some p \<Longrightarrow> addr_zone (pfx_addr p) = []"
  by (auto simp: ParsePrefix_def Let_def split: if_splits option.splits)

end
