(* ===== verification/Catalog_Model.thy ===== *)
theory Catalog_Model imports Go_Sort Go_Regexp Go_NetIP begin

text \<open>
  The catalog's data (\<open>catalog/catalog.go\<close>, \<open>catalog/projects.go\<close>) and the names it derives:
  the types of a catalog file, the values of \<open>arrival\<close> and \<open>waf\<close>, a domain's listener and
  Secret names with their default (\<open>DomainSlug\<close>), and the checks on one hostname
  (\<open>catalog/hostnames.go\<close>, \<open>validateDomain\<close>, \<open>dnsLabel\<close>).

  A Go map is a \<open>gomap\<close>, a pointer an \<open>option\<close>. \<open>ArrivalCloudflareTunnel\<close> and the other
  constants are strings, as in the code, so that an unknown arrival stays representable.
\<close>

section \<open>Constants\<close>

definition ArrivalCloudflareTunnel :: string where
  "ArrivalCloudflareTunnel = ''cloudflare-tunnel''"

definition ArrivalPrivateClusterIP :: string where
  "ArrivalPrivateClusterIP = ''private-clusterip''"

definition ArrivalNLB :: string where
  "ArrivalNLB = ''nlb''"

definition CatalogVersion :: int where
  "CatalogVersion = 1"

definition WAFOff :: string where
  "WAFOff = ''off''"

definition wildcardPrefix :: string where
  "wildcardPrefix = ''*.''"

lemmas arrival_defs = ArrivalCloudflareTunnel_def ArrivalPrivateClusterIP_def ArrivalNLB_def

section \<open>Types\<close>

datatype listener_set_mode = ListenerSetOff | ListenerSetServe

record domain =
  dom_host :: string
  dom_listener_name :: string
  dom_secret_name :: string
  dom_dns_elsewhere :: bool
  dom_waf :: string
  dom_waf_reason :: string

record catgroup =
  grp_description :: string
  grp_domains :: "domain list"
  grp_route_namespaces :: "string list"
  grp_cross_cluster :: bool
  grp_record_elsewhere :: bool
  grp_backend_tls :: bool
  grp_listener_set :: listener_set_mode

record named_group =
  ng_name :: string
  ng_group :: catgroup

record catcluster =
  cl_class :: string
  cl_groups :: "catgroup gomap"

record domain_names =
  dn_listener_name :: string
  dn_secret_name :: string
  dn_waf :: string
  dn_waf_reason :: string

record project_override =
  po_group :: string
  po_description :: string
  po_names :: "domain_names gomap"

record project_groups =
  pg_overrides :: "project_override gomap gomap"

record exposure =
  ex_description :: string
  ex_class :: string
  ex_arrival :: string
  ex_cloudflare_accounts :: "string list"
  ex_project_groups :: "project_groups option"
  ex_clusters :: "catcluster gomap"

record catalog =
  cat_version :: int
  cat_exposures :: "exposure gomap"

record endpoint =
  ep_environment :: string
  ep_hostname :: string
  ep_waf_off :: string

record project =
  prj_name :: string
  prj_endpoints :: "endpoint list"
  prj_parent_refs_since :: string

text \<open>The zero values a missing map entry reads as.\<close>

definition zero_domain :: domain where
  "zero_domain = \<lparr>dom_host = [], dom_listener_name = [], dom_secret_name = [],
     dom_dns_elsewhere = False, dom_waf = [], dom_waf_reason = []\<rparr>"

definition zero_cluster :: catcluster where
  "zero_cluster = \<lparr>cl_class = [], cl_groups = []\<rparr>"

definition zero_override :: project_override where
  "zero_override = \<lparr>po_group = [], po_description = [], po_names = []\<rparr>"

text \<open>The maps of a catalog have distinct keys, as every Go map has.\<close>

definition wf_cluster :: "catcluster \<Rightarrow> bool" where
  "wf_cluster cl \<longleftrightarrow> wf_map (cl_groups cl)"

definition wf_exposure :: "exposure \<Rightarrow> bool" where
  "wf_exposure e \<longleftrightarrow> wf_map (ex_clusters e) \<and> (\<forall>(k, cl) \<in> set (ex_clusters e). wf_cluster cl)"

definition wf_catalog :: "catalog \<Rightarrow> bool" where
  "wf_catalog c \<longleftrightarrow> wf_map (cat_exposures c) \<and> (\<forall>(k, e) \<in> set (cat_exposures c). wf_exposure e)"

section \<open>Names derived from a hostname\<close>

definition DomainSlug :: "string \<Rightarrow> string" where
  "DomainSlug domain =
     (let slug = replace_char CHR ''.'' ''-'' (trim_prefix domain ''*.'') in
      if has_prefix domain ''*.'' then ''wildcard-'' @ slug else slug)"

definition ListenerNameOrDefault :: "domain \<Rightarrow> string" where
  "ListenerNameOrDefault d =
     (if dom_listener_name d \<noteq> [] then dom_listener_name d else DomainSlug (dom_host d))"

definition SecretNameOrDefault :: "domain \<Rightarrow> string" where
  "SecretNameOrDefault d =
     (if dom_secret_name d \<noteq> [] then dom_secret_name d else DomainSlug (dom_host d) @ ''-tls'')"

definition WAFCovered :: "domain \<Rightarrow> bool" where
  "WAFCovered d \<longleftrightarrow> dom_waf d \<noteq> WAFOff"

definition Hosts :: "catgroup \<Rightarrow> string list" where
  "Hosts g = map dom_host (grp_domains g)"

definition HealthHostname :: "string \<Rightarrow> string \<Rightarrow> string" where
  "HealthHostname exposure originZone = ''gateway-health-'' @ exposure @ ''.'' @ originZone"

definition HealthSecretName :: "string \<Rightarrow> string" where
  "HealthSecretName exposure = ''gateway-health-'' @ exposure @ ''-tls''"

definition ListenerSetMode_String :: "listener_set_mode \<Rightarrow> string" where
  "ListenerSetMode_String m = (if m = ListenerSetServe then ''true'' else ''false'')"

section \<open>DNS labels and names\<close>

text \<open>\<open>dnsLabel\<close>: \<open>^[a-z0-9]([-a-z0-9]{0,61}[a-z0-9])?$\<close>\<close>

definition lower_alnum :: "char \<Rightarrow> bool" where
  "lower_alnum c \<longleftrightarrow> is_lower_letter c \<or> is_digit c"

definition lower_alnum_dash :: "char \<Rightarrow> bool" where
  "lower_alnum_dash c \<longleftrightarrow> c = CHR ''-'' \<or> lower_alnum c"

definition dnsLabel :: rx where
  "dnsLabel = Cat (Cls lower_alnum)
     (rx_opt (Cat (rx_upto 61 (Cls lower_alnum_dash)) (Cls lower_alnum)))"

definition IsDNSLabel :: "string \<Rightarrow> bool" where
  "IsDNSLabel label \<longleftrightarrow>
     \<not> (label = [] \<or> 63 < length label \<or> hd label = CHR ''-'' \<or> last label = CHR ''-'') \<and>
     list_all (\<lambda>c. \<not> (\<not> is_lower_letter c \<and> \<not> is_digit c \<and> c \<noteq> CHR ''-'')) label"

definition IsDNSName :: "string \<Rightarrow> bool" where
  "IsDNSName name \<longleftrightarrow>
     \<not> (name = [] \<or> 253 < length name \<or> name \<noteq> to_lower name \<or> ParseIP name \<noteq> None \<or>
        has_suffix name ''.'') \<and>
     \<not> length (split_on CHR ''.'' name) < 2 \<and>
     list_all IsDNSLabel (split_on CHR ''.'' name)"

definition IsDNSClaim :: "string \<Rightarrow> bool" where
  "IsDNSClaim name \<longleftrightarrow> \<not> str_contains name ''*'' \<and> IsDNSName name"

definition IsNameUnderDomain :: "string \<Rightarrow> string \<Rightarrow> bool" where
  "IsNameUnderDomain name domain \<longleftrightarrow>
     to_lower name \<noteq> to_lower domain \<and> has_suffix (to_lower name) (''.'' @ to_lower domain)"

subsection \<open>What the label checks accept\<close>

lemma IsDNSLabel_iff:
  "IsDNSLabel s \<longleftrightarrow> s \<noteq> [] \<and> length s \<le> 63 \<and> hd s \<noteq> CHR ''-'' \<and> last s \<noteq> CHR ''-'' \<and>
     list_all lower_alnum_dash s"
proof -
  have eq: "(\<lambda>c. \<not> (\<not> is_lower_letter c \<and> \<not> is_digit c \<and> c \<noteq> CHR ''-'')) = lower_alnum_dash"
    by (rule ext) (simp only: lower_alnum_dash_def lower_alnum_def, blast)
  show ?thesis unfolding IsDNSLabel_def eq by (simp only: not_less de_Morgan_disj conj_assoc)
qed

lemma lower_alnum_dash_iff: "lower_alnum c \<longleftrightarrow> lower_alnum_dash c \<and> c \<noteq> CHR ''-''"
proof -
  have "\<not> lower_alnum CHR ''-''"
    by (simp add: lower_alnum_def is_lower_letter_def is_digit_def in_range_def char_code_def)
  then show ?thesis by (auto simp: lower_alnum_dash_def)
qed

lemma matches_dnsLabel:
  "matches dnsLabel s \<longleftrightarrow>
     (\<exists>c. s = [c] \<and> lower_alnum c) \<or>
     (\<exists>c m d. s = c # m @ [d] \<and> lower_alnum c \<and> length m \<le> 61 \<and> list_all lower_alnum_dash m \<and> lower_alnum d)"
  unfolding dnsLabel_def matches_cls_cat matches_opt matches_cat_cls matches_upto_cls by auto

text \<open>The pattern and the hand-written loop are the same check.\<close>

lemma dnsLabel_IsDNSLabel: "rx_match dnsLabel s \<longleftrightarrow> IsDNSLabel s"
proof -
  have "matches dnsLabel s \<longleftrightarrow> IsDNSLabel s"
  proof (cases s)
    case Nil
    then show ?thesis by (simp add: matches_dnsLabel IsDNSLabel_iff)
  next
    case (Cons c t)
    show ?thesis
    proof (cases t rule: rev_cases)
      case Nil
      with Cons show ?thesis
        by (auto simp: matches_dnsLabel IsDNSLabel_iff lower_alnum_dash_iff)
    next
      case (snoc m d)
      with Cons show ?thesis
        by (auto simp: matches_dnsLabel IsDNSLabel_iff lower_alnum_dash_iff)
    qed
  qed
  then show ?thesis by (simp add: rx_match_correct)
qed

lemma IsDNSLabel_no_dot: "IsDNSLabel s \<Longrightarrow> CHR ''.'' \<notin> set s"
proof -
  have "\<not> lower_alnum_dash CHR ''.''"
    by (simp add: lower_alnum_dash_def lower_alnum_def is_lower_letter_def is_digit_def
        in_range_def char_code_def)
  then show "IsDNSLabel s \<Longrightarrow> CHR ''.'' \<notin> set s" by (auto simp: IsDNSLabel_iff list_all_iff)
qed

subsection \<open>The slug\<close>

lemma replace_char_no_old: "old \<notin> set new \<Longrightarrow> old \<notin> set (replace_char old new s)"
  by (auto simp: replace_char_def)

lemma replace_char_inject:
  assumes "x \<notin> set s" and "x \<notin> set t" and "replace_char old [x] s = replace_char old [x] t"
  shows "s = t"
  using assms
proof (induction s arbitrary: t)
  case Nil
  then show ?case by (cases t) (auto simp: replace_char_def split: if_splits)
next
  case (Cons c s)
  then show ?case by (cases t) (auto simp: replace_char_def split: if_splits)
qed

lemma ListenerNameOrDefault_override [simp]:
  "dom_listener_name d \<noteq> [] \<Longrightarrow> ListenerNameOrDefault d = dom_listener_name d"
  by (simp add: ListenerNameOrDefault_def)

lemma SecretNameOrDefault_override [simp]:
  "dom_secret_name d \<noteq> [] \<Longrightarrow> SecretNameOrDefault d = dom_secret_name d"
  by (simp add: SecretNameOrDefault_def)

lemma DomainSlug_no_dot: "CHR ''.'' \<notin> set (DomainSlug h)"
  by (auto simp: DomainSlug_def Let_def replace_char_def)

section \<open>A catalog for the examples\<close>

text \<open>A public exposure behind a tunnel with a wildcard group and a group of two names, one of
  them left out of the WAF, and a private exposure, both on the cluster \<open>prod\<close>.\<close>

definition sample_wild :: catgroup where
  "sample_wild = \<lparr>grp_description = [], grp_domains = [zero_domain\<lparr>dom_host := ''*.example.com''\<rparr>],
     grp_route_namespaces = [''shop''], grp_cross_cluster = False, grp_record_elsewhere = False,
     grp_backend_tls = False, grp_listener_set = ListenerSetServe\<rparr>"

definition sample_ops :: catgroup where
  "sample_ops = \<lparr>grp_description = ''operators'',
     grp_domains = [zero_domain\<lparr>dom_host := ''grafana.example.com'', dom_listener_name := ''graphs''\<rparr>,
       zero_domain\<lparr>dom_host := ''hooks.example.com'', dom_waf := ''off'', dom_waf_reason := ''signed payloads''\<rparr>],
     grp_route_namespaces = [''monitoring''], grp_cross_cluster = False, grp_record_elsewhere = False,
     grp_backend_tls = False, grp_listener_set = ListenerSetServe\<rparr>"

definition sample_admin :: catgroup where
  "sample_admin = \<lparr>grp_description = [], grp_domains = [zero_domain\<lparr>dom_host := ''admin.internal.example''\<rparr>],
     grp_route_namespaces = [''shop''], grp_cross_cluster = True, grp_record_elsewhere = False,
     grp_backend_tls = False, grp_listener_set = ListenerSetServe\<rparr>"

definition sample_override :: project_override where
  "sample_override = \<lparr>po_group = ''shop-web'', po_description = [],
     po_names = [(''shop.example.org'', \<lparr>dn_listener_name = ''shop'', dn_secret_name = [], dn_waf = [], dn_waf_reason = []\<rparr>)]\<rparr>"

definition sample_public :: exposure where
  "sample_public = \<lparr>ex_description = [], ex_class = ''edge'', ex_arrival = ''cloudflare-tunnel'',
     ex_cloudflare_accounts = [''main''],
     ex_project_groups = Some \<lparr>pg_overrides = [(''prod'', [(''shop'', sample_override)])]\<rparr>,
     ex_clusters = [(''prod'', \<lparr>cl_class = ''edge-prod'', cl_groups = [(''wild'', sample_wild), (''ops'', sample_ops)]\<rparr>)]\<rparr>"

definition sample_private :: exposure where
  "sample_private = \<lparr>ex_description = [], ex_class = ''inner'', ex_arrival = ''private-clusterip'',
     ex_cloudflare_accounts = [], ex_project_groups = None,
     ex_clusters = [(''prod'', \<lparr>cl_class = [], cl_groups = [(''admin'', sample_admin)]\<rparr>)]\<rparr>"

definition sample_catalog :: catalog where
  "sample_catalog = \<lparr>cat_version = 1, cat_exposures = [(''public'', sample_public), (''private'', sample_private)]\<rparr>"

definition sample_shop :: project where
  "sample_shop = \<lparr>prj_name = ''shop'',
     prj_endpoints = [\<lparr>ep_environment = ''prod'', ep_hostname = ''shop.example.org'', ep_waf_off = []\<rparr>,
       \<lparr>ep_environment = ''staging'', ep_hostname = ''shop.staging.example.org'', ep_waf_off = []\<rparr>],
     prj_parent_refs_since = ''1.4.0''\<rparr>"

lemma wf_sample_catalog [simp]: "wf_catalog sample_catalog"
  by (simp add: wf_catalog_def wf_exposure_def wf_cluster_def wf_map_def sample_catalog_def
      sample_public_def sample_private_def)

end
