(* ===== verification/Catalog_Validate.thy ===== *)
theory Catalog_Validate imports Catalog_Model begin

text \<open>
  \<open>Config.Validate\<close> of \<open>catalog/catalog.go\<close> with everything it calls, check by check in the
  code's order, every early return an error of its own, and \<open>ValidateClusters\<close>. What an
  accepted catalog promises follows the definitions: every check is restated as the
  condition it accepts, and the catalog as a whole answers each name on a cluster from one
  group only.
\<close>

type_synonym grp_path = "string \<times> string \<times> string"

datatype host_error =
    EHostEmpty
  | EHostURL
  | EHostPath
  | EHostPort
  | EHostCase
  | EHostWildcard
  | EHostSingleLabel

datatype waf_error =
    EWAFValue string
  | EWAFReasonRequired
  | EWAFReasonUnused
  | EWAFArrival string

datatype group_error =
    EDomainsEmpty
  | ERouteNamespacesEmpty
  | EHost string host_error
  | ENamesNotServed string
  | ENameNotLabel string string string
  | EDomainTwice string
  | EListenerTwice string
  | ESecretTwice string
  | ENamespaceTwice string
  | ECrossCluster
  | ERecordElsewhere
  | EDNSElsewhere string string
  | EWAF string waf_error

datatype exposure_error =
    EArrivalRequired
  | EArrivalUnknown string
  | EAccountsArrival string
  | EAccountTwice string
  | EClassRequired
  | ENoCluster
  | EOverrideCluster string
  | EOverrideNothing string string
  | EOverrideGroup string string string
  | EClassSame string string
  | ENoGroups string

datatype cat_error =
    EVersion int
  | ENoExposures
  | EExposure string exposure_error
  | EGroup grp_path group_error
  | EDomainClaimed string string "string \<times> string" "string \<times> string"
  | EUnknownCluster string string
  | EEndpointHostname string string
  | EGroupTaken string string string string
  | ELeftoverOverride string string string

section \<open>One group\<close>

definition validateDomain :: "grp_path \<Rightarrow> string \<Rightarrow> cat_error option" where
  "validateDomain at domain = first_of [
     fail_if (domain = []) (EGroup at (EHost domain EHostEmpty)),
     fail_if (str_contains domain ''://'') (EGroup at (EHost domain EHostURL)),
     fail_if (str_contains domain ''/'') (EGroup at (EHost domain EHostPath)),
     fail_if (str_contains domain '':'') (EGroup at (EHost domain EHostPort)),
     fail_if (domain \<noteq> to_lower domain) (EGroup at (EHost domain EHostCase)),
     fail_if (str_contains (trim_prefix domain ''*.'') ''*'') (EGroup at (EHost domain EHostWildcard)),
     fail_if (\<not> str_contains domain ''.'') (EGroup at (EHost domain EHostSingleLabel))]"

definition validateDomainNames :: "catgroup \<Rightarrow> grp_path \<Rightarrow> domain \<Rightarrow> cat_error option" where
  "validateDomainNames g at d =
     (if dom_listener_name d = [] \<and> dom_secret_name d = [] then None
      else if grp_listener_set g = ListenerSetOff then Some (EGroup at (ENamesNotServed (dom_host d)))
      else first_err
        (\<lambda>(key, value). fail_if (value \<noteq> [] \<and> \<not> rx_match dnsLabel value)
           (EGroup at (ENameNotLabel (dom_host d) key value)))
        [(''listener_name'', dom_listener_name d), (''secret_name'', dom_secret_name d)])"

definition validate_group :: "grp_path \<Rightarrow> catgroup \<Rightarrow> cat_error option" where
  "validate_group at g = first_of [
     fail_if (grp_domains g = []) (EGroup at EDomainsEmpty),
     fail_if (grp_route_namespaces g = []) (EGroup at ERouteNamespacesEmpty),
     first_err (\<lambda>d. first_of [validateDomain at (dom_host d), validateDomainNames g at d]) (grp_domains g),
     (let dup = first_duplicate (Hosts g) in fail_if (dup \<noteq> []) (EGroup at (EDomainTwice dup))),
     (let dup = first_duplicate (map ListenerNameOrDefault (grp_domains g)) in
        fail_if (dup \<noteq> []) (EGroup at (EListenerTwice dup))),
     (let dup = first_duplicate (map SecretNameOrDefault (grp_domains g)) in
        fail_if (dup \<noteq> []) (EGroup at (ESecretTwice dup))),
     (let dup = first_duplicate (grp_route_namespaces g) in
        fail_if (dup \<noteq> []) (EGroup at (ENamespaceTwice dup)))]"

definition validateWAF :: "grp_path \<Rightarrow> string \<Rightarrow> domain \<Rightarrow> cat_error option" where
  "validateWAF at arrival d = first_of [
     fail_if (dom_waf d \<noteq> [] \<and> dom_waf d \<noteq> WAFOff) (EGroup at (EWAF (dom_host d) (EWAFValue (dom_waf d)))),
     fail_if (dom_waf d = WAFOff \<and> trim_space (dom_waf_reason d) = []) (EGroup at (EWAF (dom_host d) EWAFReasonRequired)),
     fail_if (dom_waf d = [] \<and> dom_waf_reason d \<noteq> []) (EGroup at (EWAF (dom_host d) EWAFReasonUnused)),
     fail_if (dom_waf d \<noteq> [] \<and> arrival \<noteq> ArrivalCloudflareTunnel) (EGroup at (EWAF (dom_host d) (EWAFArrival arrival)))]"

section \<open>One exposure\<close>

text \<open>\<open>ProjectGroups.validate\<close>: the two loops range over maps, in their iteration order.\<close>

definition validate_project_groups :: "string \<Rightarrow> exposure \<Rightarrow> project_groups option \<Rightarrow> cat_error option" where
  "validate_project_groups name e pg = (case pg of None \<Rightarrow> None | Some p \<Rightarrow>
     first_err (\<lambda>(cluster, projects). first_of [
        fail_if (\<not> has_key (ex_clusters e) cluster) (EExposure name (EOverrideCluster cluster)),
        first_err (\<lambda>(project, override). first_of [
           fail_if (po_group override = [] \<and> po_description override = [] \<and> po_names override = [])
             (EExposure name (EOverrideNothing cluster project)),
           fail_if (po_group override \<noteq> [] \<and> \<not> rx_match dnsLabel (po_group override))
             (EExposure name (EOverrideGroup cluster project (po_group override)))]) projects])
       (pg_overrides p))"

definition validate_group_on :: "exposure \<Rightarrow> grp_path \<Rightarrow> catgroup \<Rightarrow> cat_error option" where
  "validate_group_on e at g = first_of [
     validate_group at g,
     fail_if (ex_arrival e = ArrivalCloudflareTunnel \<and> grp_cross_cluster g) (EGroup at ECrossCluster),
     fail_if (ex_arrival e = ArrivalCloudflareTunnel \<and> grp_record_elsewhere g) (EGroup at ERecordElsewhere),
     (if ex_arrival e \<noteq> ArrivalCloudflareTunnel then
        first_err (\<lambda>d. fail_if (dom_dns_elsewhere d) (EGroup at (EDNSElsewhere (dom_host d) (ex_arrival e))))
          (grp_domains g)
      else None),
     first_err (validateWAF at (ex_arrival e)) (grp_domains g)]"

definition validate_cluster :: "string \<Rightarrow> exposure \<Rightarrow> string \<times> catcluster \<Rightarrow> cat_error option" where
  "validate_cluster name e = (\<lambda>(cluster, cl). first_of [
     fail_if (cl_class cl \<noteq> [] \<and> cl_class cl = ex_class e) (EExposure name (EClassSame cluster (cl_class cl))),
     fail_if (cl_groups cl = []) (EExposure name (ENoGroups cluster)),
     first_err (\<lambda>(gname, g). validate_group_on e (name, cluster, gname) g) (sorted_entries (cl_groups cl))])"

definition validate_exposure :: "string \<times> exposure \<Rightarrow> cat_error option" where
  "validate_exposure = (\<lambda>(name, e). first_of [
     (if ex_arrival e \<in> {ArrivalCloudflareTunnel, ArrivalPrivateClusterIP, ArrivalNLB} then None
      else if ex_arrival e = [] then Some (EExposure name EArrivalRequired)
      else Some (EExposure name (EArrivalUnknown (ex_arrival e)))),
     fail_if (ex_cloudflare_accounts e \<noteq> [] \<and> ex_arrival e \<noteq> ArrivalCloudflareTunnel)
       (EExposure name (EAccountsArrival (ex_arrival e))),
     (let dup = first_duplicate (ex_cloudflare_accounts e) in
        fail_if (dup \<noteq> []) (EExposure name (EAccountTwice dup))),
     fail_if (ex_class e = []) (EExposure name EClassRequired),
     fail_if (ex_clusters e = []) (EExposure name ENoCluster),
     validate_project_groups name e (ex_project_groups e),
     first_err (validate_cluster name e) (sorted_entries (ex_clusters e))])"

section \<open>The catalog\<close>

text \<open>\<open>validateDomainsAreUnique\<close>: the names in the order the four nested loops visit them,
  and the map \<open>seen\<close> from "cluster|name" to the site that claimed it.\<close>

type_synonym claim_site = "string \<times> string \<times> string"

definition domain_claims :: "catalog \<Rightarrow> (claim_site \<times> string) list" where
  "domain_claims c = concat (map (\<lambda>(exposure, e).
     concat (map (\<lambda>(cluster, cl).
       concat (map (\<lambda>(gname, g). map (\<lambda>host. ((exposure, cluster, gname), host)) (Hosts g))
         (sorted_entries (cl_groups cl))))
       (sorted_entries (ex_clusters e))))
     (sorted_entries (cat_exposures c)))"

definition claim_key :: "string \<Rightarrow> string \<Rightarrow> string" where
  "claim_key cluster host = cluster @ ''|'' @ host"

fun claims_unique :: "(string \<times> string) gomap \<Rightarrow> (claim_site \<times> string) list \<Rightarrow> cat_error option" where
  "claims_unique seen [] = None"
| "claims_unique seen (((exposure, cluster, gname), host) # cs) =
     (case mget seen (claim_key cluster host) of
        Some prev \<Rightarrow> Some (EDomainClaimed host cluster prev (exposure, gname))
      | None \<Rightarrow> claims_unique (mput (claim_key cluster host) (exposure, gname) seen) cs)"

definition validateDomainsAreUnique :: "catalog \<Rightarrow> cat_error option" where
  "validateDomainsAreUnique c = claims_unique [] (domain_claims c)"

definition Validate :: "catalog \<Rightarrow> cat_error option" where
  "Validate c = first_of [
     fail_if (cat_version c \<noteq> CatalogVersion) (EVersion (cat_version c)),
     fail_if (cat_exposures c = []) ENoExposures,
     first_err validate_exposure (sorted_entries (cat_exposures c)),
     validateDomainsAreUnique c]"

definition ValidateClusters :: "string list \<Rightarrow> catalog \<Rightarrow> cat_error option" where
  "ValidateClusters known c = first_err (\<lambda>(exposure, e).
     first_err (\<lambda>(cluster, cl). fail_if (cluster \<notin> set known) (EUnknownCluster exposure cluster))
       (sorted_entries (ex_clusters e))) (sorted_entries (cat_exposures c))"

section \<open>What the checks accept\<close>

definition no_repeat :: "string list \<Rightarrow> bool" where
  "no_repeat vs \<longleftrightarrow> first_duplicate vs = []"

lemma no_repeat_distinct: "[] \<notin> set vs \<Longrightarrow> no_repeat vs \<longleftrightarrow> distinct vs"
  by (simp add: no_repeat_def first_duplicate_none)

definition host_ok :: "string \<Rightarrow> bool" where
  "host_ok h \<longleftrightarrow> h \<noteq> [] \<and> CHR ''/'' \<notin> set h \<and> CHR '':'' \<notin> set h \<and> to_lower h = h \<and>
     CHR ''*'' \<notin> set (trim_prefix h ''*.'') \<and> CHR ''.'' \<in> set h"

interpretation host_check: validator "validateDomain at" host_ok for at
proof
  fix h
  have "CHR '':'' \<in> set h" if "str_contains h ''://''"
    using that by (auto simp: str_contains_iff)
  then show "validateDomain at h = None \<longleftrightarrow> host_ok h"
    by (auto simp: validateDomain_def host_ok_def go_err str_contains_char)
qed

definition names_ok :: "catgroup \<Rightarrow> domain \<Rightarrow> bool" where
  "names_ok g d \<longleftrightarrow>
     (dom_listener_name d = [] \<and> dom_secret_name d = []) \<or>
     (grp_listener_set g = ListenerSetServe \<and>
      (dom_listener_name d = [] \<or> IsDNSLabel (dom_listener_name d)) \<and>
      (dom_secret_name d = [] \<or> IsDNSLabel (dom_secret_name d)))"

interpretation names_check: validator "validateDomainNames g at" "names_ok g" for g at
proof
  fix d
  show "validateDomainNames g at d = None \<longleftrightarrow> names_ok g d"
    by (cases "grp_listener_set g")
      (auto simp: validateDomainNames_def names_ok_def first_err_None dnsLabel_IsDNSLabel)
qed

definition group_ok :: "catgroup \<Rightarrow> bool" where
  "group_ok g \<longleftrightarrow> grp_domains g \<noteq> [] \<and> grp_route_namespaces g \<noteq> [] \<and>
     list_all host_ok (Hosts g) \<and> list_all (names_ok g) (grp_domains g) \<and>
     distinct (Hosts g) \<and> no_repeat (map ListenerNameOrDefault (grp_domains g)) \<and>
     no_repeat (map SecretNameOrDefault (grp_domains g)) \<and> no_repeat (grp_route_namespaces g)"

interpretation group_check: validator "validate_group at" group_ok for at
proof
  fix g
  have loop: "first_err (\<lambda>d. first_of [validateDomain at (dom_host d), validateDomainNames g at d]) (grp_domains g) = None
      \<longleftrightarrow> list_all host_ok (Hosts g) \<and> list_all (names_ok g) (grp_domains g)"
    by (auto simp: first_err_None go_err host_check.check_None names_check.check_None
        Hosts_def list_all_iff)
  have "no_repeat (Hosts g) \<longleftrightarrow> distinct (Hosts g)" if "list_all host_ok (Hosts g)"
    using that by (intro no_repeat_distinct) (auto simp: list_all_iff host_ok_def)
  then show "validate_group at g = None \<longleftrightarrow> group_ok g"
    unfolding validate_group_def group_ok_def
    by (auto simp: loop no_repeat_def Let_def)
qed

definition waf_ok :: "string \<Rightarrow> domain \<Rightarrow> bool" where
  "waf_ok arrival d \<longleftrightarrow>
     (dom_waf d = [] \<and> dom_waf_reason d = []) \<or>
     (dom_waf d = WAFOff \<and> trim_space (dom_waf_reason d) \<noteq> [] \<and> arrival = ArrivalCloudflareTunnel)"

interpretation waf_check: validator "validateWAF at arrival" "waf_ok arrival" for at arrival
proof
  fix d
  have "WAFOff \<noteq> []" by (simp add: WAFOff_def)
  then show "validateWAF at arrival d = None \<longleftrightarrow> waf_ok arrival d"
    by (auto simp: validateWAF_def waf_ok_def go_err)
qed

definition group_on_ok :: "string \<Rightarrow> catgroup \<Rightarrow> bool" where
  "group_on_ok arrival g \<longleftrightarrow> group_ok g \<and>
     (arrival = ArrivalCloudflareTunnel \<longrightarrow> \<not> grp_cross_cluster g \<and> \<not> grp_record_elsewhere g) \<and>
     (arrival \<noteq> ArrivalCloudflareTunnel \<longrightarrow> list_all (\<lambda>d. \<not> dom_dns_elsewhere d) (grp_domains g)) \<and>
     list_all (waf_ok arrival) (grp_domains g)"

interpretation group_on_check: validator "validate_group_on e at" "group_on_ok (ex_arrival e)" for e at
proof
  fix g
  show "validate_group_on e at g = None \<longleftrightarrow> group_on_ok (ex_arrival e) g"
    by (auto simp: validate_group_on_def group_on_ok_def go_err group_check.check_None
        waf_check.check_None first_err_None list_all_iff)
qed

definition override_ok :: "project_override \<Rightarrow> bool" where
  "override_ok o' \<longleftrightarrow> \<not> (po_group o' = [] \<and> po_description o' = [] \<and> po_names o' = []) \<and>
     (po_group o' = [] \<or> IsDNSLabel (po_group o'))"

definition project_groups_ok :: "exposure \<Rightarrow> project_groups option \<Rightarrow> bool" where
  "project_groups_ok e pg = (case pg of None \<Rightarrow> True | Some p \<Rightarrow>
     list_all (\<lambda>(cluster, projects). has_key (ex_clusters e) cluster \<and>
        list_all (\<lambda>(project, override). override_ok override) projects) (pg_overrides p))"

interpretation project_groups_check: validator "validate_project_groups name e" "project_groups_ok e"
  for name e
proof
  fix pg
  show "validate_project_groups name e pg = None \<longleftrightarrow> project_groups_ok e pg"
    by (cases pg) (auto simp: validate_project_groups_def project_groups_ok_def override_ok_def
        first_err_None list_all_iff dnsLabel_IsDNSLabel case_prod_unfold)
qed

definition cluster_ok :: "exposure \<Rightarrow> catcluster \<Rightarrow> bool" where
  "cluster_ok e cl \<longleftrightarrow> (cl_class cl = [] \<or> cl_class cl \<noteq> ex_class e) \<and> cl_groups cl \<noteq> [] \<and>
     list_all (\<lambda>(gname, g). group_on_ok (ex_arrival e) g) (sorted_entries (cl_groups cl))"

interpretation cluster_check: validator "validate_cluster name e" "\<lambda>(cluster, cl). cluster_ok e cl"
  for name e
proof
  fix kv :: "string \<times> catcluster"
  obtain k cl where kv: "kv = (k, cl)" by (cases kv)
  show "validate_cluster name e kv = None \<longleftrightarrow> (case kv of (cluster, cl) \<Rightarrow> cluster_ok e cl)"
    unfolding kv validate_cluster_def cluster_ok_def
    by (auto simp: group_on_check.check_None first_err_None list_all_iff)
qed

definition exposure_ok :: "exposure \<Rightarrow> bool" where
  "exposure_ok e \<longleftrightarrow>
     ex_arrival e \<in> {ArrivalCloudflareTunnel, ArrivalPrivateClusterIP, ArrivalNLB} \<and>
     (ex_cloudflare_accounts e = [] \<or> ex_arrival e = ArrivalCloudflareTunnel) \<and>
     no_repeat (ex_cloudflare_accounts e) \<and> ex_class e \<noteq> [] \<and> ex_clusters e \<noteq> [] \<and>
     project_groups_ok e (ex_project_groups e) \<and>
     list_all (\<lambda>(cluster, cl). cluster_ok e cl) (sorted_entries (ex_clusters e))"

interpretation exposure_check: validator validate_exposure "\<lambda>(name, e). exposure_ok e"
proof
  fix kv :: "string \<times> exposure"
  obtain k e where kv: "kv = (k, e)" by (cases kv)
  have "ArrivalCloudflareTunnel \<noteq> []" "ArrivalPrivateClusterIP \<noteq> []" "ArrivalNLB \<noteq> []"
    by (simp_all add: arrival_defs)
  then show "validate_exposure kv = None \<longleftrightarrow> (case kv of (name, e) \<Rightarrow> exposure_ok e)"
    unfolding kv validate_exposure_def exposure_ok_def
    by (auto simp: cluster_check.loop_accepts project_groups_check.check_None no_repeat_def Let_def)
qed

text \<open>The unique-claims loop accepts exactly when no key repeats.\<close>

abbreviation claim_key_of :: "claim_site \<times> string \<Rightarrow> string" where
  "claim_key_of \<equiv> \<lambda>((exposure, cluster, gname), host). claim_key cluster host"

lemma claims_unique_None_gen:
  "claims_unique seen cs = None \<longleftrightarrow>
     distinct (map claim_key_of cs) \<and> (\<forall>c\<in>set cs. mget seen (claim_key_of c) = None)"
proof (induction seen cs rule: claims_unique.induct)
  case (2 seen exposure cluster gname host cs)
  then show ?case by (cases "mget seen (claim_key cluster host)") (auto simp: image_iff)
qed simp

lemma claims_unique_None:
  "validateDomainsAreUnique c = None \<longleftrightarrow> distinct (map claim_key_of (domain_claims c))"
  by (simp add: validateDomainsAreUnique_def claims_unique_None_gen)

text \<open>\<open>claims_host c x cl g h\<close>: the catalog files, under exposure \<open>x\<close> on cluster \<open>cl\<close>, a
  group \<open>g\<close> that answers to \<open>h\<close>.\<close>

definition find_group :: "catalog \<Rightarrow> string \<Rightarrow> string \<Rightarrow> string \<Rightarrow> catgroup option" where
  "find_group c x cl g =
     Option.bind (mget (cat_exposures c) x) (\<lambda>e.
       Option.bind (mget (ex_clusters e) cl) (\<lambda>clr. mget (cl_groups clr) g))"

definition claims_host :: "catalog \<Rightarrow> string \<Rightarrow> string \<Rightarrow> string \<Rightarrow> string \<Rightarrow> bool" where
  "claims_host c x cl g h \<longleftrightarrow>
     (case find_group c x cl g of None \<Rightarrow> False | Some gr \<Rightarrow> h \<in> set (Hosts gr))"

lemma claims_host_iff:
  "claims_host c x cl g h \<longleftrightarrow> (\<exists>gr. find_group c x cl g = Some gr \<and> h \<in> set (Hosts gr))"
  by (simp add: claims_host_def split: option.splits)

lemma domain_claims_iff: "((x, cl, g), h) \<in> set (domain_claims c) \<longleftrightarrow> claims_host c x cl g h"
proof -
  have "((x, cl, g), h) \<in> set (domain_claims c) \<longleftrightarrow>
      (\<exists>e clr gr. mget (cat_exposures c) x = Some e \<and> mget (ex_clusters e) cl = Some clr \<and>
         mget (cl_groups clr) g = Some gr \<and> h \<in> set (Hosts gr))"
    unfolding domain_claims_def concat_entries_iff set_map image_iff by fastforce
  then show ?thesis
    by (auto simp: claims_host_def find_group_def bind_eq_Some_conv split: option.splits)
qed

lemma distinct_map_inj: "distinct (map f xs) \<Longrightarrow> x \<in> set xs \<Longrightarrow> y \<in> set xs \<Longrightarrow> f x = f y \<Longrightarrow> x = y"
  by (metis distinct_map inj_onD)

lemma claim_site_unique:
  assumes "validateDomainsAreUnique c = None"
    and "claims_host c x cl g h" and "claims_host c x' cl g' h"
  shows "x = x' \<and> g = g'"
proof -
  have "((x, cl, g), h) = ((x', cl, g'), h)"
    using assms by (intro distinct_map_inj [of claim_key_of "domain_claims c"])
      (auto simp: claims_unique_None domain_claims_iff)
  then show ?thesis by simp
qed

text \<open>The specification of \<open>Validate\<close>.\<close>

definition catalog_ok :: "catalog \<Rightarrow> bool" where
  "catalog_ok c \<longleftrightarrow> cat_version c = CatalogVersion \<and> cat_exposures c \<noteq> [] \<and>
     list_all (\<lambda>(name, e). exposure_ok e) (sorted_entries (cat_exposures c)) \<and>
     distinct (map claim_key_of (domain_claims c))"

interpretation catalog_check: validator Validate catalog_ok
  by unfold_locales
    (auto simp: Validate_def catalog_ok_def exposure_check.loop_accepts claims_unique_None)

lemma catalog_ok_group:
  assumes "catalog_ok c" and "mget (cat_exposures c) x = Some e"
    and "mget (ex_clusters e) cl = Some clr" and "mget (cl_groups clr) gname = Some g"
  shows "exposure_ok e" and "cluster_ok e clr" and "group_on_ok (ex_arrival e) g"
proof -
  show e: "exposure_ok e"
    using assms(1,2) by (fastforce simp: catalog_ok_def list_all_iff sorted_entries_map_of mget_def)
  show cl: "cluster_ok e clr"
    using e assms(3) by (fastforce simp: exposure_ok_def list_all_iff sorted_entries_map_of mget_def)
  show "group_on_ok (ex_arrival e) g"
    using cl assms(4) by (fastforce simp: cluster_ok_def list_all_iff sorted_entries_map_of mget_def)
qed

text \<open>Validation looks at a map through its sorted keys only, so the order in which Go keeps
  the entries of a map changes nothing.\<close>

lemma Validate_version: "cat_version c \<noteq> 1 \<Longrightarrow> Validate c = Some (EVersion (cat_version c))"
  by (simp add: Validate_def CatalogVersion_def first_of.simps fail_if_def)

lemma no_repeat_names:
  assumes "\<And>d. d \<in> set ds \<Longrightarrow> f d \<noteq> []"
  shows "no_repeat (map f ds) \<longleftrightarrow> distinct (map f ds)"
proof (rule no_repeat_distinct)
  show "[] \<notin> set (map f ds)" using assms by (metis imageE set_map)
qed

lemma replace_char_Nil_iff: "new \<noteq> [] \<Longrightarrow> replace_char old new s = [] \<longleftrightarrow> s = []"
  by (cases s) (auto simp: replace_char_def)

lemma DomainSlug_not_Nil: "h \<noteq> [] \<Longrightarrow> DomainSlug h \<noteq> []"
  by (auto simp: DomainSlug_def Let_def replace_char_Nil_iff trim_prefix_def)

lemma group_ok_distinct:
  assumes "group_ok g"
  shows "distinct (Hosts g)" and "distinct (map ListenerNameOrDefault (grp_domains g))"
    and "distinct (map SecretNameOrDefault (grp_domains g))"
proof -
  have "dom_host d \<noteq> []" if "d \<in> set (grp_domains g)" for d
    using that assms by (auto simp: group_ok_def list_all_iff Hosts_def host_ok_def)
  then show "distinct (map ListenerNameOrDefault (grp_domains g))"
    and "distinct (map SecretNameOrDefault (grp_domains g))"
    using assms by (simp_all add: group_ok_def no_repeat_names ListenerNameOrDefault_def
        SecretNameOrDefault_def DomainSlug_not_Nil)
qed (use assms in \<open>simp add: group_ok_def\<close>)

lemma find_group_iff:
  "find_group c x cl g = Some gr \<longleftrightarrow> (\<exists>e clr. mget (cat_exposures c) x = Some e \<and>
     mget (ex_clusters e) cl = Some clr \<and> mget (cl_groups clr) g = Some gr)"
  by (auto simp: find_group_def bind_eq_Some_conv)

section \<open>Properties\<close>

text \<open>C1 A validated catalog answers each hostname on a cluster from one place: two groups that
  file the same name on the same cluster are one group of one exposure.\<close>

theorem Validate_claims_unique:
  assumes "Validate c = None" and "claims_host c x cl g h" and "claims_host c x' cl g' h"
  shows "x = x' \<and> g = g'"
  using assms(1) assms(2,3) by (intro claim_site_unique) (simp_all add: Validate_def)

lemma Validate_sample: "Validate sample_catalog = None"
  by code_simp

theorem Validate_claims_unique_witness:
  "Validate sample_catalog = None \<and> claims_host sample_catalog ''public'' ''prod'' ''wild'' ''*.example.com'' \<and>
   (''public'' = ''public'' \<and> ''wild'' = ''wild'')"
proof -
  have h: "claims_host sample_catalog ''public'' ''prod'' ''wild'' ''*.example.com''" by code_simp
  show ?thesis using Validate_claims_unique [OF Validate_sample h h] h Validate_sample by simp
qed

text \<open>Every group of a validated catalog has a name to answer to and a namespace to admit;
  its names are lowercase hosts, not URLs, with a wildcard only as a leading \<open>*.\<close>; and the
  listeners and the TLS Secrets of the group do not collide.\<close>

theorem Validate_group_objects:
  assumes "Validate c = None" and "find_group c x cl g = Some gr"
  shows "Hosts gr \<noteq> [] \<and> grp_route_namespaces gr \<noteq> [] \<and> list_all host_ok (Hosts gr) \<and>
     distinct (Hosts gr) \<and> distinct (map ListenerNameOrDefault (grp_domains gr)) \<and>
     distinct (map SecretNameOrDefault (grp_domains gr))"
proof -
  from assms(1) have "catalog_ok c" by (simp add: catalog_check.check_None)
  with assms(2) have "group_ok gr"
    using catalog_ok_group(3) unfolding find_group_iff group_on_ok_def by blast
  then show ?thesis
    using group_ok_distinct [of gr] by (simp add: group_ok_def Hosts_def)
qed

theorem Validate_group_objects_witness:
  "Hosts sample_ops \<noteq> [] \<and> grp_route_namespaces sample_ops \<noteq> [] \<and> list_all host_ok (Hosts sample_ops) \<and>
     distinct (Hosts sample_ops) \<and> distinct (map ListenerNameOrDefault (grp_domains sample_ops)) \<and>
     distinct (map SecretNameOrDefault (grp_domains sample_ops))"
proof (rule Validate_group_objects [OF Validate_sample])
  show "find_group sample_catalog ''public'' ''prod'' ''ops'' = Some sample_ops" by code_simp
qed

text \<open>A hostname leaves the managed WAF only on a tunnel-served exposure and with a reason:
  everywhere else a validated catalog's names are covered.\<close>

theorem Validate_waf_exception:
  assumes "Validate c = None" and "find_group c x cl g = Some gr"
    and "d \<in> set (grp_domains gr)" and "\<not> WAFCovered d"
  shows "trim_space (dom_waf_reason d) \<noteq> [] \<and>
     map_option ex_arrival (mget (cat_exposures c) x) = Some ArrivalCloudflareTunnel"
proof -
  from assms(1) have ok: "catalog_ok c" by (simp add: catalog_check.check_None)
  from assms(2) obtain e clr where e: "mget (cat_exposures c) x = Some e"
      and "mget (ex_clusters e) cl = Some clr" "mget (cl_groups clr) g = Some gr"
    by (auto simp: find_group_iff)
  with ok have "group_on_ok (ex_arrival e) gr" by (intro catalog_ok_group(3))
  with assms(3,4) have "waf_ok (ex_arrival e) d" "dom_waf d = WAFOff"
    by (auto simp: group_on_ok_def list_all_iff WAFCovered_def)
  then show ?thesis by (auto simp: waf_ok_def e WAFOff_def)
qed

theorem Validate_waf_exception_witness:
  "trim_space (dom_waf_reason (grp_domains sample_ops ! 1)) \<noteq> [] \<and>
     map_option ex_arrival (mget (cat_exposures sample_catalog) ''public'') = Some ArrivalCloudflareTunnel"
proof (rule Validate_waf_exception [OF Validate_sample])
  show "find_group sample_catalog ''public'' ''prod'' ''ops'' = Some sample_ops" by code_simp
  show "grp_domains sample_ops ! 1 \<in> set (grp_domains sample_ops)" by code_simp
  show "\<not> WAFCovered (grp_domains sample_ops ! 1)" by code_simp
qed

end
