(* ===== verification/Catalog_Reorder.thy ===== *)
theory Catalog_Reorder imports Catalog_Validate begin

text \<open>
  Go visits the entries of a map in no fixed order. A catalog's maps may therefore be kept in
  any order. The claims that validation walks depend on their entries alone; so does its verdict, and its error
  but for one case: the overrides of project groups are the one map that \<open>validate\<close> (\<open>catalog/projects.go\<close>)
  ranges over unsorted.
\<close>

definition same_cluster :: "catcluster \<Rightarrow> catcluster \<Rightarrow> bool" where
  "same_cluster cl cl' \<longleftrightarrow> cl_class cl = cl_class cl' \<and> same_map (=) (cl_groups cl) (cl_groups cl')"

definition same_override :: "project_override \<Rightarrow> project_override \<Rightarrow> bool" where
  "same_override o1 o2 \<longleftrightarrow> po_group o1 = po_group o2 \<and> po_description o1 = po_description o2 \<and> same_map (=) (po_names o1) (po_names o2)"

definition same_project_groups :: "project_groups option \<Rightarrow> project_groups option \<Rightarrow> bool" where
  "same_project_groups = rel_option (\<lambda>p p'. same_map (same_map same_override) (pg_overrides p) (pg_overrides p'))"

definition same_exposure :: "exposure \<Rightarrow> exposure \<Rightarrow> bool" where
  "same_exposure e e' \<longleftrightarrow> ex_class e = ex_class e' \<and> ex_arrival e = ex_arrival e' \<and>
     ex_cloudflare_accounts e = ex_cloudflare_accounts e' \<and> same_project_groups (ex_project_groups e) (ex_project_groups e') \<and>
     same_map same_cluster (ex_clusters e) (ex_clusters e')"

definition same_catalog :: "catalog \<Rightarrow> catalog \<Rightarrow> bool" where
  "same_catalog c c' \<longleftrightarrow> cat_version c = cat_version c' \<and> same_map same_exposure (cat_exposures c) (cat_exposures c')"

lemma validate_cluster_same:
  assumes "same_cluster cl cl'" and "ex_class e = ex_class e'" and "ex_arrival e = ex_arrival e'"
  shows "validate_cluster name e (k, cl) = validate_cluster name e' (k, cl')"
proof -
  have "validate_group_on e = validate_group_on e'"
    by (intro ext) (simp add: validate_group_on_def assms)
  moreover have m: "same_map (=) (cl_groups cl) (cl_groups cl')" using assms by (simp add: same_cluster_def)
  moreover have "cl_class cl = cl_class cl'" using assms by (simp add: same_cluster_def)
  ultimately show ?thesis
    by (simp only: validate_cluster_def prod.case same_map_eq_entries [OF m] same_map_Nil [OF m] assms(2))
qed

text \<open>An error of the overrides of an exposure.\<close>

fun about_overrides :: "string \<Rightarrow> cat_error \<Rightarrow> bool" where
  "about_overrides name (EExposure x (EOverrideCluster cluster)) = (x = name)"
| "about_overrides name (EExposure x (EOverrideNothing cluster project)) = (x = name)"
| "about_overrides name (EExposure x (EOverrideGroup cluster project g)) = (x = name)"
| "about_overrides name err = False"

lemma first_of_two: "first_of [a, b] = Some x \<Longrightarrow> a = Some x \<or> b = Some x"
  by (simp add: first_of.simps split: option.splits)

lemma override_error_one:
  assumes "first_of [
     fail_if (po_group override = [] \<and> po_description override = [] \<and> po_names override = []) (EExposure name (EOverrideNothing cluster project)),
     fail_if (po_group override \<noteq> [] \<and> \<not> rx_match dnsLabel (po_group override)) (EExposure name (EOverrideGroup cluster project (po_group override)))] = Some err"
  shows "about_overrides name err"
  using first_of_two [OF assms] unfolding fail_if_Some by (elim disjE conjE) simp_all

lemma override_error_cluster:
  assumes "first_of [fail_if unknown (EExposure name (EOverrideCluster cluster)), first_err inner projects] = Some err"
    and "\<And>kv. inner kv = Some err \<Longrightarrow> about_overrides name err"
  shows "about_overrides name err"
  using first_of_two [OF assms(1)] first_err_Some [of inner projects err] assms(2) unfolding fail_if_Some by (elim disjE conjE) auto

lemma override_errors:
  assumes "validate_project_groups name e pg = Some err"
  shows "about_overrides name err"
proof (cases pg)
  case None
  then show ?thesis using assms by (simp add: validate_project_groups_def)
next
  case (Some p)
  show ?thesis
    using first_err_Some [OF assms [unfolded validate_project_groups_def Some option.case]]
    by (elim bexE, unfold case_prod_beta) (erule override_error_cluster, erule override_error_one)
qed

text \<open>Two maps with the same entries pass a check that passes on related values.\<close>

lemma same_map_all:
  assumes "same_map R m m'" and "\<And>k v v'. R v v' \<Longrightarrow> P k v \<longleftrightarrow> P k v'"
  shows "(\<forall>(k, v)\<in>set m. P k v) \<longleftrightarrow> (\<forall>(k, v)\<in>set m'. P k v)"
proof -
  from assms(1) have wf: "wf_map m" "wf_map m'" by (simp_all add: same_map_def)
  have related: "list_all2 (\<lambda>(k, v) (k', v'). k = k' \<and> R v v') (sorted_entries m) (sorted_entries m')" by (rule same_map_entries [OF assms(1)])
  then have "list_all (\<lambda>(k, v). P k v) (sorted_entries m) \<longleftrightarrow> list_all (\<lambda>(k, v). P k v) (sorted_entries m')"
    by (induction rule: list_all2_induct) (use assms(2) in auto)
  then show ?thesis by (simp add: list_all_iff set_sorted_entries wf)
qed

lemma project_groups_ok_same:
  assumes "same_project_groups pg pg'" and "has_key (ex_clusters e) = has_key (ex_clusters e')"
  shows "project_groups_ok e pg \<longleftrightarrow> project_groups_ok e' pg'"
proof (cases pg)
  case None
  then show ?thesis using assms(1) by (cases pg') (simp_all add: same_project_groups_def project_groups_ok_def)
next
  case (Some p)
  then obtain p' where pg': "pg' = Some p'" and m: "same_map (same_map same_override) (pg_overrides p) (pg_overrides p')"
    using assms(1) by (cases pg') (simp_all add: same_project_groups_def)
  have one: "override_ok v \<longleftrightarrow> override_ok v'" if "same_override v v'" for v v'
    using that same_map_Nil [of "(=)" "po_names v" "po_names v'"] by (simp add: same_override_def override_ok_def)
  have inner: "(\<forall>(k, v)\<in>set ps. override_ok v) \<longleftrightarrow> (\<forall>(k, v)\<in>set ps'. override_ok v)" if "same_map same_override ps ps'" for ps ps'
    by (rule same_map_all [OF that]) (rule one)
  have "(\<forall>(k, ps)\<in>set (pg_overrides p). has_key (ex_clusters e) k \<and> (\<forall>(k, v)\<in>set ps. override_ok v)) \<longleftrightarrow>
      (\<forall>(k, ps)\<in>set (pg_overrides p'). has_key (ex_clusters e) k \<and> (\<forall>(k, v)\<in>set ps. override_ok v))"
    by (rule same_map_all [OF m]) (simp only: inner)
  then show ?thesis by (simp add: Some pg' project_groups_ok_def list_all_iff assms(2) case_prod_unfold)
qed

definition same_verdict :: "string \<Rightarrow> cat_error option \<Rightarrow> cat_error option \<Rightarrow> bool" where
  "same_verdict name r r' \<longleftrightarrow> r = r' \<or> (\<exists>err err'. r = Some err \<and> r' = Some err' \<and> about_overrides name err \<and> about_overrides name err')"

lemma same_verdict_first_of:
  assumes "same_verdict name r r'" and "rs = rs'"
  shows "same_verdict name (first_of (r # rs)) (first_of (r' # rs'))"
  using assms by (cases r; cases r') (auto simp: same_verdict_def first_of.simps)

lemma same_verdict_skip: "same_verdict name (first_of rs) (first_of rs') \<Longrightarrow> same_verdict name (first_of (x # rs)) (first_of (x # rs'))"
  by (cases x) (simp_all add: same_verdict_def first_of.simps)

lemma validate_exposure_same:
  assumes "same_exposure e e'"
  shows "same_verdict name (validate_exposure (name, e)) (validate_exposure (name, e'))"
proof -
  from assms have m: "same_map same_cluster (ex_clusters e) (ex_clusters e')" by (simp add: same_exposure_def)
  have clusters: "first_err (validate_cluster name e) (sorted_entries (ex_clusters e)) =
      first_err (validate_cluster name e') (sorted_entries (ex_clusters e'))"
    by (rule first_err_cong2 [OF same_map_entries [OF m]])
      (use assms in \<open>auto simp: same_exposure_def intro: validate_cluster_same\<close>)
  have "has_key (ex_clusters e) = has_key (ex_clusters e')" by (rule ext) (rule same_map_keys [OF m])
  with assms have "validate_project_groups name e (ex_project_groups e) = None \<longleftrightarrow> validate_project_groups name e' (ex_project_groups e') = None"
    using project_groups_ok_same by (simp add: project_groups_check.check_None same_exposure_def)
  then have groups: "same_verdict name (validate_project_groups name e (ex_project_groups e)) (validate_project_groups name e' (ex_project_groups e'))"
    using override_errors by (cases "validate_project_groups name e (ex_project_groups e)"; cases "validate_project_groups name e' (ex_project_groups e')")
      (auto simp: same_verdict_def)
  have empty: "ex_clusters e = [] \<longleftrightarrow> ex_clusters e' = []" by (rule same_map_Nil [OF m])
  have fields: "ex_class e = ex_class e'" "ex_arrival e = ex_arrival e'" "ex_cloudflare_accounts e = ex_cloudflare_accounts e'"
    using assms by (simp_all add: same_exposure_def)
  show ?thesis unfolding validate_exposure_def prod.case fields empty
    by (intro same_verdict_skip same_verdict_first_of groups arg_cong2 [where f = "(#)"] refl clusters)
qed

lemma domain_claims_same:
  assumes "same_catalog c c'"
  shows "domain_claims c = domain_claims c'"
proof -
  from assms have m: "same_map same_exposure (cat_exposures c) (cat_exposures c')" by (simp add: same_catalog_def)
  have clusters: "concat (map (\<lambda>(cluster, cl). concat (map (\<lambda>(gname, g). map (\<lambda>host. ((x, cluster, gname), host)) (Hosts g))
         (sorted_entries (cl_groups cl)))) (sorted_entries (ex_clusters e))) =
      concat (map (\<lambda>(cluster, cl). concat (map (\<lambda>(gname, g). map (\<lambda>host. ((x, cluster, gname), host)) (Hosts g))
         (sorted_entries (cl_groups cl)))) (sorted_entries (ex_clusters e')))" if "same_exposure e e'" for x e e'
  proof -
    from that have "same_map same_cluster (ex_clusters e) (ex_clusters e')" by (simp add: same_exposure_def)
    from same_map_entries [OF this] show ?thesis
      by (rule concat_map_cong2) (auto simp: same_cluster_def dest: same_map_eq_entries)
  qed
  show ?thesis unfolding domain_claims_def
    by (rule concat_map_cong2 [OF same_map_entries [OF m]]) (auto intro: clusters)
qed


lemma first_err_same:
  assumes "list_all2 (\<lambda>x y. \<exists>name. same_verdict name (f x) (g y)) xs ys"
  shows "\<exists>name. same_verdict name (first_err f xs) (first_err g ys)"
  using assms
proof (induction rule: list_all2_induct)
  case (Cons x xs y ys)
  then obtain name where "same_verdict name (f x) (g y)" by blast
  with Cons show ?case by (cases "f x"; cases "g y") (auto simp: same_verdict_def first_err.simps)
qed (simp add: same_verdict_def)

text \<open>C40 (functional): validation does not depend on the order in which Go's maps keep the exposures, the clusters, the groups and the
  overrides of project groups. A reordered catalog gets the same verdict, and the same error too, unless the error is about the overrides
  of an exposure: those are ranged over unsorted, and another fault among the overrides of the same exposure may be reported.\<close>

theorem Validate_map_order:
  assumes "same_catalog c c'"
  shows "Validate c = Validate c' \<or>
    (\<exists>name err err'. Validate c = Some err \<and> Validate c' = Some err' \<and> about_overrides name err \<and> about_overrides name err')"
proof -
  from assms have m: "same_map same_exposure (cat_exposures c) (cat_exposures c')" by (simp add: same_catalog_def)
  have "list_all2 (\<lambda>x y. \<exists>name. same_verdict name (validate_exposure x) (validate_exposure y)) (sorted_entries (cat_exposures c)) (sorted_entries (cat_exposures c'))"
    using same_map_entries [OF m] by (rule list_all2_mono) (auto intro: validate_exposure_same)
  from first_err_same [OF this] obtain name where verdict: "same_verdict name (first_err validate_exposure (sorted_entries (cat_exposures c)))
      (first_err validate_exposure (sorted_entries (cat_exposures c')))" by blast
  have "same_verdict name (Validate c) (Validate c')"
    unfolding Validate_def validateDomainsAreUnique_def domain_claims_same [OF assms] same_map_Nil [OF m]
    using assms by (auto simp: same_catalog_def intro!: same_verdict_skip same_verdict_first_of verdict)
  then show ?thesis unfolding same_verdict_def by blast
qed

section \<open>Reordered overrides\<close>

text \<open>A catalog whose two overrides are for clusters the exposure does not run on, in both orders: it is refused either way, for the
  override met first.\<close>

definition overridden :: "string list \<Rightarrow> catalog" where
  "overridden clusters = sample_catalog\<lparr>cat_exposures := [(''public'',
     sample_public\<lparr>ex_project_groups := Some \<lparr>pg_overrides = map (\<lambda>cluster. (cluster, [])) clusters\<rparr>\<rparr>)]\<rparr>"

lemma same_map_refl: "wf_map m \<Longrightarrow> (\<And>k v. mget m k = Some v \<Longrightarrow> R v v) \<Longrightarrow> same_map R m m"
  by (auto simp: same_map_def option.rel_sel)

lemma same_clusters_refl: "wf_exposure e \<Longrightarrow> same_map same_cluster (ex_clusters e) (ex_clusters e)"
  unfolding same_cluster_def
  by (auto simp: wf_exposure_def wf_cluster_def mget_def intro!: same_map_refl dest!: map_of_SomeD)

lemma overridden_same: "same_catalog (overridden [''a'', ''b'']) (overridden [''b'', ''a''])"
proof -
  have "wf_exposure sample_public" using wf_sample_catalog by (simp add: wf_catalog_def sample_catalog_def)
  then have "same_map same_cluster (ex_clusters sample_public) (ex_clusters sample_public)" by (rule same_clusters_refl)
  moreover have "same_map (same_map same_override) [(''a'', []), (''b'', [])] [(''b'', []), (''a'', [])]"
    by (simp add: same_map_def wf_map_def mget_def)
  ultimately show ?thesis
    by (simp add: overridden_def same_catalog_def same_exposure_def same_project_groups_def same_map_def [of same_exposure] wf_map_def mget_def)
qed

theorem Validate_map_order_witness:
  "\<exists>name err err'. Validate (overridden [''a'', ''b'']) = Some err \<and> Validate (overridden [''b'', ''a'']) = Some err' \<and>
     about_overrides name err \<and> about_overrides name err'"
proof -
  have "Validate (overridden [''a'', ''b'']) \<noteq> Validate (overridden [''b'', ''a''])" by code_simp
  with Validate_map_order [OF overridden_same] show ?thesis by blast
qed

end
