(* ===== verification/Catalog_Queries.thy ===== *)
theory Catalog_Queries imports Catalog_Validate begin

text \<open>
  The readers of a catalog (\<open>TunnelHosts\<close>, \<open>TunnelClusters\<close>, \<open>Groups\<close>, \<open>ExposuresOn\<close>,
  \<open>PrivateEntryNeedsLoadBalancer\<close>, \<open>ClassOn\<close>, \<open>Classes\<close> of \<open>catalog/catalog.go\<close>), each with
  the set of rows it answers about. A row that is not there reads as Go's zero value.
\<close>

definition arrival_of :: "catalog \<Rightarrow> string \<Rightarrow> string" where
  "arrival_of c x = (case mget (cat_exposures c) x of None \<Rightarrow> [] | Some e \<Rightarrow> ex_arrival e)"

definition ExposuresOn :: "catalog \<Rightarrow> string \<Rightarrow> string list" where
  "ExposuresOn c cluster =
     map fst (filter (\<lambda>(name, e). has_key (ex_clusters e) cluster) (sorted_entries (cat_exposures c)))"

definition Groups :: "catalog \<Rightarrow> string \<Rightarrow> string \<Rightarrow> named_group list" where
  "Groups c exposure cluster =
     (case mget (cat_exposures c) exposure of
        None \<Rightarrow> []
      | Some e \<Rightarrow> (case mget (ex_clusters e) cluster of
          None \<Rightarrow> []
        | Some cl \<Rightarrow> map (\<lambda>(name, g). \<lparr>ng_name = name, ng_group = g\<rparr>) (sorted_entries (cl_groups cl))))"

definition TunnelHosts :: "catalog \<Rightarrow> string \<Rightarrow> string list" where
  "TunnelHosts c cluster = sort (concat (map (\<lambda>exposure.
     if arrival_of c exposure \<noteq> ArrivalCloudflareTunnel then []
     else concat (map (\<lambda>group. Hosts (ng_group group)) (Groups c exposure cluster)))
     (ExposuresOn c cluster)))"

definition TunnelClusters :: "catalog \<Rightarrow> string list" where
  "TunnelClusters c = sorted_keys (key_set (concat (map (\<lambda>(name, e).
     if ex_arrival e \<noteq> ArrivalCloudflareTunnel then [] else map fst (ex_clusters e)) (cat_exposures c))))"

definition PrivateEntryNeedsLoadBalancer :: "catalog \<Rightarrow> string \<Rightarrow> bool" where
  "PrivateEntryNeedsLoadBalancer c cluster = list_ex (\<lambda>exposure.
     if arrival_of c exposure \<noteq> ArrivalPrivateClusterIP then False
     else list_ex (\<lambda>group. grp_cross_cluster (ng_group group)) (Groups c exposure cluster))
     (ExposuresOn c cluster)"

definition ClassOn :: "catalog \<Rightarrow> string \<Rightarrow> string \<Rightarrow> string" where
  "ClassOn c exposure cluster =
     (case mget (cat_exposures c) exposure of
        None \<Rightarrow> []
      | Some e \<Rightarrow>
          let override = cl_class (case mget (ex_clusters e) cluster of None \<Rightarrow> zero_cluster | Some cl \<Rightarrow> cl) in
          if override \<noteq> [] then override else ex_class e)"

definition Classes :: "catalog \<Rightarrow> string \<Rightarrow> string list" where
  "Classes c cluster = sorted_keys (key_set (filter (\<lambda>class. class \<noteq> [])
     (map (\<lambda>exposure. ClassOn c exposure cluster) (ExposuresOn c cluster))))"

section \<open>What the readers answer\<close>

lemma ExposuresOn_iff:
  "x \<in> set (ExposuresOn c cl) \<longleftrightarrow> (\<exists>e. mget (cat_exposures c) x = Some e \<and> has_key (ex_clusters e) cl)"
  by (auto simp: ExposuresOn_def sorted_entries_map_of mget_def image_iff)

lemma sorted_ExposuresOn: "sorted (ExposuresOn c cl)"
proof -
  have "sorted (map fst (sorted_entries (cat_exposures c)))" by simp
  then show ?thesis unfolding ExposuresOn_def by (rule sorted_filter)
qed

lemma distinct_ExposuresOn: "wf_catalog c \<Longrightarrow> distinct (ExposuresOn c cl)"
proof -
  assume "wf_catalog c"
  then have "distinct (map fst (sorted_entries (cat_exposures c)))" by (simp add: wf_catalog_def)
  then show ?thesis unfolding ExposuresOn_def by (rule distinct_map_filter)
qed

lemma Groups_iff: "\<lparr>ng_name = g, ng_group = gr\<rparr> \<in> set (Groups c x cl) \<longleftrightarrow> find_group c x cl g = Some gr"
  by (auto simp: Groups_def find_group_def sorted_entries_map_of mget_def image_iff Bex_def
      split: option.splits Option.bind_splits)

lemma in_Groups: "ng \<in> set (Groups c x cl) \<longleftrightarrow> find_group c x cl (ng_name ng) = Some (ng_group ng)"
  by (cases ng) (simp add: Groups_iff)

lemma find_group_on: "find_group c x cl g = Some gr \<Longrightarrow> x \<in> set (ExposuresOn c cl)"
  by (auto simp: ExposuresOn_iff find_group_def has_key_def bind_eq_Some_conv)

lemma Groups_names: "map ng_name (Groups c x cl) =
    (case mget (cat_exposures c) x of None \<Rightarrow> [] | Some e \<Rightarrow>
       (case mget (ex_clusters e) cl of None \<Rightarrow> [] | Some clr \<Rightarrow> sorted_keys (cl_groups clr)))"
  by (simp add: Groups_def comp_def case_prod_unfold map_fst_sorted_entries [unfolded comp_def]
      split: option.splits)

text \<open>The groups on a cluster that a loop over the exposures with one arrival reaches.\<close>

lemma ex_group_on:
  "(\<exists>x\<in>set (ExposuresOn c cl). A x \<and> (\<exists>ng\<in>set (Groups c x cl). P (ng_group ng))) \<longleftrightarrow>
   (\<exists>x g gr. A x \<and> find_group c x cl g = Some gr \<and> P gr)" (is "?l \<longleftrightarrow> ?r")
proof
  assume ?l
  then obtain x ng where "A x" "ng \<in> set (Groups c x cl)" "P (ng_group ng)" by blast
  then show ?r unfolding in_Groups by blast
next
  assume ?r
  then obtain x g gr where "A x" "find_group c x cl g = Some gr" "P gr" by blast
  then show ?l
    using find_group_on Groups_iff [of g gr c x cl] by (metis named_group.select_convs(2))
qed

lemma TunnelHosts_set:
  "h \<in> set (TunnelHosts c cl) \<longleftrightarrow>
     (\<exists>x g. arrival_of c x = ArrivalCloudflareTunnel \<and> claims_host c x cl g h)"
proof -
  have "h \<in> set (TunnelHosts c cl) \<longleftrightarrow> (\<exists>x\<in>set (ExposuresOn c cl). arrival_of c x = ArrivalCloudflareTunnel \<and>
      (\<exists>ng\<in>set (Groups c x cl). h \<in> set (Hosts (ng_group ng))))"
    unfolding TunnelHosts_def set_sort set_concat set_map by (simp add: Bex_def)
  also have "\<dots> \<longleftrightarrow> (\<exists>x g gr. arrival_of c x = ArrivalCloudflareTunnel \<and> find_group c x cl g = Some gr \<and> h \<in> set (Hosts gr))"
    by (rule ex_group_on)
  finally show ?thesis by (simp only: claims_host_iff) blast
qed

lemma TunnelClusters_eq:
  "TunnelClusters c = sort_compact (concat (map (\<lambda>(name, e).
     if ex_arrival e \<noteq> ArrivalCloudflareTunnel then [] else map fst (ex_clusters e)) (cat_exposures c)))"
  by (simp add: TunnelClusters_def sorted_keys_key_set)

section \<open>The tunnel's hosts\<close>

lemma concat_map_filter_key:
  assumes "distinct ks"
  shows "concat (map (\<lambda>k. if k = k0 then f k else []) ks) = (if k0 \<in> set ks then f k0 else [])"
  using assms by (induction ks) auto

lemma filter_entries_key:
  assumes "wf_map m"
  shows "concat (map (\<lambda>(k, v). if k = k0 then f v else []) (sorted_entries m)) =
     (case mget m k0 of None \<Rightarrow> [] | Some v \<Rightarrow> f v)"
proof -
  have "concat (map (\<lambda>(k, v). if k = k0 then f v else []) (sorted_entries m)) =
      concat (map (\<lambda>k. if k = k0 then f (the (map_of m k)) else []) (sorted_keys m))"
    unfolding sorted_entries_def map_map by (simp add: comp_def)
  also have "\<dots> = (if k0 \<in> set (sorted_keys m) then f (the (map_of m k0)) else [])"
    using assms by (intro concat_map_filter_key) simp
  also have "\<dots> = (case mget m k0 of None \<Rightarrow> [] | Some v \<Rightarrow> f v)"
  proof (cases "map_of m k0")
    case None
    then have "k0 \<notin> fst ` set m" by (simp add: map_of_eq_None_iff)
    with None show ?thesis by (simp add: mget_def)
  next
    case (Some v)
    then have "k0 \<in> fst ` set m" by (force dest: map_of_SomeD)
    with Some show ?thesis by (simp add: mget_def)
  qed
  finally show ?thesis .
qed

lemma map_snd_if: "map snd (filter P (concat (map f xs))) = concat (map (\<lambda>x. map snd (filter P (f x))) xs)"
  by (induction xs) simp_all

text \<open>The claims on one cluster of the exposures with one arrival, in the order of the walk.\<close>

lemma hosts_of_claims:
  assumes "wf_catalog c"
  shows "map snd (filter (\<lambda>((x, cl', g), h). cl' = cl \<and> P x) (domain_claims c)) =
    concat (map (\<lambda>x. if \<not> P x then [] else concat (map (\<lambda>ng. Hosts (ng_group ng)) (Groups c x cl)))
      (ExposuresOn c cl))"
proof -
  have row: "map snd (filter (\<lambda>((x, cl', g), h). cl' = cl \<and> P x)
      (concat (map (\<lambda>(cluster, clr). concat (map (\<lambda>(gname, g). map (\<lambda>host. ((x, cluster, gname), host)) (Hosts g))
         (sorted_entries (cl_groups clr)))) (sorted_entries (ex_clusters e))))) =
      (case mget (ex_clusters e) cl of None \<Rightarrow> [] | Some clr \<Rightarrow>
         if \<not> P x then [] else concat (map (\<lambda>(gname, g). Hosts g) (sorted_entries (cl_groups clr))))"
    if "wf_map (ex_clusters e)" for x e
  proof -
    have "filter (\<lambda>((x, cl', g), h). cl' = cl \<and> P x) (map (\<lambda>host. ((x, cluster, gname), host)) hs) =
        (if cluster = cl \<and> P x then map (\<lambda>host. ((x, cluster, gname), host)) hs else [])" for cluster gname and hs :: "string list"
      by (induction hs) auto
    then have inner: "map snd (filter (\<lambda>((x, cl', g), h). cl' = cl \<and> P x)
        (concat (map (\<lambda>(gname, g). map (\<lambda>host. ((x, cluster, gname), host)) (Hosts g)) gs))) =
        (if cluster = cl \<and> P x then concat (map (\<lambda>(gname, g). Hosts g) gs) else [])" for cluster gs
      unfolding map_snd_if by (induction gs) (auto simp: comp_def case_prod_unfold)
    show ?thesis
      unfolding map_snd_if filter_entries_key [OF that, symmetric]
      by (intro arg_cong [of _ _ concat] map_cong [OF refl]) (auto simp: inner)
  qed
  have "map snd (filter (\<lambda>((x, cl', g), h). cl' = cl \<and> P x) (domain_claims c)) =
      concat (map (\<lambda>(x, e). case mget (ex_clusters e) cl of None \<Rightarrow> [] | Some clr \<Rightarrow>
         if \<not> P x then [] else concat (map (\<lambda>(gname, g). Hosts g) (sorted_entries (cl_groups clr))))
       (sorted_entries (cat_exposures c)))"
    unfolding domain_claims_def map_snd_if
  proof (intro arg_cong [of _ _ concat] map_cong [OF refl], clarify)
    fix x e assume "(x, e) \<in> set (sorted_entries (cat_exposures c))"
    then have "wf_map (ex_clusters e)"
      using assms by (auto simp: sorted_entries_map_of wf_catalog_def wf_exposure_def dest!: map_of_SomeD)
    then show "map snd (filter (\<lambda>((x, cl', g), h). cl' = cl \<and> P x) (concat (map (\<lambda>(cluster, clr).
        concat (map (\<lambda>(gname, g). map (\<lambda>host. ((x, cluster, gname), host)) (Hosts g))
         (sorted_entries (cl_groups clr)))) (sorted_entries (ex_clusters e))))) =
      (case mget (ex_clusters e) cl of None \<Rightarrow> [] | Some clr \<Rightarrow>
         if \<not> P x then [] else concat (map (\<lambda>(gname, g). Hosts g) (sorted_entries (cl_groups clr))))"
      by (rule row)
  qed
  also have "\<dots> = concat (map (\<lambda>x. if \<not> P x then [] else concat (map (\<lambda>ng. Hosts (ng_group ng)) (Groups c x cl)))
      (ExposuresOn c cl))"
  proof -
    have groups: "Groups c x cl = (case mget (ex_clusters e) cl of None \<Rightarrow> [] | Some clr \<Rightarrow>
        map (\<lambda>(name, g). \<lparr>ng_name = name, ng_group = g\<rparr>) (sorted_entries (cl_groups clr)))"
      if "(x, e) \<in> set (sorted_entries (cat_exposures c))" for x e
      using that by (simp add: Groups_def sorted_entries_map_of mget_def)
    have "concat (map (\<lambda>(x, e). case mget (ex_clusters e) cl of None \<Rightarrow> [] | Some clr \<Rightarrow>
         if \<not> P x then [] else concat (map (\<lambda>(gname, g). Hosts g) (sorted_entries (cl_groups clr)))) xs) =
       concat (map (\<lambda>x. if \<not> P x then [] else concat (map (\<lambda>ng. Hosts (ng_group ng)) (Groups c x cl)))
         (map fst (filter (\<lambda>(name, e). has_key (ex_clusters e) cl) xs)))"
      if "set xs \<subseteq> set (sorted_entries (cat_exposures c))" for xs
      using that
      by (induction xs) (auto simp: groups has_key_def comp_def case_prod_unfold split: option.splits)
    from this [OF subset_refl] show ?thesis unfolding ExposuresOn_def .
  qed
  finally show ?thesis .
qed

lemma claim_key_inject [simp]: "claim_key cl h = claim_key cl h' \<longleftrightarrow> h = h'"
  by (simp add: claim_key_def)

lemma distinct_claims_on:
  assumes "distinct (map claim_key_of cs)"
  shows "distinct (map snd (filter (\<lambda>((x, cl', g), h). cl' = cl \<and> P x) cs))"
  using assms by (induction cs) (auto simp: image_iff)

text \<open>A cluster's tunnel answers exactly the names its tunnel-served groups file there, in
  sorted order; in a validated catalog no name appears twice.\<close>

theorem TunnelHosts_exact:
  assumes "wf_catalog c" and "Validate c = None"
  shows "sorted (TunnelHosts c cl) \<and> distinct (TunnelHosts c cl) \<and>
     (\<forall>h. h \<in> set (TunnelHosts c cl) \<longleftrightarrow>
        (\<exists>x g. arrival_of c x = ArrivalCloudflareTunnel \<and> claims_host c x cl g h))"
proof -
  have "distinct (map claim_key_of (domain_claims c))"
    using assms(2) by (simp add: catalog_check.check_None catalog_ok_def)
  then have "distinct (TunnelHosts c cl)"
    using hosts_of_claims [OF assms(1), of cl "\<lambda>x. arrival_of c x = ArrivalCloudflareTunnel"]
      distinct_claims_on [of "domain_claims c" cl "\<lambda>x. arrival_of c x = ArrivalCloudflareTunnel"]
    by (simp add: TunnelHosts_def)
  moreover have "sorted (TunnelHosts c cl)" by (simp add: TunnelHosts_def)
  ultimately show ?thesis by (simp add: TunnelHosts_set)
qed

theorem TunnelHosts_exact_witness:
  "sorted (TunnelHosts sample_catalog ''prod'') \<and> distinct (TunnelHosts sample_catalog ''prod'') \<and>
   ''*.example.com'' \<in> set (TunnelHosts sample_catalog ''prod'')"
proof -
  have "arrival_of sample_catalog ''public'' = ArrivalCloudflareTunnel \<and>
      claims_host sample_catalog ''public'' ''prod'' ''wild'' ''*.example.com''" by code_simp
  then show ?thesis using TunnelHosts_exact [OF wf_sample_catalog Validate_sample, of "''prod''"] by blast
qed

text \<open>The private entry of a cluster needs a load balancer exactly when a group of a private
  exposure on that cluster is reached from another cluster.\<close>

theorem PrivateEntryNeedsLoadBalancer_exact:
  "PrivateEntryNeedsLoadBalancer c cl \<longleftrightarrow>
     (\<exists>x g gr. arrival_of c x = ArrivalPrivateClusterIP \<and> find_group c x cl g = Some gr \<and> grp_cross_cluster gr)"
proof -
  have "PrivateEntryNeedsLoadBalancer c cl \<longleftrightarrow> (\<exists>x\<in>set (ExposuresOn c cl). arrival_of c x = ArrivalPrivateClusterIP \<and>
      (\<exists>ng\<in>set (Groups c x cl). grp_cross_cluster (ng_group ng)))"
    unfolding PrivateEntryNeedsLoadBalancer_def list_ex_iff by (intro bex_cong refl) simp
  also have "\<dots> \<longleftrightarrow> (\<exists>x g gr. arrival_of c x = ArrivalPrivateClusterIP \<and> find_group c x cl g = Some gr \<and> grp_cross_cluster gr)"
    by (rule ex_group_on)
  finally show ?thesis .
qed

text \<open>The class of an exposure on a cluster is the cluster's own where it states one and the
  exposure's otherwise, also on a cluster the exposure does not run on; an unknown exposure has
  none. \<open>Classes\<close> lists, sorted and once each, the classes in use on a cluster.\<close>

theorem ClassOn_exact:
  "ClassOn c x cl =
     (case mget (cat_exposures c) x of None \<Rightarrow> []
      | Some e \<Rightarrow> (case mget (ex_clusters e) cl of None \<Rightarrow> ex_class e
          | Some clr \<Rightarrow> if cl_class clr \<noteq> [] then cl_class clr else ex_class e)) \<and>
   sorted (Classes c cl) \<and> distinct (Classes c cl) \<and>
   set (Classes c cl) = {ClassOn c x cl | x e. mget (cat_exposures c) x = Some e \<and> has_key (ex_clusters e) cl} - {[]}"
proof (intro conjI)
  show "sorted (Classes c cl)" "distinct (Classes c cl)"
    by (simp_all add: Classes_def sorted_keys_key_set)
  show "set (Classes c cl) = {ClassOn c x cl | x e. mget (cat_exposures c) x = Some e \<and> has_key (ex_clusters e) cl} - {[]}"
    unfolding Classes_def sorted_keys_key_set set_sort_compact set_filter set_map
    by (auto simp: ExposuresOn_iff)
qed (simp add: ClassOn_def zero_cluster_def Let_def split: option.split)

end
