(* ===== verification/Catalog_Projects.thy ===== *)
theory Catalog_Projects imports Catalog_Queries begin

text \<open>
  \<open>Config.WithProjects\<close> of \<open>catalog/projects.go\<close>: the groups generated from the projects'
  endpoints, added to the written catalog, and the result validated. The catalog is passed
  and returned; what a failed call leaves in the caller's catalog is not modelled, because
  no caller reads a catalog after an error. \<open>used\<close>, a Go map to booleans, is the list of
  its keys.
\<close>

section \<open>The generation\<close>

definition override_of :: "project_groups \<Rightarrow> string \<Rightarrow> string \<Rightarrow> project_override" where
  "override_of pg cluster project =
     (case mget (pg_overrides pg) cluster of None \<Rightarrow> zero_override
      | Some projects \<Rightarrow> (case mget projects project of None \<Rightarrow> zero_override | Some v \<Rightarrow> v))"

definition endpoint_domain :: "project_override \<Rightarrow> endpoint \<Rightarrow> domain" where
  "endpoint_domain override endpoint =
     (let d = zero_domain\<lparr>dom_host := ep_hostname endpoint\<rparr>;
          d = (if ep_waf_off endpoint \<noteq> []
               then d\<lparr>dom_waf := WAFOff, dom_waf_reason := ep_waf_off endpoint\<rparr> else d) in
      case mget (po_names override) (ep_hostname endpoint) of
        None \<Rightarrow> d
      | Some names \<Rightarrow>
          let d = d\<lparr>dom_listener_name := dn_listener_name names, dom_secret_name := dn_secret_name names\<rparr> in
          if dn_waf names \<noteq> [] \<or> dn_waf_reason names \<noteq> []
          then d\<lparr>dom_waf := dn_waf names, dom_waf_reason := dn_waf_reason names\<rparr> else d)"

definition endpoint_domains :: "project_override \<Rightarrow> string \<Rightarrow> project \<Rightarrow> domain list" where
  "endpoint_domains override cluster p =
     map (endpoint_domain override) (filter (\<lambda>endpoint. ep_environment endpoint = cluster) (prj_endpoints p))"

definition project_group :: "project_override \<Rightarrow> string \<Rightarrow> project \<Rightarrow> catgroup" where
  "project_group override cluster p =
     \<lparr>grp_description = po_description override, grp_domains = endpoint_domains override cluster p,
      grp_route_namespaces = [prj_name p], grp_cross_cluster = False, grp_record_elsewhere = False,
      grp_backend_tls = False, grp_listener_set = ListenerSetServe\<rparr>"

definition project_group_name :: "project_override \<Rightarrow> project \<Rightarrow> string" where
  "project_group_name override p = (if po_group override \<noteq> [] then po_group override else prj_name p)"

definition used_key :: "string \<Rightarrow> string \<Rightarrow> string" where
  "used_key cluster project = cluster @ ''|'' @ project"

section \<open>WithProjects\<close>

definition add_project :: "string \<Rightarrow> project_groups \<Rightarrow> string \<Rightarrow> project \<Rightarrow>
    catgroup gomap \<times> string list \<Rightarrow> cat_error + catgroup gomap \<times> string list" where
  "add_project exposure pg cluster p = (\<lambda>(groups, used).
     let override = override_of pg cluster (prj_name p);
         name = project_group_name override p in
     if endpoint_domains override cluster p = [] then Inr (groups, used)
     else unless (fail_if (has_key groups name) (EGroupTaken exposure cluster (prj_name p) name))
       (Inr (mput name (project_group override cluster p) groups, used_key cluster (prj_name p) # used)))"

definition add_cluster :: "string \<Rightarrow> project_groups \<Rightarrow> project list \<Rightarrow> string \<Rightarrow>
    catcluster gomap \<times> string list \<Rightarrow> cat_error + catcluster gomap \<times> string list" where
  "add_cluster exposure pg projects cluster = (\<lambda>(clusters, used).
     let row = (case mget clusters cluster of None \<Rightarrow> zero_cluster | Some r \<Rightarrow> r) in
     sum_bind (fold_err (add_project exposure pg cluster) projects (cl_groups row, used))
       (\<lambda>(groups, used). Inr (mput cluster (row\<lparr>cl_groups := groups\<rparr>) clusters, used)))"

definition leftover_override :: "string \<Rightarrow> project_groups \<Rightarrow> string list \<Rightarrow> cat_error option" where
  "leftover_override exposure pg used =
     first_err (\<lambda>(cluster, overrides).
       first_err (\<lambda>(project, _). fail_if (used_key cluster project \<notin> set used)
         (ELeftoverOverride exposure cluster project)) overrides) (pg_overrides pg)"

definition project_exposure :: "project list \<Rightarrow> string \<Rightarrow> exposure \<Rightarrow> cat_error + exposure" where
  "project_exposure projects name e =
     (case ex_project_groups e of
        None \<Rightarrow> Inr e
      | Some pg \<Rightarrow>
          unless (validate_project_groups name e (Some pg))
          (sum_bind (fold_err (add_cluster name pg projects) (sorted_keys (ex_clusters e)) (ex_clusters e, []))
            (\<lambda>(clusters, used). unless (leftover_override name pg used) (Inr (e\<lparr>ex_clusters := clusters\<rparr>)))))"

definition with_exposure :: "project list \<Rightarrow> string \<Rightarrow> exposure gomap \<Rightarrow> cat_error + exposure gomap" where
  "with_exposure projects name exposures =
     (case mget exposures name of
        None \<Rightarrow> Inr exposures
      | Some e \<Rightarrow> sum_bind (project_exposure projects name e) (\<lambda>e'. Inr (mput name e' exposures)))"

definition WithProjects :: "project list \<Rightarrow> catalog \<Rightarrow> cat_error + catalog" where
  "WithProjects projects c =
     unless (first_err (\<lambda>p. first_err (\<lambda>ep. fail_if (\<not> IsDNSClaim (ep_hostname ep))
               (EEndpointHostname (prj_name p) (ep_hostname ep))) (prj_endpoints p)) projects)
     (sum_bind (fold_err (with_exposure projects) (sorted_keys (cat_exposures c)) (cat_exposures c))
       (\<lambda>exposures. let c' = c\<lparr>cat_exposures := exposures\<rparr> in unless (Validate c') (Inr c')))"

section \<open>What is generated\<close>

text \<open>The groups one cluster gains, as a list of named groups, and the exposure and the
  catalog that result. Nothing here is stateful: this is the specification.\<close>

definition generated_entry :: "project_groups \<Rightarrow> string \<Rightarrow> project \<Rightarrow> string \<times> catgroup" where
  "generated_entry pg cluster p =
     (let ov = override_of pg cluster (prj_name p) in (project_group_name ov p, project_group ov cluster p))"

definition generated_groups :: "project_groups \<Rightarrow> project list \<Rightarrow> string \<Rightarrow> (string \<times> catgroup) list" where
  "generated_groups pg projects cluster =
     map (generated_entry pg cluster)
       (filter (\<lambda>p. endpoint_domains (override_of pg cluster (prj_name p)) cluster p \<noteq> []) projects)"

definition served_projects :: "project_groups \<Rightarrow> project list \<Rightarrow> string \<Rightarrow> string list" where
  "served_projects pg projects cluster = map prj_name
     (filter (\<lambda>p. endpoint_domains (override_of pg cluster (prj_name p)) cluster p \<noteq> []) projects)"

definition names_free :: "project_groups \<Rightarrow> project list \<Rightarrow> string \<Rightarrow> catcluster \<Rightarrow> bool" where
  "names_free pg projects cluster row \<longleftrightarrow>
     distinct (map fst (generated_groups pg projects cluster)) \<and>
     (\<forall>name \<in> fst ` set (generated_groups pg projects cluster). \<not> has_key (cl_groups row) name)"

definition generated_cluster :: "project_groups \<Rightarrow> project list \<Rightarrow> string \<Rightarrow> catcluster \<Rightarrow> catcluster" where
  "generated_cluster pg projects cluster row =
     row\<lparr>cl_groups := put_all (generated_groups pg projects cluster) (cl_groups row)\<rparr>"

definition generated_exposure :: "project list \<Rightarrow> exposure \<Rightarrow> exposure" where
  "generated_exposure projects e =
     (case ex_project_groups e of None \<Rightarrow> e
      | Some pg \<Rightarrow> e\<lparr>ex_clusters := map (\<lambda>(k, row). (k, generated_cluster pg projects k row)) (ex_clusters e)\<rparr>)"

definition generated_catalog :: "project list \<Rightarrow> catalog \<Rightarrow> catalog" where
  "generated_catalog projects c =
     c\<lparr>cat_exposures := map (\<lambda>(k, e). (k, generated_exposure projects e)) (cat_exposures c)\<rparr>"

definition used_keys :: "project_groups \<Rightarrow> project list \<Rightarrow> string list \<Rightarrow> string set" where
  "used_keys pg projects clusters =
     {used_key cluster p | cluster p. cluster \<in> set clusters \<and> p \<in> set (served_projects pg projects cluster)}"

definition generation_ok :: "project list \<Rightarrow> exposure \<Rightarrow> bool" where
  "generation_ok projects e =
     (case ex_project_groups e of None \<Rightarrow> True | Some pg \<Rightarrow>
        project_groups_ok e (Some pg) \<and>
        (\<forall>(cluster, row) \<in> set (ex_clusters e). names_free pg projects cluster row) \<and>
        (\<forall>(cluster, overrides) \<in> set (pg_overrides pg). \<forall>(project, _) \<in> set overrides.
           used_key cluster project \<in> used_keys pg projects (map fst (ex_clusters e))))"

lemmas generation_defs = generated_groups_def served_projects_def project_group_def

section \<open>The loops compute the generated catalog\<close>

abbreviation served :: "project_groups \<Rightarrow> string \<Rightarrow> project \<Rightarrow> bool" where
  "served pg cluster p \<equiv> endpoint_domains (override_of pg cluster (prj_name p)) cluster p \<noteq> []"

definition add_group :: "string \<Rightarrow> project_groups \<Rightarrow> string \<Rightarrow> project \<Rightarrow> catgroup gomap \<Rightarrow>
    cat_error + catgroup gomap" where
  "add_group exposure pg cluster p groups =
     (let override = override_of pg cluster (prj_name p); name = project_group_name override p in
      if \<not> served pg cluster p then Inr groups
      else if has_key groups name then Inl (EGroupTaken exposure cluster (prj_name p) name)
      else Inr (mput name (project_group override cluster p) groups))"

definition note_used :: "project_groups \<Rightarrow> string \<Rightarrow> project \<Rightarrow> string list \<Rightarrow> string list" where
  "note_used pg cluster p used = (if served pg cluster p then used_key cluster (prj_name p) # used else used)"

lemma add_projects_frame:
  "fold_err (add_project exposure pg cluster) ps (groups, used) =
     sum_bind (fold_err (add_group exposure pg cluster) ps groups)
       (\<lambda>groups. Inr (groups, fold (note_used pg cluster) ps used))"
  by (rule fold_err_frame)
    (auto simp: add_project_def add_group_def note_used_def unless_def fail_if_def Let_def)

lemma add_groups_Inr:
  "fold_err (add_group exposure pg cluster) ps groups = Inr groups' \<longleftrightarrow>
     distinct (map fst (generated_groups pg ps cluster)) \<and>
     (\<forall>name \<in> fst ` set (generated_groups pg ps cluster). \<not> has_key groups name) \<and>
     groups' = put_all (generated_groups pg ps cluster) groups"
proof -
  let ?kv = "generated_entry pg cluster"
  have a: "fold_err (add_group exposure pg cluster) ps groups =
      fold_err (add_group exposure pg cluster) (filter (served pg cluster) ps) groups"
    by (rule fold_err_filter) (simp add: add_group_def Let_def)
  have b: "fold_err (add_group exposure pg cluster) (filter (served pg cluster) ps) groups = Inr groups' \<longleftrightarrow>
     distinct (map (\<lambda>x. fst (?kv x)) (filter (served pg cluster) ps)) \<and>
     (\<forall>x\<in>set (filter (served pg cluster) ps). \<not> has_key groups (fst (?kv x))) \<and>
     groups' = put_all (map ?kv (filter (served pg cluster) ps)) groups"
    by (rule fold_err_put_fresh [where err = "\<lambda>p. EGroupTaken exposure cluster (prj_name p) (fst (?kv p))"])
      (simp add: add_group_def generated_entry_def Let_def)
  show ?thesis
    unfolding a b generated_groups_def map_map comp_def set_map ball_simps ..
qed

definition add_row :: "string \<Rightarrow> project_groups \<Rightarrow> project list \<Rightarrow> string \<Rightarrow> catcluster gomap \<Rightarrow>
    cat_error + catcluster gomap" where
  "add_row exposure pg projects cluster clusters =
     (let row = (case mget clusters cluster of None \<Rightarrow> zero_cluster | Some r \<Rightarrow> r) in
      sum_bind (fold_err (add_group exposure pg cluster) projects (cl_groups row))
        (\<lambda>groups. Inr (mput cluster (row\<lparr>cl_groups := groups\<rparr>) clusters)))"

lemma add_clusters_frame:
  "fold_err (add_cluster exposure pg ps) ks (clusters, used) =
     sum_bind (fold_err (add_row exposure pg ps) ks clusters)
       (\<lambda>clusters. Inr (clusters, fold (\<lambda>cluster. fold (note_used pg cluster) ps) ks used))"
  by (rule fold_err_frame)
    (auto simp: add_cluster_def add_row_def add_projects_frame Let_def sum_bind_def split: sum.splits)

lemma add_rows_Inr:
  assumes "wf_map m" and "distinct ks" and "set ks \<subseteq> fst ` set m"
  shows "fold_err (add_row exposure pg ps) ks m = Inr m' \<longleftrightarrow>
     (\<forall>k\<in>set ks. names_free pg ps k (the (mget m k))) \<and> m' = update_keys (generated_cluster pg ps) (set ks) m"
proof -
  let ?g = "\<lambda>k row. sum_bind (fold_err (add_group exposure pg k) ps (cl_groups row)) (\<lambda>gs. Inr (row\<lparr>cl_groups := gs\<rparr>))"
  have g: "?g k row = Inr row' \<longleftrightarrow> names_free pg ps k row \<and> row' = generated_cluster pg ps k row" for k row row'
    by (auto simp: add_groups_Inr names_free_def generated_cluster_def)
  have "fold_err (add_row exposure pg ps) ks m = Inr m' \<longleftrightarrow>
     (\<forall>k\<in>set ks. \<exists>v'. ?g k (the (mget m k)) = Inr v') \<and> m' = update_keys (\<lambda>k v. projr (?g k v)) (set ks) m"
    by (rule fold_err_update) (use assms in \<open>auto simp: add_row_def sum_bind_def split: sum.splits\<close>)
  moreover have "update_keys (\<lambda>k v. projr (?g k v)) (set ks) m = update_keys (generated_cluster pg ps) (set ks) m"
    if "\<forall>k\<in>set ks. \<exists>v'. ?g k (the (mget m k)) = Inr v'"
    unfolding update_keys_def
  proof (rule map_cong [OF refl])
    fix kv
    assume "kv \<in> set m"
    obtain k v where kv: "kv = (k, v)" by (cases kv)
    with \<open>kv \<in> set m\<close> have "(k, v) \<in> set m" by simp
    then have "mget m k = Some v" using assms(1) by (simp add: wf_map_def mget_def)
    with that have "k \<in> set ks \<Longrightarrow> \<exists>v'. ?g k v = Inr v'" by force
    then have "k \<in> set ks \<Longrightarrow> ?g k v = Inr (generated_cluster pg ps k v)" unfolding g by blast
    then show "(case kv of (k, v) \<Rightarrow> (k, if k \<in> set ks then projr (?g k v) else v)) =
        (case kv of (k, v) \<Rightarrow> (k, if k \<in> set ks then generated_cluster pg ps k v else v))"
      unfolding kv by (simp del: sum_bind_Inr)
  qed
  ultimately show ?thesis unfolding g by auto
qed

lemma set_note_used: "set (fold (note_used pg cluster) ps used) =
    used_key cluster ` set (served_projects pg ps cluster) \<union> set used"
  by (induction ps arbitrary: used) (auto simp: note_used_def served_projects_def)

lemma set_note_used_clusters:
  "set (fold (\<lambda>cluster. fold (note_used pg cluster) ps) ks used) = used_keys pg ps ks \<union> set used"
  by (induction ks arbitrary: used) (auto simp: set_note_used used_keys_def)

lemma leftover_override_None:
  "leftover_override x pg used = None \<longleftrightarrow>
     (\<forall>(cluster, overrides) \<in> set (pg_overrides pg). \<forall>(project, _) \<in> set overrides. used_key cluster project \<in> set used)"
  by (simp add: leftover_override_def first_err_None case_prod_unfold)

lemma update_keys_all: "fst ` set m \<subseteq> ks \<Longrightarrow> update_keys f ks m = map (\<lambda>(k, v). (k, f k v)) m"
  by (force simp: update_keys_def)

lemma project_exposure_Inr:
  assumes "wf_map (ex_clusters e)"
  shows "project_exposure ps x e = Inr e' \<longleftrightarrow> generation_ok ps e \<and> e' = generated_exposure ps e"
proof (cases "ex_project_groups e")
  case None
  then show ?thesis by (auto simp: project_exposure_def generation_ok_def generated_exposure_def)
next
  case (Some pg)
  let ?m = "ex_clusters e"
  have rows: "fold_err (add_row x pg ps) (sorted_keys ?m) ?m = Inr m' \<longleftrightarrow>
      (\<forall>(k, row) \<in> set ?m. names_free pg ps k row) \<and> m' = map (\<lambda>(k, row). (k, generated_cluster pg ps k row)) ?m" for m'
  proof -
    have "(\<forall>k\<in>set (sorted_keys ?m). names_free pg ps k (the (mget ?m k))) \<longleftrightarrow> (\<forall>(k, row) \<in> set ?m. names_free pg ps k row)"
      using assms by (rule ball_keys_iff)
    then show ?thesis
      using assms by (subst add_rows_Inr) (simp_all add: update_keys_all)
  qed
  have used: "set (fold (\<lambda>cluster. fold (note_used pg cluster) ps) (sorted_keys ?m) []) = used_keys pg ps (map fst ?m)"
    by (simp add: set_note_used_clusters) (simp add: used_keys_def)
  show ?thesis
    unfolding project_exposure_def generation_ok_def generated_exposure_def Some option.case
      unless_Inr sum_bind_Inr add_clusters_frame project_groups_check.check_None
    by (auto simp: rows leftover_override_None used)
qed

lemma WithProjects_Inr:
  assumes "wf_catalog c"
  shows "WithProjects ps c = Inr c' \<longleftrightarrow>
     (\<forall>p\<in>set ps. \<forall>ep\<in>set (prj_endpoints p). IsDNSClaim (ep_hostname ep)) \<and>
     (\<forall>(x, e)\<in>set (cat_exposures c). generation_ok ps e) \<and>
     c' = generated_catalog ps c \<and> catalog_ok c'"
proof -
  let ?m = "cat_exposures c"
  have wf: "wf_map ?m" and wf_clusters: "\<And>k e. (k, e) \<in> set ?m \<Longrightarrow> wf_map (ex_clusters e)"
    using assms by (auto simp: wf_catalog_def wf_exposure_def)
  have loop: "fold_err (with_exposure ps) (sorted_keys ?m) ?m = Inr m' \<longleftrightarrow>
      (\<forall>(x, e)\<in>set ?m. generation_ok ps e) \<and> m' = map (\<lambda>(k, e). (k, generated_exposure ps e)) ?m" for m'
  proof -
    let ?g = "project_exposure ps"
    have "fold_err (with_exposure ps) (sorted_keys ?m) ?m = Inr m' \<longleftrightarrow>
       (\<forall>k\<in>set (sorted_keys ?m). \<exists>v'. ?g k (the (mget ?m k)) = Inr v') \<and>
       m' = update_keys (\<lambda>k v. projr (?g k v)) (set (sorted_keys ?m)) ?m"
      by (rule fold_err_update) (simp_all add: with_exposure_def sum_bind_def wf)
    moreover have "(\<forall>k\<in>set (sorted_keys ?m). \<exists>v'. ?g k (the (mget ?m k)) = Inr v') \<longleftrightarrow>
        (\<forall>(x, e)\<in>set ?m. generation_ok ps e)"
    proof -
      have "(\<forall>k\<in>set (sorted_keys ?m). \<exists>v'. ?g k (the (mget ?m k)) = Inr v') \<longleftrightarrow>
          (\<forall>(x, e)\<in>set ?m. \<exists>v'. ?g x e = Inr v')"
        by (rule ball_keys_iff [OF wf])
      then show ?thesis by (auto simp: project_exposure_Inr [OF wf_clusters])
    qed
    moreover have "update_keys (\<lambda>k v. projr (?g k v)) (set (sorted_keys ?m)) ?m =
        map (\<lambda>(k, e). (k, generated_exposure ps e)) ?m" if "\<forall>(x, e)\<in>set ?m. generation_ok ps e"
    proof (subst update_keys_all, simp, rule map_cong [OF refl])
      fix kv assume kv: "kv \<in> set ?m"
      obtain k e where ke: "kv = (k, e)" by (cases kv)
      with kv that have "?g k e = Inr (generated_exposure ps e)"
        by (auto simp: project_exposure_Inr wf_clusters)
      then show "(case kv of (k, v) \<Rightarrow> (k, projr (?g k v))) = (case kv of (k, e) \<Rightarrow> (k, generated_exposure ps e))"
        by (simp add: ke)
    qed
    ultimately show ?thesis by auto
  qed
  have claims: "first_err (\<lambda>p. first_err (\<lambda>ep. fail_if (\<not> IsDNSClaim (ep_hostname ep))
               (EEndpointHostname (prj_name p) (ep_hostname ep))) (prj_endpoints p)) ps = None \<longleftrightarrow>
     (\<forall>p\<in>set ps. \<forall>ep\<in>set (prj_endpoints p). IsDNSClaim (ep_hostname ep))"
    by (simp add: first_err_None)
  show ?thesis
    unfolding WithProjects_def generated_catalog_def unless_Inr sum_bind_Inr claims
    by (auto simp: loop Let_def catalog_check.check_None)
qed

section \<open>What the generated catalog holds\<close>

lemma map_of_map_snd: "map_of (map (\<lambda>(k, v). (k, f k v)) m) k = map_option (f k) (map_of m k)"
  by (induction m) auto

lemma mget_generated_exposures:
  "mget (cat_exposures (generated_catalog ps c)) x = map_option (generated_exposure ps) (mget (cat_exposures c) x)"
  by (simp add: generated_catalog_def mget_def map_of_map_snd)

lemma mget_generated_clusters:
  "mget (ex_clusters (generated_exposure ps e)) cl = map_option (\<lambda>row.
     case ex_project_groups e of None \<Rightarrow> row | Some pg \<Rightarrow> generated_cluster pg ps cl row) (mget (ex_clusters e) cl)"
  by (cases "ex_project_groups e")
    (simp_all add: generated_exposure_def mget_def map_of_map_snd option.map_ident)

lemma find_group_generated:
  assumes "wf_catalog c" and "generation_ok ps e" and "mget (cat_exposures c) x = Some e"
    and "ex_project_groups e = Some pg" and "mget (ex_clusters e) cl = Some row"
  shows "find_group (generated_catalog ps c) x cl g =
     (case map_of (generated_groups pg ps cl) g of Some gr \<Rightarrow> Some gr | None \<Rightarrow> find_group c x cl g)"
proof -
  have "(cl, row) \<in> set (ex_clusters e)" using assms(5) by (simp add: mget_def map_of_SomeD)
  with assms(2,4) have "names_free pg ps cl row" by (auto simp: generation_ok_def)
  then show ?thesis
    using assms(3-5) by (simp add: find_group_def mget_generated_exposures mget_generated_clusters
        generated_cluster_def names_free_def mget_put_all split: option.split)
qed

lemma find_group_written:
  assumes "wf_catalog c" and "WithProjects ps c = Inr c'" and "find_group c x cl g = Some gr"
  shows "find_group c' x cl g = Some gr"
proof -
  from assms(3) obtain e row where e: "mget (cat_exposures c) x = Some e"
      and row: "mget (ex_clusters e) cl = Some row" and g: "mget (cl_groups row) g = Some gr"
    by (auto simp: find_group_def bind_eq_Some_conv)
  have "(x, e) \<in> set (cat_exposures c)" using e by (simp add: mget_def map_of_SomeD)
  with assms(1,2) have ok: "generation_ok ps e" and c': "c' = generated_catalog ps c"
    by (auto simp: WithProjects_Inr)
  show ?thesis
  proof (cases "ex_project_groups e")
    case None
    then show ?thesis
      using e row g by (simp add: c' find_group_def mget_generated_exposures mget_generated_clusters)
  next
    case (Some pg)
    have "(cl, row) \<in> set (ex_clusters e)" using row by (simp add: mget_def map_of_SomeD)
    with ok Some have "names_free pg ps cl row" by (auto simp: generation_ok_def)
    then have "map_of (generated_groups pg ps cl) g = None"
      using g by (auto simp: names_free_def has_key_def map_of_eq_None_iff)
    with assms(3) show ?thesis
      by (simp add: c' find_group_generated [OF assms(1) ok e Some row])
  qed
qed

lemma find_group_of_project:
  assumes "wf_catalog c" and "WithProjects ps c = Inr c'"
    and "mget (cat_exposures c) x = Some e" and "ex_project_groups e = Some pg"
    and "has_key (ex_clusters e) cl" and "p \<in> set ps" and "served pg cl p"
  shows "find_group c' x cl (fst (generated_entry pg cl p)) = Some (snd (generated_entry pg cl p))"
proof -
  from assms(5) obtain row where row: "mget (ex_clusters e) cl = Some row" by (auto simp: has_key_def)
  have "(x, e) \<in> set (cat_exposures c)" using assms(3) by (simp add: mget_def map_of_SomeD)
  with assms(1,2) have ok: "generation_ok ps e" and c': "c' = generated_catalog ps c"
    by (auto simp: WithProjects_Inr)
  have "(cl, row) \<in> set (ex_clusters e)" using row by (simp add: mget_def map_of_SomeD)
  with ok assms(4) have "distinct (map fst (generated_groups pg ps cl))"
    by (auto simp: generation_ok_def names_free_def)
  moreover have "generated_entry pg cl p \<in> set (generated_groups pg ps cl)"
    using assms(6,7) by (simp add: generated_groups_def)
  ultimately have "map_of (generated_groups pg ps cl) (fst (generated_entry pg cl p)) = Some (snd (generated_entry pg cl p))"
    by simp
  then show ?thesis by (simp add: c' find_group_generated [OF assms(1) ok assms(3,4) row])
qed

lemma served_iff: "served pg cl p \<longleftrightarrow> (\<exists>ep\<in>set (prj_endpoints p). ep_environment ep = cl)"
  by (auto simp: endpoint_domains_def filter_empty_conv)

lemma dom_host_endpoint_domain [simp]: "dom_host (endpoint_domain ov ep) = ep_hostname ep"
  by (simp add: endpoint_domain_def Let_def zero_domain_def split: option.split)

lemma Hosts_project_group:
  "Hosts (project_group ov cl p) = map ep_hostname (filter (\<lambda>ep. ep_environment ep = cl) (prj_endpoints p))"
  by (simp add: Hosts_def project_group_def endpoint_domains_def comp_def)

section \<open>Properties\<close>

text \<open>C4 The nested loops of \<open>WithProjects\<close> compute \<open>generated_catalog\<close>, and accept exactly
  when every endpoint can carry a record, every generated name is free on its cluster, every
  override is used, and the catalog that results is valid.\<close>

theorem WithProjects_refines:
  assumes "wf_catalog c"
  shows "WithProjects ps c = Inr c' \<longleftrightarrow>
     (\<forall>p\<in>set ps. \<forall>ep\<in>set (prj_endpoints p). IsDNSClaim (ep_hostname ep)) \<and>
     (\<forall>(x, e)\<in>set (cat_exposures c). generation_ok ps e) \<and>
     c' = generated_catalog ps c \<and> catalog_ok c'"
  using assms by (rule WithProjects_Inr)

lemma WithProjects_sample:
  "WithProjects [sample_shop] sample_catalog = Inr (generated_catalog [sample_shop] sample_catalog)"
  by code_simp

theorem WithProjects_refines_witness: "catalog_ok (generated_catalog [sample_shop] sample_catalog)"
  using WithProjects_sample WithProjects_refines [OF wf_sample_catalog] by blast

text \<open>Generating the projects' groups never replaces a claim: every group written in the
  catalog is in the result unchanged, and the result is a valid catalog.\<close>

theorem WithProjects_keeps_written:
  assumes "wf_catalog c" and "WithProjects ps c = Inr c'" and "find_group c x cl g = Some gr"
  shows "find_group c' x cl g = Some gr \<and> Validate c' = None"
  using find_group_written [OF assms] assms(1,2)
  by (auto simp: WithProjects_Inr catalog_check.check_None)

theorem WithProjects_keeps_written_witness:
  "find_group (generated_catalog [sample_shop] sample_catalog) ''public'' ''prod'' ''wild'' = Some sample_wild"
proof -
  have "find_group sample_catalog ''public'' ''prod'' ''wild'' = Some sample_wild" by code_simp
  from WithProjects_keeps_written [OF wf_sample_catalog WithProjects_sample this] show ?thesis ..
qed

text \<open>Every endpoint a project has on a cluster of an exposure with generated groups is
  answered there, by a group that admits the project's own namespace alone and is served from
  its own ListenerSet.\<close>

theorem WithProjects_serves_endpoints:
  assumes "wf_catalog c" and "WithProjects ps c = Inr c'"
    and "mget (cat_exposures c) x = Some e" and "ex_project_groups e = Some pg"
    and "has_key (ex_clusters e) (ep_environment ep)" and "p \<in> set ps" and "ep \<in> set (prj_endpoints p)"
  shows "\<exists>g gr. find_group c' x (ep_environment ep) g = Some gr \<and> ep_hostname ep \<in> set (Hosts gr) \<and>
     grp_route_namespaces gr = [prj_name p] \<and> grp_listener_set gr = ListenerSetServe"
proof -
  let ?cl = "ep_environment ep"
  let ?ov = "override_of pg ?cl (prj_name p)"
  have "served pg ?cl p" unfolding served_iff using assms(7) by blast
  from find_group_of_project [OF assms(1-6) this]
  have "find_group c' x ?cl (project_group_name ?ov p) = Some (project_group ?ov ?cl p)"
    by (simp add: generated_entry_def Let_def)
  moreover have "ep_hostname ep \<in> set (Hosts (project_group ?ov ?cl p))"
    using assms(7) by (simp add: Hosts_project_group)
  ultimately show ?thesis by (force simp: project_group_def)
qed

theorem WithProjects_serves_endpoints_witness:
  "\<exists>g gr. find_group (generated_catalog [sample_shop] sample_catalog) ''public'' ''prod'' g = Some gr \<and>
     ''shop.example.org'' \<in> set (Hosts gr) \<and> grp_route_namespaces gr = [''shop''] \<and>
     grp_listener_set gr = ListenerSetServe"
proof -
  have "mget (cat_exposures sample_catalog) ''public'' = Some sample_public" by code_simp
  from WithProjects_serves_endpoints [OF wf_sample_catalog WithProjects_sample this,
      of "\<lparr>pg_overrides = [(''prod'', [(''shop'', sample_override)])]\<rparr>" "hd (prj_endpoints sample_shop)" sample_shop]
  show ?thesis by (simp add: sample_public_def sample_shop_def has_key_def mget_def)
qed

text \<open>\<open>WithProjects\<close> is to be called once: when it generated at least one group, a second
  call on its result is refused.\<close>

theorem WithProjects_once:
  assumes "wf_catalog c" and "WithProjects ps c = Inr c'"
    and "mget (cat_exposures c) x = Some e" and "ex_project_groups e = Some pg"
    and "has_key (ex_clusters e) (ep_environment ep)" and "p \<in> set ps" and "ep \<in> set (prj_endpoints p)"
  shows "\<exists>err. WithProjects ps c' = Inl err"
proof -
  let ?cl = "ep_environment ep" and ?e = "generated_exposure ps e"
  from assms(5) obtain row where row: "mget (ex_clusters e) ?cl = Some row" by (auto simp: has_key_def)
  have c': "c' = generated_catalog ps c" using assms(1,2) by (simp add: WithProjects_Inr)
  have e': "mget (cat_exposures c') x = Some ?e" by (simp add: c' mget_generated_exposures assms(3))
  have pg': "ex_project_groups ?e = Some pg" by (simp add: generated_exposure_def assms(4))
  have row': "mget (ex_clusters ?e) ?cl = Some (generated_cluster pg ps ?cl row)"
    by (simp add: mget_generated_clusters row assms(4))
  have served: "served pg ?cl p" unfolding served_iff using assms(7) by blast
  let ?n = "fst (generated_entry pg ?cl p)"
  have "has_key (cl_groups (generated_cluster pg ps ?cl row)) ?n"
    using find_group_of_project [OF assms(1-6) served] by (simp add: find_group_def e' row' has_key_def)
  moreover have "?n \<in> fst ` set (generated_groups pg ps ?cl)"
    using assms(6) served by (simp add: generated_groups_def)
  ultimately have "\<not> names_free pg ps ?cl (generated_cluster pg ps ?cl row)"
    unfolding names_free_def by blast
  moreover have "(?cl, generated_cluster pg ps ?cl row) \<in> set (ex_clusters ?e)"
    using row' by (simp add: mget_def map_of_SomeD)
  ultimately have "\<not> generation_ok ps ?e" by (auto simp: generation_ok_def pg')
  moreover have "(x, ?e) \<in> set (cat_exposures c')" using e' by (simp add: mget_def map_of_SomeD)
  moreover have "wf_catalog c'"
    using assms(1) by (auto simp: c' wf_catalog_def wf_exposure_def wf_cluster_def wf_map_def generated_catalog_def
        generated_exposure_def generated_cluster_def comp_def case_prod_unfold wf_put_all [unfolded wf_map_def]
        split: option.split)
  ultimately have "WithProjects ps c' \<noteq> Inr c2" for c2 by (auto simp: WithProjects_Inr)
  then show ?thesis by (cases "WithProjects ps c'") auto
qed

theorem WithProjects_once_witness:
  "\<exists>err. WithProjects [sample_shop] (generated_catalog [sample_shop] sample_catalog) = Inl err"
proof -
  have "mget (cat_exposures sample_catalog) ''public'' = Some sample_public" by code_simp
  from WithProjects_once [OF wf_sample_catalog WithProjects_sample this,
      of "\<lparr>pg_overrides = [(''prod'', [(''shop'', sample_override)])]\<rparr>" "hd (prj_endpoints sample_shop)" sample_shop]
  show ?thesis by (simp add: sample_public_def sample_shop_def has_key_def mget_def)
qed

end
