(* ===== verification/Catalog_Entry.thy ===== *)
theory Catalog_Entry imports Go_Prelude begin

text \<open>
  \<open>catalog/privateentry.go\<close>: the cluster's private entry, the certificate policy its groups
  take, and the values the charts are given. A \<open>strings.Builder\<close> only grows, so a \<open>Write\<close>
  method is the list of lines it appends.
\<close>

section \<open>Types\<close>

record group_certificate =
  gc_issuer :: string
  gc_duration :: string
  gc_renew_before :: string
  gc_key_algorithm :: string
  gc_key_size :: int

record private_entry_names =
  pn_namespace :: string
  pn_gateway :: string
  pn_listener :: string
  pn_secret :: string
  pn_issuer :: string
  pn_traffic_policy :: string
  pn_health_path :: string
  pn_service :: string
  pn_cluster_ip_service :: string

record private_entry_input =
  pi_names :: private_entry_names
  pi_zone :: string
  pi_cluster_ip :: string
  pi_load_balancer :: bool
  pi_class :: string
  pi_key_algorithm :: string
  pi_key_size :: int
  pi_duration :: string
  pi_renew_before :: string
  pi_minimum_tls_version :: string

record private_entry =
  pe_names :: private_entry_names
  pe_hostname :: string
  pe_cluster_ip :: string
  pe_load_balancer :: bool
  pe_class :: string
  pe_key_algorithm :: string
  pe_key_size :: int
  pe_duration :: string
  pe_renew_before :: string
  pe_minimum_tls_version :: string

record private_entry_render =
  pr_cluster_name :: string
  pr_fast_health_check :: bool
  pr_source_ranges :: "string list"

definition rotationPolicyAlways :: string where "rotationPolicyAlways = ''Always''"
definition clusterIssuerKind :: string where "clusterIssuerKind = ''ClusterIssuer''"
definition issuerGroup :: string where "issuerGroup = ''cert-manager.io''"

section \<open>The entry\<close>

definition NewPrivateEntry :: "private_entry_input \<Rightarrow> private_entry" where
  "NewPrivateEntry i = \<lparr>pe_names = pi_names i, pe_hostname = ''gateway.'' @ pi_zone i,
     pe_cluster_ip = pi_cluster_ip i, pe_load_balancer = pi_load_balancer i, pe_class = pi_class i,
     pe_key_algorithm = pi_key_algorithm i, pe_key_size = pi_key_size i, pe_duration = pi_duration i,
     pe_renew_before = pi_renew_before i,
     pe_minimum_tls_version = trim_prefix (pi_minimum_tls_version i) ''TLS''\<rparr>"

definition GroupCertificate :: "private_entry \<Rightarrow> group_certificate" where
  "GroupCertificate e = \<lparr>gc_issuer = pn_issuer (pe_names e), gc_duration = pe_duration e,
     gc_renew_before = pe_renew_before e, gc_key_algorithm = pe_key_algorithm e, gc_key_size = pe_key_size e\<rparr>"

definition lbAnnotation :: string where
  "lbAnnotation = ''      service.beta.kubernetes.io/aws-load-balancer-''"

definition PrivateEntry_WriteValues :: "private_entry \<Rightarrow> private_entry_render \<Rightarrow> string list" where
  "PrivateEntry_WriteValues e r = (let n = pe_names e in
     [''privateEntry:'',
      ''  namespace: '' @ pn_namespace n,
      ''  gatewayName: '' @ pn_gateway n,
      ''  listenerName: '' @ pn_listener n] @
     (if pe_class e \<noteq> [] then [''  class: '' @ pe_class e] else []) @
     [''  hostname: '' @ go_quote (pe_hostname e)] @
     (if pe_cluster_ip e \<noteq> [] then
       [''  clusterIP: '' @ pe_cluster_ip e, ''  clusterIPService: '' @ pn_cluster_ip_service n] else []) @
     [''  tlsSecretName: '' @ pn_secret n,
      ''  certificate:'',
      ''    duration: '' @ go_quote (pe_duration e),
      ''    renewBefore: '' @ go_quote (pe_renew_before e),
      ''    privateKey:'',
      ''      algorithm: '' @ pe_key_algorithm e,
      ''      size: '' @ go_decimal (pe_key_size e),
      ''    issuerRef:'',
      ''      name: '' @ pn_issuer n,
      ''  health:'',
      ''    name: '' @ pn_gateway n,
      ''    path: '' @ pn_health_path n,
      ''    body: '' @ go_quote (pr_cluster_name r @ '' private ingress ok'' @ newline),
      ''  clientTrafficPolicy:'',
      ''    name: '' @ pn_traffic_policy n,
      ''    tls:'',
      ''      minVersion: '' @ go_quote (pe_minimum_tls_version e),
      ''      maxVersion: '' @ go_quote (pe_minimum_tls_version e)] @
     (if \<not> pe_load_balancer e then [] else
      [''  service:'',
       ''    name: '' @ pn_service n,
       ''    annotations:'',
       lbAnnotation @ ''scheme: internal'',
       lbAnnotation @ ''nlb-target-type: ip'',
       lbAnnotation @ ''attributes: load_balancing.cross_zone.enabled=true'',
       lbAnnotation @ ''target-group-attributes: deregistration_delay.timeout_seconds=30'',
       lbAnnotation @ ''healthcheck-protocol: TCP'',
       lbAnnotation @ ''healthcheck-port: traffic-port''] @
      (if pr_fast_health_check r then
       [lbAnnotation @ ''healthcheck-interval: '' @ go_quote ''5'',
        lbAnnotation @ ''healthcheck-timeout: '' @ go_quote ''3'',
        lbAnnotation @ ''healthcheck-healthy-threshold: '' @ go_quote ''2'',
        lbAnnotation @ ''healthcheck-unhealthy-threshold: '' @ go_quote ''2''] else []) @
      [''    loadBalancerSourceRanges:''] @ map (\<lambda>source. ''      - '' @ source) (pr_source_ranges r)))"

section \<open>The certificate\<close>

definition Certificate_WriteValues :: "group_certificate \<Rightarrow> string \<Rightarrow> string list" where
  "Certificate_WriteValues c indent =
     (if gc_duration c \<noteq> [] then [indent @ ''duration: '' @ go_quote (gc_duration c)] else []) @
     (if gc_renew_before c \<noteq> [] then [indent @ ''renewBefore: '' @ go_quote (gc_renew_before c)] else []) @
     (if gc_key_size c \<noteq> 0 then
       [indent @ ''privateKey:'',
        indent @ ''  algorithm: '' @ gc_key_algorithm c,
        indent @ ''  size: '' @ go_decimal (gc_key_size c),
        indent @ ''  rotationPolicy: '' @ rotationPolicyAlways] else []) @
     [indent @ ''issuerRef:'',
      indent @ ''  name: '' @ gc_issuer c,
      indent @ ''  kind: '' @ clusterIssuerKind,
      indent @ ''  group: '' @ issuerGroup]"

definition Certificate_WriteChartValues :: "group_certificate \<Rightarrow> string \<Rightarrow> string list" where
  "Certificate_WriteChartValues c indent =
     (if gc_duration c \<noteq> [] then [indent @ ''duration: '' @ go_quote (gc_duration c)] else []) @
     (if gc_renew_before c \<noteq> [] then [indent @ ''renewBefore: '' @ go_quote (gc_renew_before c)] else []) @
     (if gc_key_size c \<noteq> 0 then
       [indent @ ''privateKey:'',
        indent @ ''  algorithm: '' @ gc_key_algorithm c,
        indent @ ''  size: '' @ go_decimal (gc_key_size c)] else []) @
     [indent @ ''issuerRef:'',
      indent @ ''  name: '' @ gc_issuer c]"

definition Certificate_WriteOverride :: "group_certificate \<Rightarrow> string \<Rightarrow> string list" where
  "Certificate_WriteOverride c indent =
     [indent @ ''duration: '' @ go_quote (gc_duration c),
      indent @ ''renewBefore: '' @ go_quote (gc_renew_before c),
      indent @ ''privateKey:'',
      indent @ ''  algorithm: '' @ gc_key_algorithm c,
      indent @ ''  size: '' @ go_decimal (gc_key_size c),
      indent @ ''issuerRef:'',
      indent @ ''  name: '' @ gc_issuer c]"

section \<open>Properties\<close>

text \<open>The three renderings of one certificate policy agree: the chart's values are those of
  \<open>WriteValues\<close> less the three lines the charts default, in the same order; and on a policy that
  states everything the override writes the chart's values.\<close>

theorem Certificate_renderings_agree:
  "Certificate_WriteChartValues c indent =
     filter (\<lambda>l. l \<notin> {indent @ ''  rotationPolicy: Always'', indent @ ''  kind: ClusterIssuer'', indent @ ''  group: cert-manager.io''})
       (Certificate_WriteValues c indent) \<and>
   (gc_duration c = [] \<or> gc_renew_before c = [] \<or> gc_key_size c = 0 \<or>
      Certificate_WriteOverride c indent = Certificate_WriteChartValues c indent)"
  by (auto simp: Certificate_WriteChartValues_def Certificate_WriteValues_def Certificate_WriteOverride_def
      rotationPolicyAlways_def clusterIssuerKind_def issuerGroup_def)

text \<open>The entry's own listener and the groups beside it on the same Gateway are issued under
  one policy: the certificate block of the entry's values is, line for line, the override a
  private group writes. The load balancer's block is written exactly when the entry keeps one.\<close>

theorem PrivateEntry_policy_shared:
  "(\<exists>before after. PrivateEntry_WriteValues e r =
      before @ [''  certificate:''] @ Certificate_WriteOverride (GroupCertificate e) ''    '' @ after) \<and>
   (''    loadBalancerSourceRanges:'' \<in> set (PrivateEntry_WriteValues e r) \<longleftrightarrow> pe_load_balancer e)"
proof -
  obtain head where head: "PrivateEntry_WriteValues e r = head @
     [''  certificate:'',
      ''    duration: '' @ go_quote (pe_duration e),
      ''    renewBefore: '' @ go_quote (pe_renew_before e),
      ''    privateKey:'',
      ''      algorithm: '' @ pe_key_algorithm e,
      ''      size: '' @ go_decimal (pe_key_size e),
      ''    issuerRef:'',
      ''      name: '' @ pn_issuer (pe_names e)] @
     drop (length head + 8) (PrivateEntry_WriteValues e r)"
    by (rule that [of "[''privateEntry:'', ''  namespace: '' @ pn_namespace (pe_names e),
        ''  gatewayName: '' @ pn_gateway (pe_names e), ''  listenerName: '' @ pn_listener (pe_names e)] @
       (if pe_class e \<noteq> [] then [''  class: '' @ pe_class e] else []) @
       [''  hostname: '' @ go_quote (pe_hostname e)] @
       (if pe_cluster_ip e \<noteq> [] then
         [''  clusterIP: '' @ pe_cluster_ip e, ''  clusterIPService: '' @ pn_cluster_ip_service (pe_names e)] else []) @
       [''  tlsSecretName: '' @ pn_secret (pe_names e)]"])
      (simp add: PrivateEntry_WriteValues_def Let_def)
  then have "PrivateEntry_WriteValues e r = head @ [''  certificate:''] @
      Certificate_WriteOverride (GroupCertificate e) ''    '' @ drop (length head + 8) (PrivateEntry_WriteValues e r)"
    by (simp add: Certificate_WriteOverride_def GroupCertificate_def)
  moreover have "''    loadBalancerSourceRanges:'' \<in> set (PrivateEntry_WriteValues e r) \<longleftrightarrow> pe_load_balancer e"
    by (simp add: PrivateEntry_WriteValues_def Let_def)
  ultimately show ?thesis by blast
qed

end
