(* ===== verification/Catalog_Groups.thy ===== *)
theory Catalog_Groups imports Catalog_Projects Catalog_Entry begin

text \<open>
  \<open>catalog/grants.go\<close> and \<open>catalog/groups.go\<close>: the route grants, the ListenerSet groups
  derived from a catalog, and the ListenerSet each project's routes move to. A pointer into
  \<open>GroupsValue.Groups\<close> is an index of that list, so comparing pointers is comparing indices.
  What a grant admits is stated with the meaning Kubernetes gives a label selector.
\<close>

section \<open>Grants\<close>

record label_expression =
  le_key :: string
  le_operator :: string
  le_values :: "string list"

record label_selector =
  ls_match_labels :: "string gomap"
  ls_match_expressions :: "label_expression list"

record allowed_namespaces =
  an_from :: string
  an_selector :: label_selector

record route_kind =
  rk_group :: string
  rk_kind :: string

record allowed_routes =
  ar_allowed_namespaces :: allowed_namespaces
  ar_route_kinds :: "route_kind list"

definition NamespaceNameLabel :: string where
  "NamespaceNameLabel = ''kubernetes.io/metadata.name''"

definition FromSelector :: string where
  "FromSelector = ''Selector''"

definition NamespaceGrant :: "string \<Rightarrow> route_kind list \<Rightarrow> allowed_routes" where
  "NamespaceGrant namespace kinds =
     \<lparr>ar_allowed_namespaces = \<lparr>an_from = FromSelector,
        an_selector = \<lparr>ls_match_labels = [(NamespaceNameLabel, namespace)], ls_match_expressions = []\<rparr>\<rparr>,
      ar_route_kinds = kinds\<rparr>"

definition NamespacesGrant :: "string list \<Rightarrow> route_kind list \<Rightarrow> allowed_routes" where
  "NamespacesGrant namespaces kinds =
     (if length namespaces = 1 then NamespaceGrant (namespaces ! 0) kinds
      else
       \<lparr>ar_allowed_namespaces = \<lparr>an_from = FromSelector,
          an_selector = \<lparr>ls_match_labels = [],
            ls_match_expressions = [\<lparr>le_key = NamespaceNameLabel, le_operator = ''In'', le_values = sort namespaces\<rparr>]\<rparr>\<rparr>,
        ar_route_kinds = kinds\<rparr>)"

definition RouteKinds :: "route_kind list" where
  "RouteKinds = [\<lparr>rk_group = ''gateway.networking.k8s.io'', rk_kind = ''HTTPRoute''\<rparr>]"

definition BusinessRouteGrant :: "string \<Rightarrow> allowed_routes" where
  "BusinessRouteGrant label =
     \<lparr>ar_allowed_namespaces = \<lparr>an_from = FromSelector,
        an_selector = \<lparr>ls_match_labels = [(label, ''true'')], ls_match_expressions = []\<rparr>\<rparr>,
      ar_route_kinds = RouteKinds\<rparr>"

subsection \<open>What a grant admits\<close>

text \<open>The labels of a namespace are a map; the API server sets \<open>NamespaceNameLabel\<close> to its
  name. A selector selects the label sets that carry every \<open>matchLabels\<close> entry and satisfy
  every expression.\<close>

definition expression_holds :: "label_expression \<Rightarrow> string gomap \<Rightarrow> bool" where
  "expression_holds x labels =
     (if le_operator x = ''In'' then (case mget labels (le_key x) of None \<Rightarrow> False | Some v \<Rightarrow> v \<in> set (le_values x))
      else if le_operator x = ''NotIn'' then (case mget labels (le_key x) of None \<Rightarrow> True | Some v \<Rightarrow> v \<notin> set (le_values x))
      else if le_operator x = ''Exists'' then has_key labels (le_key x)
      else if le_operator x = ''DoesNotExist'' then \<not> has_key labels (le_key x)
      else False)"

definition admits :: "allowed_routes \<Rightarrow> string gomap \<Rightarrow> bool" where
  "admits r labels \<longleftrightarrow> an_from (ar_allowed_namespaces r) = FromSelector \<and>
     list_all (\<lambda>(k, v). mget labels k = Some v) (ls_match_labels (an_selector (ar_allowed_namespaces r))) \<and>
     list_all (\<lambda>x. expression_holds x labels) (ls_match_expressions (an_selector (ar_allowed_namespaces r)))"

lemma admits_NamespaceGrant [simp]:
  "admits (NamespaceGrant n kinds) labels \<longleftrightarrow> mget labels NamespaceNameLabel = Some n"
  by (simp add: admits_def NamespaceGrant_def)

lemma admits_NamespacesGrant [simp]:
  "admits (NamespacesGrant ns kinds) labels \<longleftrightarrow> (\<exists>n\<in>set ns. mget labels NamespaceNameLabel = Some n)"
proof (cases "length ns = 1")
  case True
  then obtain n where "ns = [n]" by (auto simp: length_Suc_conv)
  then show ?thesis by (simp add: NamespacesGrant_def)
next
  case False
  then show ?thesis
    by (auto simp: NamespacesGrant_def admits_def expression_holds_def split: option.split)
qed

lemma admits_BusinessRouteGrant [simp]:
  "admits (BusinessRouteGrant label) labels \<longleftrightarrow> mget labels label = Some ''true''"
  by (simp add: admits_def BusinessRouteGrant_def)

section \<open>Types\<close>

record exposure_value =
  ev_name :: string
  ev_class :: string
  ev_health_hostname :: string
  ev_health_secret_name :: string

record group_value =
  gv_name :: string
  gv_exposure :: string
  gv_parent :: string
  gv_domains :: "domain list"
  gv_allowed_routes :: allowed_routes
  gv_certificate :: "group_certificate option"

record groups_value =
  gs_exposures :: "exposure_value list"
  gs_groups :: "group_value list"
  gs_default_certificate :: group_certificate
  gs_namespace :: string

record listener_set_ref =
  lr_name :: string
  lr_namespace :: string
  lr_parent_refs_since :: string

record derive_input =
  di_cluster :: string
  di_origin_zone :: string
  di_projects :: "project list"
  di_platform_consumers :: "string gomap"
  di_business_grant_label :: string
  di_wildcard_by_name :: bool
  di_wildcard_namespaces :: "string list"
  di_listener_set_namespace :: string
  di_reserved_exposure :: string
  di_private_entry :: "private_entry option"

datatype grant_error =
    GMixed "string list" "string list"
  | GNoConsumer "string list" string
  | GConsumerNamespace "string list" string string

datatype derive_error =
    DSameName string string string
  | DGrant string string grant_error
  | DNoPrivateEntry string
  | DReservedExposure string
  | DArrival string string
  | DNoOriginZone string

section \<open>deriveGroups\<close>

definition hasWildcardDomain :: "domain list \<Rightarrow> bool" where
  "hasWildcardDomain ds = list_ex (\<lambda>d. has_prefix (dom_host d) wildcardPrefix) ds"

definition project_map :: "project list \<Rightarrow> project gomap" where
  "project_map ps = foldl (\<lambda>m p. mput (prj_name p) p m) [] ps"

definition routeGrant ::
    "derive_input \<Rightarrow> project gomap \<Rightarrow> string \<Rightarrow> named_group \<Rightarrow> grant_error + allowed_routes" where
  "routeGrant i projects arrival g =
     (let ns = grp_route_namespaces (ng_group g) in
      if arrival = ArrivalPrivateClusterIP \<and> length ns = 1 then Inr (NamespaceGrant (ns ! 0) RouteKinds)
      else
        let business = filter (has_key projects) ns; platform = filter (\<lambda>n. \<not> has_key projects n) ns in
        if business \<noteq> [] \<and> platform \<noteq> [] then Inl (GMixed business platform)
        else if platform \<noteq> [] then
          (case mget (di_platform_consumers i) (ng_name g) of
             None \<Rightarrow> Inl (GNoConsumer platform (ng_name g))
           | Some namespace \<Rightarrow>
               if length platform \<noteq> 1 \<or> platform ! 0 \<noteq> namespace
               then Inl (GConsumerNamespace platform (ng_name g) namespace)
               else Inr (NamespaceGrant namespace RouteKinds))
        else if hasWildcardDomain (grp_domains (ng_group g)) then
          (if di_wildcard_by_name i
           then Inr (NamespacesGrant (sort_compact (business @ di_wildcard_namespaces i)) RouteKinds)
           else Inr (BusinessRouteGrant (di_business_grant_label i)))
        else Inr (NamespacesGrant business RouteKinds))"

definition resolved_domain :: "domain \<Rightarrow> domain" where
  "resolved_domain d = zero_domain\<lparr>dom_host := dom_host d,
     dom_listener_name := ListenerNameOrDefault d, dom_secret_name := SecretNameOrDefault d\<rparr>"

definition derive_group :: "derive_input \<Rightarrow> project gomap \<Rightarrow> string \<Rightarrow> string \<Rightarrow> named_group \<Rightarrow>
    string gomap \<times> group_value list \<Rightarrow> derive_error + string gomap \<times> group_value list" where
  "derive_group i projects x arrival g = (\<lambda>(claimedBy, groups).
     if grp_listener_set (ng_group g) = ListenerSetOff then Inr (claimedBy, groups)
     else case mget claimedBy (ng_name g) of
        Some other \<Rightarrow> Inl (DSameName x (ng_name g) other)
      | None \<Rightarrow>
          let claimedBy = mput (ng_name g) x claimedBy in
          case routeGrant i projects arrival g of
            Inl err \<Rightarrow> Inl (DGrant x (ng_name g) err)
          | Inr grant \<Rightarrow> Inr (claimedBy, groups @ [\<lparr>gv_name = ng_name g, gv_exposure = x, gv_parent = [],
              gv_domains = map resolved_domain (grp_domains (ng_group g)), gv_allowed_routes = grant,
              gv_certificate = None\<rparr>]))"

definition derive_exposure :: "catalog \<Rightarrow> derive_input \<Rightarrow> project gomap \<Rightarrow> string \<Rightarrow>
    string gomap \<times> exposure_value list \<times> group_value list \<Rightarrow>
    derive_error + string gomap \<times> exposure_value list \<times> group_value list" where
  "derive_exposure c i projects x = (\<lambda>(claimedBy, outExposures, outGroups).
     let arrival = arrival_of c x;
         class = (case mget (cat_exposures c) x of None \<Rightarrow> [] | Some e \<Rightarrow> ex_class e) in
     sum_bind (fold_err (derive_group i projects x arrival) (Groups c x (di_cluster i)) (claimedBy, []))
     (\<lambda>(claimedBy, groups).
       if groups = [] then Inr (claimedBy, outExposures, outGroups)
       else if arrival = ArrivalPrivateClusterIP then
         (case di_private_entry i of
            None \<Rightarrow> Inl (DNoPrivateEntry x)
          | Some entry \<Rightarrow> Inr (claimedBy, outExposures, outGroups @
              map (\<lambda>g. g\<lparr>gv_parent := pn_gateway (pe_names entry), gv_certificate := Some (GroupCertificate entry)\<rparr>) groups))
       else if di_reserved_exposure i \<noteq> [] \<and> x = di_reserved_exposure i then Inl (DReservedExposure x)
       else if arrival \<noteq> ArrivalCloudflareTunnel then Inl (DArrival x arrival)
       else if di_origin_zone i = [] then Inl (DNoOriginZone x)
       else Inr (claimedBy,
         outExposures @ [\<lparr>ev_name = x, ev_class = class,
           ev_health_hostname = HealthHostname x (di_origin_zone i), ev_health_secret_name = HealthSecretName x\<rparr>],
         outGroups @ map (\<lambda>g. g\<lparr>gv_parent := x\<rparr>) groups)))"

definition deriveGroups :: "catalog \<Rightarrow> derive_input \<Rightarrow> derive_error + exposure_value list \<times> group_value list" where
  "deriveGroups c i =
     sum_bind (fold_err (derive_exposure c i (project_map (di_projects i))) (ExposuresOn c (di_cluster i)) ([], [], []))
       (\<lambda>(_, outExposures, outGroups). Inr (outExposures, outGroups))"

definition zero_certificate :: group_certificate where
  "zero_certificate = \<lparr>gc_issuer = [], gc_duration = [], gc_renew_before = [], gc_key_algorithm = [], gc_key_size = 0\<rparr>"

definition DeriveGroups :: "catalog \<Rightarrow> derive_input \<Rightarrow> derive_error + groups_value option" where
  "DeriveGroups c i = sum_bind (deriveGroups c i) (\<lambda>(exposures, groups).
     if groups = [] then Inr None
     else Inr (Some \<lparr>gs_exposures = exposures, gs_groups = groups, gs_default_certificate = zero_certificate,
       gs_namespace = di_listener_set_namespace i\<rparr>))"

definition compare_groups :: "group_value \<Rightarrow> group_value \<Rightarrow> int" where
  "compare_groups a b = str_compare (gv_name a) (gv_name b)"

definition SortedGroups :: "group_value list \<Rightarrow> group_value list" where
  "SortedGroups groups = sort_cmp compare_groups groups"

section \<open>ListenerSetsFor\<close>

record project_host =
  ph_project :: string
  ph_hostname :: string
  ph_surfaces :: "string list"

datatype move_error =
    MSplit string string string string string
  | MUnknownProject string string string

definition by_host :: "group_value list \<Rightarrow> nat gomap" where
  "by_host gs = foldl (\<lambda>m (k, g). foldl (\<lambda>m d. mput (dom_host d) k m) m (gv_domains g)) [] (enumerate 0 gs)"

definition findProject :: "project list \<Rightarrow> string \<Rightarrow> project option" where
  "findProject projects name = List.find (\<lambda>p. prj_name p = name) projects"

definition groupName :: "group_value list \<Rightarrow> nat option \<Rightarrow> string" where
  "groupName gs k = (case k of None \<Rightarrow> ''no listener_set group'' | Some k \<Rightarrow> gv_name (gs ! k))"

definition move_project :: "groups_value \<Rightarrow> project list \<Rightarrow> project_host \<Rightarrow>
    listener_set_ref gomap \<Rightarrow> move_error + listener_set_ref gomap" where
  "move_project g projects host out =
     (let byHost = by_host (gs_groups g); group = mget byHost (ph_hostname host) in
      unless (first_err (\<lambda>surface. fail_if (mget byHost surface \<noteq> group)
          (MSplit (ph_project host) (ph_hostname host) surface
            (groupName (gs_groups g) group) (groupName (gs_groups g) (mget byHost surface)))) (ph_surfaces host))
      (case group of
         None \<Rightarrow> Inr out
       | Some k \<Rightarrow> (case findProject projects (ph_project host) of
           None \<Rightarrow> Inl (MUnknownProject (gv_name (gs_groups g ! k)) (ph_hostname host) (ph_project host))
         | Some project \<Rightarrow> Inr (mput (ph_project host)
             \<lparr>lr_name = gv_name (gs_groups g ! k), lr_namespace = gs_namespace g,
              lr_parent_refs_since = prj_parent_refs_since project\<rparr> out))))"

definition ListenerSetsFor :: "groups_value option \<Rightarrow> project_host list \<Rightarrow> project list \<Rightarrow>
    move_error + listener_set_ref gomap" where
  "ListenerSetsFor g hosts projects =
     (case g of None \<Rightarrow> Inr [] | Some g \<Rightarrow> fold_err (move_project g projects) hosts [])"

section \<open>What is derived\<close>

text \<open>The groups of an exposure that are served from a ListenerSet, and the value each becomes.\<close>

abbreviation serves :: "named_group \<Rightarrow> bool" where
  "serves g \<equiv> grp_listener_set (ng_group g) \<noteq> ListenerSetOff"

definition served_groups :: "catalog \<Rightarrow> derive_input \<Rightarrow> string \<Rightarrow> named_group list" where
  "served_groups c i x = filter serves (Groups c x (di_cluster i))"

definition unattached :: "derive_input \<Rightarrow> project gomap \<Rightarrow> string \<Rightarrow> string \<Rightarrow> named_group \<Rightarrow> group_value" where
  "unattached i pm x arrival g = \<lparr>gv_name = ng_name g, gv_exposure = x, gv_parent = [],
     gv_domains = map resolved_domain (grp_domains (ng_group g)),
     gv_allowed_routes = projr (routeGrant i pm arrival g), gv_certificate = None\<rparr>"

definition attach :: "catalog \<Rightarrow> derive_input \<Rightarrow> string \<Rightarrow> group_value \<Rightarrow> group_value" where
  "attach c i x g =
     (if arrival_of c x = ArrivalPrivateClusterIP then
        (case di_private_entry i of None \<Rightarrow> g
         | Some entry \<Rightarrow> g\<lparr>gv_parent := pn_gateway (pe_names entry), gv_certificate := Some (GroupCertificate entry)\<rparr>)
      else g\<lparr>gv_parent := x\<rparr>)"

definition derived_groups :: "catalog \<Rightarrow> derive_input \<Rightarrow> project gomap \<Rightarrow> string \<Rightarrow> group_value list" where
  "derived_groups c i pm x = map (\<lambda>g. attach c i x (unattached i pm x (arrival_of c x) g)) (served_groups c i x)"

definition derived_exposures :: "catalog \<Rightarrow> derive_input \<Rightarrow> string \<Rightarrow> exposure_value list" where
  "derived_exposures c i x =
     (if served_groups c i x = [] \<or> arrival_of c x = ArrivalPrivateClusterIP then []
      else [\<lparr>ev_name = x, ev_class = (case mget (cat_exposures c) x of None \<Rightarrow> [] | Some e \<Rightarrow> ex_class e),
        ev_health_hostname = HealthHostname x (di_origin_zone i), ev_health_secret_name = HealthSecretName x\<rparr>])"

definition attachable :: "catalog \<Rightarrow> derive_input \<Rightarrow> string \<Rightarrow> bool" where
  "attachable c i x \<longleftrightarrow> served_groups c i x = [] \<or>
     (if arrival_of c x = ArrivalPrivateClusterIP then di_private_entry i \<noteq> None
      else arrival_of c x = ArrivalCloudflareTunnel \<and> di_origin_zone i \<noteq> [] \<and>
        \<not> (di_reserved_exposure i \<noteq> [] \<and> x = di_reserved_exposure i))"

lemma derive_group_Inr:
  "serves g \<Longrightarrow> derive_group i pm x a g (cb, out) = Inr s' \<longleftrightarrow>
     mget cb (ng_name g) = None \<and> (\<exists>r. routeGrant i pm a g = Inr r) \<and>
     s' = (mput (ng_name g) x cb, out @ [unattached i pm x a g])"
  by (auto simp: derive_group_def unattached_def Let_def split: option.splits sum.splits)

lemma derive_group_loop:
  assumes "fold_err (derive_group i pm x a) gs (cb, out) = Inr (cb', out')"
  shows "out' = out @ map (unattached i pm x a) (filter serves gs) \<and> distinct (map ng_name (filter serves gs)) \<and>
     (\<forall>g\<in>set (filter serves gs). \<not> has_key cb (ng_name g) \<and> (\<exists>r. routeGrant i pm a g = Inr r)) \<and>
     (\<forall>k. has_key cb' k \<longleftrightarrow> has_key cb k \<or> k \<in> ng_name ` set (filter serves gs))"
  using assms
proof (induction gs arbitrary: cb out)
  case (Cons g gs)
  show ?case
  proof (cases "grp_listener_set (ng_group g) = ListenerSetOff")
    case True
    with Cons show ?thesis by (simp add: derive_group_def)
  next
    case False
    with Cons.prems obtain r where fresh: "\<not> has_key cb (ng_name g)" and r: "routeGrant i pm a g = Inr r"
      and rest: "fold_err (derive_group i pm x a) gs
         (mput (ng_name g) x cb, out @ [unattached i pm x a g]) = Inr (cb', out')"
      by (auto simp: derive_group_Inr has_key_def)
    from Cons.IH [OF rest] show ?thesis
      using False fresh r by auto
  qed
qed simp

lemma derive_exposure_Inr:
  assumes "derive_exposure c i pm x (cb, es, gs) = Inr (cb', es', gs')"
  shows "es' = es @ derived_exposures c i x \<and> gs' = gs @ derived_groups c i pm x \<and> attachable c i x \<and>
     distinct (map ng_name (served_groups c i x)) \<and>
     (\<forall>g\<in>set (served_groups c i x). \<not> has_key cb (ng_name g) \<and> (\<exists>r. routeGrant i pm (arrival_of c x) g = Inr r)) \<and>
     (\<forall>k. has_key cb' k \<longleftrightarrow> has_key cb k \<or> k \<in> ng_name ` set (served_groups c i x))"
proof -
  from assms obtain cb1 out where loop: "fold_err (derive_group i pm x (arrival_of c x)) (Groups c x (di_cluster i)) (cb, []) = Inr (cb1, out)"
    by (auto simp: derive_exposure_def Let_def)
  note facts = derive_group_loop [OF this, folded served_groups_def]
  have empty: "out = [] \<longleftrightarrow> served_groups c i x = []" using facts by simp
  have cb: "cb' = cb1"
    using assms loop by (auto simp: derive_exposure_def Let_def split: if_splits option.splits)
  have "attachable c i x \<and> es' = es @ derived_exposures c i x \<and>
      gs' = gs @ map (attach c i x) out"
    using assms loop empty
    by (auto simp: derive_exposure_def attachable_def derived_exposures_def attach_def Let_def split: if_splits option.splits)
  with facts cb show ?thesis by (simp add: derived_groups_def comp_def)
qed

lemma derive_exposures_loop:
  assumes "fold_err (derive_exposure c i pm) xs (cb, es, gs) = Inr (cb', es', gs')"
  shows "es' = es @ concat (map (derived_exposures c i) xs) \<and> gs' = gs @ concat (map (derived_groups c i pm) xs) \<and>
     (\<forall>x\<in>set xs. attachable c i x) \<and>
     distinct (concat (map (\<lambda>x. map ng_name (served_groups c i x)) xs)) \<and>
     (\<forall>x\<in>set xs. \<forall>g\<in>set (served_groups c i x). \<not> has_key cb (ng_name g) \<and> (\<exists>r. routeGrant i pm (arrival_of c x) g = Inr r))"
  using assms
proof (induction xs arbitrary: cb es gs)
  case (Cons x xs)
  then obtain cb1 es1 gs1 where step: "derive_exposure c i pm x (cb, es, gs) = Inr (cb1, es1, gs1)"
    and rest: "fold_err (derive_exposure c i pm) xs (cb1, es1, gs1) = Inr (cb', es', gs')" by auto
  note here = derive_exposure_Inr [OF step] and later = Cons.IH [OF rest]
  have fresh: "\<forall>y\<in>set xs. \<forall>g\<in>set (served_groups c i y). ng_name g \<notin> ng_name ` set (served_groups c i x) \<and> \<not> has_key cb (ng_name g)"
    using here later by blast
  moreover have "set (map ng_name (served_groups c i x)) \<inter> set (concat (map (\<lambda>x. map ng_name (served_groups c i x)) xs)) = {}"
    using fresh by (simp add: disjoint_iff) blast
  ultimately show ?case using here later by simp
qed simp

lemma deriveGroups_Inr:
  assumes "deriveGroups c i = Inr (es, gs)"
  defines "pm \<equiv> project_map (di_projects i)" and "xs \<equiv> ExposuresOn c (di_cluster i)"
  shows "es = concat (map (derived_exposures c i) xs)" and "gs = concat (map (derived_groups c i pm) xs)"
    and "\<forall>x\<in>set xs. attachable c i x"
    and "distinct (concat (map (\<lambda>x. map ng_name (served_groups c i x)) xs))"
    and "\<forall>x\<in>set xs. \<forall>g\<in>set (served_groups c i x). \<exists>r. routeGrant i pm (arrival_of c x) g = Inr r"
proof -
  from assms(1) obtain cb where "fold_err (derive_exposure c i pm) xs ([], [], []) = Inr (cb, es, gs)"
    by (auto simp: deriveGroups_def pm_def xs_def)
  note facts = derive_exposures_loop [OF this]
  show "es = concat (map (derived_exposures c i) xs)" and "gs = concat (map (derived_groups c i pm) xs)"
    and "\<forall>x\<in>set xs. attachable c i x"
    and "distinct (concat (map (\<lambda>x. map ng_name (served_groups c i x)) xs))"
    and "\<forall>x\<in>set xs. \<forall>g\<in>set (served_groups c i x). \<exists>r. routeGrant i pm (arrival_of c x) g = Inr r"
    using facts by simp_all
qed

lemma DeriveGroups_Some:
  "DeriveGroups c i = Inr (Some v) \<Longrightarrow> deriveGroups c i = Inr (gs_exposures v, gs_groups v)"
  by (auto simp: DeriveGroups_def split: if_splits)

lemma attach_simps [simp]:
  "gv_name (attach c i x g) = gv_name g" "gv_exposure (attach c i x g) = gv_exposure g"
  "gv_domains (attach c i x g) = gv_domains g" "gv_allowed_routes (attach c i x g) = gv_allowed_routes g"
  by (simp_all add: attach_def split: option.split)

lemma unattached_simps [simp]:
  "gv_name (unattached i pm x a g) = ng_name g" "gv_exposure (unattached i pm x a g) = x"
  "gv_domains (unattached i pm x a g) = map resolved_domain (grp_domains (ng_group g))"
  "gv_allowed_routes (unattached i pm x a g) = projr (routeGrant i pm a g)"
  by (simp_all add: unattached_def)

lemma in_served_groups:
  "g \<in> set (served_groups c i x) \<longleftrightarrow>
     find_group c x (di_cluster i) (ng_name g) = Some (ng_group g) \<and> grp_listener_set (ng_group g) \<noteq> ListenerSetOff"
  by (simp add: served_groups_def in_Groups)

text \<open>A derived group, and the group of the catalog it comes from.\<close>

lemma derived_group_source:
  assumes "DeriveGroups c i = Inr (Some v)" and "gv \<in> set (gs_groups v)"
  obtains gr r where "find_group c (gv_exposure gv) (di_cluster i) (gv_name gv) = Some gr"
    and "grp_listener_set gr \<noteq> ListenerSetOff"
    and "routeGrant i (project_map (di_projects i)) (arrival_of c (gv_exposure gv)) \<lparr>ng_name = gv_name gv, ng_group = gr\<rparr> = Inr (gv_allowed_routes gv)"
    and "gv = attach c i (gv_exposure gv) (unattached i (project_map (di_projects i)) (gv_exposure gv)
         (arrival_of c (gv_exposure gv)) \<lparr>ng_name = gv_name gv, ng_group = gr\<rparr>)"
    and "gv_exposure gv \<in> set (ExposuresOn c (di_cluster i))" and "attachable c i (gv_exposure gv)"
    and "gv_domains gv = map resolved_domain (grp_domains gr)"
proof -
  let ?pm = "project_map (di_projects i)"
  note facts = deriveGroups_Inr [OF DeriveGroups_Some [OF assms(1)]]
  from assms(2) facts(2) obtain x g where x: "x \<in> set (ExposuresOn c (di_cluster i))"
    and g: "g \<in> set (served_groups c i x)" and gv: "gv = attach c i x (unattached i ?pm x (arrival_of c x) g)"
    by (auto simp: derived_groups_def)
  from facts(5) x g obtain r where r: "routeGrant i ?pm (arrival_of c x) g = Inr r" by blast
  have eq: "\<lparr>ng_name = ng_name g, ng_group = ng_group g\<rparr> = g" by simp
  show ?thesis
    by (rule that [of "ng_group g"]) (use x g r facts(3) in \<open>auto simp: gv eq in_served_groups\<close>)
qed

lemma set_derived_groups:
  assumes "deriveGroups c i = Inr (es, gs)"
  shows "map gv_name gs = concat (map (\<lambda>x. map ng_name (served_groups c i x)) (ExposuresOn c (di_cluster i)))"
    and "(\<exists>gv\<in>set gs. gv_exposure gv = x \<and> gv_name gv = g) \<longleftrightarrow>
      x \<in> set (ExposuresOn c (di_cluster i)) \<and> (\<exists>ng\<in>set (served_groups c i x). ng_name ng = g)"
proof -
  note gs = deriveGroups_Inr(2) [OF assms]
  show "map gv_name gs = concat (map (\<lambda>x. map ng_name (served_groups c i x)) (ExposuresOn c (di_cluster i)))"
    unfolding gs by (simp add: map_concat derived_groups_def comp_def)
  show "(\<exists>gv\<in>set gs. gv_exposure gv = x \<and> gv_name gv = g) \<longleftrightarrow>
      x \<in> set (ExposuresOn c (di_cluster i)) \<and> (\<exists>ng\<in>set (served_groups c i x). ng_name ng = g)"
    unfolding gs by (auto simp: derived_groups_def)
qed

lemma routeGrant_exact:
  assumes "routeGrant i pm arrival g = Inr r" and "grp_route_namespaces (ng_group g) = ns"
    and "\<not> hasWildcardDomain (grp_domains (ng_group g))"
  shows "\<exists>ns'. r = NamespacesGrant ns' RouteKinds \<and> set ns' = set ns"
proof -
  have one: "NamespaceGrant (xs ! 0) kinds = NamespacesGrant xs kinds" if "length xs = 1" for xs kinds
    using that by (simp add: NamespacesGrant_def)
  show ?thesis
  proof (cases "arrival = ArrivalPrivateClusterIP \<and> length ns = 1")
    case True
    with assms(1,2) have "r = NamespaceGrant (ns ! 0) RouteKinds" by (simp add: routeGrant_def)
    with True one show ?thesis by blast
  next
    case False
    let ?b = "filter (has_key pm) ns" and ?p = "filter (\<lambda>n. \<not> has_key pm n) ns"
    show ?thesis
    proof (cases "?p = []")
      case True
      then have "\<forall>n\<in>set ns. has_key pm n" by (simp add: filter_empty_conv)
      moreover from True False assms have "r = NamespacesGrant ?b RouteKinds"
        unfolding routeGrant_def Let_def by (simp split: if_splits)
      ultimately show ?thesis by (intro exI [of _ ?b]) auto
    next
      case p: False
      with False assms have "?b = [] \<and> length ?p = 1 \<and> r = NamespaceGrant (?p ! 0) RouteKinds"
        unfolding routeGrant_def Let_def by (simp split: if_splits option.splits)
      moreover from this have "\<forall>n\<in>set ns. \<not> has_key pm n" by (simp add: filter_empty_conv)
      ultimately show ?thesis by (intro exI [of _ ?p]) (auto simp: one)
    qed
  qed
qed

lemma routeGrant_admits:
  assumes "routeGrant i pm arrival g = Inr r" and "mget labels NamespaceNameLabel = Some n"
    and "\<not> hasWildcardDomain (grp_domains (ng_group g))"
  shows "admits r labels \<longleftrightarrow> n \<in> set (grp_route_namespaces (ng_group g))"
proof -
  from routeGrant_exact [OF assms(1) refl assms(3)] obtain ns
    where r: "r = NamespacesGrant ns RouteKinds" and ns: "set ns = set (grp_route_namespaces (ng_group g))" by blast
  show ?thesis unfolding r admits_NamespacesGrant ns assms(2) by simp
qed

section \<open>Properties\<close>

definition sample_input :: derive_input where
  "sample_input = \<lparr>di_cluster = ''prod'', di_origin_zone = ''origin.example'', di_projects = [sample_shop],
     di_platform_consumers = [(''ops'', ''monitoring'')], di_business_grant_label = ''example.com/business'',
     di_wildcard_by_name = False, di_wildcard_namespaces = [], di_listener_set_namespace = ''gateways'',
     di_reserved_exposure = ''fleet'',
     di_private_entry = Some (NewPrivateEntry \<lparr>pi_names = \<lparr>pn_namespace = ''gateways'', pn_gateway = ''private'',
         pn_listener = ''https'', pn_secret = ''private-tls'', pn_issuer = ''private-ca'', pn_traffic_policy = ''private'',
         pn_health_path = ''/healthz'', pn_service = ''private-lb'', pn_cluster_ip_service = ''private-ip''\<rparr>,
       pi_zone = ''prod.internal'', pi_cluster_ip = [], pi_load_balancer = False, pi_class = ''inner'',
       pi_key_algorithm = ''ECDSA'', pi_key_size = 256, pi_duration = ''720h'', pi_renew_before = ''240h'',
       pi_minimum_tls_version = ''TLS1.3''\<rparr>)\<rparr>"

definition sample_groups :: groups_value where
  "sample_groups = \<lparr>gs_exposures = concat (map (derived_exposures sample_catalog sample_input) [''private'', ''public'']),
     gs_groups = concat (map (derived_groups sample_catalog sample_input (project_map [sample_shop])) [''private'', ''public'']),
     gs_default_certificate = zero_certificate, gs_namespace = ''gateways''\<rparr>"

lemma DeriveGroups_sample: "DeriveGroups sample_catalog sample_input = Inr (Some sample_groups)"
  by code_simp

text \<open>C10 A cluster's ListenerSets are exactly the groups marked for one: no group is lost, none
  is added, and no two of them are the same object.\<close>

theorem DeriveGroups_complete:
  assumes "DeriveGroups c i = Inr (Some v)"
  shows "distinct (map gv_name (gs_groups v)) \<and>
     (\<forall>x g. (\<exists>gv\<in>set (gs_groups v). gv_exposure gv = x \<and> gv_name gv = g) \<longleftrightarrow>
        (\<exists>gr. find_group c x (di_cluster i) g = Some gr \<and> grp_listener_set gr = ListenerSetServe))"
proof -
  note d = DeriveGroups_Some [OF assms]
  have mode: "m \<noteq> ListenerSetOff \<longleftrightarrow> m = ListenerSetServe" for m by (cases m) auto
  have "(\<exists>gv\<in>set (gs_groups v). gv_exposure gv = x \<and> gv_name gv = g) \<longleftrightarrow>
      (\<exists>gr. find_group c x (di_cluster i) g = Some gr \<and> grp_listener_set gr = ListenerSetServe)" for x g
  proof -
    have "(\<exists>ng\<in>set (served_groups c i x). ng_name ng = g) \<longleftrightarrow>
        (\<exists>gr. find_group c x (di_cluster i) g = Some gr \<and> grp_listener_set gr = ListenerSetServe)"
      unfolding Bex_def in_served_groups mode by (metis named_group.select_convs)
    then show ?thesis unfolding set_derived_groups(2) [OF d] using find_group_on by blast
  qed
  then show ?thesis using deriveGroups_Inr(4) [OF d] by (simp add: set_derived_groups(1) [OF d])
qed

theorem DeriveGroups_complete_witness: "distinct (map gv_name (gs_groups sample_groups))"
  using DeriveGroups_complete [OF DeriveGroups_sample] by blast

text \<open>C9 The route grant of a group without a wildcard name admits the routes of exactly the
  namespaces the catalog lists for it, whoever labels a namespace with what.\<close>

theorem DeriveGroups_grant_by_name:
  assumes "DeriveGroups c i = Inr (Some v)" and "gv \<in> set (gs_groups v)"
    and "find_group c (gv_exposure gv) (di_cluster i) (gv_name gv) = Some gr"
    and "\<not> hasWildcardDomain (grp_domains gr)" and "mget labels NamespaceNameLabel = Some n"
  shows "admits (gv_allowed_routes gv) labels \<longleftrightarrow> n \<in> set (grp_route_namespaces gr)"
proof -
  from derived_group_source [OF assms(1,2)] assms(3)
  have "routeGrant i (project_map (di_projects i)) (arrival_of c (gv_exposure gv))
      \<lparr>ng_name = gv_name gv, ng_group = gr\<rparr> = Inr (gv_allowed_routes gv)" by (metis option.inject)
  from routeGrant_admits [OF this assms(5)] assms(4) show ?thesis by simp
qed

theorem DeriveGroups_grant_by_name_witness:
  "\<not> admits (gv_allowed_routes (gs_groups sample_groups ! 1)) [(NamespaceNameLabel, ''shop'')]"
proof -
  have *: "gs_groups sample_groups ! 1 \<in> set (gs_groups sample_groups)" by code_simp
  have f: "find_group sample_catalog (gv_exposure (gs_groups sample_groups ! 1)) (di_cluster sample_input)
      (gv_name (gs_groups sample_groups ! 1)) = Some sample_ops" by code_simp
  show ?thesis
    using DeriveGroups_grant_by_name [OF DeriveGroups_sample * f, of "[(NamespaceNameLabel, ''shop'')]" "''shop''"]
    by (simp add: sample_ops_def hasWildcardDomain_def zero_domain_def wildcardPrefix_def mget_def)
qed

text \<open>A group with a wildcard name and only projects' namespaces is where per-install hosts
  land. It admits by the estate's coarse label or, in an estate that grants by name, its own
  namespaces and the per-install ones, and nobody else.\<close>

theorem routeGrant_wildcard:
  assumes "hasWildcardDomain (grp_domains (ng_group g))"
    and "\<forall>n\<in>set (grp_route_namespaces (ng_group g)). has_key pm n"
    and "\<not> (arrival = ArrivalPrivateClusterIP \<and> length (grp_route_namespaces (ng_group g)) = 1)"
  shows "\<exists>r. routeGrant i pm arrival g = Inr r \<and> (\<forall>labels. admits r labels \<longleftrightarrow>
     (if di_wildcard_by_name i
      then \<exists>n \<in> set (grp_route_namespaces (ng_group g)) \<union> set (di_wildcard_namespaces i). mget labels NamespaceNameLabel = Some n
      else mget labels (di_business_grant_label i) = Some ''true''))"
proof -
  let ?ns = "grp_route_namespaces (ng_group g)"
  have b: "filter (has_key pm) ?ns = ?ns" "filter (\<lambda>n. \<not> has_key pm n) ?ns = []"
    using assms(2) by (simp_all add: filter_empty_conv)
  have "routeGrant i pm arrival g =
     (if di_wildcard_by_name i then Inr (NamespacesGrant (sort_compact (?ns @ di_wildcard_namespaces i)) RouteKinds)
      else Inr (BusinessRouteGrant (di_business_grant_label i)))"
    unfolding routeGrant_def Let_def b using assms(1,3) by auto
  then show ?thesis by (cases "di_wildcard_by_name i") simp_all
qed

theorem routeGrant_wildcard_witness:
  "\<exists>r. routeGrant sample_input (project_map [sample_shop]) ArrivalCloudflareTunnel \<lparr>ng_name = ''wild'', ng_group = sample_wild\<rparr> = Inr r \<and>
     (\<forall>labels. admits r labels \<longleftrightarrow> mget labels ''example.com/business'' = Some ''true'')"
proof -
  have "hasWildcardDomain (grp_domains (ng_group \<lparr>ng_name = ''wild'', ng_group = sample_wild\<rparr>))"
    "\<forall>n\<in>set (grp_route_namespaces (ng_group \<lparr>ng_name = ''wild'', ng_group = sample_wild\<rparr>)). has_key (project_map [sample_shop]) n"
    "\<not> (ArrivalCloudflareTunnel = ArrivalPrivateClusterIP \<and>
        length (grp_route_namespaces (ng_group \<lparr>ng_name = ''wild'', ng_group = sample_wild\<rparr>)) = 1)"
    by code_simp+
  from routeGrant_wildcard [OF this, of sample_input] show ?thesis by (simp add: sample_input_def)
qed

text \<open>A derived group attaches to a Gateway that exists: a private exposure's groups to the
  cluster's private entry, whose certificate policy they take; any other exposure's to the Gateway
  derived for it, with its health name under the cluster's origin zone.\<close>

theorem DeriveGroups_parents:
  assumes "DeriveGroups c i = Inr (Some v)" and "gv \<in> set (gs_groups v)"
  shows "(arrival_of c (gv_exposure gv) = ArrivalPrivateClusterIP \<and>
      (\<exists>entry. di_private_entry i = Some entry \<and> gv_parent gv = pn_gateway (pe_names entry) \<and>
         gv_certificate gv = Some (GroupCertificate entry))) \<or>
     (arrival_of c (gv_exposure gv) = ArrivalCloudflareTunnel \<and> gv_certificate gv = None \<and>
      gv_parent gv = gv_exposure gv \<and> gv_exposure gv \<notin> {di_reserved_exposure i} - {[]} \<and>
      (\<exists>ev\<in>set (gs_exposures v). ev_name ev = gv_parent gv \<and>
         ev_health_hostname ev = ''gateway-health-'' @ gv_parent gv @ ''.'' @ di_origin_zone i))"
proof -
  let ?x = "gv_exposure gv"
  from derived_group_source [OF assms] obtain gr where f: "find_group c ?x (di_cluster i) (gv_name gv) = Some gr"
    and s: "grp_listener_set gr \<noteq> ListenerSetOff"
    and gv: "gv = attach c i ?x (unattached i (project_map (di_projects i)) ?x (arrival_of c ?x) \<lparr>ng_name = gv_name gv, ng_group = gr\<rparr>)"
    and x: "?x \<in> set (ExposuresOn c (di_cluster i))" and a: "attachable c i ?x" by metis
  have served: "served_groups c i ?x \<noteq> []"
    using f s in_served_groups [of "\<lparr>ng_name = gv_name gv, ng_group = gr\<rparr>" c i ?x] by auto
  show ?thesis
  proof (cases "arrival_of c ?x = ArrivalPrivateClusterIP")
    case True
    with a served obtain entry where e: "di_private_entry i = Some entry" by (auto simp: attachable_def)
    have "gv_parent gv = pn_gateway (pe_names entry)" by (subst gv) (simp add: attach_def True e)
    moreover have "gv_certificate gv = Some (GroupCertificate entry)" by (subst gv) (simp add: attach_def True e)
    ultimately show ?thesis using True e by blast
  next
    case False
    have p: "gv_parent gv = ?x" by (subst gv) (simp add: attach_def False)
    have q: "gv_certificate gv = None" by (subst gv) (simp add: attach_def False unattached_def)
    have "set (derived_exposures c i ?x) \<subseteq> set (gs_exposures v)"
      using x deriveGroups_Inr(1) [OF DeriveGroups_Some [OF assms(1)]] by auto
    then have "\<exists>ev\<in>set (gs_exposures v). ev_name ev = ?x \<and>
         ev_health_hostname ev = ''gateway-health-'' @ ?x @ ''.'' @ di_origin_zone i"
      using served False by (intro bexI [of _ "hd (derived_exposures c i ?x)"])
        (auto simp: derived_exposures_def HealthHostname_def)
    with False p q a served show ?thesis
      by (auto simp: attachable_def find_group_on)
  qed
qed

theorem DeriveGroups_parents_witness:
  "arrival_of sample_catalog (gv_exposure (hd (gs_groups sample_groups))) = ArrivalPrivateClusterIP \<and>
   gv_certificate (hd (gs_groups sample_groups)) \<noteq> None"
proof -
  have m: "hd (gs_groups sample_groups) \<in> set (gs_groups sample_groups)" by code_simp
  have a: "arrival_of sample_catalog (gv_exposure (hd (gs_groups sample_groups))) = ArrivalPrivateClusterIP" by code_simp
  have "ArrivalPrivateClusterIP \<noteq> ArrivalCloudflareTunnel" by (simp add: arrival_defs)
  with DeriveGroups_parents [OF DeriveGroups_sample m] a show ?thesis by auto
qed

section \<open>Moving a project\<close>

text \<open>What the index of hosts answers: the last group that lists the host.\<close>

lemma mget_fold_put:
  "mget (foldl (\<lambda>m x. mput (f x) v m) m xs) h = (if h \<in> f ` set xs then Some v else mget m h)"
  by (induction xs arbitrary: m) auto

lemma by_host_gen:
  "mget (foldl (\<lambda>m (k, g). foldl (\<lambda>m d. mput (dom_host d) k m) m (gv_domains g)) m kgs) h =
     (case filter (\<lambda>(k, g). h \<in> dom_host ` set (gv_domains g)) (rev kgs) of [] \<Rightarrow> mget m h | (k, g) # _ \<Rightarrow> Some k)"
  by (induction kgs arbitrary: m) (auto simp: mget_fold_put filter_empty_conv split: list.splits)

lemma by_host_Some:
  assumes "mget (by_host gs) h = Some k"
  shows "k < length gs \<and> h \<in> dom_host ` set (gv_domains (gs ! k))"
proof -
  from assms obtain g rest where "filter (\<lambda>(k, g). h \<in> dom_host ` set (gv_domains g)) (rev (enumerate 0 gs)) = (k, g) # rest"
    by (auto simp: by_host_def by_host_gen split: list.splits)
  then have "(k, g) \<in> set (filter (\<lambda>(k, g). h \<in> dom_host ` set (gv_domains g)) (rev (enumerate 0 gs)))" by simp
  then show ?thesis by (auto simp: in_set_enumerate_eq)
qed

lemma by_host_None:
  assumes "mget (by_host gs) h = None" and "gv \<in> set gs"
  shows "h \<notin> dom_host ` set (gv_domains gv)"
proof -
  have "filter (\<lambda>(k, g). h \<in> dom_host ` set (gv_domains g)) (rev (enumerate 0 gs)) = []"
    using assms(1) by (auto simp: by_host_def by_host_gen split: list.splits)
  then have "\<forall>(k, g) \<in> set (enumerate 0 gs). h \<notin> dom_host ` set (gv_domains g)"
    by (auto simp: filter_empty_conv)
  moreover from assms(2) obtain k where "k < length gs" "gs ! k = gv" by (metis in_set_conv_nth)
  moreover from this have "(k, gv) \<in> set (enumerate 0 gs)" by (simp add: in_set_enumerate_eq)
  ultimately show ?thesis by blast
qed

definition moved_ref :: "groups_value \<Rightarrow> project list \<Rightarrow> project_host \<Rightarrow> listener_set_ref option" where
  "moved_ref g projects host =
     (case mget (by_host (gs_groups g)) (ph_hostname host) of None \<Rightarrow> None
      | Some k \<Rightarrow> map_option (\<lambda>p. \<lparr>lr_name = gv_name (gs_groups g ! k), lr_namespace = gs_namespace g,
          lr_parent_refs_since = prj_parent_refs_since p\<rparr>) (findProject projects (ph_project host)))"

lemma move_project_Inr:
  "move_project g projects host out = Inr out' \<longleftrightarrow>
     (\<forall>s\<in>set (ph_surfaces host). mget (by_host (gs_groups g)) s = mget (by_host (gs_groups g)) (ph_hostname host)) \<and>
     (mget (by_host (gs_groups g)) (ph_hostname host) = None \<or> findProject projects (ph_project host) \<noteq> None) \<and>
     out' = (case moved_ref g projects host of None \<Rightarrow> out | Some r \<Rightarrow> mput (ph_project host) r out)"
  by (auto simp: move_project_def moved_ref_def Let_def first_err_None split: option.splits)

lemma move_projects_loop:
  assumes "fold_err (move_project g projects) hosts out = Inr out'" and "distinct (map ph_project hosts)"
  shows "(\<forall>host\<in>set hosts.
       (\<forall>s\<in>set (ph_surfaces host). mget (by_host (gs_groups g)) s = mget (by_host (gs_groups g)) (ph_hostname host)) \<and>
       (mget (by_host (gs_groups g)) (ph_hostname host) = None \<or> findProject projects (ph_project host) \<noteq> None) \<and>
       (mget out (ph_project host) = None \<longrightarrow> mget out' (ph_project host) = moved_ref g projects host)) \<and>
     (\<forall>p. p \<notin> ph_project ` set hosts \<longrightarrow> mget out' p = mget out p)"
  using assms
proof (induction hosts arbitrary: out)
  case (Cons host hosts)
  from Cons.prems(1) obtain out1 where step: "move_project g projects host out = Inr out1"
    and rest: "fold_err (move_project g projects) hosts out1 = Inr out'" by auto
  have out1: "out1 = (case moved_ref g projects host of None \<Rightarrow> out | Some r \<Rightarrow> mput (ph_project host) r out)"
    using step by (simp add: move_project_Inr)
  have other: "mget out1 p = mget out p" if "p \<noteq> ph_project host" for p
    using that by (simp add: out1 split: option.split)
  have here: "mget out (ph_project host) = None \<Longrightarrow> mget out1 (ph_project host) = moved_ref g projects host"
    by (simp add: out1 split: option.split)
  have d: "distinct (map ph_project hosts)" and fresh: "ph_project host \<notin> ph_project ` set hosts"
    using Cons.prems(2) by auto
  note IH = Cons.IH [OF rest d]
  have "(\<forall>s\<in>set (ph_surfaces h). mget (by_host (gs_groups g)) s = mget (by_host (gs_groups g)) (ph_hostname h)) \<and>
       (mget (by_host (gs_groups g)) (ph_hostname h) = None \<or> findProject projects (ph_project h) \<noteq> None) \<and>
       (mget out (ph_project h) = None \<longrightarrow> mget out' (ph_project h) = moved_ref g projects h)"
    if h: "h \<in> set (host # hosts)" for h
  proof (cases "h = host")
    case True
    then show ?thesis using step here IH fresh by (simp add: move_project_Inr)
  next
    case False
    with h have "h \<in> set hosts" by simp
    moreover from this fresh have "ph_project h \<noteq> ph_project host" by (metis imageI)
    ultimately show ?thesis using IH other by simp
  qed
  then show ?case using IH other by auto
qed simp

text \<open>A project whose hosts were moved points at the one ListenerSet that serves its hostname
  and all its surfaces, with its own release floor; a project no group serves has no entry, and
  none of its surfaces is served by a group either.\<close>

theorem ListenerSetsFor_moves_together:
  assumes "ListenerSetsFor (Some g) hosts projects = Inr out"
    and "distinct (map ph_project hosts)" and "host \<in> set hosts"
  shows "(\<exists>gv\<in>set (gs_groups g). \<exists>p\<in>set projects. prj_name p = ph_project host \<and>
       {ph_hostname host} \<union> set (ph_surfaces host) \<subseteq> dom_host ` set (gv_domains gv) \<and>
       mget out (ph_project host) = Some \<lparr>lr_name = gv_name gv, lr_namespace = gs_namespace g,
         lr_parent_refs_since = prj_parent_refs_since p\<rparr>) \<or>
     (mget out (ph_project host) = None \<and> (\<forall>gv\<in>set (gs_groups g).
       ({ph_hostname host} \<union> set (ph_surfaces host)) \<inter> dom_host ` set (gv_domains gv) = {}))"
proof -
  let ?by = "by_host (gs_groups g)"
  from assms(1) have "fold_err (move_project g projects) hosts [] = Inr out" by (simp add: ListenerSetsFor_def)
  from move_projects_loop [OF this assms(2)] assms(3)
  have s: "\<And>h. h \<in> {ph_hostname host} \<union> set (ph_surfaces host) \<Longrightarrow> mget ?by h = mget ?by (ph_hostname host)"
    and k: "mget ?by (ph_hostname host) = None \<or> findProject projects (ph_project host) \<noteq> None"
    and o: "mget out (ph_project host) = moved_ref g projects host" by auto
  show ?thesis
  proof (cases "mget ?by (ph_hostname host)")
    case None
    then have "mget out (ph_project host) = None" by (simp add: o moved_ref_def)
    moreover have "({ph_hostname host} \<union> set (ph_surfaces host)) \<inter> dom_host ` set (gv_domains gv) = {}"
      if "gv \<in> set (gs_groups g)" for gv
      using s None by_host_None [OF _ that] by (metis Int_iff ex_in_conv)
    ultimately show ?thesis by blast
  next
    case (Some i)
    with k obtain p where p: "findProject projects (ph_project host) = Some p" by auto
    then have "p \<in> set projects \<and> prj_name p = ph_project host"
      by (auto simp: findProject_def find_Some_iff)
    moreover have "{ph_hostname host} \<union> set (ph_surfaces host) \<subseteq> dom_host ` set (gv_domains (gs_groups g ! i))"
      using s Some by_host_Some by (metis subsetI)
    moreover have "gs_groups g ! i \<in> set (gs_groups g)" using by_host_Some [OF Some] by simp
    moreover have "mget out (ph_project host) = Some \<lparr>lr_name = gv_name (gs_groups g ! i), lr_namespace = gs_namespace g,
         lr_parent_refs_since = prj_parent_refs_since p\<rparr>" by (simp add: o moved_ref_def Some p)
    ultimately show ?thesis by blast
  qed
qed

definition sample_host :: project_host where
  "sample_host = \<lparr>ph_project = ''shop'', ph_hostname = ''grafana.example.com'', ph_surfaces = [''hooks.example.com'']\<rparr>"

theorem ListenerSetsFor_moves_together_witness:
  "\<exists>out. ListenerSetsFor (Some sample_groups) [sample_host] [sample_shop] = Inr out \<and>
     mget out ''shop'' = Some \<lparr>lr_name = ''ops'', lr_namespace = ''gateways'', lr_parent_refs_since = ''1.4.0''\<rparr>"
proof -
  let ?out = "[(''shop'', \<lparr>lr_name = ''ops'', lr_namespace = ''gateways'', lr_parent_refs_since = ''1.4.0''\<rparr>)]"
  have ok: "ListenerSetsFor (Some sample_groups) [sample_host] [sample_shop] = Inr ?out" by code_simp
  have "(\<exists>gv\<in>set (gs_groups sample_groups). \<exists>p\<in>set [sample_shop]. prj_name p = ph_project sample_host \<and>
       {ph_hostname sample_host} \<union> set (ph_surfaces sample_host) \<subseteq> dom_host ` set (gv_domains gv) \<and>
       mget ?out (ph_project sample_host) = Some \<lparr>lr_name = gv_name gv, lr_namespace = gs_namespace sample_groups,
         lr_parent_refs_since = prj_parent_refs_since p\<rparr>) \<or>
     (mget ?out (ph_project sample_host) = None \<and> (\<forall>gv\<in>set (gs_groups sample_groups).
       ({ph_hostname sample_host} \<union> set (ph_surfaces sample_host)) \<inter> dom_host ` set (gv_domains gv) = {}))"
    by (rule ListenerSetsFor_moves_together [OF ok]) simp_all
  with ok show ?thesis by (simp add: mget_def)
qed

end
