(* ===== verification/Catalog_SignIn.thy ===== *)
theory Catalog_SignIn imports Catalog_Model begin

text \<open>
  \<open>catalog/clientproxy.go\<close> and \<open>catalog/signin.go\<close>: the gateway's half of a console's
  sign-in, its checks, and the policy entry it renders to. A nil \<open>*ClientProxy\<close> is \<open>None\<close>
  where the code allows one. A nil slice and an empty one are both \<open>[]\<close>; the policy never
  holds a nil one. The check of the group names is the caller's and stays a parameter.
\<close>

definition PostureAuthenticated :: string where "PostureAuthenticated = ''authenticated''"
definition PostureGroups :: string where "PostureGroups = ''groups''"
definition CSRFOff :: string where "CSRFOff = ''off''"
definition CSRFShadow :: string where "CSRFShadow = ''shadow''"
definition CSRFEnforce :: string where "CSRFEnforce = ''enforce''"

lemmas signin_constants = PostureAuthenticated_def PostureGroups_def CSRFOff_def CSRFShadow_def CSRFEnforce_def

record client_proxy =
  cp_attach_route_name :: string
  cp_attach_route_rule :: string
  cp_posture :: string
  cp_allow :: "string list"
  cp_forward_bearer :: "bool option"
  cp_csrf :: string
  cp_csrf_additional_origins :: "string list"
  cp_same_site :: string

record sign_in =
  si_client_id :: string
  si_hostname :: string
  si_namespace :: string
  si_secret_name :: string
  si_path_prefix :: string

record policy_target_ref =
  tr_kind :: string
  tr_name :: string
  tr_section_name :: string

record sign_in_oidc =
  oi_client_id :: string
  oi_client_secret :: string
  oi_redirect_url :: string
  oi_logout_path :: string
  oi_cookie_same_site :: string
  oi_forward_access_token :: bool
  oi_audiences :: "string list"

record sign_in_policy =
  sp_type :: string
  sp_namespace :: string
  sp_target_refs :: "policy_target_ref list"
  sp_oidc :: sign_in_oidc
  sp_posture :: string
  sp_groups :: "string list"
  sp_csrf_mode :: string
  sp_csrf_origins :: "string list"

datatype 'e proxy_error =
    PNoRoute
  | PRouteRule string
  | PCSRF string
  | PCSRFOrigins
  | PSameSite string
  | PAllow 'e
  | PAllowUnread
  | PAllowEmpty
  | PPosture string

section \<open>The proxy\<close>

definition ForwardsBearer :: "client_proxy option \<Rightarrow> bool" where
  "ForwardsBearer p = (case p of None \<Rightarrow> True
     | Some p \<Rightarrow> (case cp_forward_bearer p of None \<Rightarrow> True | Some b \<Rightarrow> b))"

definition PostureOrDefault :: "client_proxy option \<Rightarrow> string" where
  "PostureOrDefault p = (case p of None \<Rightarrow> PostureAuthenticated
     | Some p \<Rightarrow> if cp_posture p = [] then PostureAuthenticated else cp_posture p)"

text \<open>\<open>routeRuleName\<close>: \<open>^[a-z0-9]([-a-z0-9]*[a-z0-9])?(\.[a-z0-9]([-a-z0-9]*[a-z0-9])?)*$\<close>\<close>

definition rule_label :: rx where
  "rule_label = Cat (Cls lower_alnum) (rx_opt (Cat (Star (Cls lower_alnum_dash)) (Cls lower_alnum)))"

definition routeRuleName :: rx where
  "routeRuleName = Cat rule_label (Star (Cat (rx_lit CHR ''.'') rule_label))"

definition IsRouteRuleName :: "string \<Rightarrow> bool" where
  "IsRouteRuleName rule \<longleftrightarrow> length rule \<le> 253 \<and> rx_match routeRuleName rule"

definition validateRouteBinding :: "client_proxy \<Rightarrow> 'e proxy_error option" where
  "validateRouteBinding p =
     (if cp_attach_route_name p = [] then Some PNoRoute
      else if cp_attach_route_rule p \<noteq> [] \<and> \<not> IsRouteRuleName (cp_attach_route_rule p)
      then Some (PRouteRule (cp_attach_route_rule p))
      else None)"

definition validateCookieDefences :: "client_proxy \<Rightarrow> 'e proxy_error option" where
  "validateCookieDefences p =
     (if cp_csrf p \<noteq> [] \<and> cp_csrf p \<noteq> CSRFOff \<and> cp_csrf p \<noteq> CSRFShadow \<and> cp_csrf p \<noteq> CSRFEnforce
      then Some (PCSRF (cp_csrf p))
      else if cp_csrf_additional_origins p \<noteq> [] \<and> (cp_csrf p = [] \<or> cp_csrf p = CSRFOff)
      then Some PCSRFOrigins
      else if cp_same_site p \<noteq> [] \<and> cp_same_site p \<noteq> ''Lax'' \<and> cp_same_site p \<noteq> ''Strict'' \<and> cp_same_site p \<noteq> ''None''
      then Some (PSameSite (cp_same_site p))
      else None)"

definition Proxy_Validate :: "(string list \<Rightarrow> 'e option) option \<Rightarrow> client_proxy \<Rightarrow> 'e proxy_error option" where
  "Proxy_Validate checkAllow p = first_of [
     validateRouteBinding p,
     validateCookieDefences p,
     (case checkAllow of None \<Rightarrow> None | Some chk \<Rightarrow> map_option PAllow (chk (cp_allow p))),
     (if PostureOrDefault (Some p) = PostureAuthenticated then fail_if (cp_allow p \<noteq> []) PAllowUnread
      else if PostureOrDefault (Some p) = PostureGroups then fail_if (cp_allow p = []) PAllowEmpty
      else Some (PPosture (cp_posture p)))]"

definition SignInPolicy :: "client_proxy \<Rightarrow> sign_in \<Rightarrow> sign_in_policy" where
  "SignInPolicy p s =
     (let checked = cp_csrf p \<noteq> [] \<and> cp_csrf p \<noteq> CSRFOff in
      \<lparr>sp_type = ''oidc'', sp_namespace = si_namespace s,
       sp_target_refs = [\<lparr>tr_kind = ''HTTPRoute'', tr_name = cp_attach_route_name p, tr_section_name = cp_attach_route_rule p\<rparr>],
       sp_oidc = \<lparr>oi_client_id = si_client_id s, oi_client_secret = si_secret_name s,
         oi_redirect_url = ''https://'' @ si_hostname s @ si_path_prefix s @ ''/callback'',
         oi_logout_path = si_path_prefix s @ ''/logout'', oi_cookie_same_site = cp_same_site p,
         oi_forward_access_token = ForwardsBearer (Some p), oi_audiences = [si_client_id s]\<rparr>,
       sp_posture = PostureOrDefault (Some p), sp_groups = cp_allow p,
       sp_csrf_mode = (if checked then cp_csrf p else CSRFOff),
       sp_csrf_origins = (if checked then cp_csrf_additional_origins p else [])\<rparr>)"

section \<open>Properties\<close>

definition rule_label_ok :: "string \<Rightarrow> bool" where
  "rule_label_ok w \<longleftrightarrow> w \<noteq> [] \<and> list_all lower_alnum_dash w \<and> hd w \<noteq> CHR ''-'' \<and> last w \<noteq> CHR ''-''"

lemma matches_rule_label: "matches rule_label w \<longleftrightarrow> rule_label_ok w"
proof -
  have *: "matches rule_label w \<longleftrightarrow>
     (\<exists>c. w = [c] \<and> lower_alnum c) \<or>
     (\<exists>c m d. w = c # m @ [d] \<and> lower_alnum c \<and> list_all lower_alnum_dash m \<and> lower_alnum d)"
    for w unfolding rule_label_def matches_cls_cat matches_opt matches_cat_cls matches_star_cls by auto
  show ?thesis
  proof (cases w)
    case Nil
    then show ?thesis by (simp add: * rule_label_ok_def)
  next
    case (Cons c t)
    then show ?thesis
      by (cases t rule: rev_cases) (auto simp: * rule_label_ok_def lower_alnum_dash_iff)
  qed
qed

text \<open>The pattern for a route rule's name is the Gateway API's rule spelled out: at most 253
  bytes, and between the dots only non-empty labels of lowercase letters, digits and dashes that
  neither start nor end with a dash.\<close>

theorem IsRouteRuleName_labels:
  "IsRouteRuleName s \<longleftrightarrow> length s \<le> 253 \<and> list_all rule_label_ok (split_on CHR ''.'' s)"
proof -
  have dot: "\<not> lower_alnum_dash CHR ''.''"
    by (simp add: lower_alnum_dash_def lower_alnum_def is_lower_letter_def is_digit_def in_range_def char_code_def)
  have "matches routeRuleName s \<longleftrightarrow> (\<forall>w\<in>set (split_on CHR ''.'' s). matches rule_label w)"
    unfolding routeRuleName_def
    by (rule matches_sep_list) (use dot in \<open>auto simp: matches_rule_label rule_label_ok_def list_all_iff\<close>)
  then show ?thesis by (simp add: IsRouteRuleName_def rx_match_correct matches_rule_label list_all_iff)
qed

text \<open>A proxy row that passes validation renders to a policy that cannot surprise: it binds one
  named route, its posture is one of the two, it lists groups exactly when the posture reads
  them, and it lists additional origins only where the Origin is checked.\<close>

theorem SignInPolicy_consistent:
  assumes "Proxy_Validate chk p = None"
  shows "let pol = SignInPolicy p s in (\<exists>r. sp_target_refs pol = [r] \<and> tr_name r \<noteq> [] \<and> (tr_section_name r = [] \<or> IsRouteRuleName (tr_section_name r))) \<and>
     sp_posture pol \<in> {PostureAuthenticated, PostureGroups} \<and>
     (sp_groups pol \<noteq> [] \<longleftrightarrow> sp_posture pol = PostureGroups) \<and>
     sp_csrf_mode pol \<in> {CSRFOff, CSRFShadow, CSRFEnforce} \<and>
     sp_csrf_origins pol = cp_csrf_additional_origins p \<and>
     (sp_csrf_origins pol = [] \<or> sp_csrf_mode pol \<noteq> CSRFOff) \<and>
     oi_cookie_same_site (sp_oidc pol) \<in> {[], ''Lax'', ''Strict'', ''None''}"
proof -
  have route: "cp_attach_route_name p \<noteq> [] \<and> (cp_attach_route_rule p = [] \<or> IsRouteRuleName (cp_attach_route_rule p))"
    using assms(1) by (auto simp: Proxy_Validate_def validateRouteBinding_def split: if_splits)
  have cookies: "cp_csrf p \<in> {[], CSRFOff, CSRFShadow, CSRFEnforce}"
    "cp_csrf_additional_origins p = [] \<or> (cp_csrf p \<noteq> [] \<and> cp_csrf p \<noteq> CSRFOff)"
    "cp_same_site p \<in> {[], ''Lax'', ''Strict'', ''None''}"
    using assms(1) by (auto simp: Proxy_Validate_def validateCookieDefences_def split: if_splits)
  have posture: "(PostureOrDefault (Some p) = PostureAuthenticated \<and> cp_allow p = []) \<or>
      (PostureOrDefault (Some p) = PostureGroups \<and> cp_allow p \<noteq> [])"
    using assms(1) by (auto simp: Proxy_Validate_def split: if_splits)
  have "PostureAuthenticated \<noteq> PostureGroups" by (simp add: signin_constants)
  with route cookies posture show ?thesis by (auto simp: SignInPolicy_def Let_def)
qed

definition sample_proxy :: client_proxy where
  "sample_proxy = \<lparr>cp_attach_route_name = ''console'', cp_attach_route_rule = ''app'', cp_posture = ''groups'',
     cp_allow = [''operators''], cp_forward_bearer = Some False, cp_csrf = ''shadow'',
     cp_csrf_additional_origins = [''https://partner.example''], cp_same_site = ''Lax''\<rparr>"

theorem SignInPolicy_consistent_witness:
  "sp_csrf_origins (SignInPolicy sample_proxy \<lparr>si_client_id = ''web'', si_hostname = ''console.example.com'',
     si_namespace = ''console'', si_secret_name = ''web-oidc'', si_path_prefix = ''/oauth''\<rparr>) = [''https://partner.example'']"
proof -
  have "Proxy_Validate (None :: (string list \<Rightarrow> unit option) option) sample_proxy = None" by code_simp
  from SignInPolicy_consistent [OF this] show ?thesis by (simp add: sample_proxy_def Let_def)
qed

end
