(* ===== verification/Edge_Order.thy ===== *)
theory Edge_Order imports Go_Sort begin

text \<open>
  \<open>cloudflare/edgespec/order.go\<close>: the ingress order of a tunnel's hosts (\<open>OrderHosts\<close>) and
  the shadowing test (\<open>Covers\<close>). \<open>cloudflared\<close> itself is not part of the sources; what it
  does with a rule's hostname is stated as \<open>rule_matches\<close>, the documented behaviour the
  comments rely on: the first matching rule wins, an exact hostname matches itself, a leading
  \<open>*.\<close> matches one or more labels, and a bare \<open>*\<close> matches everything.
\<close>

definition isWildcard :: "string \<Rightarrow> bool" where
  "isWildcard host \<longleftrightarrow> has_prefix host ''*.''"

definition labelCount :: "string \<Rightarrow> int" where
  "labelCount host = int (count_list host CHR ''.'') + 1"

text \<open>The loop compares the labels from the rightmost, so it runs over the reversed lists.\<close>

fun compare_labels :: "string list \<Rightarrow> string list \<Rightarrow> int" where
  "compare_labels (a # as) (b # bs) =
     (let d = str_compare a b in if d \<noteq> 0 then d else compare_labels as bs)"
| "compare_labels as bs = int (length as) - int (length bs)"

definition canonicalCompare :: "string \<Rightarrow> string \<Rightarrow> int" where
  "canonicalCompare a b =
     compare_labels (rev (split_on CHR ''.'' (to_lower a))) (rev (split_on CHR ''.'' (to_lower b)))"

definition compare_hosts :: "string \<Rightarrow> string \<Rightarrow> int" where
  "compare_hosts a b =
     (let aWild = isWildcard a; bWild = isWildcard b; d = labelCount b - labelCount a in
      if aWild \<noteq> bWild then (if aWild then 1 else -1)
      else if aWild \<and> d \<noteq> 0 then d
      else canonicalCompare a b)"

definition OrderHosts :: "string list \<Rightarrow> string list" where
  "OrderHosts hosts = sort_cmp compare_hosts hosts"

definition Covers :: "string \<Rightarrow> string \<Rightarrow> bool" where
  "Covers pattern candidate =
     (if pattern = candidate then True
      else case cut_prefix pattern ''*.'' of
        None \<Rightarrow> pattern = ''*''
      | Some zone \<Rightarrow> has_suffix (trim_prefix candidate ''*.'') (''.'' @ zone))"

section \<open>The order\<close>

definition labels_of :: "string \<Rightarrow> string list" where
  "labels_of h = rev (split_on CHR ''.'' (to_lower h))"

definition host_key :: "string \<Rightarrow> bool \<times> int \<times> string list" where
  "host_key h = (isWildcard h, if isWildcard h then - labelCount h else 0, labels_of h)"

lemma Nil_less [simp]: "([] :: 'a :: linorder list) < bs \<longleftrightarrow> bs \<noteq> []"
  by (cases bs) auto

lemma compare_labels_less: "compare_labels as bs < 0 \<longleftrightarrow> as < bs"
  by (induction as bs rule: compare_labels.induct)
    (auto simp: Let_def str_compare_def less_list_code)

lemma compare_labels_greater: "0 < compare_labels as bs \<longleftrightarrow> bs < as"
  by (induction as bs rule: compare_labels.induct)
    (auto simp: Let_def str_compare_def less_list_code)

interpretation host_order: go_keyed compare_hosts host_key
proof
  fix a b
  show "compare_hosts a b < 0 \<longleftrightarrow> host_key a < host_key b"
    using compare_labels_less [of "labels_of a" "labels_of b"]
    by (auto simp: compare_hosts_def host_key_def canonicalCompare_def labels_of_def Let_def less_prod_def)
  show "0 < compare_hosts a b \<longleftrightarrow> host_key b < host_key a"
    using compare_labels_greater [of "labels_of a" "labels_of b"]
    by (auto simp: compare_hosts_def host_key_def canonicalCompare_def labels_of_def Let_def less_prod_def)
qed

lemma labels_of_inject: "labels_of a = labels_of b \<longleftrightarrow> to_lower a = to_lower b"
  by (simp add: labels_of_def split_on_inject)

lemma compare_hosts_zero: "compare_hosts a b = 0 \<Longrightarrow> to_lower a = to_lower b"
  by (simp add: host_order.cmp_zero host_key_def labels_of_inject)

lemma OrderHosts_set [simp]: "set (OrderHosts hosts) = set hosts"
  by (simp add: OrderHosts_def)

lemma OrderHosts_mset [simp]: "mset (OrderHosts hosts) = mset hosts"
  by (simp add: OrderHosts_def)

lemma OrderHosts_sorted: "sorted_wrt (\<lambda>a b. host_key a \<le> host_key b) (OrderHosts hosts)"
  using host_order.sorted_sort_cmp [of hosts] by (simp add: OrderHosts_def host_order.cmp_le)

lemma OrderHosts_perm:
  assumes "mset hosts = mset hosts'" and "inj_on to_lower (set hosts)"
  shows "OrderHosts hosts = OrderHosts hosts'"
  unfolding OrderHosts_def using assms
  by (intro host_order.sort_cmp_perm) (auto dest: compare_hosts_zero inj_onD)

lemma OrderHosts_idem: "OrderHosts (OrderHosts hosts) = OrderHosts hosts"
  unfolding OrderHosts_def by (intro host_order.sort_cmp_idem host_order.sorted_sort_cmp)

section \<open>Matching and shadowing\<close>

definition rule_matches :: "string \<Rightarrow> string \<Rightarrow> bool" where
  "rule_matches rule h \<longleftrightarrow> rule = h \<or> rule = ''*'' \<or>
     (case cut_prefix rule ''*.'' of None \<Rightarrow> False | Some zone \<Rightarrow> has_suffix h (''.'' @ zone))"

definition first_rule :: "string list \<Rightarrow> string \<Rightarrow> string option" where
  "first_rule rules h = List.find (\<lambda>rule. rule_matches rule h) rules"

text \<open>What a client of the shadowing test relies on: the test is exactly inclusion of what the
  rules match.\<close>

locale ingress =
  fixes covers :: "'r \<Rightarrow> 'r \<Rightarrow> bool" and rmatch :: "'r \<Rightarrow> 'h \<Rightarrow> bool"
  assumes covers_iff: "covers p c \<longleftrightarrow> (\<forall>h. rmatch c h \<longrightarrow> rmatch p h)"
begin

lemma covers_refl: "covers p p"
  by (simp add: covers_iff)

lemma covers_trans: "covers p q \<Longrightarrow> covers q r \<Longrightarrow> covers p r"
  by (simp add: covers_iff)

lemma covered_never_first:
  assumes "covers p c"
  shows "List.find (\<lambda>r. rmatch r h) (pre @ p # mid @ c # post) = List.find (\<lambda>r. rmatch r h) (pre @ p # mid @ post)"
proof -
  have "List.find P (mid @ c # post) = List.find P (mid @ post)" if "\<not> P c" for P :: "'r \<Rightarrow> bool"
    using that by (induction mid) auto
  from this [of "\<lambda>r. rmatch r h"] show ?thesis
    using assms by (induction pre) (auto simp: covers_iff)
qed

end

lemma cut_prefix_Some: "cut_prefix s p = Some t \<longleftrightarrow> s = p @ t"
  by (auto simp: cut_prefix_def has_prefix_iff)

lemma cut_prefix_None: "cut_prefix s p = None \<longleftrightarrow> (\<forall>t. s \<noteq> p @ t)"
  by (simp add: cut_prefix_def has_prefix_iff)

lemma isWildcard_iff: "isWildcard h \<longleftrightarrow> (\<exists>s. h = ''*.'' @ s)"
  by (simp add: isWildcard_def has_prefix_iff)

lemma rule_matches_iff:
  "rule_matches r h \<longleftrightarrow> r = h \<or> r = ''*'' \<or> (\<exists>s. r = ''*.'' @ s \<and> has_suffix h (''.'' @ s))"
proof (cases "cut_prefix r ''*.''")
  case None
  then have "\<forall>t. r \<noteq> ''*.'' @ t" by (simp only: cut_prefix_None simp_thms)
  then show ?thesis unfolding rule_matches_def None option.case by blast
next
  case (Some t)
  then have r: "r = ''*.'' @ t" by (simp only: cut_prefix_Some)
  then show ?thesis unfolding rule_matches_def Some option.case by auto
qed

lemma Covers_iff:
  "Covers p c \<longleftrightarrow> p = c \<or> p = ''*'' \<or>
     (\<exists>s. p = ''*.'' @ s \<and> has_suffix (trim_prefix c ''*.'') (''.'' @ s))"
proof (cases "cut_prefix p ''*.''")
  case None
  then have "\<forall>t. p \<noteq> ''*.'' @ t" by (simp only: cut_prefix_None simp_thms)
  then show ?thesis unfolding Covers_def None option.case by auto
next
  case (Some t)
  then have r: "p = ''*.'' @ t" by (simp only: cut_prefix_Some)
  then show ?thesis unfolding Covers_def Some option.case by auto
qed

lemma has_suffix_dot_cases:
  "has_suffix (''*.'' @ t) (''.'' @ s) \<longleftrightarrow> has_suffix t (''.'' @ s) \<or> s = t"
  unfolding has_suffix_iff by (auto simp: append_eq_Cons_conv Cons_eq_append_conv)

lemma trim_exact: "\<not> isWildcard c \<Longrightarrow> trim_prefix c ''*.'' = c"
  by (simp add: trim_prefix_def isWildcard_def)

lemma Covers_trim:
  "has_suffix (trim_prefix c ''*.'') (''.'' @ s) \<Longrightarrow> has_suffix c (''.'' @ s)"
proof (cases "isWildcard c")
  case True
  then obtain t where "c = ''*.'' @ t" by (auto simp: isWildcard_iff)
  moreover assume "has_suffix (trim_prefix c ''*.'') (''.'' @ s)"
  ultimately have "has_suffix t (''.'' @ s)" by (simp only: trim_prefix_append)
  then show ?thesis
    unfolding \<open>c = ''*.'' @ t\<close> has_suffix_iff by (metis append.assoc)
qed (simp add: trim_exact)

interpretation tunnel_ingress: ingress Covers rule_matches
proof
  fix p c
  show "Covers p c \<longleftrightarrow> (\<forall>h. rule_matches c h \<longrightarrow> rule_matches p h)"
  proof
    assume "Covers p c"
    then consider "p = c" | "p = ''*''" | s where "p = ''*.'' @ s" "has_suffix (trim_prefix c ''*.'') (''.'' @ s)"
      by (auto simp: Covers_iff)
    then show "\<forall>h. rule_matches c h \<longrightarrow> rule_matches p h"
    proof cases
      case 3
      show ?thesis
      proof (intro allI impI)
        fix h assume "rule_matches c h"
        then consider "c = h" | "c = ''*''" | t where "c = ''*.'' @ t" "has_suffix h (''.'' @ t)"
          by (auto simp: rule_matches_iff)
        then show "rule_matches p h"
        proof cases
          case 1
          with 3 Covers_trim show ?thesis by (auto simp: rule_matches_iff)
        next
          case 2
          with 3(2) have "has_suffix ''*'' (''.'' @ s)" by (simp add: trim_prefix_def has_prefix_def)
          then have False by (auto simp: has_suffix_iff Cons_eq_append_conv)
          then show ?thesis ..
        next
          case (3 t)
          with \<open>has_suffix (trim_prefix c ''*.'') (''.'' @ s)\<close> have "has_suffix t (''.'' @ s)"
            by (simp add: trim_prefix_def)
          then have "has_suffix h (''.'' @ s)" using 3(2) by (auto simp: has_suffix_iff)
          with \<open>p = ''*.'' @ s\<close> show ?thesis by (auto simp: rule_matches_iff)
        qed
      qed
    qed (simp_all add: rule_matches_iff)
  next
    assume all: "\<forall>h. rule_matches c h \<longrightarrow> rule_matches p h"
    then have "rule_matches p c" by (simp add: rule_matches_iff)
    then consider "p = c" | "p = ''*''" | s where "p = ''*.'' @ s" "has_suffix c (''.'' @ s)"
      by (auto simp: rule_matches_iff)
    then show "Covers p c"
    proof cases
      case 3
      show ?thesis
      proof (cases "isWildcard c")
        case True
        then obtain t where c: "c = ''*.'' @ t" by (auto simp: isWildcard_iff)
        with 3 have "has_suffix t (''.'' @ s) \<or> s = t" by (simp only: has_suffix_dot_cases)
        then show ?thesis
        proof
          assume "has_suffix t (''.'' @ s)"
          with 3(1) c show ?thesis by (simp add: Covers_iff trim_prefix_def)
        next
          assume "s = t"
          with 3(1) c show ?thesis by (simp add: Covers_iff)
        qed
      next
        case False
        with 3 show ?thesis by (auto simp: Covers_iff trim_exact)
      qed
    qed (simp_all add: Covers_iff)
  qed
qed

section \<open>Ordered hosts\<close>

lemma isWildcard_to_lower [simp]: "isWildcard (to_lower h) = isWildcard h"
proof -
  have star: "lower_char c = CHR ''*'' \<longleftrightarrow> c = CHR ''*''" and dot: "lower_char c = CHR ''.'' \<longleftrightarrow> c = CHR ''.''" for c
    by (rule lower_char_fixed; simp add: is_upper_letter_def is_lower_letter_def in_range_def char_code_def)+
  show ?thesis
    by (cases h rule: remdups_adj.cases) (auto simp: isWildcard_def has_prefix_def to_lower_def star dot)
qed

lemma labelCount_to_lower [simp]: "labelCount (to_lower h) = labelCount h"
proof -
  have "lower_char c = CHR ''.'' \<longleftrightarrow> c = CHR ''.''" for c
    by (rule lower_char_fixed) (simp_all add: is_upper_letter_def is_lower_letter_def in_range_def char_code_def)
  then have "count_list (to_lower h) CHR ''.'' = count_list h CHR ''.''"
    by (induction h) (auto simp: to_lower_def)
  then show ?thesis by (simp add: labelCount_def)
qed

lemma labelCount_mono: "has_suffix s (''.'' @ t) \<Longrightarrow> labelCount t < labelCount s"
  by (auto simp: has_suffix_iff labelCount_def)

lemma labelCount_wild [simp]: "labelCount (''*.'' @ s) = labelCount s + 1"
  by (simp add: labelCount_def)

text \<open>A host that covers another, different one comes after it in the order.\<close>

lemma covers_after:
  assumes "Covers p c" and "p \<noteq> c" and "p \<noteq> ''*''"
  shows "isWildcard p \<and> (isWildcard c \<longrightarrow> labelCount p < labelCount c)"
proof -
  from assms obtain s where p: "p = ''*.'' @ s" and suf: "has_suffix (trim_prefix c ''*.'') (''.'' @ s)"
    by (auto simp: Covers_iff)
  have "labelCount p < labelCount c" if "isWildcard c"
  proof -
    from that obtain t where c: "c = ''*.'' @ t" by (auto simp: isWildcard_iff)
    with suf have "has_suffix t (''.'' @ s)" by (simp only: trim_prefix_append)
    from labelCount_mono [OF this] show ?thesis by (simp only: p c labelCount_wild)
  qed
  with p show ?thesis by (simp add: isWildcard_iff)
qed

lemma host_key_covers:
  assumes "Covers (to_lower p) (to_lower c)" and "to_lower p \<noteq> to_lower c" and "to_lower p \<noteq> ''*''"
  shows "\<not> host_key p \<le> host_key c"
  using covers_after [OF assms] by (auto simp: host_key_def less_eq_prod_def less_prod_def)

lemma to_lower_star: "to_lower h = ''*'' \<longleftrightarrow> h = ''*''"
proof -
  have "lower_char c = CHR ''*'' \<longleftrightarrow> c = CHR ''*''" for c
    by (rule lower_char_fixed) (simp_all add: is_upper_letter_def is_lower_letter_def in_range_def char_code_def)
  then show ?thesis by (cases h) (auto simp: to_lower_def)
qed

lemma OrderHosts_no_shadow_nth:
  assumes "distinct (map to_lower hosts)" and "''*'' \<notin> set hosts"
    and "i < j" and "j < length hosts"
  shows "\<not> Covers (to_lower (OrderHosts hosts ! i)) (to_lower (OrderHosts hosts ! j))"
proof
  let ?o = "OrderHosts hosts"
  assume cov: "Covers (to_lower (?o ! i)) (to_lower (?o ! j))"
  have len: "length ?o = length hosts" by (simp add: OrderHosts_def)
  have "mset (map to_lower ?o) = mset (map to_lower hosts)" by simp
  with assms(1) have "distinct (map to_lower ?o)" by (metis mset_eq_imp_distinct_iff)
  then have "to_lower (?o ! i) \<noteq> to_lower (?o ! j)"
    using assms(3,4) len by (simp add: distinct_conv_nth)
  moreover have "to_lower (?o ! i) \<noteq> ''*''"
    using assms(2-4) len OrderHosts_set [of hosts] by (metis nth_mem to_lower_star order.strict_trans)
  ultimately have "\<not> host_key (?o ! i) \<le> host_key (?o ! j)" using host_key_covers cov by blast
  moreover have "host_key (?o ! i) \<le> host_key (?o ! j)"
    using sorted_wrt_nth_less [OF OrderHosts_sorted assms(3)] assms(4) len by simp
  ultimately show False by simp
qed

section \<open>Properties\<close>

text \<open>The shadowing test is exact: \<open>Covers\<close> says that one rule makes another dead precisely
  when every request the second could match, the first matches already.\<close>

theorem Covers_exact: "Covers p c \<longleftrightarrow> (\<forall>h. rule_matches c h \<longrightarrow> rule_matches p h)"
  by (rule tunnel_ingress.covers_iff)

theorem Covers_exact_witness: "rule_matches ''*.example.com'' ''x.b.example.com''"
proof -
  have c: "Covers ''*.example.com'' ''*.b.example.com''" by code_simp
  have m: "rule_matches ''*.b.example.com'' ''x.b.example.com''" by code_simp
  show ?thesis using Covers_exact [of "''*.example.com''" "''*.b.example.com''"] c m by blast
qed

text \<open>C6 No rule of an ordered tunnel is shadowed: among hosts that differ by more than case,
  none of which is a bare \<open>*\<close>, no host is covered by an earlier one, and every host is kept
  exactly once.\<close>

theorem OrderHosts_no_shadow:
  assumes "distinct (map to_lower hosts)" and "''*'' \<notin> set hosts"
  shows "mset (OrderHosts hosts) = mset hosts \<and>
     (\<forall>j<length hosts. \<forall>i<j. \<not> Covers (to_lower (OrderHosts hosts ! i)) (to_lower (OrderHosts hosts ! j)))"
  using OrderHosts_no_shadow_nth [OF assms] by simp

theorem OrderHosts_no_shadow_witness:
  "\<not> Covers (to_lower (OrderHosts [''*.example.com'', ''a.example.com'', ''*.b.example.com''] ! 1))
     (to_lower (OrderHosts [''*.example.com'', ''a.example.com'', ''*.b.example.com''] ! 2))"
proof -
  have "distinct (map to_lower [''*.example.com'', ''a.example.com'', ''*.b.example.com''])" by code_simp
  moreover have "''*'' \<notin> set [''*.example.com'', ''a.example.com'', ''*.b.example.com'']" by simp
  ultimately show ?thesis
    using OrderHosts_no_shadow [of "[''*.example.com'', ''a.example.com'', ''*.b.example.com'']"] by simp
qed

text \<open>C7 A request to an ordered tunnel is answered under the most specific rule: every other rule
  of the tunnel that matches it covers the one that is chosen.\<close>

theorem OrderHosts_most_specific:
  assumes "''*'' \<notin> set hosts" and "first_rule (OrderHosts hosts) h = Some r"
    and "r' \<in> set hosts" and "rule_matches r' h"
  shows "r \<in> set hosts \<and> rule_matches r h \<and> Covers r' r"
proof -
  let ?o = "OrderHosts hosts"
  from assms(2) obtain i where i: "i < length ?o" "rule_matches (?o ! i) h" "r = ?o ! i"
    and before: "\<And>j. j < i \<Longrightarrow> \<not> rule_matches (?o ! j) h"
    by (auto simp: first_rule_def find_Some_iff)
  from assms(3) obtain j where j: "j < length ?o" "?o ! j = r'" by (metis OrderHosts_set in_set_conv_nth)
  have r: "r \<in> set hosts" using i by (metis OrderHosts_set nth_mem)
  have "i \<le> j" using before assms(4) j(2) not_le by blast
  then have key: "r = r' \<or> host_key r \<le> host_key r'"
    using sorted_wrt_nth_less [OF OrderHosts_sorted, of i j hosts] i j by (cases "i = j") auto
  have star: "r \<noteq> ''*''" "r' \<noteq> ''*''" using r assms(1,3) by auto
  have "Covers r' r"
  proof (cases "r = r'")
    case False
    with key have key: "host_key r \<le> host_key r'" by simp
    from i star consider "r = h" "\<not> isWildcard r" | "isWildcard r" by (auto simp: rule_matches_iff isWildcard_iff)
    then show ?thesis
    proof cases
      case 1
      have "rule_matches r' h'" if "rule_matches r h'" for h'
        using that 1 star assms(4) by (auto simp: rule_matches_iff isWildcard_iff)
      then show ?thesis by (simp add: tunnel_ingress.covers_iff)
    next
      case 2
      then obtain s where s: "r = ''*.'' @ s" by (auto simp: isWildcard_iff)
      from key 2 have w': "isWildcard r'" and lc: "labelCount r' \<le> labelCount r"
        by (auto simp: host_key_def less_eq_prod_def less_prod_def)
      from w' obtain t where t: "r' = ''*.'' @ t" by (auto simp: isWildcard_iff)
      have hs: "has_suffix h (''.'' @ s)" if "h \<noteq> r" using that i s by (auto simp: rule_matches_iff)
      have ht: "has_suffix h (''.'' @ t)" if "h \<noteq> r'" using that assms(4) t by (auto simp: rule_matches_iff)
      have self: "has_suffix (''*.'' @ u) (''.'' @ u)" for u by (auto simp: has_suffix_iff)
      have hs: "has_suffix h (''.'' @ s)" using hs self [of s] s by metis
      have ht: "has_suffix h (''.'' @ t)" using ht self [of t] t by metis
      have "has_suffix s (''.'' @ t)"
      proof -
        from hs obtain u where "h = u @ ''.'' @ s" unfolding has_suffix_iff by blast
        moreover from ht obtain v where "h = v @ ''.'' @ t" unfolding has_suffix_iff by blast
        ultimately have "u @ (''.'' @ s) = v @ (''.'' @ t)" by simp
        then consider w where "u @ w = v" "''.'' @ s = w @ ''.'' @ t" | w where "u = v @ w" "w @ ''.'' @ s = ''.'' @ t"
          unfolding append_eq_append_conv2 by metis
        then show ?thesis
        proof cases
          case (1 w)
          then show ?thesis using False s t by (cases w) (auto simp: has_suffix_iff)
        next
          case (2 w)
          show ?thesis
          proof (cases w)
            case Nil
            then show ?thesis using 2 False s t by simp
          next
            case (Cons x w')
            with 2 have "has_suffix t (''.'' @ s)" by (auto simp: has_suffix_iff)
            from labelCount_mono [OF this] lc show ?thesis by (simp only: s t labelCount_wild)
          qed
        qed
      qed
      then show ?thesis using s t by (simp add: Covers_iff trim_prefix_def)
    qed
  qed (simp add: Covers_iff)
  with r i show ?thesis by simp
qed

theorem OrderHosts_most_specific_witness:
  "first_rule (OrderHosts [''*.example.com'', ''*.b.example.com'']) ''x.b.example.com'' = Some ''*.b.example.com'' \<and>
   Covers ''*.example.com'' ''*.b.example.com''"
proof -
  have f: "first_rule (OrderHosts [''*.example.com'', ''*.b.example.com'']) ''x.b.example.com'' = Some ''*.b.example.com''"
    by code_simp
  have m: "rule_matches ''*.example.com'' ''x.b.example.com''" by code_simp
  show ?thesis using OrderHosts_most_specific [OF _ f _ m] f by simp
qed

text \<open>The ingress order is a function of the set of hosts: however the hosts of a tunnel were
  collected, the same rules come out in the same order, and ordering twice changes nothing.\<close>

theorem OrderHosts_canonical:
  assumes "mset hosts = mset hosts'" and "distinct (map to_lower hosts)"
  shows "OrderHosts hosts = OrderHosts hosts' \<and> OrderHosts (OrderHosts hosts) = OrderHosts hosts"
  using OrderHosts_perm [OF assms(1)] assms(2) OrderHosts_idem by (simp add: distinct_map)

theorem OrderHosts_canonical_witness:
  "OrderHosts [''b.example.com'', ''a.example.com''] = OrderHosts [''a.example.com'', ''b.example.com'']"
proof -
  have "mset [''b.example.com'', ''a.example.com''] = mset [''a.example.com'', ''b.example.com'']" by simp
  moreover have "distinct (map to_lower [''b.example.com'', ''a.example.com''])" by code_simp
  ultimately show ?thesis using OrderHosts_canonical by blast
qed

end
