(* ===== verification/Filter_Expr.thy ===== *)
theory Filter_Expr imports Go_NetIP Edge_Order begin

text \<open>
  The part of Cloudflare's Rules language the sources write. The sources build expressions as
  text; here an expression is a tree, \<open>render\<close> is the text it stands for and \<open>holds\<close> what
  Cloudflare documents that it matches. A theorem about an expression says that the text the
  code builds is the rendering of a tree, and what the tree matches. \<open>unambiguous\<close> says that
  the text reads back as the tree under the language's precedence: \<open>not\<close> before \<open>and\<close>
  before \<open>or\<close>, its strings are plain characters, so that \<open>%q\<close> escapes nothing, and no set is
  empty.
\<close>

record request =
  rq_host :: string
  rq_path :: string
  rq_method :: string
  rq_ip :: ip_addr
  rq_origin :: bool

datatype fexpr =
    FTrue
  | FHostEq string
  | FHostIn "string list"
  | FHostEnds string
  | FPathEq string
  | FPathIn "string list"
  | FPathStarts string
  | FMethodIn "string list"
  | FIpIn "string list"
  | FNoOrigin
  | FNot fexpr
  | FAnd "fexpr list"
  | FOr "fexpr list"
  | FParen fexpr

definition quoted_set :: "string list \<Rightarrow> string" where
  "quoted_set vs = ''{'' @ str_join '' '' (map go_quote vs) @ ''}''"

fun render :: "fexpr \<Rightarrow> string" where
  "render FTrue = ''true''"
| "render (FHostEq h) = ''http.host eq '' @ go_quote h"
| "render (FHostIn hs) = ''http.host in '' @ quoted_set hs"
| "render (FHostEnds s) = ''ends_with(http.host, '' @ go_quote s @ '')''"
| "render (FPathEq p) = ''http.request.uri.path eq '' @ go_quote p"
| "render (FPathIn ps) = ''http.request.uri.path in '' @ quoted_set ps"
| "render (FPathStarts p) = ''starts_with(http.request.uri.path, '' @ go_quote p @ '')''"
| "render (FMethodIn ms) = ''http.request.method in '' @ quoted_set ms"
| "render (FIpIn rs) = ''ip.src in {'' @ str_join '' '' rs @ ''}''"
| "render FNoOrigin = ''not any(lower(http.request.headers.names[*])[*] eq '' @ go_quote ''origin'' @ '')''"
| "render (FNot e) = ''not '' @ render e"
| "render (FAnd es) = str_join '' and '' (map render es)"
| "render (FOr es) = str_join '' or '' (map render es)"
| "render (FParen e) = ''('' @ render e @ '')''"

fun holds :: "fexpr \<Rightarrow> request \<Rightarrow> bool" where
  "holds FTrue r \<longleftrightarrow> True"
| "holds (FHostEq h) r \<longleftrightarrow> rq_host r = h"
| "holds (FHostIn hs) r \<longleftrightarrow> rq_host r \<in> set hs"
| "holds (FHostEnds s) r \<longleftrightarrow> has_suffix (rq_host r) s"
| "holds (FPathEq p) r \<longleftrightarrow> rq_path r = p"
| "holds (FPathIn ps) r \<longleftrightarrow> rq_path r \<in> set ps"
| "holds (FPathStarts p) r \<longleftrightarrow> has_prefix (rq_path r) p"
| "holds (FMethodIn ms) r \<longleftrightarrow> rq_method r \<in> set ms"
| "holds (FIpIn rs) r \<longleftrightarrow> list_ex (\<lambda>c. case ParsePrefix c of None \<Rightarrow> False | Some p \<Rightarrow> prefix_contains p (rq_ip r)) rs"
| "holds FNoOrigin r \<longleftrightarrow> \<not> rq_origin r"
| "holds (FNot e) r \<longleftrightarrow> \<not> holds e r"
| "holds (FAnd es) r \<longleftrightarrow> list_all (\<lambda>e. holds e r) es"
| "holds (FOr es) r \<longleftrightarrow> list_ex (\<lambda>e. holds e r) es"
| "holds (FParen e) r \<longleftrightarrow> holds e r"

text \<open>A value of plain characters is quoted as it is, so the text holds the value itself.\<close>

definition plain_char :: "char \<Rightarrow> bool" where
  "plain_char c \<longleftrightarrow> 32 \<le> char_code c \<and> char_code c \<le> 126 \<and> c \<noteq> CHR 0x22 \<and> c \<noteq> CHR 0x5C"

definition plain :: "string \<Rightarrow> bool" where
  "plain s \<longleftrightarrow> list_all plain_char s"

fun is_junction :: "fexpr \<Rightarrow> bool" where
  "is_junction (FAnd es) \<longleftrightarrow> True"
| "is_junction (FOr es) \<longleftrightarrow> True"
| "is_junction e \<longleftrightarrow> False"

fun is_disjunction :: "fexpr \<Rightarrow> bool" where
  "is_disjunction (FOr es) \<longleftrightarrow> True"
| "is_disjunction e \<longleftrightarrow> False"

fun unambiguous :: "fexpr \<Rightarrow> bool" where
  "unambiguous FTrue \<longleftrightarrow> True"
| "unambiguous (FHostEq h) \<longleftrightarrow> plain h"
| "unambiguous (FHostIn hs) \<longleftrightarrow> hs \<noteq> [] \<and> list_all plain hs"
| "unambiguous (FHostEnds s) \<longleftrightarrow> plain s"
| "unambiguous (FPathEq p) \<longleftrightarrow> plain p"
| "unambiguous (FPathIn ps) \<longleftrightarrow> ps \<noteq> [] \<and> list_all plain ps"
| "unambiguous (FPathStarts p) \<longleftrightarrow> plain p"
| "unambiguous (FMethodIn ms) \<longleftrightarrow> ms \<noteq> [] \<and> list_all plain ms"
| "unambiguous (FIpIn rs) \<longleftrightarrow> rs \<noteq> [] \<and> list_all (\<lambda>c. ParsePrefix c \<noteq> None) rs"
| "unambiguous FNoOrigin \<longleftrightarrow> True"
| "unambiguous (FNot e) \<longleftrightarrow> unambiguous e \<and> \<not> is_junction e"
| "unambiguous (FAnd es) \<longleftrightarrow> es \<noteq> [] \<and> list_all (\<lambda>e. unambiguous e \<and> \<not> is_junction e) es"
| "unambiguous (FOr es) \<longleftrightarrow> es \<noteq> [] \<and> list_all (\<lambda>e. unambiguous e \<and> \<not> is_disjunction e) es"
| "unambiguous (FParen e) \<longleftrightarrow> unambiguous e"

lemma str_join_Cons: "ws \<noteq> [] \<Longrightarrow> str_join sep (w # ws) = w @ sep @ str_join sep ws"
  by (cases ws) auto

lemma quote_plain_char: "plain_char c \<Longrightarrow> quote_char c = [c]"
proof -
  assume "plain_char c"
  moreover have "char_code c = 34 \<longleftrightarrow> c = CHR 0x22" "char_code c = 92 \<longleftrightarrow> c = CHR 0x5C"
    using of_char_eq_iff [where 'a = nat, of c "CHR 0x22"] of_char_eq_iff [where 'a = nat, of c "CHR 0x5C"]
    by (simp_all add: char_code_def)
  ultimately show ?thesis by (simp add: plain_char_def quote_char_def Let_def)
qed

lemma go_quote_plain: "plain s \<Longrightarrow> go_quote s = [CHR 0x22] @ s @ [CHR 0x22]"
  unfolding plain_def by (induction s) (simp_all add: go_quote_def quote_plain_char)

lemma plain_append [simp]: "plain (a @ b) \<longleftrightarrow> plain a \<and> plain b"
  by (simp add: plain_def)

lemma plain_simps [simp]: "plain []" "plain (c # s) \<longleftrightarrow> plain_char c \<and> plain s"
  by (simp_all add: plain_def)

lemma plain_char_dot [simp]: "plain_char CHR ''.''" "plain_char CHR ''*''" "plain_char CHR ''/''"
  by (simp_all add: plain_char_def char_code_def)

text \<open>An expression the code builds, as the tree it stands for and what the tree matches.\<close>

definition expresses :: "string \<Rightarrow> (request \<Rightarrow> bool) \<Rightarrow> bool" where
  "expresses text match \<longleftrightarrow> (\<exists>e. text = render e \<and> unambiguous e \<and> (\<forall>r. holds e r \<longleftrightarrow> match r))"

lemma expressesI: "unambiguous e \<Longrightarrow> text = render e \<Longrightarrow> (\<And>r. holds e r \<longleftrightarrow> match r) \<Longrightarrow> expresses text match"
  unfolding expresses_def by blast

lemma expresses_cong: "expresses text m \<Longrightarrow> (\<And>r. m r = m' r) \<Longrightarrow> expresses text m'"
  unfolding expresses_def by simp

end
