(* ===== verification/Rule_Spec.thy ===== *)
theory Rule_Spec imports Filter_Expr begin

text \<open>
  \<open>cloudflare/rulespec/rulespec.go\<close>: a ruleset rule and a contribution, the rules one source
  wants in one phase. A phase is a string, as in the code.
\<close>

type_synonym phase = string

record ttl =
  ttl_mode :: string
  ttl_default :: int

record cache_params =
  cp_cache :: bool
  cp_edge_ttl :: "ttl option"
  cp_browser_ttl :: "ttl option"
  cp_respect_strong_etags :: bool

record config_params =
  cfp_ssl :: string

record skip_params =
  sp_ruleset :: string
  sp_phases :: "string list"
  sp_products :: "string list"

record execute_params =
  xp_id :: string

record params =
  par_cache :: "cache_params option"
  par_config :: "config_params option"
  par_skip :: "skip_params option"
  par_execute :: "execute_params option"

record rate_limit =
  rl_characteristics :: "string list"
  rl_period :: int
  rl_requests :: int
  rl_mitigation_timeout :: int
  rl_counting_expression :: string

record rule =
  rule_ref :: string
  rule_description :: string
  rule_action :: string
  rule_expression :: string
  rule_disabled :: bool
  rule_params :: params
  rule_rate_limit :: "rate_limit option"
  rule_logging :: bool

record contribution =
  con_source :: string
  con_phase :: phase
  con_order :: int
  con_rules :: "rule list"
  con_claim :: string

text \<open>The zero values a composite literal starts from.\<close>

definition no_params :: params where
  "no_params = \<lparr>par_cache = None, par_config = None, par_skip = None, par_execute = None\<rparr>"

definition zero_rule :: rule where
  "zero_rule = \<lparr>rule_ref = [], rule_description = [], rule_action = [], rule_expression = [],
     rule_disabled = False, rule_params = no_params, rule_rate_limit = None, rule_logging = False\<rparr>"

definition zero_contribution :: contribution where
  "zero_contribution = \<lparr>con_source = [], con_phase = [], con_order = 0, con_rules = [], con_claim = []\<rparr>"

end
