(* ===== verification/Zone_RateLimit.thy ===== *)
theory Zone_RateLimit imports Filter_Expr begin

text \<open>
  \<open>cloudflare/zonespec/ratelimit.go\<close>: the rate limiting rules of a zone, their validation
  against the limits of the zone's plan, and the match expression and the counting keys a rule
  is rendered to. Error values drop the prefix that names the zone: it is the same in every
  message of a call.
\<close>

definition characteristicColo :: string where
  "characteristicColo = ''cf.colo.id''"

definition characteristicIP :: string where
  "characteristicIP = ''ip.src''"

definition characteristicVisitor :: string where
  "characteristicVisitor = ''cf.unique_visitor_id''"

definition actionBlock :: string where
  "actionBlock = ''block''"

definition actionLog :: string where
  "actionLog = ''log''"

definition validRateLimitActions :: "string list" where
  "validRateLimitActions = [actionBlock, ''managed_challenge'', ''js_challenge'', ''challenge'']"

definition maxExpressionLength :: nat where
  "maxExpressionLength = 4096"

definition PlanFree :: string where
  "PlanFree = ''free''"

definition PlanPro :: string where
  "PlanPro = ''pro''"

definition PlanBusiness :: string where
  "PlanBusiness = ''business''"

record plan_limit =
  pl_max_rules :: nat
  pl_periods :: "int list"
  pl_mitigation_timeouts :: "int list"
  pl_characteristics :: "string list"
  pl_one_characteristic :: bool
  pl_method :: bool
  pl_counting_expression :: bool

definition planLimits :: "plan_limit gomap" where
  "planLimits = [
     (PlanFree, \<lparr>pl_max_rules = 1, pl_periods = [10], pl_mitigation_timeouts = [10],
        pl_characteristics = [characteristicIP], pl_one_characteristic = False,
        pl_method = False, pl_counting_expression = False\<rparr>),
     (PlanPro, \<lparr>pl_max_rules = 2, pl_periods = [10, 60],
        pl_mitigation_timeouts = [10, 60, 120, 300, 600, 3600],
        pl_characteristics = [characteristicIP], pl_one_characteristic = False,
        pl_method = False, pl_counting_expression = False\<rparr>),
     (PlanBusiness, \<lparr>pl_max_rules = 5, pl_periods = [10, 60, 120, 300, 600],
        pl_mitigation_timeouts = [10, 60, 120, 300, 600, 3600, 86400],
        pl_characteristics = [characteristicIP, characteristicVisitor], pl_one_characteristic = True,
        pl_method = True, pl_counting_expression = True\<rparr>)]"

record rl_endpoint =
  ep_host :: string
  ep_path :: string
  ep_path_prefix :: string
  ep_methods :: "string list"

record rate_limit_rule =
  rlr_name :: string
  rlr_endpoints :: "rl_endpoint list"
  rlr_expression :: string
  rlr_counting_expression :: string
  rlr_characteristics :: "string list"
  rlr_period :: int
  rlr_requests :: int
  rlr_mitigation_timeout :: int
  rlr_action :: string

record rate_limits =
  rls_plan :: string
  rls_rules :: "rate_limit_rule list"

datatype endpoint_error =
    EPHostEmpty
  | EPHost string
  | EPOnePath
  | EPPathShape string string
  | EPPathChars string string
  | EPMethodsPlan string
  | EPMethod string

datatype rl_rule_error =
    RLName
  | RLBoth
  | RLNeither
  | RLTooLong
  | RLMethodField string
  | RLCounting string
  | RLEndpoint nat endpoint_error
  | RLEndpointTwice nat
  | RLCharacteristic string string
  | RLCharacteristicTwice string
  | RLCharacteristicsTogether
  | RLPeriod int string
  | RLRequests
  | RLActionLog
  | RLAction string
  | RLTimeout int string
  | RLThrottle string string

datatype rl_error =
    RLPlan string "string list"
  | RLTooManyRules nat string nat
  | RLRule nat rl_rule_error
  | RLNameTwice nat string

section \<open>Validation\<close>

definition oneOf :: "string \<Rightarrow> string list \<Rightarrow> bool" where
  "oneOf value allowed \<longleftrightarrow> list_ex (\<lambda>a. value = a) allowed"

definition containsInt :: "int list \<Rightarrow> int \<Rightarrow> bool" where
  "containsInt values v \<longleftrightarrow> list_ex (\<lambda>x. x = v) values"

definition planNames :: "string list" where
  "planNames = sort (map fst planLimits)"

definition printableASCII :: "string \<Rightarrow> bool" where
  "printableASCII s \<longleftrightarrow> list_all (\<lambda>c. \<not> (char_code c < 32 \<or> 126 < char_code c)) s"

definition hostname_char :: "char \<Rightarrow> bool" where
  "hostname_char c \<longleftrightarrow> is_lower_letter c \<or> is_digit c \<or> c = CHR ''.'' \<or> c = CHR ''-''"

definition validHostname :: "string \<Rightarrow> endpoint_error option" where
  "validHostname h = first_of [
     fail_if (h = []) EPHostEmpty,
     fail_if (trim_chars hostname_char h \<noteq> [] \<or> has_prefix h ''.'' \<or> has_suffix h ''.'' \<or> str_contains h ''..'')
       (EPHost h)]"

definition Endpoint_validate :: "string \<Rightarrow> plan_limit \<Rightarrow> rl_endpoint \<Rightarrow> endpoint_error option" where
  "Endpoint_validate plan limit e = first_of [
     validHostname (ep_host e),
     fail_if ((ep_path e = []) = (ep_path_prefix e = [])) EPOnePath,
     first_err (\<lambda>(field, value).
        if value = [] then None
        else first_of [
          fail_if (\<not> has_prefix value ''/'' \<or> contains_any value ''?#'') (EPPathShape field value),
          fail_if (\<not> printableASCII value \<or> contains_any value [CHR 0x22, CHR 0x5C]) (EPPathChars field value)])
       [(''path'', ep_path e), (''pathPrefix'', ep_path_prefix e)],
     fail_if (ep_methods e \<noteq> [] \<and> \<not> pl_method limit) (EPMethodsPlan plan),
     first_err (\<lambda>m. fail_if (m = [] \<or> to_upper m \<noteq> m \<or> trim_chars is_upper_letter m \<noteq> []) (EPMethod m))
       (ep_methods e)]"

definition endpoint_key :: "rl_endpoint \<Rightarrow> string" where
  "endpoint_key e = ep_host e @ [CHR 0x00] @ ep_path e @ [CHR 0x00] @ ep_path_prefix e @ [CHR 0x00] @
     str_join '','' (ep_methods e)"

definition validateMatch :: "string \<Rightarrow> plan_limit \<Rightarrow> rate_limit_rule \<Rightarrow> rl_rule_error option" where
  "validateMatch plan limit r = first_of [
     fail_if (rlr_name r = [] \<or> trim_space (rlr_name r) \<noteq> rlr_name r \<or> 200 < length (rlr_name r)) RLName,
     fail_if (rlr_endpoints r \<noteq> [] \<and> rlr_expression r \<noteq> []) RLBoth,
     fail_if (rlr_endpoints r = [] \<and> rlr_expression r = []) RLNeither,
     fail_if (maxExpressionLength < length (rlr_expression r)) RLTooLong,
     fail_if (\<not> pl_method limit \<and> str_contains (rlr_expression r) ''http.request.method'') (RLMethodField plan),
     fail_if (rlr_counting_expression r \<noteq> [] \<and> \<not> pl_counting_expression limit) (RLCounting plan),
     scan_seen (\<lambda>j e. map_option (RLEndpoint j) (Endpoint_validate plan limit e)) endpoint_key
       (\<lambda>j e. RLEndpointTwice j) 0 [] (rlr_endpoints r)]"

text \<open>The loop over the characteristics: the keys seen, and how many were named.\<close>

fun characteristics_loop :: "string \<Rightarrow> plan_limit \<Rightarrow> string list \<Rightarrow> nat \<Rightarrow> string list \<Rightarrow> rl_rule_error + nat" where
  "characteristics_loop plan limit seen named [] = Inr named"
| "characteristics_loop plan limit seen named (c # cs) =
     (if c = characteristicColo then characteristics_loop plan limit seen named cs
      else if \<not> oneOf c (pl_characteristics limit) then Inl (RLCharacteristic c plan)
      else if c \<in> set seen then Inl (RLCharacteristicTwice c)
      else characteristics_loop plan limit (c # seen) (Suc named) cs)"

definition validateKeyAndRate :: "string \<Rightarrow> plan_limit \<Rightarrow> rate_limit_rule \<Rightarrow> rl_rule_error option" where
  "validateKeyAndRate plan limit r =
     (case characteristics_loop plan limit [] 0 (rlr_characteristics r) of
        Inl e \<Rightarrow> Some e
      | Inr named \<Rightarrow> first_of [
          fail_if (pl_one_characteristic limit \<and> 1 < named) RLCharacteristicsTogether,
          fail_if (\<not> containsInt (pl_periods limit) (rlr_period r)) (RLPeriod (rlr_period r) plan),
          fail_if (rlr_requests r < 1) RLRequests])"

definition validateAction :: "string \<Rightarrow> plan_limit \<Rightarrow> rate_limit_rule \<Rightarrow> rl_rule_error option" where
  "validateAction plan limit r = first_of [
     fail_if (rlr_action r = actionLog) RLActionLog,
     fail_if (\<not> oneOf (rlr_action r) validRateLimitActions) (RLAction (rlr_action r)),
     fail_if (rlr_action r = actionBlock \<and> \<not> containsInt (pl_mitigation_timeouts limit) (rlr_mitigation_timeout r))
       (RLTimeout (rlr_mitigation_timeout r) plan),
     fail_if (rlr_action r \<noteq> actionBlock \<and> rlr_mitigation_timeout r \<noteq> 0) (RLThrottle (rlr_action r) plan)]"

definition RateLimitRule_validate :: "string \<Rightarrow> plan_limit \<Rightarrow> rate_limit_rule \<Rightarrow> rl_rule_error option" where
  "RateLimitRule_validate plan limit r = first_of [
     validateMatch plan limit r, validateKeyAndRate plan limit r, validateAction plan limit r]"

definition RateLimits_validate :: "rate_limits \<Rightarrow> rl_error option" where
  "RateLimits_validate r =
     (case mget planLimits (rls_plan r) of
        None \<Rightarrow> Some (RLPlan (rls_plan r) planNames)
      | Some limit \<Rightarrow> first_of [
          fail_if (pl_max_rules limit < length (rls_rules r))
            (RLTooManyRules (length (rls_rules r)) (rls_plan r) (pl_max_rules limit)),
          scan_seen (\<lambda>i rule. map_option (RLRule i) (RateLimitRule_validate (rls_plan r) limit rule)) rlr_name
            (\<lambda>i rule. RLNameTwice i (rlr_name rule)) 0 [] (rls_rules r)])"

section \<open>Rendering\<close>

definition endpoint_term :: "rl_endpoint \<Rightarrow> string" where
  "endpoint_term e =
     (let path = (if ep_path_prefix e \<noteq> [] then ''starts_with(http.request.uri.path, '' @ go_quote (ep_path_prefix e) @ '')''
                  else ''http.request.uri.path eq '' @ go_quote (ep_path e));
          parts = [''http.host eq '' @ go_quote (ep_host e), path];
          parts = (if ep_methods e \<noteq> []
                   then parts @ [''http.request.method in {'' @ str_join '' '' (map go_quote (sort (ep_methods e))) @ ''}'']
                   else parts) in
      ''('' @ str_join '' and '' parts @ '')'')"

definition MatchExpression :: "rate_limit_rule \<Rightarrow> string" where
  "MatchExpression r =
     (if rlr_expression r \<noteq> [] then rlr_expression r
      else str_join '' or '' (map endpoint_term (rlr_endpoints r)))"

definition CharacteristicList :: "rate_limit_rule \<Rightarrow> string list" where
  "CharacteristicList r =
     (let keys = filter (\<lambda>c. c \<noteq> characteristicColo) (rlr_characteristics r);
          keys = (if keys = [] then [characteristicIP] else keys) in
      characteristicColo # sort keys)"

section \<open>What the checks accept\<close>

lemma dropWhile_Nil_all: "dropWhile p s = [] \<longleftrightarrow> list_all p s"
  by (simp add: dropWhile_eq_Nil_conv list_all_iff)

lemma trim_chars_Nil: "trim_chars p s = [] \<longleftrightarrow> list_all p s"
proof
  assume "trim_chars p s = []"
  then have "list_all p (rev (dropWhile p s))"
    unfolding trim_chars_def rev_is_Nil_conv dropWhile_Nil_all .
  then have "dropWhile p s = [] \<or> p (hd (dropWhile p s))"
    by (cases "dropWhile p s") (simp_all add: list_all_iff)
  then show "list_all p s" using hd_dropWhile [of p s] by (metis dropWhile_Nil_all)
next
  assume "list_all p s"
  then show "trim_chars p s = []" by (simp add: trim_chars_def dropWhile_Nil_all [THEN iffD2])
qed

lemma oneOf_iff [simp]: "oneOf v vs \<longleftrightarrow> v \<in> set vs"
  by (auto simp: oneOf_def list_ex_iff)

lemma containsInt_iff [simp]: "containsInt vs v \<longleftrightarrow> v \<in> set vs"
  by (auto simp: containsInt_def list_ex_iff)

definition hostname_ok :: "string \<Rightarrow> bool" where
  "hostname_ok h \<longleftrightarrow> h \<noteq> [] \<and> list_all hostname_char h \<and> \<not> has_prefix h ''.'' \<and> \<not> has_suffix h ''.'' \<and>
     \<not> str_contains h ''..''"

definition path_ok :: "string \<Rightarrow> bool" where
  "path_ok p \<longleftrightarrow> has_prefix p ''/'' \<and> plain p \<and> CHR ''?'' \<notin> set p \<and> CHR ''#'' \<notin> set p"

definition method_ok :: "string \<Rightarrow> bool" where
  "method_ok m \<longleftrightarrow> m \<noteq> [] \<and> list_all is_upper_letter m"

definition endpoint_ok :: "plan_limit \<Rightarrow> rl_endpoint \<Rightarrow> bool" where
  "endpoint_ok limit e \<longleftrightarrow> hostname_ok (ep_host e) \<and>
     (ep_path e = [] \<and> path_ok (ep_path_prefix e) \<or> ep_path_prefix e = [] \<and> path_ok (ep_path e)) \<and>
     (ep_methods e = [] \<or> pl_method limit) \<and> list_all method_ok (ep_methods e)"

lemma validHostname_None [go_err]: "validHostname h = None \<longleftrightarrow> hostname_ok h"
  by (auto simp: validHostname_def hostname_ok_def trim_chars_Nil)

lemma upper_fixed: "list_all is_upper_letter m \<Longrightarrow> to_upper m = m"
proof -
  have "upper_char c = c" if "is_upper_letter c" for c
    using that by (simp add: upper_char_def is_lower_letter_def is_upper_letter_def in_range_def char_code_def)
  then show "list_all is_upper_letter m \<Longrightarrow> to_upper m = m"
    by (simp add: to_upper_def map_idI list_all_iff)
qed

lemma printable_plain:
  "printableASCII v \<and> \<not> contains_any v [CHR 0x22, CHR 0x5C] \<longleftrightarrow> plain v"
proof -
  have "plain_char c \<longleftrightarrow> \<not> (char_code c < 32 \<or> 126 < char_code c) \<and> \<not> c \<in> set [CHR 0x22, CHR 0x5C]" for c
    unfolding plain_char_def by (simp only: list.set insert_iff empty_iff not_less de_Morgan_disj simp_thms conj_assoc)
  then show ?thesis unfolding printableASCII_def contains_any_def plain_def list_all_iff list_ex_iff by blast
qed

lemma path_shape: "\<not> (\<not> has_prefix v ''/'' \<or> contains_any v ''?#'') \<longleftrightarrow> has_prefix v ''/'' \<and> CHR ''?'' \<notin> set v \<and> CHR ''#'' \<notin> set v"
  by (auto simp: contains_any_iff)

lemma path_check:
  "(if v = [] then None
    else first_of [fail_if (\<not> has_prefix v ''/'' \<or> contains_any v ''?#'') e,
      fail_if (\<not> printableASCII v \<or> contains_any v [CHR 0x22, CHR 0x5C]) e']) = None \<longleftrightarrow> v = [] \<or> path_ok v"
proof -
  have "\<not> (\<not> printableASCII v \<or> contains_any v [CHR 0x22, CHR 0x5C]) \<longleftrightarrow> plain v"
    using printable_plain by blast
  then show ?thesis by (simp only: first_of_None fail_if_None path_shape path_ok_def split: if_split) blast
qed

lemma path_ok_not_Nil: "path_ok p \<Longrightarrow> p \<noteq> []"
  by (auto simp: path_ok_def)

text \<open>One endpoint is accepted exactly when its values are ones a rule may hold.\<close>

interpretation endpoint_check: validator "Endpoint_validate plan limit" "endpoint_ok limit" for plan limit
proof
  fix e
  have methods: "first_err (\<lambda>m. fail_if (m = [] \<or> to_upper m \<noteq> m \<or> trim_chars is_upper_letter m \<noteq> []) (EPMethod m)) ms = None \<longleftrightarrow>
      list_all method_ok ms" for ms
    by (auto simp: first_err_None trim_chars_Nil list_all_iff method_ok_def upper_fixed)
  have "Endpoint_validate plan limit e = None \<longleftrightarrow> hostname_ok (ep_host e) \<and>
      (ep_path e = []) \<noteq> (ep_path_prefix e = []) \<and>
      (ep_path e = [] \<or> path_ok (ep_path e)) \<and> (ep_path_prefix e = [] \<or> path_ok (ep_path_prefix e)) \<and>
      (ep_methods e = [] \<or> pl_method limit) \<and> list_all method_ok (ep_methods e)"
    by (simp only: Endpoint_validate_def first_of_None first_err_None_Cons prod.case path_check methods
      fail_if_None validHostname_None) blast
  then show "Endpoint_validate plan limit e = None \<longleftrightarrow> endpoint_ok limit e"
    using path_ok_not_Nil by (auto simp: endpoint_ok_def)
qed

abbreviation own_keys :: "string list \<Rightarrow> string list" where
  "own_keys cs \<equiv> filter (\<lambda>c. c \<noteq> characteristicColo) cs"

lemma characteristics_loop_Inr:
  "characteristics_loop plan limit seen n cs = Inr k \<longleftrightarrow>
     set (own_keys cs) \<subseteq> set (pl_characteristics limit) \<and> distinct (own_keys cs) \<and>
     set (own_keys cs) \<inter> set seen = {} \<and> k = n + length (own_keys cs)"
  by (induction cs arbitrary: seen n) auto

definition match_ok :: "plan_limit \<Rightarrow> rate_limit_rule \<Rightarrow> bool" where
  "match_ok limit r \<longleftrightarrow> (rlr_endpoints r = []) \<noteq> (rlr_expression r = []) \<and>
     length (rlr_expression r) \<le> maxExpressionLength \<and>
     list_all (endpoint_ok limit) (rlr_endpoints r) \<and> distinct (map endpoint_key (rlr_endpoints r))"

lemma validateMatch_ok:
  assumes "validateMatch plan limit r = None"
  shows "match_ok limit r"
proof -
  from assms have "list_all (endpoint_ok limit) (rlr_endpoints r)" "distinct (map endpoint_key (rlr_endpoints r))"
    unfolding validateMatch_def
    by (simp_all add: scan_seen_None endpoint_check.check_None list_all_length)
  moreover from assms have "(rlr_endpoints r = []) \<noteq> (rlr_expression r = [])" "length (rlr_expression r) \<le> maxExpressionLength"
    unfolding validateMatch_def by auto
  ultimately show ?thesis by (simp add: match_ok_def)
qed

definition key_and_rate_ok :: "plan_limit \<Rightarrow> rate_limit_rule \<Rightarrow> bool" where
  "key_and_rate_ok limit r \<longleftrightarrow>
     set (own_keys (rlr_characteristics r)) \<subseteq> set (pl_characteristics limit) \<and>
     distinct (own_keys (rlr_characteristics r)) \<and>
     (pl_one_characteristic limit \<longrightarrow> length (own_keys (rlr_characteristics r)) \<le> 1) \<and>
     rlr_period r \<in> set (pl_periods limit) \<and> 1 \<le> rlr_requests r"

interpretation key_and_rate: validator "validateKeyAndRate plan limit" "key_and_rate_ok limit" for plan limit
proof
  fix r
  show "validateKeyAndRate plan limit r = None \<longleftrightarrow> key_and_rate_ok limit r"
  proof (cases "characteristics_loop plan limit [] 0 (rlr_characteristics r)")
    case (Inl e)
    then have "characteristics_loop plan limit [] 0 (rlr_characteristics r) \<noteq> Inr (length (own_keys (rlr_characteristics r)))"
      by simp
    then show ?thesis unfolding characteristics_loop_Inr
      by (auto simp: validateKeyAndRate_def key_and_rate_ok_def Inl)
  next
    case (Inr n)
    then have "validateKeyAndRate plan limit r = None \<longleftrightarrow>
        \<not> (pl_one_characteristic limit \<and> 1 < n) \<and> rlr_period r \<in> set (pl_periods limit) \<and> 1 \<le> rlr_requests r"
      by (simp add: validateKeyAndRate_def not_less)
    moreover from Inr have "set (own_keys (rlr_characteristics r)) \<subseteq> set (pl_characteristics limit)"
      "distinct (own_keys (rlr_characteristics r))" "n = length (own_keys (rlr_characteristics r))"
      unfolding characteristics_loop_Inr by simp_all
    ultimately show ?thesis unfolding key_and_rate_ok_def by (metis not_less)
  qed
qed

definition action_ok :: "plan_limit \<Rightarrow> rate_limit_rule \<Rightarrow> bool" where
  "action_ok limit r \<longleftrightarrow> rlr_action r \<in> set validRateLimitActions \<and>
     rlr_mitigation_timeout r \<in> (if rlr_action r = actionBlock then set (pl_mitigation_timeouts limit) else {0})"

interpretation rate_limit_action: validator "validateAction plan limit" "action_ok limit" for plan limit
proof
  fix r
  have "actionLog \<notin> set validRateLimitActions"
    by (simp add: actionLog_def validRateLimitActions_def actionBlock_def)
  then show "validateAction plan limit r = None \<longleftrightarrow> action_ok limit r"
    by (auto simp: validateAction_def action_ok_def)
qed

lemma RateLimits_validate_rules:
  assumes "RateLimits_validate rls = None"
  obtains limit where "mget planLimits (rls_plan rls) = Some limit" "length (rls_rules rls) \<le> pl_max_rules limit"
    "distinct (map rlr_name (rls_rules rls))"
    "\<And>r. r \<in> set (rls_rules rls) \<Longrightarrow> match_ok limit r \<and> key_and_rate_ok limit r \<and> action_ok limit r"
proof -
  from assms obtain limit where limit: "mget planLimits (rls_plan rls) = Some limit"
    by (auto simp: RateLimits_validate_def split: option.splits)
  with assms have len: "length (rls_rules rls) \<le> pl_max_rules limit" and names: "distinct (map rlr_name (rls_rules rls))"
    and rules: "\<And>j. j < length (rls_rules rls) \<Longrightarrow> RateLimitRule_validate (rls_plan rls) limit (rls_rules rls ! j) = None"
    unfolding RateLimits_validate_def by (simp_all add: scan_seen_None)
  show thesis
  proof (rule that [OF limit len names])
    fix r assume "r \<in> set (rls_rules rls)"
    with rules have "RateLimitRule_validate (rls_plan rls) limit r = None" by (metis in_set_conv_nth)
    then show "match_ok limit r \<and> key_and_rate_ok limit r \<and> action_ok limit r"
      by (auto simp: RateLimitRule_validate_def key_and_rate.check_None rate_limit_action.check_None intro: validateMatch_ok)
  qed
qed

section \<open>What a rule matches\<close>

definition endpoint_matches :: "rl_endpoint \<Rightarrow> request \<Rightarrow> bool" where
  "endpoint_matches e r \<longleftrightarrow> rq_host r = ep_host e \<and>
     (if ep_path_prefix e \<noteq> [] then has_prefix (rq_path r) (ep_path_prefix e) else rq_path r = ep_path e) \<and>
     (ep_methods e = [] \<or> rq_method r \<in> set (ep_methods e))"

definition endpoint_tree :: "rl_endpoint \<Rightarrow> fexpr" where
  "endpoint_tree e = FParen (FAnd ([FHostEq (ep_host e),
       if ep_path_prefix e \<noteq> [] then FPathStarts (ep_path_prefix e) else FPathEq (ep_path e)] @
       (if ep_methods e \<noteq> [] then [FMethodIn (sort (ep_methods e))] else [])))"

lemma render_endpoint_tree: "render (endpoint_tree e) = endpoint_term e"
  by (simp add: endpoint_tree_def endpoint_term_def quoted_set_def Let_def)

lemma holds_endpoint_tree: "holds (endpoint_tree e) r \<longleftrightarrow> endpoint_matches e r"
  by (auto simp: endpoint_tree_def endpoint_matches_def)

lemma hostname_char_plain: "hostname_char c \<Longrightarrow> plain_char c"
  by (auto simp: hostname_char_def plain_char_def is_lower_letter_def is_digit_def in_range_def char_code_def)

lemma upper_letter_plain: "is_upper_letter c \<Longrightarrow> plain_char c"
  by (auto simp: plain_char_def is_upper_letter_def in_range_def char_code_def)

lemma hostname_ok_plain: "hostname_ok h \<Longrightarrow> plain h"
  unfolding hostname_ok_def plain_def using hostname_char_plain by (auto simp: list_all_iff)

lemma method_ok_plain: "method_ok m \<Longrightarrow> plain m"
  unfolding method_ok_def plain_def using upper_letter_plain by (auto simp: list_all_iff)

lemma sort_Nil_iff [simp]: "sort xs = [] \<longleftrightarrow> xs = []"
  by (metis length_0_conv length_sort)

lemma unambiguous_endpoint_tree:
  assumes "endpoint_ok limit e"
  shows "unambiguous (endpoint_tree e)"
proof -
  have "plain (ep_host e)" "plain (ep_path e)" "plain (ep_path_prefix e)" "list_all plain (ep_methods e)"
    using assms hostname_ok_plain method_ok_plain by (auto simp: endpoint_ok_def path_ok_def list_all_iff)
  then show ?thesis by (simp add: endpoint_tree_def list_all_iff)
qed

lemma not_disjunction_endpoint: "\<not> is_disjunction (endpoint_tree e)"
  by (simp add: endpoint_tree_def)

lemma MatchExpression_endpoints:
  assumes "list_all (endpoint_ok limit) (rlr_endpoints r)" and "rlr_endpoints r \<noteq> []" and "rlr_expression r = []"
  shows "expresses (MatchExpression r) (\<lambda>q. list_ex (\<lambda>e. endpoint_matches e q) (rlr_endpoints r))"
proof (rule expressesI [of "FOr (map endpoint_tree (rlr_endpoints r))"])
  show "unambiguous (FOr (map endpoint_tree (rlr_endpoints r)))"
    using assms unambiguous_endpoint_tree not_disjunction_endpoint by (auto simp: list_all_iff)
  show "MatchExpression r = render (FOr (map endpoint_tree (rlr_endpoints r)))"
    by (simp add: MatchExpression_def assms(3) render_endpoint_tree comp_def)
qed (auto simp: list_ex_iff holds_endpoint_tree)

lemma distinct_singleton: "distinct xs \<Longrightarrow> set xs \<subseteq> {x} \<Longrightarrow> length xs \<le> 1"
  by (metis card_mono card.empty card.insert distinct_card empty_iff finite.emptyI finite.insertI One_nat_def)

lemma planLimits_cases:
  "mget planLimits p = Some limit \<Longrightarrow>
     (pl_one_characteristic limit \<or> pl_characteristics limit = [characteristicIP]) \<and>
     characteristicIP \<in> set (pl_characteristics limit)"
  by (auto simp: mget_def planLimits_def split: if_splits)

lemma one_key:
  assumes "mget planLimits p = Some limit" and "key_and_rate_ok limit r"
  shows "\<exists>k. CharacteristicList r = [characteristicColo, k] \<and> k \<in> set (pl_characteristics limit)"
proof -
  let ?keys = "own_keys (rlr_characteristics r)"
  have len: "length ?keys \<le> 1"
    using planLimits_cases [OF assms(1)] assms(2) distinct_singleton [of ?keys characteristicIP]
    by (auto simp: key_and_rate_ok_def)
  show ?thesis
  proof (cases ?keys)
    case Nil
    then show ?thesis using planLimits_cases [OF assms(1)] by (simp add: CharacteristicList_def)
  next
    case (Cons k ks)
    with len have k: "?keys = [k]" by simp
    then have "k \<in> set ?keys" by simp
    with assms(2) have "k \<in> set (pl_characteristics limit)" unfolding key_and_rate_ok_def by blast
    with k show ?thesis by (simp add: CharacteristicList_def)
  qed
qed

section \<open>Properties\<close>

definition sample_limits :: rate_limits where
  "sample_limits = \<lparr>rls_plan = ''pro'', rls_rules = [\<lparr>rlr_name = ''login'',
     rlr_endpoints = [\<lparr>ep_host = ''a.example.com'', ep_path = ''/login'', ep_path_prefix = [], ep_methods = []\<rparr>,
       \<lparr>ep_host = ''b.example.com'', ep_path = [], ep_path_prefix = ''/api/'', ep_methods = []\<rparr>],
     rlr_expression = [], rlr_counting_expression = [], rlr_characteristics = [''cf.colo.id''], rlr_period = 10,
     rlr_requests = 20, rlr_mitigation_timeout = 60, rlr_action = ''block''\<rparr>]\<rparr>"

lemma sample_limits_valid: "RateLimits_validate sample_limits = None"
  by code_simp

text \<open>C32 Rate limits that pass validation are ones the zone's plan has: at most as many rules as it
  allows, each under a name of its own, counting over one of the plan's periods, blocking for
  one of its durations or challenging for none, and keyed by the data center and exactly one
  further characteristic of the plan.\<close>

theorem RateLimits_within_plan:
  assumes "RateLimits_validate rls = None"
  shows "\<exists>limit. mget planLimits (rls_plan rls) = Some limit \<and>
     length (rls_rules rls) \<le> pl_max_rules limit \<and> distinct (map rlr_name (rls_rules rls)) \<and>
     list_all (\<lambda>r. rlr_period r \<in> set (pl_periods limit) \<and> 1 \<le> rlr_requests r \<and>
        rlr_mitigation_timeout r \<in> (if rlr_action r = actionBlock then set (pl_mitigation_timeouts limit) else {0}) \<and>
        list_ex (\<lambda>k. CharacteristicList r = [characteristicColo, k]) (pl_characteristics limit))
       (rls_rules rls)"
proof -
  from assms obtain limit where limit: "mget planLimits (rls_plan rls) = Some limit" "length (rls_rules rls) \<le> pl_max_rules limit"
    "distinct (map rlr_name (rls_rules rls))"
    and rules: "\<And>r. r \<in> set (rls_rules rls) \<Longrightarrow> match_ok limit r \<and> key_and_rate_ok limit r \<and> action_ok limit r"
    by (rule RateLimits_validate_rules) blast
  have "list_ex (\<lambda>k. CharacteristicList r = [characteristicColo, k]) (pl_characteristics limit)" if "r \<in> set (rls_rules rls)" for r
    using one_key [OF limit(1)] rules [OF that] by (auto simp: list_ex_iff)
  with limit rules show ?thesis by (auto simp: list_all_iff key_and_rate_ok_def action_ok_def)
qed

theorem RateLimits_within_plan_witness:
  "length (rls_rules sample_limits) \<le> 2 \<and> CharacteristicList (hd (rls_rules sample_limits)) = [''cf.colo.id'', ''ip.src'']"
  using RateLimits_within_plan [OF sample_limits_valid]
  by (auto simp: sample_limits_def mget_def planLimits_def PlanFree_def PlanPro_def characteristicColo_def characteristicIP_def)

text \<open>A validated rule given by endpoints matches a request exactly when one of its endpoints does:
  the host is the endpoint's, the path is its path or starts with its prefix, and the method is
  one of its methods where it names any. The text reads back as that expression.\<close>

theorem RateLimits_match:
  assumes "RateLimits_validate rls = None" and "r \<in> set (rls_rules rls)" and "rlr_expression r = []"
  shows "rlr_endpoints r \<noteq> [] \<and>
     expresses (MatchExpression r) (\<lambda>q. list_ex (\<lambda>e. endpoint_matches e q) (rlr_endpoints r))"
proof -
  from assms(1) obtain limit where "\<And>r. r \<in> set (rls_rules rls) \<Longrightarrow> match_ok limit r \<and> key_and_rate_ok limit r \<and> action_ok limit r"
    by (rule RateLimits_validate_rules) blast
  with assms(2,3) have "list_all (endpoint_ok limit) (rlr_endpoints r)" "rlr_endpoints r \<noteq> []" by (auto simp: match_ok_def)
  with MatchExpression_endpoints assms(3) show ?thesis by blast
qed

theorem RateLimits_match_witness:
  "expresses (MatchExpression (hd (rls_rules sample_limits)))
     (\<lambda>q. list_ex (\<lambda>e. endpoint_matches e q) (rlr_endpoints (hd (rls_rules sample_limits))))"
proof -
  have "hd (rls_rules sample_limits) \<in> set (rls_rules sample_limits)" "rlr_expression (hd (rls_rules sample_limits)) = []"
    by (simp_all add: sample_limits_def)
  from RateLimits_match [OF sample_limits_valid this] show ?thesis ..
qed

end
