(* ===== verification/Zone_Spec.thy ===== *)
theory Zone_Spec imports Rule_Spec Zone_RateLimit begin

text \<open>
  \<open>cloudflare/zonespec/zonespec.go\<close>, \<open>hardening.go\<close> and \<open>botmanagement.go\<close>: the declaration
  of a zone's settings, its validation, and the filter expressions rendered from it. A pointer
  field is an option, nil being \<open>None\<close>; error values drop the zone id, which is the same in
  every message of a call.
\<close>

section \<open>Trusted clients: what is skipped\<close>

definition minTrustedBitsV4 :: nat where
  "minTrustedBitsV4 = 8"

definition minTrustedBitsV6 :: nat where
  "minTrustedBitsV6 = 16"

definition DefaultTrustedDescription :: string where
  "DefaultTrustedDescription = ''Trusted clients: skip bot and rate-limit checks''"

definition LegacyTrustedDescription :: string where
  "LegacyTrustedDescription = ''Trusted clients: skip selected security features''"

definition TrustedSkipCurrent :: string where
  "TrustedSkipCurrent = ''current''"

definition trustedSkipPhases :: "string list" where
  "trustedSkipPhases = [''http_ratelimit'', ''http_request_firewall_managed'', ''http_request_sbfm'']"

definition trustedSkipProducts :: "string list" where
  "trustedSkipProducts =
     [''bic'', ''hot'', ''rateLimit'', ''securityLevel'', ''uaBlock'', ''waf'', ''zoneLockdown'']"

definition DefaultTrustedSkip :: "string list" where
  "DefaultTrustedSkip =
     [''http_ratelimit'', ''http_request_sbfm'', ''bic'', ''hot'', ''rateLimit'', ''securityLevel'', ''uaBlock'']"

definition LegacyTrustedSkip :: "string list" where
  "LegacyTrustedSkip = [TrustedSkipCurrent] @ trustedSkipPhases @ trustedSkipProducts"

datatype skip_error =
    ESkipUnknown string
  | ESkipTwice string

text \<open>The loop over the names keeps the set of those seen; the three results read it.\<close>

fun skip_loop :: "string list \<Rightarrow> string list \<Rightarrow> skip_error + string list" where
  "skip_loop seen [] = Inr seen"
| "skip_loop seen (name # names) =
     (if name \<noteq> TrustedSkipCurrent \<and> name \<notin> set trustedSkipPhases \<and> name \<notin> set trustedSkipProducts
      then Inl (ESkipUnknown name)
      else if name \<in> set seen then Inl (ESkipTwice name)
      else skip_loop (name # seen) names)"

definition TrustedSkipSplit :: "string list \<Rightarrow> skip_error + string \<times> string list \<times> string list" where
  "TrustedSkipSplit skip =
     sum_bind (skip_loop [] (if skip = [] then DefaultTrustedSkip else skip)) (\<lambda>seen.
       Inr (if TrustedSkipCurrent \<in> set seen then TrustedSkipCurrent else [],
            filter (\<lambda>name. name \<in> set seen) trustedSkipPhases,
            filter (\<lambda>name. name \<in> set seen) trustedSkipProducts))"

section \<open>The declaration\<close>

definition validSSL :: "string list" where
  "validSSL = [''off'', ''flexible'', ''full'', ''strict'']"

definition validMinTLSVersion :: "string list" where
  "validMinTLSVersion = [''1.0'', ''1.1'', ''1.2'', ''1.3'']"

definition validCA :: "string list" where
  "validCA = [''google'', ''lets_encrypt'', ''ssl_com'']"

record total_tls =
  tt_enabled :: bool
  tt_certificate_authority :: string

record zone_cache =
  zc_hosts :: "string list"
  zc_respect_origin_browser_ttl :: bool

record trusted_clients =
  tc_zone :: string
  tc_hosts :: "string list"
  tc_ranges :: "string list"
  tc_description :: string
  tc_skip :: "string list"

record dns_record =
  dr_name :: string
  dr_type :: string
  dr_content :: string
  dr_proxied :: bool
  dr_waf :: "bool option"
  dr_ttl :: int
  dr_comment :: string

record dns_records =
  drs_zone :: string
  drs_entries :: "dns_record list"

record hsts =
  hs_enabled :: bool
  hs_max_age :: int
  hs_include_subdomains :: bool
  hs_nosniff :: bool
  hs_preload :: bool

record managed_waf =
  mw_zone :: string
  mw_hosts :: "string list"
  mw_whole_zone :: bool
  mw_description :: string

record bot_management =
  bm_ai_bots :: string
  bm_managed_robots_txt :: "bool option"

record zone_args =
  za_zone_id :: string
  za_ssl :: string
  za_min_tls_version :: string
  za_total_tls :: "total_tls option"
  za_cache :: "zone_cache option"
  za_trusted_clients :: "trusted_clients option"
  za_rate_limits :: "rate_limits option"
  za_records :: "dns_records option"
  za_always_use_https :: "bool option"
  za_hsts :: "hsts option"
  za_managed_waf :: "managed_waf option"
  za_bot_management :: "bot_management option"
  za_contributions :: "contribution list"
  za_authenticated_origin_pulls :: "bool option"
  za_import_rulesets :: "string gomap"

datatype record_error =
    ERZone
  | ERName nat string
  | ERType nat string
  | ERContent nat string string
  | ERProxiedTTL nat
  | ERTTL nat int
  | ERTwice nat string
  | ERCname nat

datatype cache_error =
    ECEmpty nat
  | ECCase nat string
  | ECUrl nat string
  | ECWildcard nat string
  | ECTwice nat string

datatype trusted_error =
    ETCOneEmpty
  | ETCZone
  | ETCSkip skip_error
  | ETCHost nat string
  | ETCHostTwice nat string
  | ETCRange nat string
  | ETCBroad nat string
  | ETCRangeTwice nat string

datatype waf_args_error =
    EMWBoth
  | EMWNothing
  | EMWZone
  | EMWHost nat string
  | EMWTwice nat string
  | EMWTooLong nat

datatype zone_error =
    EZZoneId
  | EZSSL string
  | EZMinTLS string
  | EZCA string
  | EZCache cache_error
  | EZTrusted trusted_error
  | EZRateLimits rl_error
  | EZRecords record_error
  | EZMaxAge int
  | EZPreload
  | EZWAF waf_args_error
  | EZAIBots string
  | EZBotNothing
  | EZImport string string
  | EZNothing

section \<open>Validation\<close>

text \<open>The characters no name may hold: \<open>*/:"\<close>, the backslash and the space.\<close>

definition url_chars :: string where
  "url_chars = ''/:'' @ [CHR 0x22, CHR 0x5C] @ '' ''"

definition name_chars :: string where
  "name_chars = ''*'' @ url_chars"

definition DnsRecord_WAFCovered :: "dns_record \<Rightarrow> bool" where
  "DnsRecord_WAFCovered r \<longleftrightarrow> dr_proxied r \<and> (case dr_waf r of None \<Rightarrow> True | Some b \<Rightarrow> b)"

definition validRecordTypes :: "string list" where
  "validRecordTypes = [''A'', ''AAAA'', ''CNAME'']"

definition minRecordTTL :: int where
  "minRecordTTL = 60"

definition maxRecordTTL :: int where
  "maxRecordTTL = 86400"

definition Records_Managed :: "dns_records option \<Rightarrow> bool" where
  "Records_Managed r \<longleftrightarrow> (case r of None \<Rightarrow> False | Some rs \<Rightarrow> drs_entries rs \<noteq> [])"

definition validateRecordContent :: "nat \<Rightarrow> string \<Rightarrow> string \<Rightarrow> record_error option" where
  "validateRecordContent i typ content =
     (if typ = ''A'' \<or> typ = ''AAAA'' then
        (case ParseAddr content of
           None \<Rightarrow> Some (ERContent i typ content)
         | Some addr \<Rightarrow> fail_if (Is4 addr \<noteq> (typ = ''A'') \<or> addr_zone addr \<noteq> []) (ERContent i typ content))
      else if typ = ''CNAME'' then
        fail_if (content = [] \<or> content \<noteq> to_lower content \<or> has_suffix content ''.'' \<or>
            contains_any content name_chars \<or> \<not> str_contains content ''.'') (ERContent i typ content)
      else None)"

definition name_inside :: "string \<Rightarrow> string \<Rightarrow> bool" where
  "name_inside zone bare \<longleftrightarrow> bare = zone \<or> has_suffix bare (''.'' @ zone)"

definition validate_record :: "string \<Rightarrow> nat \<Rightarrow> dns_record \<Rightarrow> record_error option" where
  "validate_record zone i e =
     (let bare = trim_prefix (dr_name e) ''*.'' in
      first_of [
        fail_if (dr_name e \<noteq> to_lower (dr_name e) \<or> bare = [] \<or> contains_any bare name_chars \<or>
            has_suffix (dr_name e) ''.'' \<or> \<not> name_inside zone bare) (ERName i (dr_name e)),
        fail_if (\<not> oneOf (dr_type e) validRecordTypes) (ERType i (dr_type e)),
        validateRecordContent i (dr_type e) (dr_content e),
        fail_if (dr_proxied e \<and> dr_ttl e \<noteq> 0) (ERProxiedTTL i),
        fail_if (dr_ttl e \<noteq> 0 \<and> (dr_ttl e < minRecordTTL \<or> maxRecordTTL < dr_ttl e)) (ERTTL i (dr_ttl e))])"

definition record_key :: "dns_record \<Rightarrow> string" where
  "record_key e = dr_name e @ '' '' @ dr_type e @ '' '' @ dr_content e"

text \<open>The loop over the records: the keys seen, the names of records and the names of CNAMEs.\<close>

fun records_loop :: "string \<Rightarrow> nat \<Rightarrow> string list \<Rightarrow> string list \<Rightarrow> string list \<Rightarrow> dns_record list \<Rightarrow> record_error option" where
  "records_loop zone i seen named cname [] = None"
| "records_loop zone i seen named cname (e # es) =
     (case validate_record zone i e of
        Some err \<Rightarrow> Some err
      | None \<Rightarrow>
          if record_key e \<in> set seen then Some (ERTwice i (dr_content e))
          else if dr_name e \<in> set cname \<or> dr_type e = ''CNAME'' \<and> dr_name e \<in> set named then Some (ERCname i)
          else records_loop zone (Suc i) (record_key e # seen) (dr_name e # named)
            (if dr_type e = ''CNAME'' then dr_name e # cname else cname) es)"

definition Records_validate :: "dns_records option \<Rightarrow> record_error option" where
  "Records_validate r = (case r of
      None \<Rightarrow> None
    | Some rs \<Rightarrow>
        if \<not> Records_Managed r then None
        else if drs_zone rs = [] \<or> drs_zone rs \<noteq> to_lower (drs_zone rs) then Some ERZone
        else records_loop (drs_zone rs) 0 [] [] [] (drs_entries rs))"

definition validate_cache_host :: "nat \<Rightarrow> string \<Rightarrow> cache_error option" where
  "validate_cache_host i host = first_of [
     fail_if (host = []) (ECEmpty i),
     fail_if (to_lower host \<noteq> host) (ECCase i host),
     fail_if (contains_any host url_chars) (ECUrl i host),
     fail_if (host = ''*.'' \<or> str_contains (trim_prefix host ''*.'') ''*'') (ECWildcard i host)]"

definition Cache_validate :: "zone_cache \<Rightarrow> cache_error option" where
  "Cache_validate c = scan_seen validate_cache_host (\<lambda>h. h) ECTwice 0 [] (zc_hosts c)"

definition TrustedClients_Managed :: "trusted_clients option \<Rightarrow> bool" where
  "TrustedClients_Managed t \<longleftrightarrow> (case t of None \<Rightarrow> False | Some tc \<Rightarrow> tc_hosts tc \<noteq> [] \<or> tc_ranges tc \<noteq> [])"

definition validate_trusted_host :: "string \<Rightarrow> nat \<Rightarrow> string \<Rightarrow> trusted_error option" where
  "validate_trusted_host zone i host =
     fail_if (host \<noteq> to_lower host \<or> contains_any host name_chars \<or> host = [] \<or> \<not> name_inside zone host) (ETCHost i host)"

definition validate_trusted_range :: "nat \<Rightarrow> string \<Rightarrow> trusted_error option" where
  "validate_trusted_range i r = (case ParsePrefix r of
      None \<Rightarrow> Some (ETCRange i r)
    | Some pfx \<Rightarrow> first_of [
        fail_if (Masked pfx \<noteq> pfx \<or> Is4In6 (pfx_addr pfx)) (ETCRange i r),
        fail_if (Is4 (pfx_addr pfx) \<and> pfx_bits pfx < minTrustedBitsV4 \<or>
                 Is6 (pfx_addr pfx) \<and> pfx_bits pfx < minTrustedBitsV6) (ETCBroad i r)])"

definition TrustedClients_validate :: "trusted_clients \<Rightarrow> trusted_error option" where
  "TrustedClients_validate t =
     (if \<not> TrustedClients_Managed (Some t) then None
      else first_of [
        fail_if (tc_hosts t = [] \<or> tc_ranges t = []) ETCOneEmpty,
        fail_if (tc_zone t = [] \<or> tc_zone t \<noteq> to_lower (tc_zone t)) ETCZone,
        (case TrustedSkipSplit (tc_skip t) of Inl e \<Rightarrow> Some (ETCSkip e) | Inr _ \<Rightarrow> None),
        scan_seen (validate_trusted_host (tc_zone t)) (\<lambda>h. h) ETCHostTwice 0 [] (tc_hosts t),
        scan_seen validate_trusted_range (\<lambda>r. r) ETCRangeTwice 0 [] (tc_ranges t)])"

section \<open>Expressions\<close>

definition sortedSet :: "string list \<Rightarrow> bool \<Rightarrow> string" where
  "sortedSet values quote = str_join '' '' (map (\<lambda>v. if quote then go_quote v else v) (sort values))"

definition TrustedExpression :: "trusted_clients \<Rightarrow> string" where
  "TrustedExpression t =
     ''(http.host in {'' @ sortedSet (tc_hosts t) True @ ''}) and (ip.src in {'' @ sortedSet (tc_ranges t) False @ ''})''"

definition wildcard_terms :: "string list \<Rightarrow> string list" where
  "wildcard_terms hosts = concat (map (\<lambda>host. case cut_prefix host ''*.'' of
      Some sfx \<Rightarrow> [''ends_with(http.host, '' @ go_quote (''.'' @ sfx) @ '')''] | None \<Rightarrow> []) hosts)"

definition exact_terms :: "string list \<Rightarrow> string list" where
  "exact_terms hosts = concat (map (\<lambda>host. case cut_prefix host ''*.'' of
      Some sfx \<Rightarrow> [] | None \<Rightarrow> [go_quote host]) hosts)"

definition HostExpression :: "string list \<Rightarrow> string" where
  "HostExpression hosts =
     (let exact = exact_terms hosts; terms = wildcard_terms hosts in
      str_join '' or ''
        (if exact \<noteq> [] then [''http.host in {'' @ str_join '' '' exact @ ''}''] @ terms else terms))"

section \<open>Hardening and bot management\<close>

definition CloudflareManagedRulesetID :: string where
  "CloudflareManagedRulesetID = ''efb7b8c949ac4650a09736fc376e9aee''"

definition DefaultManagedWAFDescription :: string where
  "DefaultManagedWAFDescription = ''Cloudflare Managed Ruleset''"

definition maxHSTSMaxAge :: int where
  "maxHSTSMaxAge = 31536000"

definition preloadMinMaxAge :: int where
  "preloadMinMaxAge = 31536000"

definition MaxRuleExpression :: nat where
  "MaxRuleExpression = 4096"

definition ManagedWAF_Managed :: "managed_waf option \<Rightarrow> bool" where
  "ManagedWAF_Managed m \<longleftrightarrow> m \<noteq> None"

definition RateLimits_Managed :: "rate_limits option \<Rightarrow> bool" where
  "RateLimits_Managed r \<longleftrightarrow> r \<noteq> None"

definition HSTS_validate :: "hsts \<Rightarrow> bool option \<Rightarrow> zone_error option" where
  "HSTS_validate h alwaysUseHTTPS = first_of [
     fail_if (hs_max_age h < 0 \<or> maxHSTSMaxAge < hs_max_age h) (EZMaxAge (hs_max_age h)),
     fail_if (hs_preload h \<and> (\<not> hs_enabled h \<or> \<not> hs_include_subdomains h \<or> hs_max_age h < preloadMinMaxAge \<or>
        \<not> (case alwaysUseHTTPS of None \<Rightarrow> False | Some b \<Rightarrow> b))) EZPreload]"

definition ManagedWAFExpression :: "managed_waf \<Rightarrow> string" where
  "ManagedWAFExpression m = (if mw_whole_zone m then ''true'' else HostExpression (sort (mw_hosts m)))"

definition validate_waf_host :: "string \<Rightarrow> nat \<Rightarrow> string \<Rightarrow> waf_args_error option" where
  "validate_waf_host zone i host =
     (let bare = trim_prefix host ''*.'' in
      fail_if (host \<noteq> to_lower host \<or> bare = [] \<or> contains_any bare name_chars \<or> has_suffix host ''.'' \<or>
        \<not> name_inside zone bare) (EMWHost i host))"

definition ManagedWAF_validate :: "managed_waf \<Rightarrow> waf_args_error option" where
  "ManagedWAF_validate m =
     (if mw_whole_zone m \<and> mw_hosts m \<noteq> [] then Some EMWBoth
      else if mw_whole_zone m then None
      else if mw_hosts m = [] then Some EMWNothing
      else first_of [
        fail_if (mw_zone m = [] \<or> mw_zone m \<noteq> to_lower (mw_zone m)) EMWZone,
        scan_seen (validate_waf_host (mw_zone m)) (\<lambda>h. h) EMWTwice 0 [] (mw_hosts m),
        (let n = length (ManagedWAFExpression m) in fail_if (MaxRuleExpression < n) (EMWTooLong n))])"

definition AIBotsBlock :: string where
  "AIBotsBlock = ''block''"

definition AIBotsDisabled :: string where
  "AIBotsDisabled = ''disabled''"

definition AIBotsOnlyOnAdPages :: string where
  "AIBotsOnlyOnAdPages = ''only_on_ad_pages''"

definition BotManagement_validate :: "bot_management \<Rightarrow> zone_error option" where
  "BotManagement_validate b = first_of [
     fail_if (bm_ai_bots b \<notin> set [[], AIBotsBlock, AIBotsDisabled, AIBotsOnlyOnAdPages]) (EZAIBots (bm_ai_bots b)),
     fail_if (bm_ai_bots b = [] \<and> bm_managed_robots_txt b = None) EZBotNothing]"

section \<open>The whole declaration\<close>

text \<open>A block that is nil is skipped; \<open>ImportRulesets\<close> is a map, ranged over in its order.\<close>

definition on_block :: "('b \<Rightarrow> 'e option) \<Rightarrow> 'b option \<Rightarrow> 'e option" where
  "on_block check b = (case b of None \<Rightarrow> None | Some x \<Rightarrow> check x)"

definition nothing_managed :: "zone_args \<Rightarrow> bool" where
  "nothing_managed a \<longleftrightarrow> za_ssl a = [] \<and> za_min_tls_version a = [] \<and> za_total_tls a = None \<and> za_cache a = None \<and>
     \<not> TrustedClients_Managed (za_trusted_clients a) \<and> \<not> RateLimits_Managed (za_rate_limits a) \<and>
     \<not> Records_Managed (za_records a) \<and> za_always_use_https a = None \<and> za_hsts a = None \<and>
     \<not> ManagedWAF_Managed (za_managed_waf a) \<and> za_bot_management a = None \<and>
     za_authenticated_origin_pulls a = None \<and> za_contributions a = []"

definition Args_Validate :: "zone_args \<Rightarrow> zone_error option" where
  "Args_Validate a = first_of [
     fail_if (za_zone_id a = []) EZZoneId,
     fail_if (za_ssl a \<noteq> [] \<and> \<not> oneOf (za_ssl a) validSSL) (EZSSL (za_ssl a)),
     fail_if (za_min_tls_version a \<noteq> [] \<and> \<not> oneOf (za_min_tls_version a) validMinTLSVersion) (EZMinTLS (za_min_tls_version a)),
     on_block (\<lambda>tls. fail_if (tt_certificate_authority tls \<noteq> [] \<and> \<not> oneOf (tt_certificate_authority tls) validCA)
        (EZCA (tt_certificate_authority tls))) (za_total_tls a),
     map_option EZCache (on_block Cache_validate (za_cache a)),
     map_option EZTrusted (on_block TrustedClients_validate (za_trusted_clients a)),
     map_option EZRateLimits (on_block RateLimits_validate (za_rate_limits a)),
     map_option EZRecords (Records_validate (za_records a)),
     on_block (\<lambda>h. HSTS_validate h (za_always_use_https a)) (za_hsts a),
     map_option EZWAF (on_block ManagedWAF_validate (za_managed_waf a)),
     on_block BotManagement_validate (za_bot_management a),
     first_err (\<lambda>(phase, id). fail_if (phase = [] \<or> id = [] \<or> contains_any id (''/ '' @ [CHR 0x09, CHR 0x0A]))
        (EZImport phase id)) (za_import_rulesets a),
     fail_if (nothing_managed a) EZNothing]"

section \<open>Splitting what is skipped\<close>

abbreviation known_skips :: "string list" where
  "known_skips \<equiv> LegacyTrustedSkip"

lemma set_known_skips: "set known_skips = insert TrustedSkipCurrent (set trustedSkipPhases \<union> set trustedSkipProducts)"
  by (auto simp: LegacyTrustedSkip_def)

lemma skip_loop_Inr:
  "skip_loop seen names = Inr seen' \<longleftrightarrow>
     set names \<subseteq> set known_skips \<and> distinct names \<and> set names \<inter> set seen = {} \<and> seen' = rev names @ seen"
proof (induction names arbitrary: seen)
  case (Cons name names)
  have "skip_loop seen (name # names) = Inr seen' \<longleftrightarrow>
      name \<in> set known_skips \<and> name \<notin> set seen \<and> skip_loop (name # seen) names = Inr seen'"
    by (auto simp: set_known_skips)
  also have "\<dots> \<longleftrightarrow> set (name # names) \<subseteq> set known_skips \<and> distinct (name # names) \<and>
      set (name # names) \<inter> set seen = {} \<and> seen' = rev (name # names) @ seen"
    by (subst Cons.IH) auto
  finally show ?case .
qed auto

definition skip_names :: "string list \<Rightarrow> string list" where
  "skip_names skip = (if skip = [] then DefaultTrustedSkip else skip)"

lemma TrustedSkipSplit_Inr:
  "TrustedSkipSplit skip = Inr (ruleset, phases, products) \<longleftrightarrow>
     set (skip_names skip) \<subseteq> set known_skips \<and> distinct (skip_names skip) \<and>
     ruleset = (if TrustedSkipCurrent \<in> set (skip_names skip) then TrustedSkipCurrent else []) \<and>
     phases = filter (\<lambda>n. n \<in> set (skip_names skip)) trustedSkipPhases \<and>
     products = filter (\<lambda>n. n \<in> set (skip_names skip)) trustedSkipProducts"
  unfolding TrustedSkipSplit_def skip_names_def [symmetric] by (auto simp: skip_loop_Inr)

lemma skip_parts:
  "filter (\<lambda>n. n \<noteq> []) [if TrustedSkipCurrent \<in> set ns then TrustedSkipCurrent else []] @
     filter (\<lambda>n. n \<in> set ns) trustedSkipPhases @ filter (\<lambda>n. n \<in> set ns) trustedSkipProducts =
   filter (\<lambda>n. n \<in> set ns) known_skips"
  by (simp add: LegacyTrustedSkip_def TrustedSkipCurrent_def)

lemma distinct_known_skips: "distinct known_skips"
  by code_simp

lemma mset_filter_names: "distinct ns \<Longrightarrow> set ns \<subseteq> set ks \<Longrightarrow> distinct ks \<Longrightarrow> mset (filter (\<lambda>n. n \<in> set ns) ks) = mset ns"
  by (subst set_eq_iff_mset_eq_distinct [symmetric]) auto

text \<open>The order the names are written in does not matter.\<close>

lemma TrustedSkipSplit_order:
  assumes "mset skip = mset skip'" and "TrustedSkipSplit skip = Inr r"
  shows "TrustedSkipSplit skip' = Inr r"
proof -
  from assms(1) have m: "mset (skip_names skip) = mset (skip_names skip')"
    unfolding skip_names_def by (metis mset_zero_iff)
  have same: "set (skip_names skip') = set (skip_names skip)" "distinct (skip_names skip') = distinct (skip_names skip)"
    using mset_eq_setD [OF m] mset_eq_imp_distinct_iff [OF m] by simp_all
  obtain ruleset phases products where r: "r = (ruleset, phases, products)" by (cases r)
  show ?thesis using assms(2) unfolding r TrustedSkipSplit_Inr same .
qed

text \<open>The names to skip are sorted into the three parameters of the skip action with nothing
  lost, added or moved between them; exactly the lists with a name that is none of Cloudflare's
  or that is repeated are refused, and the empty list is the documented default.\<close>

theorem TrustedSkipSplit_partition:
  "case TrustedSkipSplit skip of
     Inl e \<Rightarrow> \<not> (set (skip_names skip) \<subseteq> set LegacyTrustedSkip \<and> distinct (skip_names skip))
   | Inr (ruleset, phases, products) \<Rightarrow>
       set (skip_names skip) \<subseteq> set LegacyTrustedSkip \<and> distinct (skip_names skip) \<and>
       (ruleset = [] \<or> ruleset = TrustedSkipCurrent) \<and>
       set phases \<subseteq> set trustedSkipPhases \<and> set products \<subseteq> set trustedSkipProducts \<and>
       mset (skip_names skip) = mset (filter (\<lambda>n. n \<noteq> []) [ruleset]) + mset phases + mset products"
proof (cases "TrustedSkipSplit skip")
  case (Inl e)
  have "\<not> (set (skip_names skip) \<subseteq> set LegacyTrustedSkip \<and> distinct (skip_names skip))"
  proof
    assume "set (skip_names skip) \<subseteq> set LegacyTrustedSkip \<and> distinct (skip_names skip)"
    then have "\<exists>r. TrustedSkipSplit skip = Inr r" by (simp add: TrustedSkipSplit_Inr)
    with Inl show False by simp
  qed
  with Inl show ?thesis by simp
next
  case (Inr r)
  obtain ruleset phases products where r: "r = (ruleset, phases, products)" by (cases r)
  note split = Inr [unfolded r TrustedSkipSplit_Inr]
  have "filter (\<lambda>n. n \<noteq> []) [ruleset] @ phases @ products = filter (\<lambda>n. n \<in> set (skip_names skip)) known_skips"
    using split skip_parts [of "skip_names skip"] by simp
  then have "mset (skip_names skip) = mset (filter (\<lambda>n. n \<noteq> []) [ruleset] @ phases @ products)"
    using split mset_filter_names distinct_known_skips by metis
  then show ?thesis unfolding Inr r sum.case prod.case using split by (simp only: mset_append add.assoc) auto
qed

section \<open>What the host expressions match\<close>

abbreviation exact_hosts :: "string list \<Rightarrow> string list" where
  "exact_hosts hosts \<equiv> filter (\<lambda>h. \<not> isWildcard h) hosts"

abbreviation wildcard_hosts :: "string list \<Rightarrow> string list" where
  "wildcard_hosts hosts \<equiv> filter isWildcard hosts"

definition host_tree :: "string list \<Rightarrow> fexpr" where
  "host_tree hosts = FOr ((if exact_hosts hosts \<noteq> [] then [FHostIn (exact_hosts hosts)] else []) @
     map (\<lambda>h. FHostEnds (drop 1 h)) (wildcard_hosts hosts))"

lemma exact_terms_eq: "exact_terms hosts = map go_quote (exact_hosts hosts)"
  by (induction hosts) (simp_all add: exact_terms_def cut_prefix_def isWildcard_def)

lemma wildcard_terms_eq:
  "wildcard_terms hosts = map (\<lambda>h. ''ends_with(http.host, '' @ go_quote (drop 1 h) @ '')'') (wildcard_hosts hosts)"
proof (induction hosts)
  case (Cons h hosts)
  have "isWildcard h \<Longrightarrow> cut_prefix h ''*.'' = Some (drop 2 h) \<and> ''.'' @ drop 2 h = drop 1 h"
    by (auto simp: isWildcard_iff cut_prefix_def)
  moreover have "\<not> isWildcard h \<Longrightarrow> cut_prefix h ''*.'' = None"
    by (simp add: isWildcard_def cut_prefix_def)
  ultimately show ?case using Cons by (cases "isWildcard h") (simp_all add: wildcard_terms_def del: append_Cons)
qed (simp add: wildcard_terms_def)

lemma render_host_tree: "render (host_tree hosts) = HostExpression hosts"
  by (simp add: host_tree_def HostExpression_def exact_terms_eq wildcard_terms_eq quoted_set_def Let_def comp_def)

lemma plain_drop: "plain s \<Longrightarrow> plain (drop n s)"
  by (auto simp: plain_def list_all_iff dest: in_set_dropD)

lemma unambiguous_host_tree:
  assumes "list_all plain hosts" and "hosts \<noteq> []"
  shows "unambiguous (host_tree hosts)"
proof -
  have "exact_hosts hosts \<noteq> [] \<or> wildcard_hosts hosts \<noteq> []"
    using assms(2) by (cases hosts) auto
  moreover have "\<forall>h\<in>set hosts. plain (drop 1 h)" using assms(1) plain_drop by (auto simp: list_all_iff)
  ultimately show ?thesis using assms(1) by (auto simp: host_tree_def list_all_iff)
qed

lemma holds_host_tree:
  assumes "''*'' \<notin> set hosts"
  shows "holds (host_tree hosts) r \<longleftrightarrow> list_ex (\<lambda>h. rule_matches h (rq_host r)) hosts"
proof -
  have wild: "has_suffix x (drop 1 h) \<longleftrightarrow> rule_matches h x" if "isWildcard h" for h x
  proof -
    from that obtain s where s: "h = ''*.'' @ s" by (auto simp: isWildcard_iff)
    have "rule_matches h x \<longleftrightarrow> h = x \<or> has_suffix x (''.'' @ s)" using s by (auto simp: rule_matches_iff)
    also have "\<dots> \<longleftrightarrow> has_suffix x (''.'' @ s)"
      unfolding s has_suffix_iff by (metis append_Cons append_Nil)
    finally show ?thesis using s by simp
  qed
  have exact: "x = h \<longleftrightarrow> rule_matches h x" if "\<not> isWildcard h" "h \<in> set hosts" for h x
    using that assms by (auto simp: rule_matches_iff isWildcard_iff)
  have "holds (host_tree hosts) r \<longleftrightarrow> rq_host r \<in> set (exact_hosts hosts) \<or>
      (\<exists>h\<in>set (wildcard_hosts hosts). has_suffix (rq_host r) (drop 1 h))"
    by (cases "exact_hosts hosts = []") (auto simp: host_tree_def list_ex_iff simp del: set_filter filter_empty_conv)
  also have "(\<exists>h\<in>set (wildcard_hosts hosts). has_suffix (rq_host r) (drop 1 h)) \<longleftrightarrow>
      (\<exists>h\<in>set hosts. isWildcard h \<and> rule_matches h (rq_host r))"
    using wild by auto
  also have "rq_host r \<in> set (exact_hosts hosts) \<longleftrightarrow> (\<exists>h\<in>set hosts. \<not> isWildcard h \<and> rule_matches h (rq_host r))"
    using exact [of _ "rq_host r"] by (simp only: set_filter mem_Collect_eq) blast
  finally have "holds (host_tree hosts) r \<longleftrightarrow> (\<exists>h\<in>set hosts. rule_matches h (rq_host r))" by blast
  then show ?thesis by (simp add: list_ex_iff)
qed

lemma HostExpression_expresses:
  assumes "list_all plain hosts" and "hosts \<noteq> []" and "''*'' \<notin> set hosts"
  shows "expresses (HostExpression hosts) (\<lambda>r. list_ex (\<lambda>h. rule_matches h (rq_host r)) hosts)"
  by (rule expressesI [of "host_tree hosts"])
    (simp_all add: unambiguous_host_tree render_host_tree holds_host_tree assms)

section \<open>Trusted clients\<close>

definition range_ok :: "string \<Rightarrow> bool" where
  "range_ok c \<longleftrightarrow> (\<exists>p. ParsePrefix c = Some p \<and> Masked p = p \<and> \<not> Is4In6 (pfx_addr p) \<and>
     (if Is4 (pfx_addr p) then minTrustedBitsV4 else minTrustedBitsV6) \<le> pfx_bits p)"

lemma Is6_Is4: "Is6 a \<longleftrightarrow> \<not> Is4 a"
  by (cases a) simp_all

lemma validate_trusted_range_None: "validate_trusted_range i c = None \<longleftrightarrow> range_ok c"
  by (cases "ParsePrefix c") (auto simp: validate_trusted_range_def range_ok_def Is6_Is4 not_less)

definition trusted_host_ok :: "string \<Rightarrow> string \<Rightarrow> bool" where
  "trusted_host_ok zone h \<longleftrightarrow> h \<noteq> [] \<and> h = to_lower h \<and> \<not> contains_any h name_chars \<and> name_inside zone h"

lemma validate_trusted_host_None: "validate_trusted_host zone i h = None \<longleftrightarrow> trusted_host_ok zone h"
  by (auto simp: validate_trusted_host_def trusted_host_ok_def)

lemma TrustedClients_validate_None:
  assumes "TrustedClients_validate t = None" and "TrustedClients_Managed (Some t)"
  shows "tc_hosts t \<noteq> [] \<and> tc_ranges t \<noteq> [] \<and> list_all (trusted_host_ok (tc_zone t)) (tc_hosts t) \<and>
     list_all range_ok (tc_ranges t) \<and> distinct (tc_hosts t) \<and> distinct (tc_ranges t) \<and>
     \<not> isl (TrustedSkipSplit (tc_skip t))"
  using assms
  by (simp add: TrustedClients_validate_def scan_seen_None validate_trusted_host_None validate_trusted_range_None
      list_all_length split: sum.splits)

definition trusted_tree :: "trusted_clients \<Rightarrow> fexpr" where
  "trusted_tree t = FAnd [FParen (FHostIn (sort (tc_hosts t))), FParen (FIpIn (sort (tc_ranges t)))]"

lemma render_trusted_tree: "render (trusted_tree t) = TrustedExpression t"
  by (simp add: trusted_tree_def TrustedExpression_def sortedSet_def quoted_set_def)

definition in_range_text :: "string \<Rightarrow> ip_addr \<Rightarrow> bool" where
  "in_range_text c a \<longleftrightarrow> (case ParsePrefix c of None \<Rightarrow> False | Some p \<Rightarrow> prefix_contains p a)"

lemma holds_FIpIn: "holds (FIpIn rs) r \<longleftrightarrow> list_ex (\<lambda>c. in_range_text c (rq_ip r)) rs"
  by (simp add: in_range_text_def)

lemma TrustedExpression_expresses:
  assumes "list_all plain (tc_hosts t)" and "list_all range_ok (tc_ranges t)" and "tc_hosts t \<noteq> []" and "tc_ranges t \<noteq> []"
  shows "expresses (TrustedExpression t)
     (\<lambda>r. rq_host r \<in> set (tc_hosts t) \<and> list_ex (\<lambda>c. in_range_text c (rq_ip r)) (tc_ranges t))"
proof (rule expressesI [of "trusted_tree t"])
  show "unambiguous (trusted_tree t)"
    using assms by (auto simp: trusted_tree_def list_all_iff range_ok_def)
  show "holds (trusted_tree t) r \<longleftrightarrow> rq_host r \<in> set (tc_hosts t) \<and> list_ex (\<lambda>c. in_range_text c (rq_ip r)) (tc_ranges t)" for r
    by (simp add: trusted_tree_def holds_FIpIn list_ex_iff del: holds.simps(9))
qed (simp add: render_trusted_tree)

text \<open>A block of addresses is as large as its prefix says.\<close>

lemma card_drop_bit_le: "card {w :: 'a::len word. drop_bit n w = v} \<le> 2 ^ n"
proof -
  let ?S = "{w :: 'a word. drop_bit n w = v}"
  have "inj_on (\<lambda>w. unat (take_bit n w)) ?S"
  proof (rule inj_onI)
    fix a b :: "'a word"
    assume "a \<in> ?S" "b \<in> ?S" "unat (take_bit n a) = unat (take_bit n b)"
    then have "drop_bit n a = drop_bit n b" "take_bit n a = take_bit n b" by (simp_all only: mem_Collect_eq word_unat_eq_iff)
    then show "a = b" by (metis bits_ident)
  qed
  moreover have "(\<lambda>w. unat (take_bit n w)) ` ?S \<subseteq> {..< 2 ^ n}"
    by (auto simp: unsigned_take_bit_eq take_bit_nat_less_exp)
  ultimately show ?thesis using card_inj_on_le [of "\<lambda>w. unat (take_bit n w)" ?S "{..< 2 ^ n}"] by simp
qed

lemma card_prefix4: "card {w. prefix_contains \<lparr>pfx_addr = IP4 v, pfx_bits = b\<rparr> (IP4 w)} \<le> 2 ^ (32 - b)"
  using card_drop_bit_le [of "32 - b" "drop_bit (32 - b) v"] by (simp add: eq_commute)

lemma card_prefix6: "card {w. prefix_contains \<lparr>pfx_addr = IP6 v z, pfx_bits = b\<rparr> (IP6 w z')} \<le> 2 ^ (128 - b)"
proof -
  have "{w. prefix_contains \<lparr>pfx_addr = IP6 v z, pfx_bits = b\<rparr> (IP6 w z')} \<subseteq>
      {w. drop_bit (128 - b) w = drop_bit (128 - b) v}" by auto
  then have "card {w. prefix_contains \<lparr>pfx_addr = IP6 v z, pfx_bits = b\<rparr> (IP6 w z')} \<le>
      card {w. drop_bit (128 - b) w = drop_bit (128 - b) v}" by (intro card_mono) simp_all
  with card_drop_bit_le [of "128 - b" "drop_bit (128 - b) v"] show ?thesis by linarith
qed

lemma range_ok_bounds:
  assumes "range_ok c"
  shows "card {w. in_range_text c (IP4 w)} \<le> 2 ^ 24 \<and> card {w. in_range_text c (IP6 w z)} \<le> 2 ^ 112"
proof -
  from assms obtain p where p: "ParsePrefix c = Some p" "(if Is4 (pfx_addr p) then minTrustedBitsV4 else minTrustedBitsV6) \<le> pfx_bits p"
    by (auto simp: range_ok_def)
  obtain a b where ab: "p = \<lparr>pfx_addr = a, pfx_bits = b\<rparr>" by (cases p)
  show ?thesis
  proof (cases a)
    case (IP4 v)
    with p ab have "32 - b \<le> 24" by (simp add: minTrustedBitsV4_def)
    then have "(2::nat) ^ (32 - b) \<le> 2 ^ 24" by (rule power_increasing) simp
    with card_prefix4 [of v b] p ab IP4 show ?thesis
      by (simp add: in_range_text_def del: prefix_contains.simps) (simp add: prefix_contains.simps)
  next
    case (IP6 v y)
    with p ab have "128 - b \<le> 112" by (simp add: minTrustedBitsV6_def)
    then have "(2::nat) ^ (128 - b) \<le> 2 ^ 112" by (rule power_increasing) simp
    with card_prefix6 [of v y b z] p ab IP6 show ?thesis
      by (simp add: in_range_text_def del: prefix_contains.simps) (simp add: prefix_contains.simps)
  qed
qed

definition sample_trusted :: trusted_clients where
  "sample_trusted = \<lparr>tc_zone = ''example.com'', tc_hosts = [''mcp.example.com''], tc_ranges = [''10.0.0.0/8''],
     tc_description = [], tc_skip = []\<rparr>"

lemma sample_trusted_valid:
  "TrustedClients_validate sample_trusted = None" "TrustedClients_Managed (Some sample_trusted)"
  "list_all plain (tc_hosts sample_trusted)"
  by code_simp+

text \<open>C33 A validated skip rule for trusted clients matches exactly the requests to its hosts from its
  ranges; every host lies in the zone, and no range holds more than \<open>2^24\<close> IPv4 or \<open>2^112\<close> IPv6
  addresses, so the rule never opens the zone to the internet at large.\<close>

theorem TrustedClients_scope:
  assumes "TrustedClients_validate t = None" and "TrustedClients_Managed (Some t)" and "list_all plain (tc_hosts t)"
  shows "expresses (TrustedExpression t)
       (\<lambda>r. rq_host r \<in> set (tc_hosts t) \<and> list_ex (\<lambda>c. in_range_text c (rq_ip r)) (tc_ranges t)) \<and>
     list_all (name_inside (tc_zone t)) (tc_hosts t) \<and>
     list_all (\<lambda>c. card {w. in_range_text c (IP4 w)} \<le> 2 ^ 24 \<and> card {w. in_range_text c (IP6 w [])} \<le> 2 ^ 112) (tc_ranges t)"
proof -
  note ok = TrustedClients_validate_None [OF assms(1,2)]
  then have "list_all (name_inside (tc_zone t)) (tc_hosts t)" by (auto simp: list_all_iff trusted_host_ok_def)
  moreover from ok have "list_all range_ok (tc_ranges t)" by simp
  then have "list_all (\<lambda>c. card {w. in_range_text c (IP4 w)} \<le> 2 ^ 24 \<and> card {w. in_range_text c (IP6 w [])} \<le> 2 ^ 112) (tc_ranges t)"
    unfolding list_all_iff using range_ok_bounds by blast
  ultimately show ?thesis using ok TrustedExpression_expresses assms(3) by blast
qed

theorem TrustedClients_scope_witness:
  "TrustedExpression sample_trusted = ''(http.host in {'' @ go_quote ''mcp.example.com'' @ ''}) and (ip.src in {10.0.0.0/8})'' \<and>
   card {w. in_range_text ''10.0.0.0/8'' (IP4 w)} \<le> 2 ^ 24"
proof -
  have "TrustedExpression sample_trusted = ''(http.host in {'' @ go_quote ''mcp.example.com'' @ ''}) and (ip.src in {10.0.0.0/8})''"
    by code_simp
  moreover have "tc_ranges sample_trusted = [''10.0.0.0/8'']" by (simp add: sample_trusted_def)
  ultimately show ?thesis using TrustedClients_scope [OF sample_trusted_valid] by simp
qed

section \<open>Records\<close>

definition record_clash :: "dns_record \<Rightarrow> dns_record \<Rightarrow> bool" where
  "record_clash d e \<longleftrightarrow> dr_name d = dr_name e \<and> (dr_type d = ''CNAME'' \<or> dr_type e = ''CNAME'')"

lemma records_loop_None_gen:
  "set cname \<subseteq> set named \<Longrightarrow>
   records_loop zone i seen named cname es = None \<longleftrightarrow>
     (\<forall>j<length es. validate_record zone (i + j) (es ! j) = None) \<and>
     distinct (map record_key es) \<and> set (map record_key es) \<inter> set seen = {} \<and>
     sorted_wrt (\<lambda>d e. \<not> record_clash d e) es \<and>
     (\<forall>e\<in>set es. dr_name e \<notin> set cname \<and> (dr_type e = ''CNAME'' \<longrightarrow> dr_name e \<notin> set named))"
proof (induction es arbitrary: i seen named cname)
  case (Cons e es)
  have all: "(\<forall>j<length (e # es). validate_record zone (i + j) ((e # es) ! j) = None) \<longleftrightarrow>
      validate_record zone i e = None \<and> (\<forall>j<length es. validate_record zone (Suc i + j) (es ! j) = None)"
    by (rule all_less_Suc_nth)
  let ?cname = "if dr_type e = ''CNAME'' then dr_name e # cname else cname"
  have sub: "set ?cname \<subseteq> set (dr_name e # named)" using Cons.prems by auto
  have step: "records_loop zone i seen named cname (e # es) = None \<longleftrightarrow>
      validate_record zone i e = None \<and> record_key e \<notin> set seen \<and>
      \<not> (dr_name e \<in> set cname \<or> dr_type e = ''CNAME'' \<and> dr_name e \<in> set named) \<and>
      records_loop zone (Suc i) (record_key e # seen) (dr_name e # named) ?cname es = None"
    by (cases "validate_record zone i e") auto
  have clash: "(\<forall>d\<in>set es. dr_name d \<notin> set ?cname \<and> (dr_type d = ''CNAME'' \<longrightarrow> dr_name d \<notin> set (dr_name e # named))) \<longleftrightarrow>
      (\<forall>d\<in>set es. \<not> record_clash e d) \<and>
      (\<forall>d\<in>set es. dr_name d \<notin> set cname \<and> (dr_type d = ''CNAME'' \<longrightarrow> dr_name d \<notin> set named))"
    by (auto simp: record_clash_def)
  show ?case unfolding step all Cons.IH [OF sub] clash by auto
qed simp

lemma Records_validate_None:
  "Records_validate (Some rs) = None \<longleftrightarrow> drs_entries rs = [] \<or>
     drs_zone rs \<noteq> [] \<and> drs_zone rs = to_lower (drs_zone rs) \<and>
     (\<forall>j<length (drs_entries rs). validate_record (drs_zone rs) j (drs_entries rs ! j) = None) \<and>
     distinct (map record_key (drs_entries rs)) \<and> sorted_wrt (\<lambda>d e. \<not> record_clash d e) (drs_entries rs)"
  by (auto simp: Records_validate_def Records_Managed_def records_loop_None_gen)

definition record_ok :: "string \<Rightarrow> dns_record \<Rightarrow> bool" where
  "record_ok zone e \<longleftrightarrow> name_inside zone (trim_prefix (dr_name e) ''*.'') \<and> dr_name e = to_lower (dr_name e) \<and>
     (if dr_type e = ''A'' then (case ParseAddr (dr_content e) of Some (IP4 w) \<Rightarrow> True | _ \<Rightarrow> False)
      else if dr_type e = ''AAAA'' then (case ParseAddr (dr_content e) of Some (IP6 w z) \<Rightarrow> z = [] | _ \<Rightarrow> False)
      else dr_type e = ''CNAME'' \<and> str_contains (dr_content e) ''.'' \<and> dr_content e = to_lower (dr_content e)) \<and>
     (dr_ttl e = 0 \<or> \<not> dr_proxied e \<and> 60 \<le> dr_ttl e \<and> dr_ttl e \<le> 86400)"

lemma validate_record_ok:
  assumes "validate_record zone i e = None"
  shows "record_ok zone e"
proof -
  from assms have parts: "name_inside zone (trim_prefix (dr_name e) ''*.'')" "dr_name e = to_lower (dr_name e)"
    "dr_type e \<in> set validRecordTypes" "validateRecordContent i (dr_type e) (dr_content e) = None"
    "dr_ttl e = 0 \<or> \<not> dr_proxied e \<and> 60 \<le> dr_ttl e \<and> dr_ttl e \<le> 86400"
    unfolding validate_record_def Let_def by (auto simp: minRecordTTL_def maxRecordTTL_def)
  from parts(3) consider "dr_type e = ''A''" | "dr_type e = ''AAAA''" | "dr_type e = ''CNAME''"
    by (auto simp: validRecordTypes_def)
  then show ?thesis
    using parts(1,2,4,5)
    by cases (auto simp: record_ok_def validateRecordContent_def split: option.splits ip_addr.splits)
qed

definition sample_records :: dns_records where
  "sample_records = \<lparr>drs_zone = ''example.com'', drs_entries = [
     \<lparr>dr_name = ''a.example.com'', dr_type = ''A'', dr_content = ''192.0.2.1'', dr_proxied = True, dr_waf = None, dr_ttl = 0, dr_comment = []\<rparr>,
     \<lparr>dr_name = ''a.example.com'', dr_type = ''AAAA'', dr_content = ''2001:db8::1'', dr_proxied = True, dr_waf = None, dr_ttl = 0, dr_comment = []\<rparr>,
     \<lparr>dr_name = ''*.example.com'', dr_type = ''CNAME'', dr_content = ''lb.example.net'', dr_proxied = False, dr_waf = None, dr_ttl = 300, dr_comment = []\<rparr>]\<rparr>"

lemma sample_records_valid: "Records_validate (Some sample_records) = None" "drs_entries sample_records \<noteq> []"
  by code_simp+

text \<open>C28 A validated block of records is one a zone can hold: every name lies in the zone, every
  content is an address of the record's family or a dotted lower-case name, a proxied record has
  the automatic TTL, no record is repeated, and a CNAME shares its name with no other record.\<close>

theorem Records_validate_zone:
  assumes "Records_validate (Some rs) = None" and "drs_entries rs \<noteq> []"
  shows "list_all (record_ok (drs_zone rs)) (drs_entries rs) \<and> distinct (map record_key (drs_entries rs)) \<and>
     sorted_wrt (\<lambda>d e. \<not> record_clash d e) (drs_entries rs)"
  using assms validate_record_ok unfolding Records_validate_None list_all_length by blast

theorem Records_validate_zone_witness:
  "distinct (map record_key (drs_entries sample_records)) \<and> sorted_wrt (\<lambda>d e. \<not> record_clash d e) (drs_entries sample_records)"
  using Records_validate_zone [OF sample_records_valid] by blast

section \<open>Managed WAF and HSTS\<close>

definition waf_host_ok :: "string \<Rightarrow> string \<Rightarrow> bool" where
  "waf_host_ok zone h \<longleftrightarrow> h = to_lower h \<and> trim_prefix h ''*.'' \<noteq> [] \<and>
     \<not> contains_any (trim_prefix h ''*.'') name_chars \<and> \<not> has_suffix h ''.'' \<and> name_inside zone (trim_prefix h ''*.'')"

lemma validate_waf_host_None: "validate_waf_host zone i h = None \<longleftrightarrow> waf_host_ok zone h"
  by (auto simp: validate_waf_host_def waf_host_ok_def Let_def)

lemma waf_host_not_star: "waf_host_ok zone h \<Longrightarrow> h \<noteq> ''*''"
  by (auto simp: waf_host_ok_def trim_prefix_def has_prefix_def contains_any_iff name_chars_def)

lemma ManagedWAF_validate_None:
  "ManagedWAF_validate m = None \<longleftrightarrow>
     (if mw_whole_zone m then mw_hosts m = []
      else mw_hosts m \<noteq> [] \<and> mw_zone m \<noteq> [] \<and> mw_zone m = to_lower (mw_zone m) \<and>
        list_all (waf_host_ok (mw_zone m)) (mw_hosts m) \<and> distinct (mw_hosts m) \<and>
        length (ManagedWAFExpression m) \<le> MaxRuleExpression)"
  by (auto simp: ManagedWAF_validate_def scan_seen_None validate_waf_host_None list_all_length Let_def not_less)

lemma list_ex_sort [simp]: "list_ex P (sort xs) = list_ex P xs"
  by (simp add: list_ex_iff)

lemma list_all_sort [simp]: "list_all P (sort xs) = list_all P xs"
  by (simp add: list_all_iff)

lemma FTrue_expresses: "expresses ''true'' (\<lambda>r. True)"
  by (rule expressesI [of FTrue]) simp_all

definition sample_waf :: managed_waf where
  "sample_waf = \<lparr>mw_zone = ''example.com'', mw_hosts = [''www.example.com'', ''*.dev.example.com''], mw_whole_zone = False, mw_description = []\<rparr>"

text \<open>A validated managed WAF block runs on exactly the requests it declares, the whole zone or a
  request that an ingress rule for one of its hosts would match, in an expression no longer than
  Cloudflare accepts; a block that would match nothing is refused.\<close>

theorem ManagedWAF_covers:
  assumes "ManagedWAF_validate m = None" and "list_all plain (mw_hosts m)"
  shows "expresses (ManagedWAFExpression m)
       (\<lambda>r. mw_whole_zone m \<or> list_ex (\<lambda>h. rule_matches h (rq_host r)) (mw_hosts m)) \<and>
     length (ManagedWAFExpression m) \<le> MaxRuleExpression \<and>
     list_all (\<lambda>h. name_inside (mw_zone m) (trim_prefix h ''*.'')) (mw_hosts m) \<and>
     mw_whole_zone m = (mw_hosts m = [])"
proof (cases "mw_whole_zone m")
  case True
  with assms show ?thesis
    by (simp add: ManagedWAF_validate_None ManagedWAFExpression_def MaxRuleExpression_def FTrue_expresses)
next
  case False
  with assms(1) have ok: "mw_hosts m \<noteq> []" "list_all (waf_host_ok (mw_zone m)) (mw_hosts m)"
    "length (ManagedWAFExpression m) \<le> MaxRuleExpression" by (simp_all add: ManagedWAF_validate_None)
  then have "''*'' \<notin> set (sort (mw_hosts m))" using waf_host_not_star by (auto simp: list_all_iff)
  with HostExpression_expresses [of "sort (mw_hosts m)"] ok(1) assms(2) False
  have "expresses (ManagedWAFExpression m) (\<lambda>r. mw_whole_zone m \<or> list_ex (\<lambda>h. rule_matches h (rq_host r)) (mw_hosts m))"
    by (simp add: ManagedWAFExpression_def)
  with ok False show ?thesis by (auto simp: list_all_iff waf_host_ok_def)
qed

theorem ManagedWAF_covers_witness:
  "length (ManagedWAFExpression sample_waf) \<le> 4096 \<and>
   expresses (ManagedWAFExpression sample_waf) (\<lambda>r. list_ex (\<lambda>h. rule_matches h (rq_host r)) [''www.example.com'', ''*.dev.example.com''])"
proof -
  have "ManagedWAF_validate sample_waf = None" "list_all plain (mw_hosts sample_waf)" by code_simp+
  note ManagedWAF_covers [OF this]
  moreover have "mw_whole_zone sample_waf = False" "mw_hosts sample_waf = [''www.example.com'', ''*.dev.example.com'']"
    by (simp_all add: sample_waf_def)
  ultimately show ?thesis by (simp add: MaxRuleExpression_def)
qed

lemma HSTS_validate_None:
  "HSTS_validate h https = None \<longleftrightarrow> 0 \<le> hs_max_age h \<and> hs_max_age h \<le> 31536000 \<and>
     (hs_preload h \<longrightarrow> hs_enabled h \<and> hs_include_subdomains h \<and> hs_max_age h = 31536000 \<and> https = Some True)"
  by (auto simp: HSTS_validate_def maxHSTSMaxAge_def preloadMinMaxAge_def split: option.splits)

lemma BotManagement_validate_None:
  "BotManagement_validate b = None \<longleftrightarrow> bm_ai_bots b \<in> {AIBotsBlock, AIBotsDisabled, AIBotsOnlyOnAdPages} \<or>
     bm_ai_bots b = [] \<and> bm_managed_robots_txt b \<noteq> None"
  by (auto simp: BotManagement_validate_def AIBotsBlock_def AIBotsDisabled_def AIBotsOnlyOnAdPages_def)

definition sample_hsts_zone :: zone_args where
  "sample_hsts_zone = \<lparr>za_zone_id = ''z1'', za_ssl = ''strict'', za_min_tls_version = ''1.2'', za_total_tls = None,
     za_cache = None, za_trusted_clients = None, za_rate_limits = None, za_records = None,
     za_always_use_https = Some True,
     za_hsts = Some \<lparr>hs_enabled = True, hs_max_age = 31536000, hs_include_subdomains = True, hs_nosniff = False, hs_preload = True\<rparr>,
     za_managed_waf = None, za_bot_management = None, za_contributions = [],
     za_authenticated_origin_pulls = None, za_import_rulesets = []\<rparr>"

lemma sample_hsts_zone_valid: "Args_Validate sample_hsts_zone = None"
  by code_simp

text \<open>A validated zone asks for the preload directive only with everything the preload list
  requires, the HTTPS redirect of the zone included, and never for more than a year; it manages at
  least one setting, and every block it carries passed its own check.\<close>

theorem Args_Validate_blocks:
  assumes "Args_Validate a = None"
  shows "za_zone_id a \<noteq> [] \<and> \<not> nothing_managed a \<and>
     (case za_hsts a of None \<Rightarrow> True
      | Some h \<Rightarrow> 0 \<le> hs_max_age h \<and> hs_max_age h \<le> 31536000 \<and>
          (hs_preload h \<longrightarrow> hs_enabled h \<and> hs_include_subdomains h \<and> hs_max_age h = 31536000 \<and>
             za_always_use_https a = Some True)) \<and>
     on_block Cache_validate (za_cache a) = None \<and>
     on_block TrustedClients_validate (za_trusted_clients a) = None \<and>
     on_block RateLimits_validate (za_rate_limits a) = None \<and> Records_validate (za_records a) = None \<and>
     on_block ManagedWAF_validate (za_managed_waf a) = None"
  using assms by (simp add: Args_Validate_def on_block_def HSTS_validate_None split: option.splits)

theorem Args_Validate_blocks_witness:
  "za_always_use_https sample_hsts_zone = Some True"
  using Args_Validate_blocks [OF sample_hsts_zone_valid] by (simp add: sample_hsts_zone_def)

end
