(* ===== verification/Rule_Assemble.thy ===== *)
theory Rule_Assemble imports Rule_Spec begin

text \<open>
  \<open>cloudflare/rules/rules.go\<close>: \<open>Assemble\<close> merges contributions into one rule list per phase.
  The errors are collected, not returned at the first; the state of the loop is a record. The
  position of a contribution, its order and then its source, is a type of its own whose linear
  order is the comparison the code sorts with.
\<close>

definition PhaseCacheSettings :: phase where
  "PhaseCacheSettings = ''http_request_cache_settings''"

definition PhaseConfigSettings :: phase where
  "PhaseConfigSettings = ''http_config_settings''"

definition PhaseFirewallCustom :: phase where
  "PhaseFirewallCustom = ''http_request_firewall_custom''"

definition PhaseFirewallManaged :: phase where
  "PhaseFirewallManaged = ''http_request_firewall_managed''"

definition PhaseRateLimit :: phase where
  "PhaseRateLimit = ''http_ratelimit''"

definition Phases :: "phase list" where
  "Phases = [PhaseCacheSettings, PhaseConfigSettings, PhaseFirewallCustom, PhaseFirewallManaged, PhaseRateLimit]"

definition OrderHostsCache :: int where
  "OrderHostsCache = 100"

definition OrderBypass :: int where
  "OrderBypass = 500"

definition OrderPathCaches :: int where
  "OrderPathCaches = 900"

definition BypassRef :: string where
  "BypassRef = ''cache-bypass''"

definition BypassSource :: string where
  "BypassSource = ''assembler''"

definition BypassDescription :: string where
  "BypassDescription = ''Not a cacheable hostname''"

definition ActionSetCacheSettings :: string where
  "ActionSetCacheSettings = ''set_cache_settings''"

definition ActionSetConfig :: string where
  "ActionSetConfig = ''set_config''"

definition ActionSkip :: string where
  "ActionSkip = ''skip''"

definition ActionExecute :: string where
  "ActionExecute = ''execute''"

definition TTLOverrideOrigin :: string where
  "TTLOverrideOrigin = ''override_origin''"

definition TTLRespectOrigin :: string where
  "TTLRespectOrigin = ''respect_origin''"

definition TTLBypassByDefault :: string where
  "TTLBypassByDefault = ''bypass_by_default''"

section \<open>The position of a contribution\<close>

datatype position = Position (pos_order: int) (pos_source: string)

text \<open>Whether a contribution goes before another: by order, then by source.\<close>

definition goes_before :: "position \<Rightarrow> position \<Rightarrow> bool" where
  "goes_before i j \<longleftrightarrow> (if pos_order i \<noteq> pos_order j then pos_order i < pos_order j else pos_source i < pos_source j)"

instantiation position :: linorder
begin

definition less_position :: "position \<Rightarrow> position \<Rightarrow> bool" where
  "less_position i j \<longleftrightarrow> goes_before i j"

definition less_eq_position :: "position \<Rightarrow> position \<Rightarrow> bool" where
  "less_eq_position i j \<longleftrightarrow> goes_before i j \<or> i = j"

instance
proof
  fix x y z :: position
  show "(x < y) = (x \<le> y \<and> \<not> y \<le> x)"
    by (auto simp: less_position_def less_eq_position_def goes_before_def split: if_splits)
  show "x \<le> x"
    by (simp add: less_eq_position_def)
  show "x \<le> y \<Longrightarrow> y \<le> z \<Longrightarrow> x \<le> z"
    by (auto simp: less_eq_position_def goes_before_def split: if_splits)
  show "x \<le> y \<Longrightarrow> y \<le> x \<Longrightarrow> x = y"
    by (auto simp: less_eq_position_def goes_before_def split: if_splits)
  show "x \<le> y \<or> y \<le> x"
    by (cases x; cases y) (auto simp: less_eq_position_def goes_before_def)
qed

end

definition position_of :: "contribution \<Rightarrow> position" where
  "position_of c = Position (con_order c) (con_source c)"

definition sort_contributions :: "contribution list \<Rightarrow> contribution list" where
  "sort_contributions cs = sort_key position_of cs"

section \<open>Assemble\<close>

datatype assemble_error =
    EAPhase string phase
  | EANoSource phase
  | EAClaimPhase string phase
  | EAClaimShape string string
  | EANoRef string
  | EANoAction string string
  | EANoExpression string string
  | EARefTwice string string phase string
  | EABypassRef string

definition knownPhase :: "phase \<Rightarrow> bool" where
  "knownPhase p \<longleftrightarrow> list_ex (\<lambda>k. p = k) Phases"

definition checkRule :: "string \<Rightarrow> rule \<Rightarrow> assemble_error option" where
  "checkRule source r = first_of [
     fail_if (rule_ref r = []) (EANoRef source),
     fail_if (rule_action r = []) (EANoAction source (rule_ref r)),
     fail_if (rule_expression r = []) (EANoExpression source (rule_ref r))]"

definition BypassExpression :: "string list \<Rightarrow> string" where
  "BypassExpression claims = (case claims of
      [] \<Rightarrow> ''true''
    | c # cs \<Rightarrow> foldl (\<lambda>expr claim. ''('' @ expr @ '') and not '' @ claim) (''not '' @ c) cs)"

definition BypassRule :: "string list \<Rightarrow> rule" where
  "BypassRule claims = zero_rule
     \<lparr>rule_ref := BypassRef, rule_description := BypassDescription, rule_action := ActionSetCacheSettings,
      rule_expression := BypassExpression claims,
      rule_params := no_params\<lparr>par_cache := Some \<lparr>cp_cache = False, cp_edge_ttl = None, cp_browser_ttl = None,
        cp_respect_strong_etags = False\<rparr>\<rparr>\<rparr>"

record assembly =
  as_errs :: "assemble_error list"
  as_refs :: "string gomap gomap"
  as_claims :: "string list"
  as_cache_seen :: bool
  as_by_phase :: "contribution list gomap"

definition start_assembly :: assembly where
  "start_assembly = \<lparr>as_errs = [], as_refs = [], as_claims = [], as_cache_seen = False, as_by_phase = []\<rparr>"

definition entry_or :: "'v \<Rightarrow> 'v gomap \<Rightarrow> string \<Rightarrow> 'v" where
  "entry_or d m k = (case mget m k of None \<Rightarrow> d | Some v \<Rightarrow> v)"

text \<open>The loop over the rules of one contribution: the errors and the refs of the phase.\<close>

fun rules_loop :: "contribution \<Rightarrow> rule list \<Rightarrow> assemble_error list \<Rightarrow> string gomap \<Rightarrow> assemble_error list \<times> string gomap" where
  "rules_loop con [] errs refs = (errs, refs)"
| "rules_loop con (r # rs) errs refs =
     (case checkRule (con_source con) r of
        Some e \<Rightarrow> rules_loop con rs (errs @ [e]) refs
      | None \<Rightarrow> (case mget refs (rule_ref r) of
          Some prev \<Rightarrow> rules_loop con rs (errs @ [EARefTwice (con_source con) (rule_ref r) (con_phase con) prev]) refs
        | None \<Rightarrow> rules_loop con rs errs (mput (rule_ref r) (con_source con) refs)))"

text \<open>The errors of a contribution in a known phase, before its rules.\<close>

definition contribution_errs :: "contribution \<Rightarrow> assemble_error list" where
  "contribution_errs con =
     (let cache = (con_phase con = PhaseCacheSettings) in
      (if con_source con = [] then [EANoSource (con_phase con)] else []) @
      (if con_claim con \<noteq> [] \<and> \<not> cache then [EAClaimPhase (con_source con) (con_phase con)] else []) @
      (if cache \<and> con_claim con \<noteq> [] \<and> (\<not> has_prefix (con_claim con) ''('' \<or> \<not> has_suffix (con_claim con) '')'')
       then [EAClaimShape (con_source con) (con_claim con)] else []))"

definition assemble_step :: "contribution \<Rightarrow> assembly \<Rightarrow> assembly" where
  "assemble_step con s =
     (if \<not> knownPhase (con_phase con)
      then s\<lparr>as_errs := as_errs s @ [EAPhase (con_source con) (con_phase con)]\<rparr>
      else
        let cache = (con_phase con = PhaseCacheSettings);
            loop = rules_loop con (con_rules con) (as_errs s @ contribution_errs con)
              (entry_or [] (as_refs s) (con_phase con)) in
        \<lparr>as_errs = fst loop,
         as_refs = mput (con_phase con) (snd loop) (as_refs s),
         as_claims = as_claims s @ (if cache \<and> con_claim con \<noteq> [] then [con_claim con] else []),
         as_cache_seen = (as_cache_seen s \<or> cache),
         as_by_phase = mput (con_phase con) (entry_or [] (as_by_phase s) (con_phase con) @ [con]) (as_by_phase s)\<rparr>)"

definition bypass_contribution :: "string list \<Rightarrow> contribution" where
  "bypass_contribution claims = zero_contribution
     \<lparr>con_source := BypassSource, con_phase := PhaseCacheSettings, con_order := OrderBypass,
      con_rules := [BypassRule claims]\<rparr>"

definition add_bypass :: "assembly \<Rightarrow> assembly" where
  "add_bypass s =
     (if as_cache_seen s then
        s\<lparr>as_errs := as_errs s @
            (case mget (entry_or [] (as_refs s) PhaseCacheSettings) BypassRef of
               Some prev \<Rightarrow> [EABypassRef prev] | None \<Rightarrow> []),
          as_by_phase := mput PhaseCacheSettings
            (sort_contributions (entry_or [] (as_by_phase s) PhaseCacheSettings @ [bypass_contribution (as_claims s)]))
            (as_by_phase s)\<rparr>
      else s)"

definition phase_rules :: "contribution list gomap \<Rightarrow> rule list gomap" where
  "phase_rules m = map (\<lambda>(phase, list). (phase, concat (map con_rules list))) m"

definition Assemble :: "contribution list \<Rightarrow> assemble_error list + rule list gomap" where
  "Assemble c =
     (let s = add_bypass (fold assemble_step (sort_contributions c) start_assembly) in
      if as_errs s \<noteq> [] then Inl (as_errs s) else Inr (phase_rules (as_by_phase s)))"

section \<open>What the loop computes\<close>

lemma rules_loop_errs:
  "fst (rules_loop con rs errs refs) = [] \<longleftrightarrow>
     errs = [] \<and> (\<forall>r\<in>set rs. checkRule (con_source con) r = None) \<and> distinct (map rule_ref rs) \<and>
     (\<forall>r\<in>set rs. \<not> has_key refs (rule_ref r))"
proof (induction rs arbitrary: errs refs)
  case (Cons r rs)
  show ?case
  proof (cases "checkRule (con_source con) r")
    case None
    show ?thesis
    proof (cases "mget refs (rule_ref r)")
      case None
      with \<open>checkRule (con_source con) r = None\<close> Cons.IH show ?thesis by (auto simp: has_key_def image_iff)
    next
      case (Some prev)
      with \<open>checkRule (con_source con) r = None\<close> Cons.IH show ?thesis by (simp add: has_key_def)
    qed
  next
    case (Some e)
    with Cons.IH show ?thesis by simp
  qed
qed simp

lemma rules_loop_refs:
  "fst (rules_loop con rs errs refs) = [] \<Longrightarrow>
     has_key (snd (rules_loop con rs errs refs)) k \<longleftrightarrow> k \<in> rule_ref ` set rs \<or> has_key refs k"
proof (induction rs arbitrary: errs refs)
  case (Cons r rs)
  then have "checkRule (con_source con) r = None" "mget refs (rule_ref r) = None"
    unfolding rules_loop_errs by (simp_all add: has_key_def)
  with Cons show ?case by (auto simp: has_key_def)
qed simp

definition con_ok :: "contribution \<Rightarrow> bool" where
  "con_ok c \<longleftrightarrow> con_phase c \<in> set Phases \<and> con_source c \<noteq> [] \<and>
     (con_claim c \<noteq> [] \<longrightarrow> con_phase c = PhaseCacheSettings \<and> has_prefix (con_claim c) ''('' \<and> has_suffix (con_claim c) '')'') \<and>
     list_all (\<lambda>r. rule_ref r \<noteq> [] \<and> rule_action r \<noteq> [] \<and> rule_expression r \<noteq> []) (con_rules c)"

abbreviation in_phase :: "phase \<Rightarrow> contribution list \<Rightarrow> contribution list" where
  "in_phase p cs \<equiv> filter (\<lambda>c. con_phase c = p) cs"

definition refs_of :: "phase \<Rightarrow> contribution list \<Rightarrow> string list" where
  "refs_of p cs = map rule_ref (concat (map con_rules (in_phase p cs)))"

abbreviation claiming :: "contribution list \<Rightarrow> contribution list" where
  "claiming cs \<equiv> filter (\<lambda>c. con_phase c = PhaseCacheSettings \<and> con_claim c \<noteq> []) cs"

lemma knownPhase_iff: "knownPhase p \<longleftrightarrow> p \<in> set Phases"
  by (auto simp: knownPhase_def list_ex_iff)

lemma checkRule_None: "checkRule s r = None \<longleftrightarrow> rule_ref r \<noteq> [] \<and> rule_action r \<noteq> [] \<and> rule_expression r \<noteq> []"
  by (simp add: checkRule_def)

abbreviation refs_in :: "assembly \<Rightarrow> phase \<Rightarrow> string gomap" where
  "refs_in s p \<equiv> entry_or [] (as_refs s) p"

lemma contribution_errs_Nil:
  "contribution_errs c = [] \<longleftrightarrow> con_source c \<noteq> [] \<and>
     (con_claim c \<noteq> [] \<longrightarrow> con_phase c = PhaseCacheSettings \<and> has_prefix (con_claim c) ''('' \<and> has_suffix (con_claim c) '')'')"
  by (auto simp: contribution_errs_def Let_def)

lemma assemble_step_errs:
  "as_errs (assemble_step c s) = [] \<longleftrightarrow> as_errs s = [] \<and> con_ok c \<and> distinct (map rule_ref (con_rules c)) \<and>
     (\<forall>r\<in>set (con_rules c). \<not> has_key (refs_in s (con_phase c)) (rule_ref r))"
proof (cases "con_phase c \<in> set Phases")
  case True
  then have "as_errs (assemble_step c s) =
      fst (rules_loop c (con_rules c) (as_errs s @ contribution_errs c) (refs_in s (con_phase c)))"
    by (simp add: assemble_step_def knownPhase_iff Let_def)
  with True show ?thesis
    by (auto simp: rules_loop_errs contribution_errs_Nil con_ok_def checkRule_None list_all_iff)
qed (simp add: assemble_step_def knownPhase_iff con_ok_def)

lemma assemble_step_refs:
  assumes "as_errs (assemble_step c s) = []"
  shows "has_key (refs_in (assemble_step c s) p) k \<longleftrightarrow>
     p = con_phase c \<and> k \<in> rule_ref ` set (con_rules c) \<or> has_key (refs_in s p) k"
proof -
  from assms have known: "con_phase c \<in> set Phases" unfolding assemble_step_errs by (simp add: con_ok_def)
  let ?loop = "rules_loop c (con_rules c) (as_errs s @ contribution_errs c) (refs_in s (con_phase c))"
  from known have loop: "as_errs (assemble_step c s) = fst ?loop" "as_refs (assemble_step c s) = mput (con_phase c) (snd ?loop) (as_refs s)"
    by (simp_all add: assemble_step_def knownPhase_iff Let_def)
  with assms have "has_key (snd ?loop) k \<longleftrightarrow> k \<in> rule_ref ` set (con_rules c) \<or> has_key (refs_in s (con_phase c)) k"
    by (intro rules_loop_refs) simp
  then show ?thesis by (auto simp: loop entry_or_def)
qed

lemma assemble_step_frame:
  assumes "con_phase c \<in> set Phases"
  shows "as_claims (assemble_step c s) = as_claims s @ map con_claim (claiming [c])"
    "as_cache_seen (assemble_step c s) \<longleftrightarrow> as_cache_seen s \<or> con_phase c = PhaseCacheSettings"
    "as_by_phase (assemble_step c s) = mput (con_phase c) (entry_or [] (as_by_phase s) (con_phase c) @ [c]) (as_by_phase s)"
  using assms by (auto simp: assemble_step_def knownPhase_iff Let_def)

abbreviation assembled_by :: "contribution list \<Rightarrow> assembly" where
  "assembled_by cs \<equiv> fold assemble_step cs start_assembly"

lemma assembled_errs:
  "(as_errs (assembled_by cs) = [] \<longleftrightarrow> list_all con_ok cs \<and> (\<forall>p. distinct (refs_of p cs))) \<and>
   (as_errs (assembled_by cs) = [] \<longrightarrow> (\<forall>p k. has_key (refs_in (assembled_by cs) p) k \<longleftrightarrow> k \<in> set (refs_of p cs)))"
proof (induction cs rule: rev_induct)
  case Nil
  then show ?case by (simp add: start_assembly_def refs_of_def entry_or_def has_key_def)
next
  case (snoc c cs)
  have refs: "refs_of p (cs @ [c]) = refs_of p cs @ (if con_phase c = p then map rule_ref (con_rules c) else [])" for p
    by (simp add: refs_of_def)
  have "as_errs (assembled_by (cs @ [c])) = [] \<longleftrightarrow>
      as_errs (assembled_by cs) = [] \<and> con_ok c \<and> distinct (map rule_ref (con_rules c)) \<and>
      (\<forall>r\<in>set (con_rules c). \<not> has_key (refs_in (assembled_by cs) (con_phase c)) (rule_ref r))"
    by (simp add: assemble_step_errs)
  also have "\<dots> \<longleftrightarrow> list_all con_ok cs \<and> (\<forall>p. distinct (refs_of p cs)) \<and> con_ok c \<and>
      distinct (map rule_ref (con_rules c)) \<and> set (refs_of (con_phase c) cs) \<inter> rule_ref ` set (con_rules c) = {}"
    using snoc.IH by blast
  also have "\<dots> \<longleftrightarrow> list_all con_ok (cs @ [c]) \<and> (\<forall>p. distinct (refs_of p (cs @ [c])))"
    unfolding refs by (auto split: if_splits)
  finally have errs: "as_errs (assembled_by (cs @ [c])) = [] \<longleftrightarrow> list_all con_ok (cs @ [c]) \<and> (\<forall>p. distinct (refs_of p (cs @ [c])))" .
  moreover have "has_key (refs_in (assembled_by (cs @ [c])) p) k \<longleftrightarrow> k \<in> set (refs_of p (cs @ [c]))"
    if ok: "as_errs (assembled_by (cs @ [c])) = []" for p k
  proof -
    from ok have "as_errs (assemble_step c (assembled_by cs)) = []" by simp
    note assemble_step_refs [OF this] and this [unfolded assemble_step_errs]
    with snoc.IH show ?thesis unfolding refs by auto
  qed
  ultimately show ?case by (intro conjI) (rule errs, blast)
qed

lemma assembled_frame:
  assumes "list_all con_ok cs"
  shows "as_claims (assembled_by cs) = map con_claim (claiming cs) \<and>
     (as_cache_seen (assembled_by cs) \<longleftrightarrow> in_phase PhaseCacheSettings cs \<noteq> []) \<and>
     wf_map (as_by_phase (assembled_by cs)) \<and>
     (\<forall>p. mget (as_by_phase (assembled_by cs)) p = (if in_phase p cs = [] then None else Some (in_phase p cs)))"
  using assms
proof (induction cs rule: rev_induct)
  case Nil
  then show ?case by (simp add: start_assembly_def)
next
  case (snoc c cs)
  from snoc.prems have "con_phase c \<in> set Phases" "list_all con_ok cs" by (auto simp: con_ok_def [of c])
  note step = assemble_step_frame [OF this(1), of "assembled_by cs"] and IH = snoc.IH [OF this(2)]
  have "assembled_by (cs @ [c]) = assemble_step c (assembled_by cs)" by simp
  then show ?case unfolding \<open>assembled_by (cs @ [c]) = _\<close> step using IH by (auto simp: entry_or_def)
qed

section \<open>The specification\<close>

lemma sort_contributions_append: "sort_contributions (sort_contributions xs @ ys) = sort_contributions (xs @ ys)"
  unfolding sort_contributions_def
proof (rule properties_for_sort_key)
  show "mset (sort_key position_of (xs @ ys)) = mset (sort_key position_of xs @ ys)" by simp
  have stable: "filter (\<lambda>x. position_of k = position_of x) (sort_key position_of zs) = filter (\<lambda>x. position_of k = position_of x) zs" for k zs
    unfolding eq_commute [of "position_of k"] by (rule sort_key_stable)
  show "filter (\<lambda>x. position_of k = position_of x) (sort_key position_of (xs @ ys)) =
      filter (\<lambda>x. position_of k = position_of x) (sort_key position_of xs @ ys)" for k
    by (simp add: stable)
qed simp

lemma in_phase_sorted: "in_phase p (sort_contributions cs) = sort_contributions (in_phase p cs)"
  by (simp add: sort_contributions_def filter_sort)

definition claims_of :: "contribution list \<Rightarrow> string list" where
  "claims_of cs = map con_claim (claiming (sort_contributions cs))"

definition assembled :: "contribution list \<Rightarrow> phase \<Rightarrow> rule list option" where
  "assembled cs p =
     (if in_phase p cs = [] then None
      else Some (concat (map con_rules (sort_contributions
        (in_phase p cs @ (if p = PhaseCacheSettings then [bypass_contribution (claims_of cs)] else []))))))"

definition assemble_ok :: "contribution list \<Rightarrow> bool" where
  "assemble_ok cs \<longleftrightarrow> list_all con_ok cs \<and> (\<forall>p. distinct (refs_of p cs)) \<and> BypassRef \<notin> set (refs_of PhaseCacheSettings cs)"

lemma mset_concat_map: "mset (concat (map f xs)) = (\<Sum>x\<in>#mset xs. mset (f x))"
  by (induction xs) simp_all

lemma refs_of_sorted: "mset (refs_of p (sort_contributions cs)) = mset (refs_of p cs)"
  unfolding refs_of_def in_phase_sorted mset_map mset_concat_map by (simp add: sort_contributions_def)

lemma assemble_ok_sorted: "assemble_ok (sort_contributions cs) = assemble_ok cs"
proof -
  have "distinct (refs_of p (sort_contributions cs)) = distinct (refs_of p cs)" "set (refs_of p (sort_contributions cs)) = set (refs_of p cs)" for p
    using refs_of_sorted mset_eq_imp_distinct_iff mset_eq_setD by blast+
  then show ?thesis by (simp add: assemble_ok_def sort_contributions_def list_all_iff)
qed

lemma Phases_cache: "PhaseCacheSettings \<in> set Phases"
  by (simp add: Phases_def)

lemma refs_Nil: "in_phase p cs = [] \<Longrightarrow> refs_of p cs = []"
  by (simp add: refs_of_def)

lemma assembly_errs:
  "as_errs (add_bypass (assembled_by cs)) = [] \<longleftrightarrow> assemble_ok cs"
proof (cases "as_errs (assembled_by cs) = []")
  case True
  with assembled_errs [of cs] have ok: "list_all con_ok cs" "\<forall>p. distinct (refs_of p cs)"
    and keys: "\<And>p k. has_key (refs_in (assembled_by cs) p) k \<longleftrightarrow> k \<in> set (refs_of p cs)" by simp_all
  from ok(1) have seen: "as_cache_seen (assembled_by cs) \<longleftrightarrow> in_phase PhaseCacheSettings cs \<noteq> []"
    using assembled_frame by blast
  have "as_errs (add_bypass (assembled_by cs)) = [] \<longleftrightarrow>
      in_phase PhaseCacheSettings cs = [] \<or> \<not> has_key (refs_in (assembled_by cs) PhaseCacheSettings) BypassRef"
    using True seen by (auto simp: add_bypass_def has_key_def split: option.split)
  also have "\<dots> \<longleftrightarrow> BypassRef \<notin> set (refs_of PhaseCacheSettings cs)"
    unfolding keys using refs_Nil by fastforce
  finally show ?thesis using ok by (simp add: assemble_ok_def)
next
  case False
  then have "as_errs (add_bypass (assembled_by cs)) \<noteq> []" by (simp add: add_bypass_def)
  moreover from False have "\<not> assemble_ok cs" using assembled_errs [of cs] by (simp add: assemble_ok_def)
  ultimately show ?thesis by blast
qed

lemma mget_phase_rules: "mget (phase_rules m) p = map_option (\<lambda>l. concat (map con_rules l)) (mget m p)"
  by (simp add: phase_rules_def mget_def map_of_map)

lemma wf_phase_rules: "wf_map (phase_rules m) = wf_map m"
  by (simp add: phase_rules_def wf_map_def comp_def case_prod_unfold)

lemma assembly_phases:
  assumes "list_all con_ok cs" and "cs = sort_contributions c"
  shows "wf_map (as_by_phase (add_bypass (assembled_by cs))) \<and>
     mget (phase_rules (as_by_phase (add_bypass (assembled_by cs)))) p = assembled c p"
proof -
  note frame = assembled_frame [OF assms(1)]
  have claims: "as_claims (assembled_by cs) = claims_of c" using frame by (simp add: claims_of_def assms(2))
  have mine: "in_phase q cs = sort_contributions (in_phase q c)" for q by (simp add: assms(2) in_phase_sorted)
  have Nil: "in_phase q cs = [] \<longleftrightarrow> in_phase q c = []" for q
    unfolding mine by (metis length_0_conv length_sort sort_contributions_def)
  have sorted: "entry_or [] (as_by_phase (assembled_by cs)) PhaseCacheSettings = sort_contributions (in_phase PhaseCacheSettings c)"
    if "in_phase PhaseCacheSettings c \<noteq> []" using frame that by (simp add: entry_or_def Nil) (simp add: mine)
  show ?thesis
  proof (cases "in_phase PhaseCacheSettings c = []")
    case True
    then have "add_bypass (assembled_by cs) = assembled_by cs" using frame by (simp add: add_bypass_def Nil)
    with frame True show ?thesis by (auto simp: mget_phase_rules assembled_def Nil) (auto simp: mine)
  next
    case False
    then have "as_by_phase (add_bypass (assembled_by cs)) = mput PhaseCacheSettings
        (sort_contributions (in_phase PhaseCacheSettings c @ [bypass_contribution (claims_of c)])) (as_by_phase (assembled_by cs))"
      using frame by (simp add: add_bypass_def Nil claims sorted sort_contributions_append)
    with frame False show ?thesis by (auto simp: mget_phase_rules assembled_def Nil) (auto simp: mine)
  qed
qed

lemma Assemble_Inr:
  "Assemble c = Inr m \<Longrightarrow> assemble_ok c \<and> wf_map m \<and> mget m p = assembled c p"
proof -
  let ?s = "add_bypass (assembled_by (sort_contributions c))"
  assume "Assemble c = Inr m"
  then have "as_errs ?s = []" and m: "m = phase_rules (as_by_phase ?s)" by (auto simp: Assemble_def Let_def split: if_splits)
  then have ok: "assemble_ok (sort_contributions c)" by (simp add: assembly_errs)
  then have "list_all con_ok (sort_contributions c)" by (simp add: assemble_ok_def)
  from assembly_phases [OF this refl, of p] ok show ?thesis unfolding m by (simp add: wf_phase_rules assemble_ok_sorted)
qed

lemma Assemble_Inl: "Assemble c = Inl es \<Longrightarrow> es \<noteq> [] \<and> \<not> assemble_ok c"
proof -
  let ?s = "add_bypass (assembled_by (sort_contributions c))"
  assume "Assemble c = Inl es"
  then have "es = as_errs ?s" "as_errs ?s \<noteq> []" by (auto simp: Assemble_def Let_def split: if_splits)
  then show ?thesis using assembly_errs [of "sort_contributions c"] by (simp add: assemble_ok_sorted)
qed

section \<open>Properties\<close>

text \<open>C3 \<open>Assemble\<close> refines its specification: it fails exactly when a contribution is unfit, two
  rules of a phase share a ref or one takes the bypass's, and otherwise each phase that has a
  contribution, and no other, gets the rules of its contributions in the order of their
  positions, the cache phase with the bypass rule for the claims at its place.\<close>

theorem Assemble_refines:
  "case Assemble c of
     Inl es \<Rightarrow> es \<noteq> [] \<and> \<not> assemble_ok c
   | Inr m \<Rightarrow> assemble_ok c \<and> wf_map m \<and> (\<forall>p. mget m p = assembled c p)"
  using Assemble_Inl [of c] Assemble_Inr [of c] by (cases "Assemble c") auto

lemma mset_assembled_refs:
  assumes "assembled c p = Some rs"
  shows "mset (map rule_ref rs) = mset (refs_of p c) + (if p = PhaseCacheSettings then {#BypassRef#} else {#})"
proof -
  let ?b = "if p = PhaseCacheSettings then [bypass_contribution (claims_of c)] else []"
  from assms have rs: "rs = concat (map con_rules (sort_contributions (in_phase p c @ ?b)))"
    by (simp add: assembled_def split: if_splits)
  have "mset rs = mset (concat (map con_rules (in_phase p c @ ?b)))"
    unfolding rs mset_concat_map by (simp add: sort_contributions_def)
  then have "mset (map rule_ref rs) = mset (map rule_ref (concat (map con_rules (in_phase p c @ ?b))))"
    by (simp only: mset_map)
  then show ?thesis by (simp add: refs_of_def bypass_contribution_def BypassRule_def)
qed

text \<open>Contributions at different positions of a phase come out in one order, however they were
  passed in.\<close>

definition positions_distinct :: "contribution list \<Rightarrow> bool" where
  "positions_distinct c \<longleftrightarrow> distinct (map (\<lambda>x. (con_phase x, position_of x)) c)"

lemma inj_position_phase:
  "positions_distinct c \<Longrightarrow> inj_on position_of (set (in_phase p c))"
proof (rule inj_onI)
  fix x y
  assume "positions_distinct c" "x \<in> set (in_phase p c)" "y \<in> set (in_phase p c)" "position_of x = position_of y"
  then show "x = y" unfolding positions_distinct_def distinct_map by (auto dest!: inj_onD [of _ _ x y])
qed

lemma sort_contributions_perm:
  assumes "mset xs = mset ys" and "inj_on position_of (set xs)"
  shows "sort_contributions xs = sort_contributions ys"
proof -
  let ?a = "sort_contributions xs" and ?b = "sort_contributions ys"
  have "mset (map position_of ?a) = mset (map position_of ?b)"
    using assms(1) by (simp add: sort_contributions_def)
  moreover have "sorted (map position_of ?a)" "sorted (map position_of ?b)" by (simp_all add: sort_contributions_def)
  ultimately have "map position_of ?a = map position_of ?b" by (metis properties_for_sort)
  moreover have "inj_on position_of (set ?a \<union> set ?b)"
    using assms(2) mset_eq_setD [OF assms(1)] by (simp add: sort_contributions_def)
  ultimately show ?thesis by (rule map_inj_on)
qed

text \<open>In what \<open>Assemble\<close> returns no two rules of a phase have the same ref, the bypass of the cache
  phase included.\<close>

theorem Assemble_unique_refs:
  assumes "Assemble c = Inr m" and "mget m p = Some rules"
  shows "distinct (map rule_ref rules)"
proof -
  from Assemble_Inr [OF assms(1), of p] assms(2) have ok: "assemble_ok c" "assembled c p = Some rules" by simp_all
  from ok(1) have "distinct (refs_of p c @ (if p = PhaseCacheSettings then [BypassRef] else []))"
    by (simp add: assemble_ok_def)
  moreover have "mset (map rule_ref rules) = mset (refs_of p c @ (if p = PhaseCacheSettings then [BypassRef] else []))"
    using mset_assembled_refs [OF ok(2)] by simp
  ultimately show ?thesis using mset_eq_imp_distinct_iff by blast
qed

definition sample_rule :: "string \<Rightarrow> string \<Rightarrow> rule" where
  "sample_rule ref text = zero_rule\<lparr>rule_ref := ref, rule_action := ''set_cache_settings'', rule_expression := text\<rparr>"

definition sample_contributions :: "contribution list" where
  "sample_contributions = [
     \<lparr>con_source = ''paths'', con_phase = PhaseCacheSettings, con_order = 900, con_rules = [sample_rule ''p'' ''true''], con_claim = ''(true)''\<rparr>,
     \<lparr>con_source = ''hosts'', con_phase = PhaseCacheSettings, con_order = 100, con_rules = [sample_rule ''h'' ''true''], con_claim = []\<rparr>]"

lemma sample_assembled:
  "Assemble sample_contributions = Inr [(PhaseCacheSettings,
     [sample_rule ''h'' ''true'', BypassRule [''(true)''], sample_rule ''p'' ''true''])]"
  by code_simp

theorem Assemble_unique_refs_witness:
  "distinct (map rule_ref [sample_rule ''h'' ''true'', BypassRule [''(true)''], sample_rule ''p'' ''true''])"
  by (rule Assemble_unique_refs [OF sample_assembled, of PhaseCacheSettings]) (simp add: mget_def)

text \<open>The assembled rules do not depend on the order the contributions are passed in, when no two
  contributions of a phase have the same order and source.\<close>

theorem Assemble_order:
  assumes "mset c = mset c'" and "positions_distinct c" and "Assemble c = Inr m"
  shows "\<exists>m'. Assemble c' = Inr m' \<and> (\<forall>p. mget m' p = mget m p)"
proof -
  from assms(3) have ok: "assemble_ok c" and m: "\<And>p. mget m p = assembled c p" using Assemble_Inr by blast+
  have "mset (in_phase p c) = mset (in_phase p c')" for p using assms(1) by (metis mset_filter)
  then have phase: "sort_contributions (in_phase p c) = sort_contributions (in_phase p c')" for p
    using sort_contributions_perm inj_position_phase [OF assms(2)] by blast
  have Nil: "in_phase p c = [] \<longleftrightarrow> in_phase p c' = []" for p
    using phase [of p] by (metis length_0_conv length_sort sort_contributions_def)
  have claims: "claims_of c = claims_of c'"
  proof -
    have "claims_of d = map con_claim (filter (\<lambda>x. con_claim x \<noteq> []) (sort_contributions (in_phase PhaseCacheSettings d)))" for d
      unfolding claims_of_def in_phase_sorted [symmetric] by (simp add: conj_commute)
    then show ?thesis using phase [of PhaseCacheSettings] by simp
  qed
  have "assembled c p = assembled c' p" for p
    unfolding assembled_def Nil claims using phase [of p] sort_contributions_append by metis
  moreover have "assemble_ok c' = assemble_ok c"
  proof -
    have "mset (refs_of p c) = mset (refs_of p c')" for p using refs_of_sorted phase unfolding refs_of_def in_phase_sorted by metis
    then have "distinct (refs_of p c) = distinct (refs_of p c')" "set (refs_of p c) = set (refs_of p c')" for p
      using mset_eq_imp_distinct_iff mset_eq_setD by blast+
    then show ?thesis using mset_eq_setD [OF assms(1)] by (simp add: assemble_ok_def list_all_iff)
  qed
  ultimately show ?thesis using ok m Assemble_Inl Assemble_Inr by (cases "Assemble c'") (blast, metis)
qed

theorem Assemble_order_witness:
  "\<exists>m'. Assemble (rev sample_contributions) = Inr m' \<and>
     mget m' PhaseCacheSettings = Some [sample_rule ''h'' ''true'', BypassRule [''(true)''], sample_rule ''p'' ''true'']"
proof -
  have "mset sample_contributions = mset (rev sample_contributions)" by simp
  moreover have "positions_distinct sample_contributions" by code_simp
  ultimately show ?thesis using Assemble_order [OF _ _ sample_assembled] by (fastforce simp: mget_def)
qed

section \<open>The bypass\<close>

text \<open>A claim that is one parenthesised expression, and what it serves.\<close>

definition claim_expresses :: "string \<Rightarrow> (request \<Rightarrow> bool) \<Rightarrow> bool" where
  "claim_expresses text match \<longleftrightarrow> (\<exists>e. text = render (FParen e) \<and> unambiguous e \<and> (\<forall>r. holds e r \<longleftrightarrow> match r))"

lemma bypass_fold:
  assumes "list_all2 claim_expresses claims ms" and "expresses expr m" and "\<exists>e. expr = render e \<and> unambiguous e"
  shows "expresses (foldl (\<lambda>expr claim. ''('' @ expr @ '') and not '' @ claim) expr claims) (\<lambda>r. m r \<and> \<not> list_ex (\<lambda>m. m r) ms)"
  using assms
proof (induction claims ms arbitrary: expr m rule: list_all2_induct)
  case (Cons claim claims m' ms)
  from Cons.hyps(1) obtain e where e: "claim = render (FParen e)" "unambiguous e" "\<And>r. holds e r \<longleftrightarrow> m' r"
    unfolding claim_expresses_def by blast
  from Cons.prems(1) obtain d where d: "expr = render d" "unambiguous d" "\<And>r. holds d r \<longleftrightarrow> m r"
    unfolding expresses_def by blast
  let ?t = "FAnd [FParen d, FNot (FParen e)]"
  have shape: "''('' @ expr @ '') and not '' @ claim = render ?t" "unambiguous ?t" using d e by simp_all
  then have "expresses (''('' @ expr @ '') and not '' @ claim) (\<lambda>r. m r \<and> \<not> m' r)"
    by (intro expressesI [of ?t]) (auto simp: d e)
  from Cons.IH [OF this] shape have
    "expresses (foldl (\<lambda>expr claim. ''('' @ expr @ '') and not '' @ claim) (''('' @ expr @ '') and not '' @ claim) claims)
       (\<lambda>r. (m r \<and> \<not> m' r) \<and> \<not> list_ex (\<lambda>m. m r) ms)" by blast
  then show ?case unfolding foldl_Cons by (rule expresses_cong) simp
qed simp

lemma BypassExpression_expresses:
  assumes "list_all2 claim_expresses claims ms"
  shows "expresses (BypassExpression claims) (\<lambda>r. \<not> list_ex (\<lambda>m. m r) ms)"
proof (cases claims)
  case Nil
  with assms show ?thesis by (auto simp: BypassExpression_def intro!: expressesI [of FTrue])
next
  case (Cons claim rest)
  with assms obtain m ms' where ms: "ms = m # ms'" "claim_expresses claim m" "list_all2 claim_expresses rest ms'"
    by (auto simp: list_all2_Cons1)
  then obtain e where e: "claim = render (FParen e)" "unambiguous e" "\<And>r. holds e r \<longleftrightarrow> m r"
    unfolding claim_expresses_def by blast
  have shape: "''not '' @ claim = render (FNot (FParen e))" "unambiguous (FNot (FParen e))" using e by simp_all
  then have "expresses (''not '' @ claim) (\<lambda>r. \<not> m r)"
    by (intro expressesI [of "FNot (FParen e)"]) (simp_all add: e)
  from bypass_fold [OF ms(3) this] shape have
    "expresses (foldl (\<lambda>expr claim. ''('' @ expr @ '') and not '' @ claim) (''not '' @ claim) rest) (\<lambda>r. \<not> m r \<and> \<not> list_ex (\<lambda>m. m r) ms')"
    by blast
  then show ?thesis unfolding Cons BypassExpression_def list.case ms(1) by (rule expresses_cong) simp
qed

text \<open>The check of a claim looks at its first and last character only: a claim of two groups joined
  by \<open>or\<close> passes it, and the bypass then matches every request of the second group.\<close>

lemma claim_of_two_groups:
  "BypassExpression [render (FOr [FParen a, FParen b])] = render (FOr [FNot (FParen a), FParen b])"
  "has_prefix (render (FOr [FParen a, FParen b])) ''('' \<and> has_suffix (render (FOr [FParen a, FParen b])) '')''"
proof -
  have "render (FOr [FParen a, FParen b]) = (''('' @ render a @ '') or ('' @ render b) @ '')''" by simp
  then show "has_prefix (render (FOr [FParen a, FParen b])) ''('' \<and> has_suffix (render (FOr [FParen a, FParen b])) '')''"
    by (metis append_Cons append_Nil has_prefix_append has_suffix_append append.assoc)
qed (simp add: BypassExpression_def)

end
