(* ===== verification/Rule_Builders.thy ===== *)
theory Rule_Builders imports Rule_Assemble Zone_Spec Go_Regexp Go_Sort begin

text \<open>
  \<open>cloudflare/rules/cache.go\<close> and \<open>zone.go\<close>: the builders of contributions, one per feature of
  a zone: cacheable hosts, the public documents of a host, a static site, rate limits, trusted
  clients, the managed WAF and the SSL mode of a host. A \<open>time.Duration\<close> is its nanoseconds, an
  unbounded integer: nothing is added to one.
\<close>

definition second :: int where
  "second = 1000000000"

text \<open>\<open>Duration.String\<close> of whole seconds, the only durations that reach a description.\<close>

definition duration_string :: "int \<Rightarrow> string" where
  "duration_string d =
     (let s = d div second; m = s div 60; h = m div 60 in
      if s < 60 then go_decimal s @ ''s''
      else if m < 60 then go_decimal m @ ''m'' @ go_decimal (s mod 60) @ ''s''
      else go_decimal h @ ''h'' @ go_decimal (m mod 60) @ ''m'' @ go_decimal (s mod 60) @ ''s'')"

section \<open>Cache rules\<close>

datatype rules_error =
    EBHost string
  | EBTTL int
  | EBPath string
  | EBPathTwice
  | EBPrefix string
  | EBStaticTTL string int
  | EBZone zone_error
  | EBRateName string
  | EBRateRef string string string
  | EBSkip skip_error
  | EBSSLRef
  | EBSSLMode string

definition set_cache :: "bool \<Rightarrow> ttl option \<Rightarrow> ttl option \<Rightarrow> bool \<Rightarrow> params" where
  "set_cache cache edge browser etags = no_params
     \<lparr>par_cache := Some \<lparr>cp_cache = cache, cp_edge_ttl = edge, cp_browser_ttl = browser, cp_respect_strong_etags = etags\<rparr>\<rparr>"

definition ttl_of :: "string \<Rightarrow> int \<Rightarrow> ttl" where
  "ttl_of mode secs = \<lparr>ttl_mode = mode, ttl_default = secs\<rparr>"

definition CacheHosts :: "string list \<Rightarrow> contribution" where
  "CacheHosts hosts =
     (let c = zero_contribution\<lparr>con_source := ''cache-hosts'', con_phase := PhaseCacheSettings, con_order := OrderHostsCache\<rparr> in
      if hosts = [] then c
      else let expr = HostExpression hosts in
        c\<lparr>con_claim := ''('' @ expr @ '')'',
          con_rules := [zero_rule\<lparr>rule_ref := ''cacheable-hosts'',
            rule_description := ''Cacheable hostname: the origin's Cache-Control decides'',
            rule_action := ActionSetCacheSettings, rule_expression := expr,
            rule_params := set_cache True (Some (ttl_of TTLBypassByDefault 0)) (Some (ttl_of TTLRespectOrigin 0)) False\<rparr>]\<rparr>)"

definition DefaultPublicCachePaths :: "string list" where
  "DefaultPublicCachePaths =
     [''/keys'', ''/.well-known/openid-configuration'', ''/.well-known/oauth-authorization-server'']"

definition DefaultPublicCacheTTL :: int where
  "DefaultPublicCacheTTL = 5 * 60 * second"

definition MaxPublicCacheTTL :: int where
  "MaxPublicCacheTTL = 3600 * second"

definition alnum :: "char \<Rightarrow> bool" where
  "alnum c \<longleftrightarrow> is_upper_letter c \<or> is_lower_letter c \<or> is_digit c"

definition host_label :: rx where
  "host_label = Cat (Cls alnum) (rx_opt (Cat (Star (Cls (\<lambda>c. alnum c \<or> c = CHR ''-''))) (Cls alnum)))"

definition hostPattern :: rx where
  "hostPattern = Cat host_label (rx_plus (Cat (rx_lit CHR ''.'') host_label))"

definition path_char :: "char \<Rightarrow> bool" where
  "path_char c \<longleftrightarrow> alnum c \<or> c \<in> set ''._~/-''"

definition pathPattern :: rx where
  "pathPattern = Cat (rx_lit CHR ''/'') (Star (Cls path_char))"

record public_paths_args =
  ppa_ttl :: int
  ppa_paths :: "string list"

record cache_rule =
  cr_description :: string
  cr_expression :: string
  cr_edge_ttl_seconds :: int
  cr_host :: string
  cr_paths :: "string list"

definition in_quotes :: "string \<Rightarrow> string" where
  "in_quotes s = [CHR 0x22] @ s @ [CHR 0x22]"

definition public_expression :: "string \<Rightarrow> string list \<Rightarrow> string" where
  "public_expression host paths =
     ''(http.host eq '' @ in_quotes host @ '' and http.request.method in {'' @ in_quotes ''GET'' @ '' '' @ in_quotes ''HEAD'' @
     ''} and http.request.uri.path in {'' @ str_join '' '' (map in_quotes paths) @
     ''} and not any(lower(http.request.headers.names[*])[*] eq '' @ in_quotes ''origin'' @ ''))''"

definition PublicPathsCache :: "string \<Rightarrow> public_paths_args \<Rightarrow> rules_error + cache_rule" where
  "PublicPathsCache host a =
     (let ttl = (if ppa_ttl a = 0 then DefaultPublicCacheTTL else ppa_ttl a);
          paths = (if ppa_paths a = [] then DefaultPublicCachePaths else ppa_paths a);
          sorted = sort paths in
      unless (first_of [
          fail_if (\<not> rx_match hostPattern host) (EBHost host),
          fail_if (ttl < second \<or> MaxPublicCacheTTL < ttl \<or> ttl mod second \<noteq> 0) (EBTTL ttl),
          first_err (\<lambda>p. fail_if (\<not> rx_match pathPattern p) (EBPath p)) paths,
          fail_if (length (remdups_adj sorted) \<noteq> length sorted) EBPathTwice])
        (Inr \<lparr>cr_description = host @ '': public documents, '' @ duration_string ttl @ '' at the edge, requests without Origin'',
           cr_expression = public_expression host sorted,
           cr_edge_ttl_seconds = ttl div second, cr_host = host, cr_paths = sorted\<rparr>))"

definition CacheRule_Contribution :: "cache_rule \<Rightarrow> contribution" where
  "CacheRule_Contribution r = zero_contribution
     \<lparr>con_source := ''public-paths:'' @ cr_host r, con_phase := PhaseCacheSettings, con_order := OrderPathCaches,
      con_claim := cr_expression r,
      con_rules := [zero_rule\<lparr>rule_ref := ''public-paths-'' @ cr_host r, rule_description := cr_description r,
        rule_action := ActionSetCacheSettings, rule_expression := cr_expression r,
        rule_params := set_cache True (Some (ttl_of TTLOverrideOrigin (cr_edge_ttl_seconds r))) (Some (ttl_of TTLRespectOrigin 0)) False\<rparr>]\<rparr>"

definition MaxStaticEdgeTTL :: int where
  "MaxStaticEdgeTTL = 365 * 24 * 3600 * second"

definition DefaultStaticEdgeTTL :: int where
  "DefaultStaticEdgeTTL = 365 * 24 * 3600 * second"

record static_site_args =
  ssa_hashed_prefix :: string
  ssa_edge_ttl :: int
  ssa_html_ttl :: int

text \<open>The loop over the two durations ranges over a map; only which of two errors is reported
  depends on its order.\<close>

definition StaticSiteCache :: "string \<Rightarrow> static_site_args \<Rightarrow> rules_error + contribution" where
  "StaticSiteCache host a =
     (let prefx = ssa_hashed_prefix a;
          edge = (if ssa_edge_ttl a = 0 then DefaultStaticEdgeTTL else ssa_edge_ttl a);
          hostExpr = ''http.host eq '' @ in_quotes host;
          rest = (if 0 < ssa_html_ttl a then ttl_of TTLOverrideOrigin (ssa_html_ttl a div second) else ttl_of TTLRespectOrigin 0);
          hashedMatch = ''starts_with(http.request.uri.path, '' @ in_quotes prefx @ '')'';
          restExpr = (if prefx \<noteq> [] then hostExpr @ '' and not '' @ hashedMatch else hostExpr);
          hashed = zero_rule\<lparr>rule_ref := ''static-hashed-'' @ host,
            rule_description := host @ '': content-hashed files under '' @ prefx @ '', '' @ duration_string edge @ '' at the edge'',
            rule_action := ActionSetCacheSettings, rule_expression := hostExpr @ '' and '' @ hashedMatch,
            rule_params := set_cache True (Some (ttl_of TTLOverrideOrigin (edge div second))) (Some (ttl_of TTLRespectOrigin 0)) True\<rparr>;
          site = zero_rule\<lparr>rule_ref := ''static-site-'' @ host,
            rule_description := host @ '': static site, the origin's Cache-Control and ETag decide'',
            rule_action := ActionSetCacheSettings, rule_expression := restExpr,
            rule_params := set_cache True (Some rest) (Some (ttl_of TTLRespectOrigin 0)) True\<rparr> in
      unless (first_of [
          fail_if (\<not> rx_match hostPattern host) (EBHost host),
          fail_if (prefx \<noteq> [] \<and> (\<not> rx_match pathPattern prefx \<or> \<not> has_suffix prefx ''/'')) (EBPrefix prefx),
          first_err (\<lambda>(name, d). fail_if (d < 0 \<or> MaxStaticEdgeTTL < d \<or> d mod second \<noteq> 0) (EBStaticTTL name d))
            [(''edge TTL'', edge), (''HTML TTL'', ssa_html_ttl a)]])
        (Inr (zero_contribution\<lparr>con_source := ''static-site:'' @ host, con_phase := PhaseCacheSettings,
           con_order := OrderPathCaches, con_claim := ''('' @ hostExpr @ '')'',
           con_rules := (if prefx \<noteq> [] then [hashed] else []) @ [site]\<rparr>)))"

section \<open>Zone rules\<close>

definition validationZone :: string where
  "validationZone = ''rules''"

definition validation_args :: zone_args where
  "validation_args = \<lparr>za_zone_id = validationZone, za_ssl = [], za_min_tls_version = [], za_total_tls = None,
     za_cache = None, za_trusted_clients = None, za_rate_limits = None, za_records = None, za_always_use_https = None,
     za_hsts = None, za_managed_waf = None, za_bot_management = None, za_contributions = [],
     za_authenticated_origin_pulls = None, za_import_rulesets = []\<rparr>"

text \<open>\<open>refSlug\<close>: every run of characters outside \<open>[a-z0-9]\<close> becomes one hyphen; the flag says
  that the run's hyphen is already written.\<close>

definition slug_char :: "char \<Rightarrow> bool" where
  "slug_char c \<longleftrightarrow> is_lower_letter c \<or> is_digit c"

fun replace_runs :: "bool \<Rightarrow> string \<Rightarrow> string" where
  "replace_runs in_run [] = []"
| "replace_runs in_run (c # s) =
     (if slug_char c then c # replace_runs False s
      else if in_run then replace_runs True s else CHR ''-'' # replace_runs True s)"

definition refSlug :: "string \<Rightarrow> string" where
  "refSlug name = trim_chars (\<lambda>c. c = CHR ''-'') (replace_runs False (to_lower name))"

definition rate_rule :: "string \<Rightarrow> rate_limit_rule \<Rightarrow> rule" where
  "rate_rule ref r = zero_rule\<lparr>rule_ref := ref, rule_description := rlr_name r, rule_action := rlr_action r,
     rule_expression := MatchExpression r,
     rule_rate_limit := Some \<lparr>rl_characteristics = CharacteristicList r, rl_period = rlr_period r,
       rl_requests = rlr_requests r, rl_mitigation_timeout = rlr_mitigation_timeout r,
       rl_counting_expression = rlr_counting_expression r\<rparr>\<rparr>"

definition rate_step :: "rate_limit_rule \<Rightarrow> string gomap \<times> rule list \<Rightarrow> rules_error + string gomap \<times> rule list" where
  "rate_step r = (\<lambda>(by_ref, rules).
     let slug = refSlug (rlr_name r); ref = ''ratelimit-'' @ slug in
     if slug = [] then Inl (EBRateName (rlr_name r))
     else case mget by_ref ref of
         Some prev \<Rightarrow> Inl (EBRateRef prev (rlr_name r) ref)
       | None \<Rightarrow> Inr (mput ref (rlr_name r) by_ref, rules @ [rate_rule ref r]))"

definition RateLimits :: "string \<Rightarrow> rate_limit_rule list \<Rightarrow> rules_error + contribution" where
  "RateLimits plan rows =
     unless (map_option EBZone (Args_Validate (validation_args\<lparr>za_rate_limits := Some \<lparr>rls_plan = plan, rls_rules = rows\<rparr>\<rparr>)))
       (sum_bind (fold_err rate_step rows ([], [])) (\<lambda>(by_ref, rules).
          Inr (zero_contribution\<lparr>con_source := ''rate-limits'', con_phase := PhaseRateLimit,
            con_order := OrderHostsCache, con_rules := rules\<rparr>)))"

definition TrustedClients :: "trusted_clients option \<Rightarrow> rules_error + contribution" where
  "TrustedClients t =
     (let c = zero_contribution\<lparr>con_source := ''trusted-clients'', con_phase := PhaseFirewallCustom, con_order := OrderHostsCache\<rparr> in
      case t of
        None \<Rightarrow> Inr c
      | Some tc \<Rightarrow>
          if \<not> TrustedClients_Managed t then Inr c
          else unless (map_option EBZone (Args_Validate (validation_args\<lparr>za_trusted_clients := t\<rparr>)))
            (case TrustedSkipSplit (tc_skip tc) of
               Inl e \<Rightarrow> Inl (EBSkip e)
             | Inr (ruleset, phases, products) \<Rightarrow>
                 Inr (c\<lparr>con_rules := [zero_rule\<lparr>rule_ref := ''trusted-clients'',
                   rule_description := (if tc_description tc = []
                     then if tc_skip tc \<noteq> [] then LegacyTrustedDescription else DefaultTrustedDescription
                     else tc_description tc),
                   rule_action := ActionSkip, rule_expression := TrustedExpression tc,
                   rule_params := no_params\<lparr>par_skip := Some \<lparr>sp_ruleset = ruleset, sp_phases = phases, sp_products = products\<rparr>\<rparr>,
                   rule_logging := True\<rparr>]\<rparr>)))"

definition ManagedWAF :: "managed_waf option \<Rightarrow> rules_error + contribution" where
  "ManagedWAF m =
     (let c = zero_contribution\<lparr>con_source := ''managed-waf'', con_phase := PhaseFirewallManaged, con_order := OrderHostsCache\<rparr> in
      case m of
        None \<Rightarrow> Inr c
      | Some w \<Rightarrow> unless (map_option EBZone (Args_Validate (validation_args\<lparr>za_managed_waf := m\<rparr>)))
          (Inr (c\<lparr>con_rules := [zero_rule\<lparr>rule_ref := ''managed-waf'',
             rule_description := (if mw_description w = [] then DefaultManagedWAFDescription else mw_description w),
             rule_action := ActionExecute, rule_expression := ManagedWAFExpression w,
             rule_params := no_params\<lparr>par_execute := Some \<lparr>xp_id = CloudflareManagedRulesetID\<rparr>\<rparr>\<rparr>]\<rparr>)))"

definition SSLMode :: "string \<Rightarrow> string \<Rightarrow> string \<Rightarrow> rules_error + contribution" where
  "SSLMode host mode ref =
     unless (first_of [
         fail_if (\<not> rx_match hostPattern host) (EBHost host),
         fail_if (ref = []) EBSSLRef,
         fail_if (Args_Validate (validation_args\<lparr>za_ssl := mode\<rparr>) \<noteq> None \<or> mode = []) (EBSSLMode mode)])
       (Inr (zero_contribution\<lparr>con_source := ''ssl-mode:'' @ ref, con_phase := PhaseConfigSettings, con_order := OrderHostsCache,
          con_rules := [zero_rule\<lparr>rule_ref := ref, rule_description := host @ '': SSL mode '' @ mode,
            rule_action := ActionSetConfig, rule_expression := ''http.host eq '' @ in_quotes host,
            rule_params := no_params\<lparr>par_config := Some \<lparr>cfp_ssl = mode\<rparr>\<rparr>\<rparr>]\<rparr>))"

section \<open>The values put into an expression\<close>

lemma alnum_plain: "alnum c \<Longrightarrow> plain_char c"
  by (auto simp: alnum_def plain_char_def is_upper_letter_def is_lower_letter_def is_digit_def in_range_def char_code_def)

lemma plain_char_marks [simp]:
  "plain_char CHR ''-''" "plain_char CHR ''_''" "plain_char CHR ''~''" "plain_char CHR ''/''"
  by (simp_all add: plain_char_def char_code_def)

lemma hostPattern_plain: "rx_match hostPattern h \<Longrightarrow> plain h"
  unfolding rx_match_correct plain_def
  by (erule rx_within_chars)
    (simp add: hostPattern_def host_label_def rx_opt_def rx_plus_def rx_lit_def alnum_plain)

lemma pathPattern_plain: "rx_match pathPattern p \<Longrightarrow> plain p"
  unfolding rx_match_correct plain_def
  by (erule rx_within_chars) (auto simp: pathPattern_def rx_lit_def path_char_def alnum_plain)

lemma in_quotes_plain: "plain s \<Longrightarrow> in_quotes s = go_quote s"
  by (simp add: in_quotes_def go_quote_plain)

section \<open>What a cache contribution serves\<close>

text \<open>The rules of a contribution match, together, exactly what its claim serves; a contribution
  without a claim has no rules and serves nothing.\<close>

definition rules_match :: "rule list \<Rightarrow> (request \<Rightarrow> bool) list \<Rightarrow> bool" where
  "rules_match rules ms \<longleftrightarrow> list_all2 (\<lambda>rule m. expresses (rule_expression rule) m) rules ms"

definition serves :: "contribution \<Rightarrow> (request \<Rightarrow> bool) \<Rightarrow> bool" where
  "serves c m \<longleftrightarrow> con_phase c = PhaseCacheSettings \<and>
     (if con_claim c = [] then con_rules c = [] \<and> (\<forall>r. \<not> m r)
      else claim_expresses (con_claim c) m \<and> (\<exists>ms. rules_match (con_rules c) ms \<and> (\<forall>r. list_ex (\<lambda>m. m r) ms \<longleftrightarrow> m r)))"

lemma claim_expresses_paren:
  "expresses text m \<Longrightarrow> claim_expresses (''('' @ text @ '')'') m"
  unfolding expresses_def claim_expresses_def by (metis render.simps(14))

lemma claim_expresses_expresses: "claim_expresses text m \<Longrightarrow> expresses text m"
  unfolding expresses_def claim_expresses_def by (metis holds.simps(14) unambiguous.simps(14))

lemma serves_one:
  assumes "con_phase c = PhaseCacheSettings" and "claim_expresses (con_claim c) m" and "con_claim c \<noteq> []"
    and "map rule_expression (con_rules c) = [text]" and "expresses text m"
  shows "serves c m"
  unfolding serves_def rules_match_def using assms by (auto intro!: exI [of _ "[m]"])

lemma CacheHosts_serves:
  assumes "list_all plain hosts" and "''*'' \<notin> set hosts"
  shows "serves (CacheHosts hosts) (\<lambda>r. list_ex (\<lambda>h. rule_matches h (rq_host r)) hosts)"
proof (cases "hosts = []")
  case True
  then show ?thesis by (simp add: serves_def CacheHosts_def Let_def zero_contribution_def)
next
  case False
  note expr = HostExpression_expresses [OF assms(1) False assms(2)]
  show ?thesis
    by (rule serves_one [OF _ _ _ _ expr])
      (use False claim_expresses_paren [OF expr] in \<open>simp_all add: CacheHosts_def Let_def\<close>)
qed

definition public_tree :: "string \<Rightarrow> string list \<Rightarrow> fexpr" where
  "public_tree host paths = FAnd [FHostEq host, FMethodIn [''GET'', ''HEAD''], FPathIn paths, FNoOrigin]"

lemma public_expression_claim:
  assumes "plain host" and "list_all plain paths" and "paths \<noteq> []"
  shows "claim_expresses (public_expression host paths)
     (\<lambda>r. rq_host r = host \<and> rq_method r \<in> {''GET'', ''HEAD''} \<and> rq_path r \<in> set paths \<and> \<not> rq_origin r)"
proof -
  have quotes: "map in_quotes paths = map go_quote paths" using assms(2) by (simp add: in_quotes_plain list_all_iff)
  have "plain ''GET''" "plain ''HEAD''" "plain ''origin''" by code_simp+
  then have "public_expression host paths = render (FParen (public_tree host paths))" "unambiguous (public_tree host paths)"
    unfolding public_expression_def quotes using assms by (simp_all add: public_tree_def quoted_set_def in_quotes_plain)
  then show ?thesis unfolding claim_expresses_def by (intro exI [of _ "public_tree host paths"]) (simp add: public_tree_def)
qed

lemma PublicPathsCache_Inr:
  assumes "PublicPathsCache host a = Inr r"
  shows "plain host \<and> cr_host r = host \<and> cr_paths r = sort (if ppa_paths a = [] then DefaultPublicCachePaths else ppa_paths a) \<and>
     cr_expression r = public_expression host (cr_paths r) \<and> list_all plain (cr_paths r) \<and> cr_paths r \<noteq> [] \<and>
     1 \<le> cr_edge_ttl_seconds r \<and> cr_edge_ttl_seconds r \<le> 3600 \<and> cr_edge_ttl_seconds r * second = (if ppa_ttl a = 0 then DefaultPublicCacheTTL else ppa_ttl a)"
proof -
  define ttl where "ttl = (if ppa_ttl a = 0 then DefaultPublicCacheTTL else ppa_ttl a)"
  define paths where "paths = (if ppa_paths a = [] then DefaultPublicCachePaths else ppa_paths a)"
  from assms have checks: "rx_match hostPattern host" "second \<le> ttl" "ttl \<le> MaxPublicCacheTTL" "ttl mod second = 0"
    "\<forall>p\<in>set paths. rx_match pathPattern p"
    and r: "cr_host r = host" "cr_paths r = sort paths" "cr_expression r = public_expression host (sort paths)" "cr_edge_ttl_seconds r = ttl div second"
    unfolding PublicPathsCache_def ttl_def [symmetric] paths_def [symmetric]
    by (auto simp: first_err_None Let_def)
  have "paths \<noteq> []" by (simp add: paths_def DefaultPublicCachePaths_def)
  moreover have "1 \<le> ttl div second" "ttl div second \<le> 3600" "ttl div second * second = ttl"
    using checks(2-4) div_mult_mod_eq [of ttl second] by (simp_all add: second_def MaxPublicCacheTTL_def)
  ultimately show ?thesis
    using checks(1,5) r hostPattern_plain pathPattern_plain by (auto simp: ttl_def paths_def list_all_iff)
qed

lemma PublicPathsCache_serves:
  assumes "PublicPathsCache host a = Inr r"
  shows "serves (CacheRule_Contribution r)
     (\<lambda>q. rq_host q = host \<and> rq_method q \<in> {''GET'', ''HEAD''} \<and> rq_path q \<in> set (cr_paths r) \<and> \<not> rq_origin q)"
proof -
  note ok = PublicPathsCache_Inr [OF assms]
  then have expr: "cr_expression r = public_expression host (cr_paths r)" and plain: "plain host" "list_all plain (cr_paths r)" "cr_paths r \<noteq> []"
    by blast+
  have claim: "claim_expresses (cr_expression r)
     (\<lambda>q. rq_host q = host \<and> rq_method q \<in> {''GET'', ''HEAD''} \<and> rq_path q \<in> set (cr_paths r) \<and> \<not> rq_origin q)"
    unfolding expr by (rule public_expression_claim [OF plain])
  from expr have "cr_expression r \<noteq> []" by (simp add: public_expression_def)
  then show ?thesis
    by (intro serves_one [OF _ _ _ _ claim_expresses_expresses [OF claim]])
      (use claim in \<open>simp_all add: CacheRule_Contribution_def\<close>)
qed

lemma StaticSiteCache_Inr:
  assumes "StaticSiteCache host a = Inr c"
  shows "plain host \<and> plain (ssa_hashed_prefix a) \<and> con_phase c = PhaseCacheSettings \<and> con_source c \<noteq> [] \<and>
     con_claim c = ''('' @ render (FHostEq host) @ '')'' \<and>
     map rule_expression (con_rules c) =
       (if ssa_hashed_prefix a = [] then [render (FHostEq host)]
        else [render (FAnd [FHostEq host, FPathStarts (ssa_hashed_prefix a)]),
              render (FAnd [FHostEq host, FNot (FPathStarts (ssa_hashed_prefix a))])])"
proof -
  from assms have checks: "rx_match hostPattern host" "ssa_hashed_prefix a = [] \<or> rx_match pathPattern (ssa_hashed_prefix a)"
    by (auto simp: StaticSiteCache_def Let_def)
  then have plain: "plain host" "plain (ssa_hashed_prefix a)" using hostPattern_plain pathPattern_plain by auto
  from assms show ?thesis
    by (auto simp: StaticSiteCache_def Let_def plain in_quotes_plain)
qed

lemma StaticSiteCache_rules:
  assumes "StaticSiteCache host a = Inr c"
  shows "\<exists>ms. rules_match (con_rules c) ms \<and> (\<forall>r. length (filter (\<lambda>m. m r) ms) = (if rq_host r = host then 1 else 0))"
proof -
  note ok = StaticSiteCache_Inr [OF assms]
  let ?p = "ssa_hashed_prefix a"
  have all2: "list_all2 (\<lambda>rule m. expresses (rule_expression rule) m) rules ms \<longleftrightarrow> list_all2 expresses (map rule_expression rules) ms" for rules ms
    by (simp add: list_all2_map1)
  show ?thesis
  proof (cases "?p = []")
    case True
    have "expresses (render (FHostEq host)) (\<lambda>r. rq_host r = host)" using ok by (intro expressesI [of "FHostEq host"]) simp_all
    with True ok show ?thesis unfolding rules_match_def all2 by (intro exI [of _ "[\<lambda>r. rq_host r = host]"]) simp
  next
    case False
    let ?ms = "[\<lambda>r. rq_host r = host \<and> has_prefix (rq_path r) ?p, \<lambda>r. rq_host r = host \<and> \<not> has_prefix (rq_path r) ?p]"
    have "expresses (render (FAnd [FHostEq host, FPathStarts ?p])) (?ms ! 0)"
      using ok by (intro expressesI [of "FAnd [FHostEq host, FPathStarts ?p]"]) simp_all
    moreover have "expresses (render (FAnd [FHostEq host, FNot (FPathStarts ?p)])) (?ms ! 1)"
      using ok by (intro expressesI [of "FAnd [FHostEq host, FNot (FPathStarts ?p)]"]) simp_all
    ultimately have "list_all2 expresses (map rule_expression (con_rules c)) ?ms" using False ok by simp
    then show ?thesis unfolding rules_match_def all2 by (intro exI [of _ ?ms]) simp
  qed
qed

lemma list_ex_filter_length: "list_ex P xs \<longleftrightarrow> length (filter P xs) \<noteq> 0"
  by (induction xs) auto

lemma StaticSiteCache_serves:
  assumes "StaticSiteCache host a = Inr c"
  shows "serves c (\<lambda>r. rq_host r = host)"
proof -
  note ok = StaticSiteCache_Inr [OF assms]
  from StaticSiteCache_rules [OF assms] obtain ms where ms: "rules_match (con_rules c) ms"
    "\<And>r. length (filter (\<lambda>m. m r) ms) = (if rq_host r = host then 1 else 0)" by blast
  then have "list_ex (\<lambda>m. m r) ms \<longleftrightarrow> rq_host r = host" for r unfolding list_ex_filter_length by simp
  moreover have "expresses (render (FHostEq host)) (\<lambda>r. rq_host r = host)" using ok by (intro expressesI [of "FHostEq host"]) simp_all
  then have "claim_expresses (con_claim c) (\<lambda>r. rq_host r = host)" using ok claim_expresses_paren by metis
  ultimately show ?thesis using ok ms(1) unfolding serves_def by auto
qed

section \<open>The cache phase as a whole\<close>

text \<open>The bypass sits in the assembled cache phase and excludes the claims of all contributions.\<close>

lemma claims_serve:
  assumes "\<And>c. c \<in> set cs \<Longrightarrow> serves c (M c)"
  shows "list_all2 claim_expresses (map con_claim (claiming cs)) (map M (claiming cs))"
  using assms unfolding list_all2_conv_all_nth
  by (auto simp: serves_def dest!: nth_mem split: if_splits)

lemma BypassRule_expresses:
  assumes "\<And>c. c \<in> set cs \<Longrightarrow> serves c (M c)"
  shows "expresses (rule_expression (BypassRule (claims_of cs))) (\<lambda>r. \<not> (\<exists>c\<in>set cs. M c r))"
proof -
  have set: "set (sort_contributions cs) = set cs" by (simp add: sort_contributions_def)
  have "expresses (BypassExpression (claims_of cs)) (\<lambda>r. \<not> list_ex (\<lambda>m. m r) (map M (claiming (sort_contributions cs))))"
    unfolding claims_of_def by (intro BypassExpression_expresses claims_serve) (simp add: assms set)
  moreover have "list_ex (\<lambda>m. m r) (map M (claiming (sort_contributions cs))) \<longleftrightarrow> (\<exists>c\<in>set cs. M c r)" for r
    using assms unfolding serves_def by (auto simp: list_ex_iff set split: if_splits)
  ultimately show ?thesis unfolding BypassRule_def by simp
qed

lemma rules_match_concat:
  assumes "\<And>c. c \<in> set cs \<Longrightarrow> serves c (M c)"
  shows "\<exists>ms. rules_match (concat (map con_rules cs)) ms \<and> (\<forall>r. list_ex (\<lambda>m. m r) ms \<longleftrightarrow> (\<exists>c\<in>set cs. M c r))"
  using assms
proof (induction cs)
  case Nil
  then show ?case by (simp add: rules_match_def)
next
  case (Cons c cs)
  then obtain ms where ms: "rules_match (concat (map con_rules cs)) ms" "\<And>r. list_ex (\<lambda>m. m r) ms \<longleftrightarrow> (\<exists>c\<in>set cs. M c r)" by auto
  from Cons.prems [of c] have c: "serves c (M c)" by simp
  obtain ns where ns: "rules_match (con_rules c) ns" "\<And>r. list_ex (\<lambda>m. m r) ns \<longleftrightarrow> M c r"
  proof (cases "con_claim c = []")
    case True
    with c show ?thesis by (intro that [of "[]"]) (simp_all add: serves_def rules_match_def)
  next
    case False
    with c that show ?thesis by (auto simp: serves_def)
  qed
  from ms ns show ?case
    by (intro exI [of _ "ns @ ms"]) (simp add: rules_match_def list_all2_appendI)
qed

lemma sort_contributions_split:
  "\<exists>pre post. sort_contributions (xs @ [b]) = pre @ b # post \<and> set pre \<union> set post = set xs"
proof -
  have m: "mset (sort_contributions (xs @ [b])) = add_mset b (mset xs)" by (simp add: sort_contributions_def)
  then have "b \<in> set (sort_contributions (xs @ [b]))" by (metis set_mset_mset union_single_eq_member)
  then obtain pre post where split: "sort_contributions (xs @ [b]) = pre @ b # post" by (meson split_list)
  with m have "mset (pre @ post) = mset xs" by simp
  then have "set pre \<union> set post = set xs" by (metis mset_eq_setD set_append)
  with split show ?thesis by blast
qed

lemma Assemble_cache_phase:
  assumes "Assemble cs = Inr m" and "cs \<noteq> []" and "\<And>c. c \<in> set cs \<Longrightarrow> serves c (M c)"
  obtains pre post ms ns where "mget m PhaseCacheSettings = Some (pre @ BypassRule (claims_of cs) # post)"
    "rules_match pre ms" "rules_match post ns"
    "\<And>r. list_ex (\<lambda>m. m r) (ms @ ns) \<longleftrightarrow> (\<exists>c\<in>set cs. M c r)"
proof -
  have mine: "in_phase PhaseCacheSettings cs = cs" using assms(3) by (auto simp: serves_def filter_id_conv)
  obtain pre post where split: "sort_contributions (cs @ [bypass_contribution (claims_of cs)]) =
      pre @ bypass_contribution (claims_of cs) # post" "set pre \<union> set post = set cs"
    using sort_contributions_split by blast
  have "mget m PhaseCacheSettings = assembled cs PhaseCacheSettings" using Assemble_Inr [OF assms(1)] by blast
  also have "\<dots> = Some (concat (map con_rules pre) @ BypassRule (claims_of cs) # concat (map con_rules post))"
    using assms(2) by (simp add: assembled_def mine split(1)) (simp add: bypass_contribution_def)
  finally have rules: "mget m PhaseCacheSettings = Some (concat (map con_rules pre) @ BypassRule (claims_of cs) # concat (map con_rules post))" .
  obtain ms where ms: "rules_match (concat (map con_rules pre)) ms" "\<And>r. list_ex (\<lambda>m. m r) ms \<longleftrightarrow> (\<exists>c\<in>set pre. M c r)"
    using rules_match_concat [of pre M] assms(3) split(2) by blast
  obtain ns where ns: "rules_match (concat (map con_rules post)) ns" "\<And>r. list_ex (\<lambda>m. m r) ns \<longleftrightarrow> (\<exists>c\<in>set post. M c r)"
    using rules_match_concat [of post M] assms(3) split(2) by blast
  show thesis
  proof (rule that [OF rules ms(1) ns(1)])
    show "list_ex (\<lambda>m. m r) (ms @ ns) \<longleftrightarrow> (\<exists>c\<in>set cs. M c r)" for r
      using split(2) ms(2) ns(2) by auto
  qed
qed

section \<open>Builders and the assembler\<close>

lemma str_join_not_Nil: "w \<noteq> [] \<Longrightarrow> str_join sep (w # ws) \<noteq> []"
  by (cases ws) auto

lemma HostExpression_not_Nil: "hosts \<noteq> [] \<Longrightarrow> HostExpression hosts \<noteq> []"
proof -
  assume "hosts \<noteq> []"
  then have "exact_hosts hosts \<noteq> [] \<or> wildcard_hosts hosts \<noteq> []" by (cases hosts) auto
  then show ?thesis
    by (cases "wildcard_hosts hosts") (simp_all add: HostExpression_def exact_terms_eq wildcard_terms_eq Let_def str_join_not_Nil)
qed

lemma CacheHosts_con_ok: "con_ok (CacheHosts hosts)"
proof (cases "hosts = []")
  case True
  then show ?thesis by (simp add: CacheHosts_def Let_def con_ok_def zero_contribution_def Phases_def)
next
  case False
  have "has_suffix (''('' @ HostExpression hosts @ '')'') '')''" by (metis append.assoc has_suffix_append)
  with False HostExpression_not_Nil [OF False] show ?thesis
    by (simp add: CacheHosts_def Let_def con_ok_def zero_contribution_def zero_rule_def Phases_def ActionSetCacheSettings_def)
qed

lemma claim_expresses_paren_shape: "claim_expresses c m \<Longrightarrow> has_prefix c ''('' \<and> has_suffix c '')'' \<and> c \<noteq> []"
  unfolding claim_expresses_def by (auto simp: has_suffix_iff)

lemma PublicPathsCache_con_ok:
  assumes "PublicPathsCache host a = Inr r"
  shows "con_ok (CacheRule_Contribution r)"
proof -
  from PublicPathsCache_serves [OF assms] PublicPathsCache_Inr [OF assms]
  have "claim_expresses (cr_expression r) (\<lambda>q. rq_host q = host \<and> rq_method q \<in> {''GET'', ''HEAD''} \<and> rq_path q \<in> set (cr_paths r) \<and> \<not> rq_origin q)"
    by (simp add: serves_def CacheRule_Contribution_def public_expression_def)
  note claim_expresses_paren_shape [OF this]
  then show ?thesis
    by (simp add: con_ok_def CacheRule_Contribution_def Phases_def zero_rule_def ActionSetCacheSettings_def)
qed

lemma StaticSiteCache_con_ok:
  assumes "StaticSiteCache host a = Inr c"
  shows "con_ok c"
proof -
  note ok = StaticSiteCache_Inr [OF assms]
  have "has_suffix (''('' @ render (FHostEq host) @ '')'') '')''" by (metis append.assoc has_suffix_append)
  moreover have "list_all (\<lambda>r. rule_ref r \<noteq> [] \<and> rule_action r \<noteq> [] \<and> rule_expression r \<noteq> []) (con_rules c)"
    using assms by (auto simp: StaticSiteCache_def Let_def zero_rule_def ActionSetCacheSettings_def)
  ultimately show ?thesis using ok by (simp add: con_ok_def Phases_def)
qed

definition rate_ref :: "rate_limit_rule \<Rightarrow> string" where
  "rate_ref r = ''ratelimit-'' @ refSlug (rlr_name r)"

lemma rate_fold:
  "fold_err rate_step rows (m, rules) = Inr (m', rules') \<Longrightarrow>
     rules' = rules @ map (\<lambda>r. rate_rule (rate_ref r) r) rows \<and> list_all (\<lambda>r. refSlug (rlr_name r) \<noteq> []) rows \<and>
     distinct (map rate_ref rows) \<and> (\<forall>r\<in>set rows. \<not> has_key m (rate_ref r))"
proof (induction rows arbitrary: m rules)
  case (Cons r rows)
  from Cons.prems obtain m1 rules1 where step: "rate_step r (m, rules) = Inr (m1, rules1)"
    and rest: "fold_err rate_step rows (m1, rules1) = Inr (m', rules')" by auto
  from step have "refSlug (rlr_name r) \<noteq> []" "\<not> has_key m (rate_ref r)" "m1 = mput (rate_ref r) (rlr_name r) m"
    "rules1 = rules @ [rate_rule (rate_ref r) r]"
    by (auto simp: rate_step_def Let_def rate_ref_def has_key_def split: if_splits option.splits)
  with Cons.IH [OF rest] show ?case by auto
qed simp

lemma RateLimits_Inr:
  assumes "RateLimits plan rows = Inr c"
  shows "RateLimits_validate \<lparr>rls_plan = plan, rls_rules = rows\<rparr> = None \<and>
     con_phase c = PhaseRateLimit \<and> con_source c = ''rate-limits'' \<and> con_claim c = [] \<and>
     con_rules c = map (\<lambda>r. rate_rule (rate_ref r) r) rows \<and> distinct (map rate_ref rows) \<and>
     list_all (\<lambda>r. refSlug (rlr_name r) \<noteq> []) rows"
proof -
  from assms obtain by_ref rules where ok: "Args_Validate (validation_args\<lparr>za_rate_limits := Some \<lparr>rls_plan = plan, rls_rules = rows\<rparr>\<rparr>) = None"
    "fold_err rate_step rows ([], []) = Inr (by_ref, rules)"
    "c = zero_contribution\<lparr>con_source := ''rate-limits'', con_phase := PhaseRateLimit, con_order := OrderHostsCache, con_rules := rules\<rparr>"
    by (auto simp: RateLimits_def)
  from ok(1) have "RateLimits_validate \<lparr>rls_plan = plan, rls_rules = rows\<rparr> = None"
    by (simp add: Args_Validate_def on_block_def)
  with rate_fold [OF ok(2)] ok(3) show ?thesis by (simp add: zero_contribution_def)
qed

lemma MatchExpression_not_Nil: "match_ok limit r \<Longrightarrow> MatchExpression r \<noteq> []"
  by (cases "rlr_endpoints r") (auto simp: match_ok_def MatchExpression_def endpoint_term_def Let_def str_join_not_Nil)

lemma RateLimits_con_ok:
  assumes "RateLimits plan rows = Inr c"
  shows "con_ok c"
proof -
  note ok = RateLimits_Inr [OF assms]
  then obtain limit where rows: "\<And>r. r \<in> set rows \<Longrightarrow> match_ok limit r \<and> key_and_rate_ok limit r \<and> action_ok limit r"
    using RateLimits_validate_rules [of "\<lparr>rls_plan = plan, rls_rules = rows\<rparr>"] by auto
  have "[] \<notin> set validRateLimitActions" by code_simp
  with rows have "list_all (\<lambda>r. rlr_action r \<noteq> [] \<and> MatchExpression r \<noteq> []) rows"
    using MatchExpression_not_Nil by (fastforce simp: list_all_iff action_ok_def)
  with ok show ?thesis
    by (auto simp: con_ok_def Phases_def list_all_iff rate_rule_def rate_ref_def zero_rule_def)
qed

lemma TrustedClients_con_ok:
  assumes "TrustedClients t = Inr c"
  shows "con_ok c"
proof (cases "con_rules c")
  case Nil
  with assms show ?thesis
    by (auto simp: TrustedClients_def Let_def con_ok_def zero_contribution_def Phases_def split: option.splits if_splits sum.splits prod.splits)
next
  case (Cons r rs)
  with assms show ?thesis
    by (auto simp: TrustedClients_def Let_def con_ok_def zero_contribution_def zero_rule_def Phases_def ActionSkip_def TrustedExpression_def
        split: option.splits if_splits sum.splits prod.splits)
qed

lemma ManagedWAF_con_ok:
  assumes "ManagedWAF m = Inr c"
  shows "con_ok c"
proof (cases m)
  case None
  with assms show ?thesis by (auto simp: ManagedWAF_def Let_def con_ok_def zero_contribution_def Phases_def)
next
  case (Some w)
  with assms have "ManagedWAF_validate w = None"
    and c: "con_phase c = PhaseFirewallManaged" "con_source c = ''managed-waf''" "con_claim c = []"
    "\<exists>d. con_rules c = [zero_rule\<lparr>rule_ref := ''managed-waf'', rule_description := d, rule_action := ActionExecute,
       rule_expression := ManagedWAFExpression w, rule_params := no_params\<lparr>par_execute := Some \<lparr>xp_id = CloudflareManagedRulesetID\<rparr>\<rparr>\<rparr>]"
    by (auto simp: ManagedWAF_def Let_def Args_Validate_def on_block_def zero_contribution_def)
  then have "ManagedWAFExpression w \<noteq> []"
    using HostExpression_not_Nil [of "sort (mw_hosts w)"] by (auto simp: ManagedWAF_validate_None ManagedWAFExpression_def split: if_splits)
  with c show ?thesis by (auto simp: con_ok_def Phases_def ActionExecute_def)
qed

lemma SSLMode_con_ok: "SSLMode host mode ref = Inr c \<Longrightarrow> con_ok c"
  by (auto simp: SSLMode_def con_ok_def zero_contribution_def zero_rule_def Phases_def ActionSetConfig_def)

section \<open>Properties\<close>

lemma not_isl_Inr: "\<not> isl x \<Longrightarrow> \<exists>y. x = Inr y"
  by (cases x) auto

definition sample_host_cache :: contribution where
  "sample_host_cache = CacheHosts [''www.example.com'']"

definition sample_public :: "rules_error + cache_rule" where
  "sample_public = PublicPathsCache ''id.example.com'' \<lparr>ppa_ttl = 0, ppa_paths = []\<rparr>"

text \<open>Every builder makes contributions the assembler accepts: a known phase, a source, a claim only
  in the cache phase and in parentheses, and rules with a ref, an action and an expression. So
  assembling what the builders made can fail only because two rules ask for one ref.\<close>

theorem builders_fit:
  assumes "c = CacheHosts hosts \<or> (\<exists>r. PublicPathsCache host pa = Inr r \<and> c = CacheRule_Contribution r) \<or>
     StaticSiteCache host sa = Inr c \<or> RateLimits plan rows = Inr c \<or> TrustedClients t = Inr c \<or>
     ManagedWAF w = Inr c \<or> (SSLMode host mode ref = Inr c)"
  shows "con_ok c"
  using assms CacheHosts_con_ok PublicPathsCache_con_ok StaticSiteCache_con_ok RateLimits_con_ok TrustedClients_con_ok
    ManagedWAF_con_ok SSLMode_con_ok by blast

theorem builders_fit_witness: "con_ok (CacheHosts [''www.example.com''])"
  by (rule builders_fit [where hosts = "[''www.example.com'']"]) simp

text \<open>C8 The assembled cache phase leaves no request to the zone's own defaults: when every
  contribution serves what it claims, as the builders' contributions do, each request is matched
  by a rule of the phase, and by the bypass rule exactly when by no other.\<close>

theorem Assemble_cache_total:
  assumes "Assemble cs = Inr m" and "cs \<noteq> []" and "\<And>c. c \<in> set cs \<Longrightarrow> serves c (M c)"
  shows "\<exists>pre bypass post ms ns. mget m PhaseCacheSettings = Some (pre @ bypass # post) \<and> rule_ref bypass = BypassRef \<and>
     rules_match pre ms \<and> rules_match post ns \<and>
     expresses (rule_expression bypass) (\<lambda>r. \<not> list_ex (\<lambda>m. m r) (ms @ ns))"
proof -
  from Assemble_cache_phase [OF assms] obtain pre post ms ns where phase:
    "mget m PhaseCacheSettings = Some (pre @ BypassRule (claims_of cs) # post)" "rules_match pre ms" "rules_match post ns"
    "\<And>r. list_ex (\<lambda>m. m r) (ms @ ns) \<longleftrightarrow> (\<exists>c\<in>set cs. M c r)" by blast
  have "expresses (rule_expression (BypassRule (claims_of cs))) (\<lambda>r. \<not> list_ex (\<lambda>m. m r) (ms @ ns))"
    by (rule expresses_cong [OF BypassRule_expresses [of cs M]]) (simp_all only: assms(3) phase(4))
  then show ?thesis
    using phase(1-3) by (intro exI [of _ pre] exI [of _ "BypassRule (claims_of cs)"] exI [of _ post] exI [of _ ms] exI [of _ ns])
      (simp add: BypassRule_def)
qed

theorem Assemble_cache_total_witness:
  "\<exists>pre bypass post ms ns. [hd (con_rules sample_host_cache), BypassRule [con_claim sample_host_cache]] = pre @ bypass # post \<and>
     rule_ref bypass = BypassRef \<and> rules_match pre ms \<and> rules_match post ns \<and>
     expresses (rule_expression bypass) (\<lambda>r. \<not> list_ex (\<lambda>m. m r) (ms @ ns))"
proof -
  have "Assemble [sample_host_cache] = Inr [(PhaseCacheSettings, [hd (con_rules sample_host_cache), BypassRule [con_claim sample_host_cache]])]"
    by code_simp
  moreover have "serves sample_host_cache (\<lambda>r. list_ex (\<lambda>h. rule_matches h (rq_host r)) [''www.example.com''])"
    unfolding sample_host_cache_def by (rule CacheHosts_serves) code_simp+
  ultimately show ?thesis
    using Assemble_cache_total [where cs = "[sample_host_cache]" and M = "\<lambda>_ r. list_ex (\<lambda>h. rule_matches h (rq_host r)) [''www.example.com'']"]
    by (simp add: mget_def)
qed

text \<open>A static site's rules divide its host between them: a request to the host is matched by
  exactly one of them, any other request by none, and the claim is the whole host.\<close>

theorem StaticSiteCache_partition:
  assumes "StaticSiteCache host a = Inr c"
  shows "\<exists>ms. rules_match (con_rules c) ms \<and>
     (\<forall>r. length (filter (\<lambda>m. m r) ms) = (if rq_host r = host then 1 else 0)) \<and>
     claim_expresses (con_claim c) (\<lambda>r. rq_host r = host)"
proof -
  have "con_claim c \<noteq> []" using StaticSiteCache_Inr [OF assms] by simp
  with StaticSiteCache_serves [OF assms] have "claim_expresses (con_claim c) (\<lambda>r. rq_host r = host)"
    by (simp add: serves_def)
  with StaticSiteCache_rules [OF assms] show ?thesis by blast
qed

theorem StaticSiteCache_partition_witness:
  "\<exists>c ms. StaticSiteCache ''www.example.com'' \<lparr>ssa_hashed_prefix = ''/assets/'', ssa_edge_ttl = 5000000000, ssa_html_ttl = 0\<rparr> = Inr c \<and>
     rules_match (con_rules c) ms \<and> length ms = 2"
proof -
  let ?a = "\<lparr>ssa_hashed_prefix = ''/assets/'', ssa_edge_ttl = 5000000000, ssa_html_ttl = 0\<rparr>"
  have "\<not> isl (StaticSiteCache ''www.example.com'' ?a)" by code_simp
  then obtain c where c: "StaticSiteCache ''www.example.com'' ?a = Inr c" using not_isl_Inr by blast
  from StaticSiteCache_partition [OF c] obtain ms where ms: "rules_match (con_rules c) ms" by blast
  then have "length ms = length (con_rules c)" by (simp add: rules_match_def list_all2_lengthD)
  moreover have "length (map rule_expression (con_rules c)) = 2" using StaticSiteCache_Inr [OF c] by simp
  ultimately show ?thesis using c ms by (metis length_map)
qed

text \<open>The public documents of a host are cached only for a request of theirs: that host, a GET or
  HEAD, one of the listed paths, and no Origin header; for between a second and an hour, as asked.\<close>

theorem PublicPathsCache_match:
  assumes "PublicPathsCache host a = Inr r"
  shows "claim_expresses (cr_expression r)
       (\<lambda>q. rq_host q = host \<and> rq_method q \<in> {''GET'', ''HEAD''} \<and> rq_path q \<in> set (cr_paths r) \<and> \<not> rq_origin q) \<and>
     set (cr_paths r) = set (if ppa_paths a = [] then DefaultPublicCachePaths else ppa_paths a) \<and>
     1 \<le> cr_edge_ttl_seconds r \<and> cr_edge_ttl_seconds r \<le> 3600 \<and>
     cr_edge_ttl_seconds r * second = (if ppa_ttl a = 0 then DefaultPublicCacheTTL else ppa_ttl a)"
proof -
  note ok = PublicPathsCache_Inr [OF assms]
  have "con_claim (CacheRule_Contribution r) = cr_expression r" "cr_expression r \<noteq> []"
    using ok by (simp_all add: CacheRule_Contribution_def public_expression_def)
  with PublicPathsCache_serves [OF assms] have "claim_expresses (cr_expression r)
       (\<lambda>q. rq_host q = host \<and> rq_method q \<in> {''GET'', ''HEAD''} \<and> rq_path q \<in> set (cr_paths r) \<and> \<not> rq_origin q)"
    by (simp only: serves_def if_False)
  with ok show ?thesis by simp
qed

theorem PublicPathsCache_match_witness:
  "\<exists>r. sample_public = Inr r \<and> cr_edge_ttl_seconds r = 300"
proof -
  have "\<not> isl sample_public" by code_simp
  then obtain r where r: "sample_public = Inr r" using not_isl_Inr by blast
  from PublicPathsCache_match [OF r [unfolded sample_public_def]] have "cr_edge_ttl_seconds r * second = 300 * second"
    by (simp add: DefaultPublicCacheTTL_def)
  then have "cr_edge_ttl_seconds r = 300" by (simp add: second_def)
  with r show ?thesis by blast
qed

end
