(* ===== verification/Edge_Derive.thy ===== *)
theory Edge_Derive imports Edge_Order begin

text \<open>
  \<open>cloudflare/edgespec/derive.go\<close>: the names of a tunnel, the zone a host lies in
  (\<open>ZoneOf\<close>), the tunnels, cache hosts and WAF hosts derived from the exposures
  (\<open>Derive\<close>), and the check of the routing (\<open>ValidateRouting\<close>).

  The map from \<open>key{cluster, account}\<close> to hosts is an association list on pairs; the loop
  over it runs in the order of that list, and the sort of the tunnels makes the order
  irrelevant. A set kept as a Go map to booleans is a list of its members.
  \<open>slices.Compact\<close> clears the tail of the slice it shortens, and the slice is still the one
  in the map: \<open>compact_zone\<close> keeps that.
\<close>

definition ReleaseBase :: string where
  "ReleaseBase = ''cloudflared''"

definition suffixed :: "string \<Rightarrow> string \<Rightarrow> bool \<Rightarrow> string" where
  "suffixed base account legacy = (if legacy then base else base @ ''-'' @ account)"

definition TunnelName :: "string \<Rightarrow> string \<Rightarrow> bool \<Rightarrow> string" where
  "TunnelName cluster account legacy = suffixed cluster account legacy"

definition ReleaseName :: "string \<Rightarrow> bool \<Rightarrow> string" where
  "ReleaseName account legacy = suffixed ReleaseBase account legacy"

definition SecretName :: "string \<Rightarrow> bool \<Rightarrow> string" where
  "SecretName account legacy = suffixed ReleaseBase account legacy @ ''-tunnel-token''"

definition in_zone :: "string \<Rightarrow> string \<Rightarrow> bool" where
  "in_zone name zone \<longleftrightarrow> name = zone \<or> has_suffix name (''.'' @ zone)"

definition ZoneOf :: "string list \<Rightarrow> string \<Rightarrow> string" where
  "ZoneOf zones host =
     (let name = to_lower (trim_prefix host ''*.'') in
      foldl (\<lambda>best zone. if in_zone name zone \<and> length best < length zone then zone else best) [] zones)"

section \<open>Types\<close>

record tunnel =
  tun_name :: string
  tun_cluster :: string
  tun_account :: string
  tun_zone :: string
  tun_zones :: "string list"
  tun_hosts :: "string list"
  tun_dns_elsewhere :: "string list"
  tun_dns_domain :: string

record edge_group =
  eg_name :: string
  eg_cluster :: string
  eg_hosts :: "string list"
  eg_route_namespaces :: "string list"
  eg_dns_elsewhere :: "string list"
  eg_waf_off :: "string list"

record edge_exposure =
  ee_name :: string
  ee_accounts :: "string list"
  ee_groups :: "edge_group list"

record edge_input =
  ei_exposures :: "edge_exposure list"
  ei_zones :: "string gomap"
  ei_legacy_names :: "bool gomap"
  ei_business :: "string list"
  ei_cache_zones :: "string list"
  ei_waf_zones :: "string list"

record derived =
  de_tunnels :: "tunnel list"
  de_cache_hosts :: "string list gomap"
  de_waf_hosts :: "string list gomap"

type_synonym tunnel_key = "string \<times> string"

datatype edge_error =
    ENoAccounts string
  | EUnknownAccount string string
  | ENoZone string string string string
  | EForeignZone string string string string string
  | EWildcardWAF string string string string string

section \<open>Derive\<close>

definition lookup_list :: "('k \<times> 'v list) list \<Rightarrow> 'k \<Rightarrow> 'v list" where
  "lookup_list m k = (case map_of m k of None \<Rightarrow> [] | Some l \<Rightarrow> l)"

definition append_at :: "'k \<Rightarrow> 'v \<Rightarrow> ('k \<times> 'v list) list \<Rightarrow> ('k \<times> 'v list) list" where
  "append_at k v m = AList.update k (lookup_list m k @ [v]) m"

definition account_of :: "edge_input \<Rightarrow> string \<Rightarrow> string" where
  "account_of i zone = (case mget (ei_zones i) zone of None \<Rightarrow> [] | Some account \<Rightarrow> account)"

definition place :: "edge_input \<Rightarrow> string list \<Rightarrow> edge_exposure \<Rightarrow> edge_group \<Rightarrow> string \<Rightarrow> edge_error + tunnel_key" where
  "place i zones e g host =
     (let zone = ZoneOf zones host in
      if zone = [] then Inl (ENoZone (ee_name e) (eg_cluster g) (eg_name g) host)
      else let account = account_of i zone in
        if account \<notin> set (ee_accounts e)
        then Inl (EForeignZone (ee_name e) (eg_cluster g) (eg_name g) host zone)
        else Inr (eg_cluster g, account))"

type_synonym host_maps = "(tunnel_key \<times> string list) list \<times> (tunnel_key \<times> string list) list"

definition derive_host :: "edge_input \<Rightarrow> string list \<Rightarrow> edge_exposure \<Rightarrow> edge_group \<Rightarrow> string \<Rightarrow>
    host_maps \<Rightarrow> edge_error + host_maps" where
  "derive_host i zones e g host = (\<lambda>(hosts, elsewhere).
     sum_bind (place i zones e g host) (\<lambda>k.
       Inr (append_at k host hosts,
            if host \<in> set (eg_dns_elsewhere g) then append_at k host elsewhere else elsewhere)))"

definition check_accounts :: "edge_input \<Rightarrow> edge_exposure \<Rightarrow> edge_error option" where
  "check_accounts i e = first_of [
     fail_if (ee_accounts e = []) (ENoAccounts (ee_name e)),
     first_err (\<lambda>account. fail_if (\<not> has_key (ei_legacy_names i) account) (EUnknownAccount (ee_name e) account))
       (ee_accounts e)]"

definition derive_edge_exposure :: "edge_input \<Rightarrow> string list \<Rightarrow> edge_exposure \<Rightarrow> host_maps \<Rightarrow> edge_error + host_maps" where
  "derive_edge_exposure i zones e st =
     unless (check_accounts i e)
       (fold_err (\<lambda>g. fold_err (derive_host i zones e g) (eg_hosts g)) (ee_groups e) st)"

definition make_tunnel :: "edge_input \<Rightarrow> string list \<Rightarrow> (tunnel_key \<times> string list) list \<Rightarrow>
    tunnel_key \<times> string list \<Rightarrow> tunnel" where
  "make_tunnel i zones elsewhere = (\<lambda>((cluster, account), hosts).
     let ordered = OrderHosts hosts;
         legacy = (case mget (ei_legacy_names i) account of None \<Rightarrow> False | Some b \<Rightarrow> b) in
     \<lparr>tun_name = TunnelName cluster account legacy, tun_cluster = cluster, tun_account = account,
      tun_zone = ZoneOf zones (ordered ! 0),
      tun_zones = sorted_keys (key_set (map (ZoneOf zones) ordered)),
      tun_hosts = ordered,
      tun_dns_elsewhere = filter (\<lambda>host. host \<in> set (lookup_list elsewhere (cluster, account))) ordered,
      tun_dns_domain = []\<rparr>)"

definition compare_tunnels :: "tunnel \<Rightarrow> tunnel \<Rightarrow> int" where
  "compare_tunnels a b =
     (let d = str_compare (tun_cluster a) (tun_cluster b) in
      if d \<noteq> 0 then d else str_compare (tun_account a) (tun_account b))"

definition sortTunnels :: "tunnel list \<Rightarrow> tunnel list" where
  "sortTunnels tunnels = sort_cmp compare_tunnels tunnels"

text \<open>\<open>slices.Sort\<close> and \<open>slices.Compact\<close> on the slice the map still holds.\<close>

definition compact_zone :: "string \<Rightarrow> string list gomap \<times> string list gomap \<Rightarrow> string list gomap \<times> string list gomap" where
  "compact_zone zone = (\<lambda>(byZone, out).
     let hosts = lookup_list byZone zone; compacted = sort_compact hosts in
     (mput zone (compacted @ replicate (length hosts - length compacted) []) byZone, mput zone compacted out))"

definition compact_zones :: "string list \<Rightarrow> string list gomap \<Rightarrow> string list gomap" where
  "compact_zones zones byZone = snd (fold compact_zone zones (byZone, []))"

definition businessGroup :: "edge_group \<Rightarrow> string list \<Rightarrow> bool" where
  "businessGroup g business \<longleftrightarrow> eg_route_namespaces g \<noteq> [] \<and>
     list_all (\<lambda>ns. ns \<in> set business) (eg_route_namespaces g)"

definition cache_host :: "string list \<Rightarrow> string \<Rightarrow> string list gomap \<Rightarrow> string list gomap" where
  "cache_host zones host byZone =
     (if has_prefix host ''*.'' then byZone
      else let zone = ZoneOf zones host in if zone \<noteq> [] then append_at zone host byZone else byZone)"

definition deriveCache :: "edge_input \<Rightarrow> string list \<Rightarrow> string list gomap" where
  "deriveCache i zones =
     (if ei_cache_zones i = [] then []
      else compact_zones (ei_cache_zones i)
        (fold (\<lambda>e. fold (\<lambda>g byZone. if \<not> businessGroup g (ei_business i) then byZone
             else fold (cache_host zones) (eg_hosts g) byZone) (ee_groups e)) (ei_exposures i) []))"

definition waf_host :: "edge_input \<Rightarrow> string list \<Rightarrow> edge_exposure \<Rightarrow> edge_group \<Rightarrow> string \<Rightarrow>
    string list gomap \<Rightarrow> edge_error + string list gomap" where
  "waf_host i zones e g host byZone =
     (let zone = ZoneOf zones host in
      if zone = [] \<or> zone \<notin> set (ei_waf_zones i) then Inr byZone
      else if host \<in> set (eg_waf_off g) then Inr byZone
      else if has_prefix host ''*.'' then Inl (EWildcardWAF (ee_name e) (eg_cluster g) (eg_name g) host zone)
      else Inr (append_at zone host byZone))"

definition deriveWAF :: "edge_input \<Rightarrow> string list \<Rightarrow> edge_error + string list gomap" where
  "deriveWAF i zones =
     (if ei_waf_zones i = [] then Inr []
      else sum_bind (fold_err (\<lambda>e. fold_err (\<lambda>g. fold_err (waf_host i zones e g) (eg_hosts g)) (ee_groups e))
             (ei_exposures i) [])
           (\<lambda>byZone. Inr (compact_zones (ei_waf_zones i) byZone)))"

definition Derive :: "edge_input \<Rightarrow> edge_error + derived" where
  "Derive i =
     (let zones = sorted_keys (ei_zones i) in
      sum_bind (fold_err (derive_edge_exposure i zones) (ei_exposures i) ([], [])) (\<lambda>(hosts, elsewhere).
      sum_bind (deriveWAF i zones) (\<lambda>wafHosts.
        Inr \<lparr>de_tunnels = sortTunnels (map (make_tunnel i zones elsewhere) hosts),
          de_cache_hosts = deriveCache i zones, de_waf_hosts = wafHosts\<rparr>)))"

definition DNSNames :: "tunnel \<Rightarrow> string list" where
  "DNSNames t =
     (if tun_dns_elsewhere t = [] then tun_hosts t
      else filter (\<lambda>host. host \<notin> set (tun_dns_elsewhere t)) (tun_hosts t))"

section \<open>ValidateRouting\<close>

type_synonym host_site = "string \<times> string \<times> nat"

datatype routing_error =
    RDuplicate host_site string host_site
  | RShadowed host_site string string

definition validate_tunnel_host :: "tunnel \<Rightarrow> nat \<times> string \<Rightarrow> host_site gomap \<Rightarrow> routing_error + host_site gomap" where
  "validate_tunnel_host t = (\<lambda>(n, host) seen.
     let key = to_lower host; at = (tun_cluster t, tun_account t, n) in
     case mget seen key of
       Some prev \<Rightarrow> Inl (RDuplicate at host prev)
     | None \<Rightarrow>
         let seen = mput key at seen in
         unless (first_err (\<lambda>earlier. fail_if (Covers (to_lower earlier) key) (RShadowed at host earlier))
             (take n (tun_hosts t)))
           (Inr seen))"

definition ValidateRouting :: "tunnel list \<Rightarrow> routing_error option" where
  "ValidateRouting tunnels =
     (case fold_err (\<lambda>t. fold_err (validate_tunnel_host t) (enumerate 0 (tun_hosts t))) (sortTunnels tunnels) [] of
        Inl e \<Rightarrow> Some e | Inr seen \<Rightarrow> None)"

section \<open>The zone of a host\<close>

definition zone_name :: "string \<Rightarrow> string" where
  "zone_name host = to_lower (trim_prefix host ''*.'')"

lemma in_zone_same_length: "in_zone n z \<Longrightarrow> in_zone n z' \<Longrightarrow> length z = length z' \<Longrightarrow> z = z'"
  unfolding in_zone_def
  using has_suffix_length [of n "''.'' @ z"] has_suffix_length [of n "''.'' @ z'"]
    has_suffix_same_length [of n "''.'' @ z" "''.'' @ z'"] by force

text \<open>What a client of a zone lookup relies on, whoever implements it: the answer is a zone that
  encloses the name, none longer does, and the empty string means that none does.\<close>

locale zone_lookup =
  fixes zones :: "string set" and find_zone :: "string \<Rightarrow> string"
  assumes find_sound: "find_zone h \<noteq> [] \<Longrightarrow> find_zone h \<in> zones \<and> in_zone (zone_name h) (find_zone h)"
    and find_longest: "z \<in> zones \<Longrightarrow> in_zone (zone_name h) z \<Longrightarrow> length z \<le> length (find_zone h)"
begin

lemma find_unique:
  assumes "z \<in> zones" and "in_zone (zone_name h) z"
    and "\<And>z'. z' \<in> zones \<Longrightarrow> in_zone (zone_name h) z' \<Longrightarrow> length z' \<le> length z"
  shows "find_zone h = z"
proof (cases "find_zone h = []")
  case True
  then show ?thesis using find_longest [OF assms(1,2)] by simp
next
  case False
  with find_sound have f: "find_zone h \<in> zones" "in_zone (zone_name h) (find_zone h)" by auto
  then have "length (find_zone h) = length z"
    using assms(3) find_longest [OF assms(1,2)] by (simp add: antisym)
  then show ?thesis using f(2) assms(2) by (intro in_zone_same_length) simp_all
qed

lemma find_none: "find_zone h = [] \<longleftrightarrow> (\<forall>z\<in>zones. in_zone (zone_name h) z \<longrightarrow> z = [])"
proof
  assume "find_zone h = []"
  then show "\<forall>z\<in>zones. in_zone (zone_name h) z \<longrightarrow> z = []" using find_longest [of _ h] by simp
next
  assume none: "\<forall>z\<in>zones. in_zone (zone_name h) z \<longrightarrow> z = []"
  show "find_zone h = []"
  proof (rule ccontr)
    assume "find_zone h \<noteq> []"
    with find_sound [OF this] none show False by blast
  qed
qed

end

text \<open>Two lookups over the same zones give the same answer.\<close>

lemma zone_lookup_agree:
  assumes "zone_lookup zones f" and "zone_lookup zones g"
  shows "f h = g h"
proof (cases "g h = []")
  case True
  then show ?thesis
    using zone_lookup.find_none [OF assms(1), of h] zone_lookup.find_none [OF assms(2), of h] by simp
next
  case False
  with zone_lookup.find_sound [OF assms(2)] have "g h \<in> zones" "in_zone (zone_name h) (g h)" by auto
  then show ?thesis
    using zone_lookup.find_longest [OF assms(2)] by (intro zone_lookup.find_unique [OF assms(1)])
qed

lemma zone_fold:
  "let r = foldl (\<lambda>best zone. if in_zone n zone \<and> length best < length zone then zone else best) b zs in
     length b \<le> length r \<and> (r = b \<or> r \<in> set zs \<and> in_zone n r) \<and> (\<forall>z\<in>set zs. in_zone n z \<longrightarrow> length z \<le> length r)"
proof (induction zs arbitrary: b)
  case (Cons z zs)
  let ?b = "if in_zone n z \<and> length b < length z then z else b"
  show ?case using Cons.IH [of ?b] by (auto simp: Let_def)
qed simp

interpretation zone_of: zone_lookup "set zones" "ZoneOf zones" for zones
proof
  fix h z
  note fold = zone_fold [of "zone_name h" "[]" zones, folded zone_name_def]
  show "ZoneOf zones h \<noteq> [] \<Longrightarrow> ZoneOf zones h \<in> set zones \<and> in_zone (zone_name h) (ZoneOf zones h)"
    using fold by (auto simp: ZoneOf_def Let_def zone_name_def)
  show "z \<in> set zones \<Longrightarrow> in_zone (zone_name h) z \<Longrightarrow> length z \<le> length (ZoneOf zones h)"
    using fold by (auto simp: ZoneOf_def Let_def zone_name_def)
qed

lemma ZoneOf_cong: "set zones = set zones' \<Longrightarrow> ZoneOf zones h = ZoneOf zones' h"
  by (rule zone_lookup_agree [OF zone_of.zone_lookup_axioms]) (simp add: zone_of.zone_lookup_axioms)

section \<open>Lists collected under a key\<close>

lemma lookup_append_at [simp]:
  "lookup_list (append_at k v m) k' = (if k' = k then lookup_list m k @ [v] else lookup_list m k')"
  by (simp add: lookup_list_def append_at_def update_conv')

lemma keys_append_at [simp]: "fst ` set (append_at k v m) = insert k (fst ` set m)"
  by (simp add: append_at_def dom_update)

lemma distinct_append_at [simp]: "distinct (map fst m) \<Longrightarrow> distinct (map fst (append_at k v m))"
  by (simp add: append_at_def distinct_update)

lemma lookup_list_Nil [simp]: "lookup_list [] k = []"
  by (simp add: lookup_list_def)

definition collect_by :: "('x \<Rightarrow> 'k) \<Rightarrow> ('x \<Rightarrow> 'v) \<Rightarrow> 'x list \<Rightarrow> ('k \<times> 'v list) list \<Rightarrow> ('k \<times> 'v list) list" where
  "collect_by key val xs m = fold (\<lambda>x. append_at (key x) (val x)) xs m"

lemma lookup_collect_by:
  "lookup_list (collect_by key val xs m) k = lookup_list m k @ map val (filter (\<lambda>x. key x = k) xs)"
  by (induction xs arbitrary: m) (auto simp: collect_by_def)

lemma keys_collect_by: "fst ` set (collect_by key val xs m) = key ` set xs \<union> fst ` set m"
  by (induction xs arbitrary: m) (auto simp: collect_by_def)

lemma distinct_collect_by: "distinct (map fst m) \<Longrightarrow> distinct (map fst (collect_by key val xs m))"
  by (induction xs arbitrary: m) (auto simp: collect_by_def)

lemma lookup_in: "distinct (map fst m) \<Longrightarrow> (k, l) \<in> set m \<Longrightarrow> lookup_list m k = l"
  by (simp add: lookup_list_def)

section \<open>What Derive collects\<close>

type_synonym host_place = "edge_exposure \<times> edge_group \<times> string"

definition sites :: "edge_input \<Rightarrow> host_place list" where
  "sites i = concat (map (\<lambda>e. map (Pair e) (concat (map (\<lambda>g. map (Pair g) (eg_hosts g)) (ee_groups e)))) (ei_exposures i))"

abbreviation site_host :: "host_place \<Rightarrow> string" where
  "site_host \<equiv> \<lambda>(e, g, h). h"

lemma in_sites:
  "(e, g, h) \<in> set (sites i) \<longleftrightarrow> e \<in> set (ei_exposures i) \<and> g \<in> set (ee_groups e) \<and> h \<in> set (eg_hosts g)"
  by (auto simp: sites_def)

lemma fold_err_sites:
  "fold_err (\<lambda>e. fold_err (\<lambda>g. fold_err (f e g) (eg_hosts g)) (ee_groups e)) (ei_exposures i) s =
     fold_err (\<lambda>(e, g, h). f e g h) (sites i) s"
proof -
  have inner: "fold_err (\<lambda>g. fold_err (f e g) (eg_hosts g)) (ee_groups e) =
      fold_err (\<lambda>(g, h). f e g h) (concat (map (\<lambda>g. map (Pair g) (eg_hosts g)) (ee_groups e)))" for e
    by (rule ext) (rule fold_err_nested)
  show ?thesis unfolding inner sites_def by (rule fold_err_nested)
qed

definition site_key :: "edge_input \<Rightarrow> host_place \<Rightarrow> tunnel_key" where
  "site_key i = (\<lambda>(e, g, h). (eg_cluster g, account_of i (ZoneOf (sorted_keys (ei_zones i)) h)))"

definition site_placed :: "edge_input \<Rightarrow> host_place \<Rightarrow> bool" where
  "site_placed i = (\<lambda>(e, g, h). let zone = ZoneOf (sorted_keys (ei_zones i)) h in
     zone \<noteq> [] \<and> account_of i zone \<in> set (ee_accounts e))"

abbreviation site_elsewhere :: "host_place \<Rightarrow> bool" where
  "site_elsewhere \<equiv> \<lambda>(e, g, h). h \<in> set (eg_dns_elsewhere g)"

lemma place_Inr:
  "place i (sorted_keys (ei_zones i)) e g h = Inr k \<longleftrightarrow> site_placed i (e, g, h) \<and> k = site_key i (e, g, h)"
  by (auto simp: place_def site_placed_def site_key_def Let_def)

lemma derive_hosts_loop:
  "fold_err (\<lambda>(e, g, h). derive_host i (sorted_keys (ei_zones i)) e g h) ts (hs, es) = Inr st \<longleftrightarrow>
     (\<forall>t\<in>set ts. site_placed i t) \<and>
     st = (collect_by (site_key i) site_host ts hs, collect_by (site_key i) site_host (filter site_elsewhere ts) es)"
proof (induction ts arbitrary: hs es)
  case (Cons t ts)
  obtain e g h where t: "t = (e, g, h)" by (cases t)
  have step: "derive_host i (sorted_keys (ei_zones i)) e g h (hs, es) = Inr st' \<longleftrightarrow> site_placed i t \<and>
      st' = (append_at (site_key i t) h hs, if site_elsewhere t then append_at (site_key i t) h es else es)" for st'
    by (auto simp: derive_host_def place_Inr t)
  show ?case
    unfolding t fold_err.simps prod.case sum_bind_Inr step [unfolded t]
    by (auto simp: Cons.IH collect_by_def)
qed (auto simp: collect_by_def)

lemma Derive_Inr:
  assumes "Derive i = Inr d"
  defines "zones \<equiv> sorted_keys (ei_zones i)"
  shows "\<forall>t\<in>set (sites i). site_placed i t" and "\<forall>e\<in>set (ei_exposures i). check_accounts i e = None"
    and "de_tunnels d = sortTunnels (map (make_tunnel i zones (collect_by (site_key i) site_host (filter site_elsewhere (sites i)) []))
          (collect_by (site_key i) site_host (sites i) []))"
    and "de_cache_hosts d = deriveCache i zones" and "deriveWAF i zones = Inr (de_waf_hosts d)"
proof -
  from assms(1) obtain hs es where loop: "fold_err (derive_edge_exposure i zones) (ei_exposures i) ([], []) = Inr (hs, es)"
    and t: "de_tunnels d = sortTunnels (map (make_tunnel i zones es) hs)"
    and c: "de_cache_hosts d = deriveCache i zones" and w: "deriveWAF i zones = Inr (de_waf_hosts d)"
    by (auto simp: Derive_def Let_def zones_def)
  from loop have ok: "\<forall>e\<in>set (ei_exposures i). check_accounts i e = None"
    and "fold_err (\<lambda>e. fold_err (\<lambda>g. fold_err (derive_host i zones e g) (eg_hosts g)) (ee_groups e)) (ei_exposures i) ([], []) = Inr (hs, es)"
    unfolding derive_edge_exposure_def [abs_def] fold_err_unless by blast+
  then have "fold_err (\<lambda>(e, g, h). derive_host i zones e g h) (sites i) ([], []) = Inr (hs, es)"
    by (simp only: fold_err_sites)
  then have "\<forall>t\<in>set (sites i). site_placed i t"
    and hs: "hs = collect_by (site_key i) site_host (sites i) []"
    and es: "es = collect_by (site_key i) site_host (filter site_elsewhere (sites i)) []"
    unfolding zones_def derive_hosts_loop by simp_all
  then show "\<forall>t\<in>set (sites i). site_placed i t" by blast
  show "\<forall>e\<in>set (ei_exposures i). check_accounts i e = None" by (rule ok)
  show "de_tunnels d = sortTunnels (map (make_tunnel i zones (collect_by (site_key i) site_host (filter site_elsewhere (sites i)) []))
          (collect_by (site_key i) site_host (sites i) []))" using t unfolding hs es .
  show "de_cache_hosts d = deriveCache i zones" "deriveWAF i zones = Inr (de_waf_hosts d)" by (rule c, rule w)
qed

interpretation tunnel_order: go_keyed compare_tunnels "\<lambda>t. (tun_cluster t, tun_account t)"
proof
  fix a b
  show "compare_tunnels a b < 0 \<longleftrightarrow> (tun_cluster a, tun_account a) < (tun_cluster b, tun_account b)"
    by (auto simp: compare_tunnels_def Let_def str_compare_def less_prod_def)
  show "0 < compare_tunnels a b \<longleftrightarrow> (tun_cluster b, tun_account b) < (tun_cluster a, tun_account a)"
    by (auto simp: compare_tunnels_def Let_def str_compare_def less_prod_def)
qed

definition hosts_at :: "edge_input \<Rightarrow> tunnel_key \<Rightarrow> string list" where
  "hosts_at i k = map site_host (filter (\<lambda>s. site_key i s = k) (sites i))"

definition elsewhere_at :: "edge_input \<Rightarrow> tunnel_key \<Rightarrow> string list" where
  "elsewhere_at i k = map site_host (filter (\<lambda>s. site_key i s = k) (filter site_elsewhere (sites i)))"

lemma make_tunnel_simps [simp]:
  "tun_cluster (make_tunnel i z es (k, hs)) = fst k" "tun_account (make_tunnel i z es (k, hs)) = snd k"
  "tun_hosts (make_tunnel i z es (k, hs)) = OrderHosts hs"
  "tun_zones (make_tunnel i z es (k, hs)) = sort_compact (map (ZoneOf z) (OrderHosts hs))"
  "tun_zone (make_tunnel i z es (k, hs)) = ZoneOf z (OrderHosts hs ! 0)"
  "tun_dns_elsewhere (make_tunnel i z es (k, hs)) = filter (\<lambda>h. h \<in> set (lookup_list es k)) (OrderHosts hs)"
  by (cases k; simp add: make_tunnel_def Let_def sorted_keys_key_set)+

lemma derived_tunnels:
  assumes "Derive i = Inr d"
  defines "mk \<equiv> \<lambda>k. make_tunnel i (sorted_keys (ei_zones i))
      (collect_by (site_key i) site_host (filter site_elsewhere (sites i)) []) (k, hosts_at i k)"
  shows "\<exists>ks. distinct ks \<and> set ks = site_key i ` set (sites i) \<and> de_tunnels d = sortTunnels (map mk ks)"
proof -
  let ?m = "collect_by (site_key i) site_host (sites i) []"
  have d: "distinct (map fst ?m)" by (rule distinct_collect_by) simp
  have "kv = (fst kv, hosts_at i (fst kv))" if "kv \<in> set ?m" for kv
  proof -
    have "lookup_list ?m (fst kv) = snd kv" by (rule lookup_in [OF d]) (simp add: that)
    then show ?thesis by (simp add: lookup_collect_by hosts_at_def prod_eq_iff)
  qed
  then have "map (make_tunnel i (sorted_keys (ei_zones i)) (collect_by (site_key i) site_host (filter site_elsewhere (sites i)) [])) ?m =
      map mk (map fst ?m)"
    unfolding mk_def map_map comp_def by (intro map_cong refl) metis
  with Derive_Inr(3) [OF assms(1)] d show ?thesis
    by (intro exI [of _ "map fst ?m"]) (simp add: keys_collect_by)
qed

lemma derived_tunnel_iff:
  assumes "Derive i = Inr d"
  shows "t \<in> set (de_tunnels d) \<longleftrightarrow> (\<exists>k\<in>site_key i ` set (sites i).
     t = make_tunnel i (sorted_keys (ei_zones i))
      (collect_by (site_key i) site_host (filter site_elsewhere (sites i)) []) (k, hosts_at i k))"
proof -
  from derived_tunnels [OF assms] obtain ks where ks: "set ks = site_key i ` set (sites i)"
    and t: "de_tunnels d = sortTunnels (map (\<lambda>k. make_tunnel i (sorted_keys (ei_zones i))
      (collect_by (site_key i) site_host (filter site_elsewhere (sites i)) []) (k, hosts_at i k)) ks)" by blast
  show ?thesis unfolding t sortTunnels_def set_sort_cmp set_map ks by (rule image_iff)
qed

lemma derived_tunnels_ascending:
  assumes "Derive i = Inr d"
  shows "sorted_wrt (\<lambda>a b. (tun_cluster a, tun_account a) < (tun_cluster b, tun_account b)) (de_tunnels d)"
proof -
  let ?key = "\<lambda>t. (tun_cluster t, tun_account t)"
  from derived_tunnels [OF assms] obtain ks mk where "distinct ks" and mk: "\<And>k. ?key (mk k) = k"
    and t: "de_tunnels d = sortTunnels (map mk ks)"
    by (metis (no_types, lifting) make_tunnel_simps(1,2) prod.collapse)
  then have "distinct (map ?key (map mk ks))" by (simp add: comp_def)
  moreover have "mset (map ?key (de_tunnels d)) = mset (map ?key (map mk ks))"
    unfolding t sortTunnels_def mset_map mset_sort_cmp ..
  ultimately have dist: "distinct (map ?key (de_tunnels d))" by (metis mset_eq_imp_distinct_iff)
  have sort: "sorted_wrt (\<lambda>a b. ?key a \<le> ?key b) (de_tunnels d)"
    unfolding t sortTunnels_def using tunnel_order.sorted_sort_cmp by (simp add: tunnel_order.cmp_le)
  show ?thesis
    unfolding sorted_wrt_iff_nth_less
  proof (intro allI impI)
    fix a b assume ab: "a < b" "b < length (de_tunnels d)"
    then have "?key (de_tunnels d ! a) \<le> ?key (de_tunnels d ! b)" using sorted_wrt_nth_less [OF sort] by simp
    moreover have "?key (de_tunnels d ! a) \<noteq> ?key (de_tunnels d ! b)"
      using dist ab by (auto simp: distinct_conv_nth)
    ultimately show "?key (de_tunnels d ! a) < ?key (de_tunnels d ! b)" by (rule order_le_neq_trans)
  qed
qed

section \<open>What ValidateRouting accepts\<close>

definition no_shadow :: "string list \<Rightarrow> bool" where
  "no_shadow hosts \<longleftrightarrow> (\<forall>j<length hosts. \<forall>i<j. \<not> Covers (to_lower (hosts ! i)) (to_lower (hosts ! j)))"

definition routing_ok :: "tunnel list \<Rightarrow> bool" where
  "routing_ok ts \<longleftrightarrow> distinct (map to_lower (concat (map tun_hosts ts))) \<and> list_all (\<lambda>t. no_shadow (tun_hosts t)) ts"

lemma validate_hosts_loop:
  "(\<exists>seen'. fold_err (\<lambda>(t, n, h). validate_tunnel_host t (n, h)) xs seen = Inr seen') \<longleftrightarrow>
     distinct (map (\<lambda>(t, n, h). to_lower h) xs) \<and> (\<forall>(t, n, h)\<in>set xs. \<not> has_key seen (to_lower h)) \<and>
     (\<forall>(t, n, h)\<in>set xs. \<forall>earlier\<in>set (take n (tun_hosts t)). \<not> Covers (to_lower earlier) (to_lower h))"
proof (induction xs arbitrary: seen)
  case (Cons x xs)
  obtain t n h where x: "x = (t, n, h)" by (cases x)
  have step: "validate_tunnel_host t (n, h) seen = Inr s \<longleftrightarrow>
      \<not> has_key seen (to_lower h) \<and> s = mput (to_lower h) (tun_cluster t, tun_account t, n) seen \<and>
      (\<forall>earlier\<in>set (take n (tun_hosts t)). \<not> Covers (to_lower earlier) (to_lower h))" for s
    by (auto simp: validate_tunnel_host_def Let_def has_key_def first_err_None split: option.splits)
  have eq: "(\<exists>seen'. fold_err (\<lambda>(t, n, h). validate_tunnel_host t (n, h)) (x # xs) seen = Inr seen') \<longleftrightarrow>
      \<not> has_key seen (to_lower h) \<and> (\<forall>earlier\<in>set (take n (tun_hosts t)). \<not> Covers (to_lower earlier) (to_lower h)) \<and>
      (\<exists>seen'. fold_err (\<lambda>(t, n, h). validate_tunnel_host t (n, h)) xs (mput (to_lower h) (tun_cluster t, tun_account t, n) seen) = Inr seen')"
    by (auto simp: x step)
  have fresh: "(\<forall>(t', n', h')\<in>set xs. \<not> has_key (mput (to_lower h) at seen) (to_lower h')) \<longleftrightarrow>
      to_lower h \<notin> set (map (\<lambda>(t, n, h). to_lower h) xs) \<and> (\<forall>(t', n', h')\<in>set xs. \<not> has_key seen (to_lower h'))" for at
    by (force simp: image_iff)
  show ?case unfolding eq Cons.IH fresh by (simp add: x) blast
qed simp

lemma ball_enumerate: "(\<forall>(n, h)\<in>set (enumerate 0 xs). P n h) \<longleftrightarrow> (\<forall>n<length xs. P n (xs ! n))"
  by (auto simp: in_set_enumerate_eq)

lemma ball_take: "n \<le> length xs \<Longrightarrow> (\<forall>x\<in>set (take n xs). P x) \<longleftrightarrow> (\<forall>k<n. P (xs ! k))"
  by (auto simp flip: nth_image)

lemma no_shadow_take:
  "(\<forall>(n, h)\<in>set (enumerate 0 hosts). \<forall>earlier\<in>set (take n hosts). \<not> Covers (to_lower earlier) (to_lower h)) \<longleftrightarrow>
     no_shadow hosts"
  unfolding no_shadow_def ball_enumerate by (simp add: ball_take)

interpretation routing_check: validator ValidateRouting routing_ok
proof
  fix ts
  let ?s = "sortTunnels ts"
  let ?xs = "concat (map (\<lambda>t. map (Pair t) (enumerate 0 (tun_hosts t))) ?s)"
  have "ValidateRouting ts = None \<longleftrightarrow>
      (\<exists>seen'. fold_err (\<lambda>t. fold_err (validate_tunnel_host t) (enumerate 0 (tun_hosts t))) ?s [] = Inr seen')"
    by (auto simp: ValidateRouting_def split: sum.splits)
  also have "\<dots> \<longleftrightarrow> (\<exists>seen'. fold_err (\<lambda>(t, n, h). validate_tunnel_host t (n, h)) ?xs [] = Inr seen')"
    unfolding fold_err_nested by (simp add: case_prod_unfold)
  also have "\<dots> \<longleftrightarrow> distinct (map to_lower (concat (map tun_hosts ?s))) \<and>
      (\<forall>t\<in>set ?s. \<forall>(n, h)\<in>set (enumerate 0 (tun_hosts t)). \<forall>earlier\<in>set (take n (tun_hosts t)). \<not> Covers (to_lower earlier) (to_lower h))"
  proof -
    have "map (\<lambda>(t, n, h). to_lower h) ?xs = map to_lower (concat (map tun_hosts ?s))"
    proof -
      have "map (\<lambda>(t, n, h). to_lower h) (map (Pair t) (enumerate 0 (tun_hosts t))) = map to_lower (tun_hosts t)" for t :: tunnel
      proof -
        have "map (\<lambda>(t, n, h). to_lower h) (map (Pair t) xs) = map to_lower (map snd xs)" for xs
          by (simp add: case_prod_unfold)
        from this [of "enumerate 0 (tun_hosts t)"] show ?thesis unfolding map_snd_enumerate .
      qed
      then show ?thesis by (simp add: map_concat comp_def)
    qed
    moreover have "(\<forall>(t, n, h)\<in>set ?xs. Q t n h) \<longleftrightarrow> (\<forall>t\<in>set ?s. \<forall>(n, h)\<in>set (enumerate 0 (tun_hosts t)). Q t n h)" for Q
      by auto
    ultimately show ?thesis unfolding validate_hosts_loop by (simp add: has_key_def)
  qed
  also have "\<dots> \<longleftrightarrow> routing_ok ts"
  proof -
    have "mset (map to_lower (concat (map tun_hosts ?s))) = mset (map to_lower (concat (map tun_hosts ts)))"
      by (simp add: mset_concat sortTunnels_def flip: sum_mset_sum_list)
    then have "distinct (map to_lower (concat (map tun_hosts ?s))) = distinct (map to_lower (concat (map tun_hosts ts)))"
      by (rule mset_eq_imp_distinct_iff)
    then show ?thesis unfolding no_shadow_take routing_ok_def list_all_iff by (simp add: sortTunnels_def)
  qed
  finally show "ValidateRouting ts = None \<longleftrightarrow> routing_ok ts" .
qed

section \<open>Cache and WAF hosts\<close>

lemma lookup_mput: "lookup_list (mput k l m) k' = (if k' = k then l else lookup_list m k')"
  by (simp add: lookup_list_def mput_def update_conv')

lemma compact_zones_gen:
  "distinct zones \<Longrightarrow> mget (snd (fold compact_zone zones (byZone, out))) z =
     (if z \<in> set zones then Some (sort_compact (lookup_list byZone z)) else mget out z)"
  by (induction zones arbitrary: byZone out) (auto simp: compact_zone_def Let_def lookup_mput)

lemma mget_compact_zones:
  "distinct zones \<Longrightarrow> mget (compact_zones zones byZone) z =
     (if z \<in> set zones then Some (sort_compact (lookup_list byZone z)) else None)"
  by (simp add: compact_zones_def compact_zones_gen)

lemma cache_hosts_loop:
  "lookup_list (fold (cache_host zones) hs m) z =
     lookup_list m z @ filter (\<lambda>h. \<not> isWildcard h \<and> ZoneOf zones h = z \<and> z \<noteq> []) hs"
  by (induction hs arbitrary: m) (auto simp: cache_host_def isWildcard_def Let_def)

lemma cache_groups_loop:
  "lookup_list (fold (\<lambda>g byZone. if \<not> businessGroup g bs then byZone else fold (cache_host zones) (eg_hosts g) byZone) gs m) z =
     lookup_list m z @ concat (map (\<lambda>g. if businessGroup g bs
       then filter (\<lambda>h. \<not> isWildcard h \<and> ZoneOf zones h = z \<and> z \<noteq> []) (eg_hosts g) else []) gs)"
  by (induction gs arbitrary: m) (auto simp: cache_hosts_loop)

lemma cache_exposures_loop:
  "set (lookup_list (fold (\<lambda>e. fold (\<lambda>g byZone. if \<not> businessGroup g bs then byZone
      else fold (cache_host zones) (eg_hosts g) byZone) (ee_groups e)) es m) z) =
     set (lookup_list m z) \<union> {h. \<exists>e\<in>set es. \<exists>g\<in>set (ee_groups e). h \<in> set (eg_hosts g) \<and> businessGroup g bs \<and>
       \<not> isWildcard h \<and> ZoneOf zones h = z \<and> z \<noteq> []}"
proof (induction es arbitrary: m)
  case (Cons e es)
  show ?case unfolding fold.simps comp_def Cons.IH cache_groups_loop
    by (auto split: if_splits)
qed simp

definition waf_listed :: "edge_input \<Rightarrow> string \<Rightarrow> host_place \<Rightarrow> bool" where
  "waf_listed i z = (\<lambda>(e, g, h). ZoneOf (sorted_keys (ei_zones i)) h = z \<and> z \<noteq> [] \<and> z \<in> set (ei_waf_zones i) \<and> h \<notin> set (eg_waf_off g))"

lemma waf_hosts_loop:
  "fold_err (\<lambda>(e, g, h). waf_host i (sorted_keys (ei_zones i)) e g h) ts m = Inr m' \<Longrightarrow>
     lookup_list m' z = lookup_list m z @ map site_host (filter (waf_listed i z) ts) \<and>
     (\<forall>t\<in>set ts. waf_listed i z t \<longrightarrow> \<not> isWildcard (site_host t))"
proof (induction ts arbitrary: m)
  case (Cons t ts)
  obtain e g h where t: "t = (e, g, h)" by (cases t)
  from Cons.prems obtain m1 where step: "waf_host i (sorted_keys (ei_zones i)) e g h m = Inr m1"
    and rest: "fold_err (\<lambda>(e, g, h). waf_host i (sorted_keys (ei_zones i)) e g h) ts m1 = Inr m'" by (auto simp: t)
  have "lookup_list m1 z = lookup_list m z @ (if waf_listed i z t then [h] else []) \<and>
      (waf_listed i z t \<longrightarrow> \<not> isWildcard h)"
    using step by (auto simp: waf_host_def waf_listed_def t Let_def isWildcard_def split: if_splits)
  with Cons.IH [OF rest] show ?case by (auto simp: t)
qed simp

lemma deriveWAF_Inr:
  assumes "deriveWAF i (sorted_keys (ei_zones i)) = Inr w" and "distinct (ei_waf_zones i)"
  shows "mget w z = (if z \<in> set (ei_waf_zones i) then
       Some (sort_compact (map site_host (filter (waf_listed i z) (sites i)))) else None)"
    and "t \<in> set (sites i) \<Longrightarrow> waf_listed i z t \<Longrightarrow> \<not> isWildcard (site_host t)"
proof -
  have "(mget w z = (if z \<in> set (ei_waf_zones i) then
       Some (sort_compact (map site_host (filter (waf_listed i z) (sites i)))) else None)) \<and>
     (\<forall>t\<in>set (sites i). waf_listed i z t \<longrightarrow> \<not> isWildcard (site_host t))"
  proof (cases "ei_waf_zones i = []")
    case True
    with assms(1) show ?thesis by (auto simp: deriveWAF_def waf_listed_def)
  next
    case False
    with assms(1) obtain m where loop: "fold_err (\<lambda>(e, g, h). waf_host i (sorted_keys (ei_zones i)) e g h) (sites i) [] = Inr m"
      and w: "w = compact_zones (ei_waf_zones i) m"
      unfolding deriveWAF_def fold_err_sites by auto
    show ?thesis
      unfolding w mget_compact_zones [OF assms(2)] using waf_hosts_loop [OF loop, of z] by simp
  qed
  then show "mget w z = (if z \<in> set (ei_waf_zones i) then
       Some (sort_compact (map site_host (filter (waf_listed i z) (sites i)))) else None)"
    and "t \<in> set (sites i) \<Longrightarrow> waf_listed i z t \<Longrightarrow> \<not> isWildcard (site_host t)" by auto
qed

text \<open>A derived tunnel: its hosts, its zones, and its name.\<close>

lemma derived_tunnel_facts:
  assumes "Derive i = Inr d" and "t \<in> set (de_tunnels d)"
  shows "tun_hosts t \<noteq> [] \<and> tun_hosts t = OrderHosts (hosts_at i (tun_cluster t, tun_account t)) \<and>
     set (tun_zones t) = ZoneOf (sorted_keys (ei_zones i)) ` set (tun_hosts t) \<and>
     (\<forall>z\<in>set (tun_zones t). mget (ei_zones i) z = Some (tun_account t))"
    and "[] \<notin> set (tun_zones t)" and "tun_zone t \<in> set (tun_zones t)" and "distinct (tun_zones t)" and "tun_dns_domain t = []"
    and "\<exists>s\<in>set (sites i). (tun_cluster t, tun_account t) = site_key i s"
    and "\<exists>legacy. tun_name t = TunnelName (tun_cluster t) (tun_account t) legacy"
proof -
  let ?z = "sorted_keys (ei_zones i)"
  from assms obtain s where s: "s \<in> set (sites i)" and t: "t = make_tunnel i ?z
      (collect_by (site_key i) site_host (filter site_elsewhere (sites i)) []) (site_key i s, hosts_at i (site_key i s))"
    by (auto simp: derived_tunnel_iff [OF assms(1)])
  have "site_host s \<in> set (hosts_at i (site_key i s))" using s by (auto simp: hosts_at_def intro: rev_image_eqI)
  then have nonempty: "OrderHosts (hosts_at i (site_key i s)) \<noteq> []" by (metis OrderHosts_set empty_iff empty_set)
  have zone: "ZoneOf ?z h \<noteq> [] \<and> mget (ei_zones i) (ZoneOf ?z h) = Some (snd (site_key i s))" if "h \<in> set (hosts_at i (site_key i s))" for h
  proof -
    from that obtain e g where p: "(e, g, h) \<in> set (sites i)" and k: "site_key i (e, g, h) = site_key i s"
      by (auto simp: hosts_at_def)
    with Derive_Inr(1) [OF assms(1)] have some: "ZoneOf ?z h \<noteq> []" by (auto simp: site_placed_def Let_def)
    then have "ZoneOf ?z h \<in> set ?z" using zone_of.find_sound by blast
    then have "has_key (ei_zones i) (ZoneOf ?z h)" by (simp add: has_key_iff)
    moreover have "account_of i (ZoneOf ?z h) = snd (site_key i (e, g, h))" by (simp add: site_key_def)
    then have "account_of i (ZoneOf ?z h) = snd (site_key i s)" unfolding k .
    ultimately show ?thesis using some by (auto simp: account_of_def has_key_def)
  qed
  from nonempty zone show "tun_hosts t \<noteq> [] \<and> tun_hosts t = OrderHosts (hosts_at i (tun_cluster t, tun_account t)) \<and>
     set (tun_zones t) = ZoneOf ?z ` set (tun_hosts t) \<and> (\<forall>z\<in>set (tun_zones t). mget (ei_zones i) z = Some (tun_account t))"
    unfolding t by simp
  from zone show "[] \<notin> set (tun_zones t)" unfolding t by force
  from nonempty have "OrderHosts (hosts_at i (site_key i s)) ! 0 \<in> set (OrderHosts (hosts_at i (site_key i s)))"
    by (intro nth_mem) (simp add: length_greater_0_conv)
  then show "tun_zone t \<in> set (tun_zones t)" unfolding t make_tunnel_simps set_sort_compact set_map by (rule imageI)
  show "distinct (tun_zones t)" unfolding t by simp
  show "tun_dns_domain t = []" unfolding t by (cases "site_key i s") (simp add: make_tunnel_def Let_def)
  show "\<exists>s\<in>set (sites i). (tun_cluster t, tun_account t) = site_key i s" using s unfolding t by auto
  show "\<exists>legacy. tun_name t = TunnelName (tun_cluster t) (tun_account t) legacy"
    unfolding t by (cases "site_key i s") (auto simp: make_tunnel_def Let_def)
qed

section \<open>Properties\<close>

definition sample_edge :: edge_input where
  "sample_edge = \<lparr>ei_exposures = [\<lparr>ee_name = ''public'', ee_accounts = [''main'', ''labs''],
       ee_groups = [\<lparr>eg_name = ''wild'', eg_cluster = ''prod'', eg_hosts = [''*.example.com'', ''*.eu.example.com''],
           eg_route_namespaces = [''shop''], eg_dns_elsewhere = [], eg_waf_off = [''*.example.com'', ''*.eu.example.com'']\<rparr>,
         \<lparr>eg_name = ''shop'', eg_cluster = ''prod'', eg_hosts = [''shop.example.com'', ''lab.example.org''],
           eg_route_namespaces = [''shop''], eg_dns_elsewhere = [''shop.example.com''], eg_waf_off = []\<rparr>]\<rparr>],
     ei_zones = [(''example.org'', ''labs''), (''example.com'', ''main'')],
     ei_legacy_names = [(''main'', True), (''labs'', False)], ei_business = [''shop''],
     ei_cache_zones = [''example.com''], ei_waf_zones = [''example.com'']\<rparr>"

definition sample_derived :: derived where
  "sample_derived = projr (Derive sample_edge)"

lemma sample_derives: "case Derive sample_edge of Inl e \<Rightarrow> False | Inr d \<Rightarrow> de_tunnels d \<noteq> []"
  by code_simp

lemma Derive_sample: "Derive sample_edge = Inr sample_derived"
  using sample_derives by (auto simp: sample_derived_def split: sum.splits)

lemma sample_tunnels: "de_tunnels sample_derived \<noteq> []"
  using sample_derives unfolding Derive_sample by simp

text \<open>The zone of a host is the longest zone that is the name or a parent of it, whatever the
  order the zones are listed in; no zone is found exactly when none encloses the name.\<close>

theorem ZoneOf_longest:
  assumes "[] \<notin> set zones"
  shows "(ZoneOf zones h = [] \<longleftrightarrow> (\<forall>z\<in>set zones. \<not> in_zone (zone_name h) z)) \<and>
     (z \<in> set zones \<and> in_zone (zone_name h) z \<and> (\<forall>z'\<in>set zones. in_zone (zone_name h) z' \<longrightarrow> length z' \<le> length z) \<longrightarrow>
        ZoneOf zones h = z) \<and>
     (set zones' = set zones \<longrightarrow> ZoneOf zones' h = ZoneOf zones h)"
proof (intro conjI impI)
  show "ZoneOf zones h = [] \<longleftrightarrow> (\<forall>z\<in>set zones. \<not> in_zone (zone_name h) z)"
    unfolding zone_of.find_none using assms by metis
  show "ZoneOf zones h = z" if "z \<in> set zones \<and> in_zone (zone_name h) z \<and>
      (\<forall>z'\<in>set zones. in_zone (zone_name h) z' \<longrightarrow> length z' \<le> length z)"
    using that by (intro zone_of.find_unique) auto
  show "ZoneOf zones' h = ZoneOf zones h" if "set zones' = set zones" using that by (rule ZoneOf_cong)
qed

theorem ZoneOf_longest_witness:
  "ZoneOf [''com'', ''example.com''] ''*.Shop.example.com'' = ''example.com''"
proof -
  have nil: "[] \<notin> set [''com'', ''example.com'']" by simp
  have "''example.com'' \<in> set [''com'', ''example.com''] \<and> in_zone (zone_name ''*.Shop.example.com'') ''example.com'' \<and>
      (\<forall>z'\<in>set [''com'', ''example.com'']. in_zone (zone_name ''*.Shop.example.com'') z' \<longrightarrow> length z' \<le> length ''example.com'')"
    by code_simp
  with ZoneOf_longest [OF nil, of "''*.Shop.example.com''" "''example.com''"] show ?thesis by blast
qed

text \<open>C5 Derive puts every host into exactly one tunnel, the one of its cluster and of the account
  that owns its zone, which its exposure lists; a tunnel holds the hosts of its key and nothing
  else, in ingress order, and its zones are those of its hosts, all of its account. The tunnels
  come out once each in ascending order of cluster and account.\<close>

theorem Derive_partition:
  assumes "Derive i = Inr d"
  shows "sorted_wrt (\<lambda>a b. (tun_cluster a, tun_account a) < (tun_cluster b, tun_account b)) (de_tunnels d) \<and>
     (\<forall>t\<in>set (de_tunnels d). tun_hosts t \<noteq> [] \<and>
        tun_hosts t = OrderHosts (hosts_at i (tun_cluster t, tun_account t)) \<and>
        set (tun_zones t) = ZoneOf (sorted_keys (ei_zones i)) ` set (tun_hosts t) \<and>
        (\<forall>z\<in>set (tun_zones t). mget (ei_zones i) z = Some (tun_account t))) \<and>
     (\<forall>(e, g, h)\<in>set (sites i). \<exists>t\<in>set (de_tunnels d). h \<in> set (tun_hosts t) \<and>
        tun_cluster t = eg_cluster g \<and> tun_account t \<in> set (ee_accounts e))"
proof (intro conjI)
  let ?z = "sorted_keys (ei_zones i)"
  show "sorted_wrt (\<lambda>a b. (tun_cluster a, tun_account a) < (tun_cluster b, tun_account b)) (de_tunnels d)"
    by (rule derived_tunnels_ascending [OF assms])
  show "\<forall>t\<in>set (de_tunnels d). tun_hosts t \<noteq> [] \<and>
        tun_hosts t = OrderHosts (hosts_at i (tun_cluster t, tun_account t)) \<and>
        set (tun_zones t) = ZoneOf ?z ` set (tun_hosts t) \<and>
        (\<forall>z\<in>set (tun_zones t). mget (ei_zones i) z = Some (tun_account t))"
    using derived_tunnel_facts(1) [OF assms] by blast
  show "\<forall>(e, g, h)\<in>set (sites i). \<exists>t\<in>set (de_tunnels d). h \<in> set (tun_hosts t) \<and>
        tun_cluster t = eg_cluster g \<and> tun_account t \<in> set (ee_accounts e)"
  proof clarify
    fix e g h assume s: "(e, g, h) \<in> set (sites i)"
    let ?t = "make_tunnel i ?z (collect_by (site_key i) site_host (filter site_elsewhere (sites i)) [])
       (site_key i (e, g, h), hosts_at i (site_key i (e, g, h)))"
    have "?t \<in> set (de_tunnels d)" using s unfolding derived_tunnel_iff [OF assms] by blast
    moreover have "h \<in> set (tun_hosts ?t)" using s by (auto simp: hosts_at_def intro: rev_image_eqI)
    moreover have "tun_account ?t \<in> set (ee_accounts e)" "tun_cluster ?t = eg_cluster g"
      using Derive_Inr(1) [OF assms] s by (auto simp: site_placed_def site_key_def Let_def)
    ultimately show "\<exists>t\<in>set (de_tunnels d). h \<in> set (tun_hosts t) \<and>
        tun_cluster t = eg_cluster g \<and> tun_account t \<in> set (ee_accounts e)" by blast
  qed
qed

theorem Derive_partition_witness:
  "sorted_wrt (\<lambda>a b. (tun_cluster a, tun_account a) < (tun_cluster b, tun_account b)) (de_tunnels sample_derived) \<and>
   tun_hosts (hd (de_tunnels sample_derived)) \<noteq> []"
proof -
  have "hd (de_tunnels sample_derived) \<in> set (de_tunnels sample_derived)" using sample_tunnels by simp
  then show ?thesis using Derive_partition [OF Derive_sample] by blast
qed

text \<open>\<open>ValidateRouting\<close> accepts exactly the tunnels in which every name, read in lower case,
  is declared once over all of them and no rule of a tunnel is caught by an earlier one, whatever
  the order of the tunnels.\<close>

theorem ValidateRouting_exact:
  "ValidateRouting ts = None \<longleftrightarrow> distinct (map to_lower (concat (map tun_hosts ts))) \<and>
     list_all (\<lambda>t. no_shadow (tun_hosts t)) ts"
  using routing_check.check_None by (simp add: routing_ok_def)

lemma mset_concat_map_cong: "mset xs = mset ys \<Longrightarrow> mset (concat (map f xs)) = mset (concat (map f ys))"
proof -
  have "mset (concat (map f zs)) = sum_mset (image_mset (\<lambda>x. mset (f x)) (mset zs))" for zs
    by (induction zs) simp_all
  then show "mset xs = mset ys \<Longrightarrow> ?thesis" by simp
qed

lemma distinct_concat_by_key:
  assumes "distinct (map f xs)" and "distinct ks"
  shows "distinct (map f (concat (map (\<lambda>k. filter (\<lambda>x. key x = k) xs) ks)))"
  using assms(2)
proof (induction ks)
  case (Cons k ks)
  have "distinct (map f (filter (\<lambda>x. key x = k) xs))" using assms(1) by (rule distinct_map_filter)
  moreover have "f x \<noteq> f y" if "x \<in> set xs" "y \<in> set xs" "key x = k" "key y \<in> set ks" for x y
    using that Cons.prems assms(1) by (metis distinct.simps(2) distinct_map inj_onD)
  ultimately show ?case using Cons by fastforce
qed simp

lemma Derive_routing_ok:
  assumes "Derive i = Inr d" and "distinct (map (\<lambda>s. to_lower (site_host s)) (sites i))"
    and "''*'' \<notin> fst ` set (ei_zones i)"
  shows "routing_ok (de_tunnels d)"
proof -
  let ?mk = "\<lambda>k. make_tunnel i (sorted_keys (ei_zones i))
      (collect_by (site_key i) site_host (filter site_elsewhere (sites i)) []) (k, hosts_at i k)"
  from derived_tunnels [OF assms(1)] obtain ks where ks: "distinct ks" "set ks = site_key i ` set (sites i)"
    and t: "de_tunnels d = sortTunnels (map ?mk ks)" by blast
  have star: "''*'' \<notin> set (hosts_at i k)" for k
  proof
    assume "''*'' \<in> set (hosts_at i k)"
    then obtain e g where "(e, g, ''*'') \<in> set (sites i)" by (auto simp: hosts_at_def)
    with Derive_Inr(1) [OF assms(1)] have "ZoneOf (sorted_keys (ei_zones i)) ''*'' \<noteq> []"
      by (auto simp: site_placed_def Let_def)
    from zone_of.find_sound [OF this] have z: "ZoneOf (sorted_keys (ei_zones i)) ''*'' \<in> fst ` set (ei_zones i)"
      and "in_zone ''*'' (ZoneOf (sorted_keys (ei_zones i)) ''*'')"
    proof -
      have "to_lower ''*'' = ''*''" by (simp only: to_lower_star)
      then show "in_zone ''*'' (ZoneOf (sorted_keys (ei_zones i)) ''*'')"
        using zone_of.find_sound [OF \<open>ZoneOf (sorted_keys (ei_zones i)) ''*'' \<noteq> []\<close>]
        by (simp add: zone_name_def trim_prefix_def has_prefix_def)
    qed simp
    then have "ZoneOf (sorted_keys (ei_zones i)) ''*'' = ''*''"
      by (auto simp: in_zone_def has_suffix_iff Cons_eq_append_conv)
    with z assms(3) show False by simp
  qed
  have "distinct (map to_lower (concat (map (hosts_at i) ks)))"
    using distinct_concat_by_key [OF assms(2) ks(1), of "site_key i"]
    by (simp add: hosts_at_def map_concat comp_def)
  moreover have "mset (map to_lower (concat (map tun_hosts (de_tunnels d)))) = mset (map to_lower (concat (map (hosts_at i) ks)))"
  proof -
    have "mset (concat (map tun_hosts (de_tunnels d))) = mset (concat (map tun_hosts (map ?mk ks)))"
      unfolding t sortTunnels_def by (rule mset_concat_map_cong) simp
    also have "\<dots> = mset (concat (map (hosts_at i) ks))" by (induction ks) simp_all
    finally show ?thesis by (simp only: mset_map)
  qed
  ultimately have dist: "distinct (map to_lower (concat (map tun_hosts (de_tunnels d))))"
    by (metis mset_eq_imp_distinct_iff)
  have "no_shadow (OrderHosts (hosts_at i k))" for k
  proof -
    have "map to_lower (hosts_at i k) = map (\<lambda>s. to_lower (site_host s)) (filter (\<lambda>s. site_key i s = k) (sites i))"
      by (simp add: hosts_at_def)
    with assms(2) have "distinct (map to_lower (hosts_at i k))" by (simp only: distinct_map_filter)
    from OrderHosts_no_shadow_nth [OF this star] show ?thesis
      by (simp add: no_shadow_def OrderHosts_def)
  qed
  then have "list_all (\<lambda>t. no_shadow (tun_hosts t)) (de_tunnels d)"
    by (simp add: t sortTunnels_def list_all_iff)
  with dist show ?thesis by (simp add: routing_ok_def)
qed

text \<open>What Derive returns always passes \<open>ValidateRouting\<close>, as long as the exposures claim no
  name twice (the catalog's validation sees to that) and no zone is called \<open>*\<close>.\<close>

theorem Derive_routes_valid:
  assumes "Derive i = Inr d" and "distinct (map (\<lambda>s. to_lower (site_host s)) (sites i))"
    and "''*'' \<notin> fst ` set (ei_zones i)"
  shows "ValidateRouting (de_tunnels d) = None"
  using Derive_routing_ok [OF assms] by (simp add: routing_check.check_None)

theorem Derive_routes_valid_witness: "ValidateRouting (de_tunnels sample_derived) = None"
proof (rule Derive_routes_valid [OF Derive_sample])
  show "distinct (map (\<lambda>s. to_lower (site_host s)) (sites sample_edge))" by code_simp
  show "''*'' \<notin> fst ` set (ei_zones sample_edge)" by (simp add: sample_edge_def)
qed

text \<open>A WAF zone lists, sorted and once each, exactly the names the exposures serve in it that
  the catalog did not opt out; none of them is a wildcard, because a covered wildcard is refused.\<close>

theorem Derive_waf_hosts:
  assumes "Derive i = Inr d" and "distinct (ei_waf_zones i)" and "z \<in> set (ei_waf_zones i)" and "z \<noteq> []"
  shows "\<exists>hosts. mget (de_waf_hosts d) z = Some hosts \<and> sorted hosts \<and> distinct hosts \<and>
     (\<forall>h\<in>set hosts. \<not> isWildcard h) \<and>
     (\<forall>h. h \<in> set hosts \<longleftrightarrow> (\<exists>e g. (e, g, h) \<in> set (sites i) \<and> h \<notin> set (eg_waf_off g) \<and>
        ZoneOf (sorted_keys (ei_zones i)) h = z))"
proof -
  note w = deriveWAF_Inr [OF Derive_Inr(5) [OF assms(1)] assms(2)]
  let ?hosts = "sort_compact (map site_host (filter (waf_listed i z) (sites i)))"
  have "mget (de_waf_hosts d) z = Some ?hosts" using w(1) [of z] assms(3) by simp
  moreover have "\<forall>h\<in>set ?hosts. \<not> isWildcard h" using w(2) [of _ z] by auto
  moreover have "h \<in> set ?hosts \<longleftrightarrow> (\<exists>e g. (e, g, h) \<in> set (sites i) \<and> h \<notin> set (eg_waf_off g) \<and>
      ZoneOf (sorted_keys (ei_zones i)) h = z)" for h
    using assms(3,4) by (force simp: waf_listed_def)
  ultimately show ?thesis by (intro exI [of _ ?hosts]) simp
qed

theorem Derive_waf_hosts_witness:
  "\<exists>hosts. mget (de_waf_hosts sample_derived) ''example.com'' = Some hosts \<and> \<not> isWildcard (hd (hosts @ [[]]))"
proof -
  from Derive_waf_hosts [OF Derive_sample, of "''example.com''"]
  obtain hosts where "mget (de_waf_hosts sample_derived) ''example.com'' = Some hosts" "\<forall>h\<in>set hosts. \<not> isWildcard h"
    by (auto simp: sample_edge_def)
  moreover have "\<not> isWildcard []" by (simp add: isWildcard_def)
  ultimately show ?thesis by (cases hosts) auto
qed

text \<open>A cache zone lists, sorted and once each, exactly the exact names in it that a business
  group serves: a wildcard is nobody's claim on the names under it, and a group that admits one
  namespace outside the projects caches nothing.\<close>

theorem Derive_cache_hosts:
  assumes "Derive i = Inr d" and "distinct (ei_cache_zones i)" and "z \<in> set (ei_cache_zones i)" and "z \<noteq> []"
  shows "\<exists>hosts. mget (de_cache_hosts d) z = Some hosts \<and> sorted hosts \<and> distinct hosts \<and>
     (\<forall>h. h \<in> set hosts \<longleftrightarrow> (\<exists>e g. (e, g, h) \<in> set (sites i) \<and> \<not> isWildcard h \<and>
        eg_route_namespaces g \<noteq> [] \<and> set (eg_route_namespaces g) \<subseteq> set (ei_business i) \<and>
        ZoneOf (sorted_keys (ei_zones i)) h = z))"
proof -
  let ?zones = "sorted_keys (ei_zones i)"
  let ?m = "fold (\<lambda>e. fold (\<lambda>g byZone. if \<not> businessGroup g (ei_business i) then byZone
      else fold (cache_host ?zones) (eg_hosts g) byZone) (ee_groups e)) (ei_exposures i) []"
  let ?hosts = "sort_compact (lookup_list ?m z)"
  have "ei_cache_zones i \<noteq> []" using assms(3) by auto
  then have "mget (de_cache_hosts d) z = Some ?hosts"
    using assms(3) by (simp add: Derive_Inr(4) [OF assms(1)] deriveCache_def mget_compact_zones [OF assms(2)])
  moreover have "h \<in> set ?hosts \<longleftrightarrow> (\<exists>e g. (e, g, h) \<in> set (sites i) \<and> \<not> isWildcard h \<and>
        eg_route_namespaces g \<noteq> [] \<and> set (eg_route_namespaces g) \<subseteq> set (ei_business i) \<and> ZoneOf ?zones h = z)" for h
    using assms(4) unfolding set_sort_compact cache_exposures_loop
    by (auto simp: in_sites businessGroup_def list_all_iff)
  ultimately show ?thesis by (intro exI [of _ ?hosts]) simp
qed

theorem Derive_cache_hosts_witness:
  "\<exists>hosts. mget (de_cache_hosts sample_derived) ''example.com'' = Some hosts \<and> sorted hosts"
  using Derive_cache_hosts [OF Derive_sample, of "''example.com''"] by (auto simp: sample_edge_def)

text \<open>The hosts a derived tunnel writes records for are, in ingress order, its hosts less those
  that a group of the tunnel leaves to something else to write.\<close>

theorem Derive_dns_names:
  assumes "Derive i = Inr d" and "t \<in> set (de_tunnels d)"
  shows "DNSNames t = filter (\<lambda>h. \<not> (\<exists>e g. (e, g, h) \<in> set (sites i) \<and> h \<in> set (eg_dns_elsewhere g) \<and>
     site_key i (e, g, h) = (tun_cluster t, tun_account t))) (tun_hosts t)"
proof -
  let ?es = "collect_by (site_key i) site_host (filter site_elsewhere (sites i)) []"
  from assms obtain k where t: "t = make_tunnel i (sorted_keys (ei_zones i)) ?es (k, hosts_at i k)"
    unfolding derived_tunnel_iff [OF assms(1)] by blast
  have e: "h \<in> set (lookup_list ?es k) \<longleftrightarrow> (\<exists>e g. (e, g, h) \<in> set (sites i) \<and> h \<in> set (eg_dns_elsewhere g) \<and>
     site_key i (e, g, h) = k)" for h
    by (force simp: lookup_collect_by)
  have "DNSNames t = filter (\<lambda>h. h \<notin> set (tun_dns_elsewhere t)) (tun_hosts t)"
    by (simp add: DNSNames_def)
  also have "\<dots> = filter (\<lambda>h. h \<notin> set (lookup_list ?es k)) (tun_hosts t)"
    by (rule filter_cong) (auto simp: t)
  finally show ?thesis unfolding e by (simp add: t)
qed

theorem Derive_dns_names_witness:
  "DNSNames (de_tunnels sample_derived ! 0) = filter (\<lambda>h. \<not> (\<exists>e g. (e, g, h) \<in> set (sites sample_edge) \<and>
     h \<in> set (eg_dns_elsewhere g) \<and> site_key sample_edge (e, g, h) =
       (tun_cluster (de_tunnels sample_derived ! 0), tun_account (de_tunnels sample_derived ! 0))))
     (tun_hosts (de_tunnels sample_derived ! 0))"
proof (rule Derive_dns_names [OF Derive_sample])
  show "de_tunnels sample_derived ! 0 \<in> set (de_tunnels sample_derived)" using sample_tunnels by simp
qed

end
