(* ===== verification/Go_Duration.thy ===== *)
theory Go_Duration imports Go_NetIP begin

text \<open>
  \<open>time.ParseDuration\<close>, as the Go standard library codes it: a sign, then numbers with a unit each.
  A duration is its nanoseconds. The whole part of a number and the sum are checked against \<open>2^63\<close>;
  a fraction is scaled to the unit in \<open>float64\<close> by Go and exactly here, the two agree on a fraction
  of up to six digits.
\<close>

definition max_duration :: int where
  "max_duration = 2 ^ 63"

text \<open>\<open>leadingInt\<close>: the digits in front, or nothing when they exceed \<open>2^63\<close>.\<close>

fun leading_int :: "int \<Rightarrow> string \<Rightarrow> (int \<times> string) option" where
  "leading_int x [] = Some (x, [])"
| "leading_int x (c # s) =
     (if is_digit c then
        if max_duration div 10 < x then None
        else if max_duration < x * 10 + digit_val c then None
        else leading_int (x * 10 + digit_val c) s
      else Some (x, c # s))"

text \<open>\<open>leadingFraction\<close>: the digits after the point and their scale; digits beyond the range are
  skipped.\<close>

fun leading_fraction :: "int \<Rightarrow> int \<Rightarrow> bool \<Rightarrow> string \<Rightarrow> int \<times> int \<times> string" where
  "leading_fraction x scale overflow [] = (x, scale, [])"
| "leading_fraction x scale overflow (c # s) =
     (if is_digit c then
        if overflow then leading_fraction x scale True s
        else if (max_duration - 1) div 10 < x then leading_fraction x scale True s
        else if max_duration < x * 10 + digit_val c then leading_fraction x scale True s
        else leading_fraction (x * 10 + digit_val c) (scale * 10) False s
      else (x, scale, c # s))"

definition unit_map :: "(string \<times> int) list" where
  "unit_map = [(''ns'', 1), (''us'', 1000), ([CHR 0xC2, CHR 0xB5] @ ''s'', 1000), ([CHR 0xCE, CHR 0xBC] @ ''s'', 1000),
     (''ms'', 1000000), (''s'', 1000000000), (''m'', 60 * 1000000000), (''h'', 3600 * 1000000000)]"

definition unit_char :: "char \<Rightarrow> bool" where
  "unit_char c \<longleftrightarrow> c \<noteq> CHR ''.'' \<and> \<not> is_digit c"

text \<open>One number with its unit: its value, and the rest of the string.\<close>

definition duration_item :: "string \<Rightarrow> (int \<times> string) option" where
  "duration_item s =
     (if s = [] \<or> hd s \<noteq> CHR ''.'' \<and> \<not> is_digit (hd s) then None
      else case leading_int 0 s of
          None \<Rightarrow> None
        | Some (v, s1) \<Rightarrow>
            let pre = (length s1 \<noteq> length s);
                (f, scale, s2) = (if s1 \<noteq> [] \<and> hd s1 = CHR ''.'' then leading_fraction 0 1 False (tl s1) else (0, 1, s1));
                post = (s1 \<noteq> [] \<and> hd s1 = CHR ''.'' \<and> length s2 \<noteq> length (tl s1));
                u = takeWhile unit_char s2; s3 = dropWhile unit_char s2 in
            if \<not> pre \<and> \<not> post then None
            else if u = [] then None
            else case map_of unit_map u of
                None \<Rightarrow> None
              | Some unit \<Rightarrow>
                  if max_duration div unit < v then None
                  else let v = v * unit + (if 0 < f then f * unit div scale else 0) in
                    if max_duration < v then None else Some (v, s3))"

lemma leading_int_length: "leading_int x s = Some (v, s') \<Longrightarrow> length s' \<le> length s"
  by (induction x s rule: leading_int.induct) (auto split: if_splits)

lemma leading_fraction_length: "leading_fraction x scale overflow s = (f, sc, s') \<Longrightarrow> length s' \<le> length s"
  by (induction x scale overflow s rule: leading_fraction.induct) (auto split: if_splits)

lemma duration_item_shorter:
  assumes "duration_item s = Some (v, s')"
  shows "length s' < length s"
proof -
  obtain v1 s1 where int: "leading_int 0 s = Some (v1, s1)" using assms by (auto simp: duration_item_def split: if_splits option.splits)
  obtain f scale s2 where frac: "(if s1 \<noteq> [] \<and> hd s1 = CHR ''.'' then leading_fraction 0 1 False (tl s1) else (0, 1, s1)) = (f, scale, s2)"
    by (metis prod_cases3)
  from assms have rest: "takeWhile unit_char s2 \<noteq> []" "s' = dropWhile unit_char s2"
    unfolding duration_item_def int option.case prod.case Let_def frac by (auto split: if_splits option.splits)
  have "length s2 \<le> length s1"
    using frac leading_fraction_length [of 0 1 False "tl s1"] by (auto split: if_splits)
  moreover have "length (dropWhile unit_char s2) < length s2"
    using rest(1) by (metis length_append length_greater_0_conv less_add_same_cancel2 takeWhile_dropWhile_id)
  ultimately show ?thesis using leading_int_length [OF int] rest(2) by simp
qed

function duration_items :: "int \<Rightarrow> string \<Rightarrow> int option" where
  "duration_items d s =
     (if s = [] then Some d
      else case duration_item s of
          None \<Rightarrow> None
        | Some (v, s') \<Rightarrow> if max_duration < d + v then None else duration_items (d + v) s')"
  by pat_completeness auto
termination
  by (relation "measure (\<lambda>(d, s). length s)") (auto dest: duration_item_shorter)

declare duration_items.simps [simp del]

definition ParseDuration :: "string \<Rightarrow> int option" where
  "ParseDuration s =
     (let neg = (s \<noteq> [] \<and> hd s = CHR ''-'');
          s = (if s \<noteq> [] \<and> (hd s = CHR ''-'' \<or> hd s = CHR ''+'') then tl s else s) in
      if s = ''0'' then Some 0
      else if s = [] then None
      else case duration_items 0 s of
          None \<Rightarrow> None
        | Some d \<Rightarrow> if neg then Some (- d) else if max_duration - 1 < d then None else Some d)"

end
