(* ===== verification/Config_Model.thy ===== *)
theory Config_Model imports Zone_Spec Rule_Builders Edge_Derive Go_Duration begin

text \<open>
  \<open>cloudflare/config\<close>: the estate's registry. Here its data (\<open>config.go\<close>), how a zone is managed
  (\<open>manage.go\<close>), the conversion of a zone's blocks to the inputs of \<open>zonespec\<close>, and the rules they
  contribute (\<open>contributions.go\<close>). Decoding the file is not modelled.

  The fields of a zone that \<open>validateManage\<close> asks the zero value of tell a nil slice or map from an
  empty one, so the four that are slices or maps are options here; everywhere else a nil one reads as
  an empty one.
\<close>

section \<open>Data\<close>

record public_cache_cfg =
  pcc_host :: string
  pcc_ttl :: string

record hsts_cfg =
  hc_enabled :: bool
  hc_max_age :: int
  hc_include_subdomains :: bool
  hc_nosniff :: bool
  hc_preload :: bool

record bot_management_cfg =
  bmc_ai_bots :: string
  bmc_managed_robots_txt :: "bool option"

record managed_waf_cfg =
  mwc_enabled :: bool
  mwc_hosts :: "string list"
  mwc_whole_zone :: bool

record security_txt_cfg =
  stc_contact :: "string list"
  stc_expires :: string
  stc_preferred_languages :: string

record record_cfg =
  rc_name :: string
  rc_type :: string
  rc_content :: string
  rc_proxied :: bool
  rc_ttl :: int
  rc_comment :: string
  rc_waf :: "bool option"
  rc_waf_reason :: string

record endpoint_cfg =
  epc_host :: string
  epc_path :: string
  epc_path_prefix :: string
  epc_methods :: "string list"

record rate_limit_rule_cfg =
  rrc_name :: string
  rrc_endpoints :: "endpoint_cfg list"
  rrc_expression :: string
  rrc_counting_expression :: string
  rrc_characteristics :: "string list"
  rrc_period :: int
  rrc_requests :: int
  rrc_mitigation_timeout :: int
  rrc_action :: string

record rate_limits_cfg =
  rlc_plan :: string
  rlc_rules :: "rate_limit_rule_cfg list"

record trusted_clients_cfg =
  tcc_hosts :: "string list"
  tcc_ranges :: "string list"
  tcc_skip :: "string list"

record cache_cfg =
  chc_respect_origin_browser_ttl :: bool

record total_tls_cfg =
  ttc_enabled :: bool
  ttc_certificate_authority :: string

record zone_cfg =
  zn_name :: string
  zn_account :: string
  zn_zone_id :: string
  zn_manage :: string
  zn_zone_id_pending :: bool
  zn_ssl_mode :: string
  zn_min_tls_version :: string
  zn_total_tls :: "total_tls_cfg option"
  zn_cache :: "cache_cfg option"
  zn_cache_hosts :: "string list"
  zn_waf_hosts :: "string list"
  zn_trusted_clients :: "trusted_clients_cfg option"
  zn_rate_limits :: "rate_limits_cfg option"
  zn_records :: "record_cfg list option"
  zn_origin_cnames :: "string gomap option"
  zn_public_cache :: "public_cache_cfg option"
  zn_ssl_mode_rules :: "string gomap option"
  zn_ssl_mode_rule_refs :: "string gomap option"
  zn_config_rules_import_id :: string
  zn_always_use_https :: "bool option"
  zn_hsts :: "hsts_cfg option"
  zn_bot_management :: "bot_management_cfg option"
  zn_managed_waf :: "managed_waf_cfg option"
  zn_security_txt :: "security_txt_cfg option"

definition nil_list :: "'a list option \<Rightarrow> 'a list" where
  "nil_list l = (case l of None \<Rightarrow> [] | Some xs \<Rightarrow> xs)"

record child_rotations =
  rot_edge :: string
  rot_status :: string
  rot_r2_admin :: string
  rot_r2_parent :: string

record account_cfg =
  ac_account_id :: string
  ac_legacy_names :: bool
  ac_root :: "child_rotations option"
  ac_breakglass_item :: string
  ac_company :: string

record r2_token =
  rt_permission :: string
  rt_expires_on :: string
  rt_rotation :: string

record r2_bucket =
  rb_enabled :: bool
  rb_account :: string
  rb_bucket :: string
  rb_jurisdiction :: string
  rb_lifecycle :: "int option"
  rb_token :: r2_token

record cfg_tunnel =
  ct_cluster :: string
  ct_account :: string
  ct_legacy_names :: bool
  ct_zone :: string
  ct_zones :: "string list"
  ct_hosts :: "string list"
  ct_dns_elsewhere :: "string list"

record registry =
  rg_accounts :: "account_cfg gomap"
  rg_zones :: "zone_cfg gomap"
  rg_service :: string
  rg_namespace :: string
  rg_tunnels :: "cfg_tunnel list"
  rg_r2 :: "r2_bucket gomap"
  rg_root :: child_rotations

section \<open>Tunnels\<close>

definition Tunnel_Name :: "cfg_tunnel \<Rightarrow> string" where
  "Tunnel_Name t = TunnelName (ct_cluster t) (ct_account t) (ct_legacy_names t)"

definition InZones :: "cfg_tunnel \<Rightarrow> string list" where
  "InZones t = (if ct_zones t \<noteq> [] then ct_zones t else [ct_zone t])"

definition CarriesIn :: "cfg_tunnel \<Rightarrow> string \<Rightarrow> string \<Rightarrow> bool" where
  "CarriesIn t zone host \<longleftrightarrow> host \<in> set (ct_hosts t) \<and> ZoneOf (InZones t) host = zone"

definition Tunnel_Release :: "cfg_tunnel \<Rightarrow> string" where
  "Tunnel_Release t = ReleaseName (ct_account t) (ct_legacy_names t)"

definition Tunnel_SecretName :: "cfg_tunnel \<Rightarrow> string" where
  "Tunnel_SecretName t = SecretName (ct_account t) (ct_legacy_names t)"

definition edge_tunnel :: "cfg_tunnel \<Rightarrow> tunnel" where
  "edge_tunnel t = \<lparr>tun_name = [], tun_cluster = ct_cluster t, tun_account = ct_account t, tun_zone = [],
     tun_zones = [], tun_hosts = ct_hosts t, tun_dns_elsewhere = ct_dns_elsewhere t, tun_dns_domain = []\<rparr>"

definition Tunnel_DNSNames :: "cfg_tunnel \<Rightarrow> string list" where
  "Tunnel_DNSNames t = DNSNames (edge_tunnel t)"

definition OwnsRecord :: "cfg_tunnel \<Rightarrow> string \<Rightarrow> string \<Rightarrow> bool" where
  "OwnsRecord t zone host \<longleftrightarrow> CarriesIn t zone host \<and> host \<notin> set (ct_dns_elsewhere t)"

section \<open>Rotations\<close>

definition defaultChildRotation :: string where
  "defaultChildRotation = ''1''"

definition default_rotation :: "string \<Rightarrow> string" where
  "default_rotation r = (if r = [] then defaultChildRotation else r)"

definition applyDefaults :: "child_rotations \<Rightarrow> child_rotations" where
  "applyDefaults r = \<lparr>rot_edge = default_rotation (rot_edge r), rot_status = default_rotation (rot_status r),
     rot_r2_admin = default_rotation (rot_r2_admin r), rot_r2_parent = default_rotation (rot_r2_parent r)\<rparr>"

definition no_rotations :: child_rotations where
  "no_rotations = \<lparr>rot_edge = [], rot_status = [], rot_r2_admin = [], rot_r2_parent = []\<rparr>"

text \<open>The loop writes each account back under its own key.\<close>

definition applyRootDefaults :: "registry \<Rightarrow> registry" where
  "applyRootDefaults c = c\<lparr>rg_root := applyDefaults (rg_root c),
     rg_accounts := map (\<lambda>(name, a). (name, a\<lparr>ac_root := map_option applyDefaults (ac_root a)\<rparr>)) (rg_accounts c)\<rparr>"

definition nameZones :: "registry \<Rightarrow> registry" where
  "nameZones c = c\<lparr>rg_zones := map (\<lambda>(name, z). (name, z\<lparr>zn_name := name\<rparr>)) (rg_zones c)\<rparr>"

section \<open>How a zone is managed\<close>

definition ManageFull :: string where
  "ManageFull = ''full''"

definition ManageSecurityTxt :: string where
  "ManageSecurityTxt = ''security_txt''"

definition SecurityTxtOnly :: "zone_cfg \<Rightarrow> bool" where
  "SecurityTxtOnly z \<longleftrightarrow> zn_manage z = ManageSecurityTxt"

datatype manage_error =
    MAManage string
  | MAAccount
  | MAZoneId
  | MASecurityTxt
  | MAField string

text \<open>The fields of a zone that the mode \<open>security_txt\<close> does not allow, in the order of the type,
  each with whether it is set.\<close>

definition other_fields :: "zone_cfg \<Rightarrow> (string \<times> bool) list" where
  "other_fields z = [
     (''zone_id_pending'', zn_zone_id_pending z),
     (''ssl_mode'', zn_ssl_mode z \<noteq> []),
     (''min_tls_version'', zn_min_tls_version z \<noteq> []),
     (''total_tls'', zn_total_tls z \<noteq> None),
     (''cache'', zn_cache z \<noteq> None),
     (''trusted_clients'', zn_trusted_clients z \<noteq> None),
     (''rate_limits'', zn_rate_limits z \<noteq> None),
     (''records'', zn_records z \<noteq> None),
     (''origin_cnames'', zn_origin_cnames z \<noteq> None),
     (''public_cache'', zn_public_cache z \<noteq> None),
     (''ssl_mode_rules'', zn_ssl_mode_rules z \<noteq> None),
     (''ssl_mode_rule_refs'', zn_ssl_mode_rule_refs z \<noteq> None),
     (''config_rules_import_id'', zn_config_rules_import_id z \<noteq> []),
     (''always_use_https'', zn_always_use_https z \<noteq> None),
     (''hsts'', zn_hsts z \<noteq> None),
     (''bot_management'', zn_bot_management z \<noteq> None),
     (''managed_waf'', zn_managed_waf z \<noteq> None)]"

definition validateManage :: "zone_cfg \<Rightarrow> manage_error option" where
  "validateManage z =
     (if zn_manage z = [] \<or> zn_manage z = ManageFull then None
      else if zn_manage z \<noteq> ManageSecurityTxt then Some (MAManage (zn_manage z))
      else first_of [
        fail_if (zn_account z = []) MAAccount,
        fail_if (zn_zone_id z = []) MAZoneId,
        fail_if (zn_security_txt z = None) MASecurityTxt,
        first_err (\<lambda>(key, is_set). fail_if is_set (MAField key)) (other_fields z)])"

section \<open>The inputs of the zone library\<close>

definition TrustedClientsCfg_Library :: "string \<Rightarrow> trusted_clients_cfg option \<Rightarrow> trusted_clients option" where
  "TrustedClientsCfg_Library zoneName t = map_option (\<lambda>t. \<lparr>tc_zone = zoneName, tc_hosts = tcc_hosts t, tc_ranges = tcc_ranges t,
     tc_description = [], tc_skip = tcc_skip t\<rparr>) t"

definition library_endpoint :: "endpoint_cfg \<Rightarrow> rl_endpoint" where
  "library_endpoint e = \<lparr>ep_host = epc_host e, ep_path = epc_path e, ep_path_prefix = epc_path_prefix e, ep_methods = epc_methods e\<rparr>"

definition library_rule :: "rate_limit_rule_cfg \<Rightarrow> rate_limit_rule" where
  "library_rule r = \<lparr>rlr_name = rrc_name r, rlr_endpoints = map library_endpoint (rrc_endpoints r),
     rlr_expression = rrc_expression r, rlr_counting_expression = rrc_counting_expression r,
     rlr_characteristics = rrc_characteristics r, rlr_period = rrc_period r, rlr_requests = rrc_requests r,
     rlr_mitigation_timeout = rrc_mitigation_timeout r, rlr_action = rrc_action r\<rparr>"

definition RateLimitsCfg_Library :: "rate_limits_cfg option \<Rightarrow> rate_limits option" where
  "RateLimitsCfg_Library r = map_option (\<lambda>r. \<lparr>rls_plan = rlc_plan r, rls_rules = map library_rule (rlc_rules r)\<rparr>) r"

definition library_record :: "record_cfg \<Rightarrow> dns_record" where
  "library_record r = \<lparr>dr_name = rc_name r, dr_type = rc_type r, dr_content = rc_content r, dr_proxied = rc_proxied r,
     dr_waf = rc_waf r, dr_ttl = rc_ttl r, dr_comment = rc_comment r\<rparr>"

definition RecordsLibrary :: "zone_cfg \<Rightarrow> string \<Rightarrow> dns_records option" where
  "RecordsLibrary z zone =
     (if SecurityTxtOnly z then None
      else if nil_list (zn_records z) = [] then None
      else Some \<lparr>drs_zone = zone, drs_entries = map library_record (nil_list (zn_records z))\<rparr>)"

definition HSTSCfg_Library :: "hsts_cfg option \<Rightarrow> hsts option" where
  "HSTSCfg_Library h = map_option (\<lambda>h. \<lparr>hs_enabled = hc_enabled h, hs_max_age = hc_max_age h,
     hs_include_subdomains = hc_include_subdomains h, hs_nosniff = hc_nosniff h, hs_preload = hc_preload h\<rparr>) h"

definition BotManagementCfg_Library :: "bot_management_cfg option \<Rightarrow> bot_management option" where
  "BotManagementCfg_Library b = map_option (\<lambda>b. \<lparr>bm_ai_bots = bmc_ai_bots b, bm_managed_robots_txt = bmc_managed_robots_txt b\<rparr>) b"

definition ManagedWAFCfg_Library :: "string \<Rightarrow> managed_waf_cfg option \<Rightarrow> managed_waf option" where
  "ManagedWAFCfg_Library zoneName m = map_option (\<lambda>m. \<lparr>mw_zone = zoneName, mw_hosts = mwc_hosts m, mw_whole_zone = mwc_whole_zone m,
     mw_description = []\<rparr>) m"

definition waf_enabled :: "zone_cfg \<Rightarrow> bool" where
  "waf_enabled z \<longleftrightarrow> (case zn_managed_waf z of None \<Rightarrow> False | Some m \<Rightarrow> mwc_enabled m)"

definition ManagedWAFLibrary :: "zone_cfg \<Rightarrow> string \<Rightarrow> managed_waf option" where
  "ManagedWAFLibrary z zoneName =
     (if \<not> waf_enabled z then ManagedWAFCfg_Library zoneName (zn_managed_waf z)
      else Some \<lparr>mw_zone = zoneName, mw_hosts = zn_waf_hosts z, mw_whole_zone = False, mw_description = []\<rparr>)"

text \<open>The origins of a zone whose record left its tunnel; the map is built in the order of the loop.\<close>

definition ActiveOrigins :: "zone_cfg \<Rightarrow> string gomap" where
  "ActiveOrigins z =
     (if SecurityTxtOnly z then []
      else fold (\<lambda>(host, origin) out. if origin \<noteq> [] then mput host origin out else out) (nil_list (zn_origin_cnames z)) [])"

definition EdgeTTL :: "public_cache_cfg option \<Rightarrow> int" where
  "EdgeTTL p = (case p of None \<Rightarrow> 0 | Some p \<Rightarrow> if pcc_ttl p = [] then 0
     else case ParseDuration (pcc_ttl p) of None \<Rightarrow> 0 | Some d \<Rightarrow> d)"

section \<open>Contributions\<close>

definition SSLModeRef :: "zone_cfg \<Rightarrow> string \<Rightarrow> string" where
  "SSLModeRef z host = (case mget (nil_list (zn_ssl_mode_rule_refs z)) host of
      None \<Rightarrow> ''ssl-mode-'' @ host
    | Some ref \<Rightarrow> if ref \<noteq> [] then ref else ''ssl-mode-'' @ host)"

datatype contributions_error =
    CEPublicCache rules_error
  | CESSLMode string rules_error
  | CERateLimits rules_error
  | CETrusted rules_error
  | CEWAF rules_error

definition map_error :: "('e \<Rightarrow> 'f) \<Rightarrow> 'e + 'a \<Rightarrow> 'f + 'a" where
  "map_error f r = (case r of Inl e \<Rightarrow> Inl (f e) | Inr x \<Rightarrow> Inr x)"

text \<open>Each block is built in turn, and its contribution appended; the first error ends the loop.\<close>

definition contribution_builds :: "zone_cfg \<Rightarrow> (contributions_error + contribution) list" where
  "contribution_builds z =
     (case zn_public_cache z of None \<Rightarrow> []
      | Some p \<Rightarrow> [map_error CEPublicCache (sum_bind (PublicPathsCache (pcc_host p) \<lparr>ppa_ttl = EdgeTTL (Some p), ppa_paths = []\<rparr>)
          (\<lambda>rule. Inr (CacheRule_Contribution rule)))]) @
     map (\<lambda>(host, mode). map_error (CESSLMode host) (SSLMode host mode (SSLModeRef z host))) (sorted_entries (nil_list (zn_ssl_mode_rules z))) @
     (case RateLimitsCfg_Library (zn_rate_limits z) of None \<Rightarrow> []
      | Some rl \<Rightarrow> [map_error CERateLimits (RateLimits (rls_plan rl) (rls_rules rl))]) @
     (case TrustedClientsCfg_Library (zn_name z) (zn_trusted_clients z) of None \<Rightarrow> []
      | Some t \<Rightarrow> [map_error CETrusted (TrustedClients (Some t))]) @
     (case ManagedWAFLibrary z (zn_name z) of None \<Rightarrow> []
      | Some w \<Rightarrow> [map_error CEWAF (ManagedWAF (Some w))])"

definition Zone_Contributions :: "zone_cfg \<Rightarrow> contributions_error + contribution list" where
  "Zone_Contributions z = (if SecurityTxtOnly z then Inr [] else collect (\<lambda>r. r) (contribution_builds z))"

end
