(* ===== verification/Go_Time.thy ===== *)
theory Go_Time imports Go_NetIP "HOL-Library.Monad_Syntax" begin

text \<open>
  \<open>time.Parse\<close> with the layout \<open>time.RFC3339\<close>, as the Go standard library documents and codes it: an
  instant is the number of nanoseconds since the Unix epoch. The library first tries a strict
  parser, which accepts a part of what the general one accepts and with the same result, so the
  general one is the model: the hour may have one digit, and the seconds a fraction after a period
  or a comma, of which nine digits count.
\<close>

section \<open>The calendar\<close>

definition is_leap :: "int \<Rightarrow> bool" where
  "is_leap y \<longleftrightarrow> y mod 4 = 0 \<and> (y mod 100 \<noteq> 0 \<or> y mod 400 = 0)"

definition days_in :: "int \<Rightarrow> int \<Rightarrow> int" where
  "days_in y m = (if m = 2 then (if is_leap y then 29 else 28) else if m \<in> {4, 6, 9, 11} then 30 else 31)"

text \<open>Days from the first of January of the year zero, in the proleptic Gregorian calendar.\<close>

definition leap_years :: "int \<Rightarrow> int" where
  "leap_years y = (y + 3) div 4 - (y + 99) div 100 + (y + 399) div 400"

definition days_before_year :: "int \<Rightarrow> int" where
  "days_before_year y = 365 * y + leap_years y"

definition day_number :: "int \<Rightarrow> int \<Rightarrow> int \<Rightarrow> int" where
  "day_number y m d = days_before_year y + sum_list (map (days_in y) [1..m - 1]) + (d - 1)"

definition epoch_day :: int where
  "epoch_day = 719528"

lemma epoch_day_1970: "day_number 1970 1 1 = epoch_day"
  by code_simp

section \<open>Parsing\<close>

definition isDigit :: "string \<Rightarrow> nat \<Rightarrow> bool" where
  "isDigit s i \<longleftrightarrow> i < length s \<and> is_digit (s ! i)"

definition digits_value :: "string \<Rightarrow> int" where
  "digits_value ds = foldl (\<lambda>v c. 10 * v + digit_val c) 0 ds"

definition getnum :: "bool \<Rightarrow> string \<Rightarrow> (int \<times> string) option" where
  "getnum fixed s =
     (if \<not> isDigit s 0 then None
      else if \<not> isDigit s 1 then if fixed then None else Some (digits_value (take 1 s), drop 1 s)
      else Some (digits_value (take 2 s), drop 2 s))"

definition skip_char :: "char \<Rightarrow> string \<Rightarrow> string option" where
  "skip_char c s = (case s of [] \<Rightarrow> None | x # xs \<Rightarrow> if x = c then Some xs else None)"

definition getyear :: "string \<Rightarrow> (int \<times> string) option" where
  "getyear s = (if length s < 4 \<or> \<not> list_all is_digit (take 4 s) then None else Some (digits_value (take 4 s), drop 4 s))"

definition guard_range :: "bool \<Rightarrow> unit option" where
  "guard_range ok = (if ok then Some () else None)"

text \<open>The fraction of a second, in nanoseconds.\<close>

definition getfraction :: "string \<Rightarrow> int \<times> string" where
  "getfraction s =
     (if s \<noteq> [] \<and> (hd s = CHR ''.'' \<or> hd s = CHR '','') \<and> isDigit s 1 then
        let ds = takeWhile is_digit (tl s); kept = take 9 ds in
        (digits_value kept * 10 ^ (9 - length kept), dropWhile is_digit (tl s))
      else (0, s))"

text \<open>The offset of the zone, in seconds, east positive.\<close>

definition getzone :: "string \<Rightarrow> (int \<times> string) option" where
  "getzone s =
     (if s \<noteq> [] \<and> hd s = CHR ''Z'' then Some (0, tl s)
      else if length s < 6 \<or> s ! 3 \<noteq> CHR '':'' then None
      else do {
        (hr, _) \<leftarrow> getnum True (take 2 (drop 1 s));
        (mm, _) \<leftarrow> getnum True (take 2 (drop 4 s));
        guard_range (hr \<le> 24 \<and> mm \<le> 60);
        let secs = (hr * 60 + mm) * 60;
        if hd s = CHR ''+'' then Some (secs, drop 6 s)
        else if hd s = CHR ''-'' then Some (- secs, drop 6 s)
        else None
      })"

definition second_ns :: int where
  "second_ns = 1000000000"

definition parse_RFC3339 :: "string \<Rightarrow> int option" where
  "parse_RFC3339 s = do {
     (year, s) \<leftarrow> getyear s;
     s \<leftarrow> skip_char CHR ''-'' s;
     (month, s) \<leftarrow> getnum True s;
     guard_range (1 \<le> month \<and> month \<le> 12);
     s \<leftarrow> skip_char CHR ''-'' s;
     (day, s) \<leftarrow> getnum True s;
     s \<leftarrow> skip_char CHR ''T'' s;
     (hour, s) \<leftarrow> getnum False s;
     guard_range (hour < 24);
     s \<leftarrow> skip_char CHR '':'' s;
     (minute, s) \<leftarrow> getnum True s;
     guard_range (minute < 60);
     s \<leftarrow> skip_char CHR '':'' s;
     (sec, s) \<leftarrow> getnum True s;
     guard_range (sec < 60);
     let (frac, s) = getfraction s;
     (offset, s) \<leftarrow> getzone s;
     guard_range (s = []);
     guard_range (1 \<le> day \<and> day \<le> days_in year month);
     Some (((day_number year month day - epoch_day) * 86400 + hour * 3600 + minute * 60 + sec - offset) * second_ns + frac)
   }"

lemma parse_RFC3339_epoch: "parse_RFC3339 ''1970-01-01T00:00:00Z'' = Some 0"
  by code_simp

lemma parse_RFC3339_offset: "parse_RFC3339 ''2030-02-28T23:30:00-01:30'' = parse_RFC3339 ''2030-03-01T1:00:00,000Z''"
  by code_simp

text \<open>The days of a year follow one another, and the years.\<close>

lemma ceiling_div:
  fixes y k :: int
  assumes "0 < k" and "n = k - 1"
  shows "(y + n) div k = y div k + (if y mod k = 0 then 0 else 1)"
proof -
  have "y + (k - 1) = (y mod k + (k - 1)) + k * (y div k)" using mult_div_mod_eq [of k y] by simp
  then have "(y + (k - 1)) div k = (y mod k + (k - 1)) div k + y div k" using assms(1) by (metis add.commute div_mult_self2 less_irrefl)
  moreover have "(y mod k + (k - 1)) div k = (if y mod k = 0 then 0 else 1)"
  proof (cases "y mod k = 0")
    case False
    have "0 \<le> y mod k" "y mod k < k" using assms(1) by simp_all
    with False have "0 \<le> y mod k - 1" "y mod k - 1 < k" by simp_all
    then have "(y mod k - 1) div k = 0" by (rule div_pos_pos_trivial)
    then have "(y mod k - 1 + k) div k = 1" using assms(1) by (simp add: div_add_self2)
    with False show ?thesis by (simp add: algebra_simps)
  qed (use assms(1) in simp)
  ultimately show ?thesis by (simp add: assms(2))
qed

lemma leap_years_next: "leap_years (y + 1) = leap_years y + (if is_leap y then 1 else 0)"
proof -
  define p q r where "p = y div 4" and "q = y div 100" and "r = y div 400"
  define a b c where "a = (if y mod 4 = 0 then 0 else 1 :: int)" and "b = (if y mod 100 = 0 then 0 else 1 :: int)"
    and "c = (if y mod 400 = 0 then 0 else 1 :: int)"
  have "leap_years (y + 1) = (p + 1) - (q + 1) + (r + 1)"
  proof -
    have step: "y + 1 + 3 = y + 4" "y + 1 + 99 = y + 100" "y + 1 + 399 = y + 400" by simp_all
    show ?thesis unfolding leap_years_def step p_def q_def r_def by (simp only: div_add_self2 zero_neq_numeral [symmetric] not_False_eq_True)
  qed
  moreover have "leap_years y = (p + a) - (q + b) + (r + c)"
  proof -
    have "(y + 3) div 4 = p + a" "(y + 99) div 100 = q + b" "(y + 399) div 400 = r + c"
      unfolding p_def q_def r_def a_def b_def c_def by (rule ceiling_div; simp)+
    then show ?thesis by (simp only: leap_years_def)
  qed
  moreover have "1 - a + b - c = (if is_leap y then 1 else 0)"
  proof -
    have "y mod 400 = 0 \<Longrightarrow> y mod 100 = 0"
      using dvd_trans [of 100 400 y] by (simp only: mod_eq_0_iff_dvd) simp
    moreover have "y mod 100 = 0 \<Longrightarrow> y mod 4 = 0"
      using dvd_trans [of 4 100 y] by (simp only: mod_eq_0_iff_dvd) simp
    ultimately show ?thesis
      by (cases "y mod 400 = 0"; cases "y mod 100 = 0"; cases "y mod 4 = 0") (simp_all add: a_def b_def c_def is_leap_def)
  qed
  ultimately show ?thesis by linarith
qed

lemma days_before_next_year: "days_before_year (y + 1) = days_before_year y + (if is_leap y then 366 else 365)"
  by (simp add: days_before_year_def leap_years_next)

lemma day_number_next_month: "1 \<le> m \<Longrightarrow> day_number y (m + 1) 1 = day_number y m (days_in y m) + 1"
  by (simp add: day_number_def upto_rec2)

lemma day_number_next_year: "day_number (y + 1) 1 1 = day_number y 12 31 + 1"
proof -
  have "[1..11] = [1, 2, 3, 4, 5, 6, 7, 8, 9, 10, 11::int]" by code_simp
  then show ?thesis by (simp add: day_number_def days_before_next_year days_in_def)
qed

end
