(* ===== verification/Pulumi_Program.thy ===== *)
theory Pulumi_Program imports Go_Prelude begin

text \<open>
  A deployment registers resources through the Pulumi SDK, one call after the other, and returns
  the first error. No later call reads what an earlier one returned but to hand it on as an output,
  so such a function is modelled by the list of its actions: the resources it registers in order,
  and the errors of its own it stops at. Whether the SDK takes a resource is a parameter; what is
  registered before an error stays registered, so a run returns the error and the resources.
\<close>

datatype ('e, 'r) action =
    Refuse 'e
  | Register 'r

fun run_actions :: "('r \<Rightarrow> 'f option) \<Rightarrow> ('e, 'r) action list \<Rightarrow> 'r list \<Rightarrow> ('e + 'f) option \<times> 'r list" where
  "run_actions register [] made = (None, made)"
| "run_actions register (Refuse e # rest) made = (Some (Inl e), made)"
| "run_actions register (Register r # rest) made =
     (case register r of
        Some f \<Rightarrow> (Some (Inr f), made)
      | None \<Rightarrow> run_actions register rest (made @ [r]))"

definition refuse :: "'e option \<Rightarrow> ('e, 'r) action list" where
  "refuse err = (case err of None \<Rightarrow> [] | Some e \<Rightarrow> [Refuse e])"

fun registered :: "('e, 'r) action list \<Rightarrow> 'r list" where
  "registered [] = []"
| "registered (Refuse e # rest) = registered rest"
| "registered (Register r # rest) = r # registered rest"

fun refused :: "('e, 'r) action list \<Rightarrow> 'e list" where
  "refused [] = []"
| "refused (Refuse e # rest) = e # refused rest"
| "refused (Register r # rest) = refused rest"

lemma refuse_simps [simp]: "refuse None = []" "refuse (Some e) = [Refuse e]"
  by (simp_all add: refuse_def)

lemma registered_append [simp]: "registered (as @ bs) = registered as @ registered bs"
  by (induction as rule: registered.induct) simp_all

lemma refused_append [simp]: "refused (as @ bs) = refused as @ refused bs"
  by (induction as rule: refused.induct) simp_all

lemma registered_refuse [simp]: "registered (refuse e) = []"
  by (cases e) simp_all

lemma refused_refuse [simp]: "refused (refuse e) = (case e of None \<Rightarrow> [] | Some x \<Rightarrow> [x])"
  by (cases e) simp_all

lemma registered_map [simp]: "registered (map Register rs) = rs"
  by (induction rs) simp_all

lemma refused_map [simp]: "refused (map Register rs) = []"
  by (induction rs) simp_all

lemma registered_concat: "registered (concat xss) = concat (map registered xss)"
  by (induction xss) simp_all

lemma refused_concat: "refused (concat xss) = concat (map refused xss)"
  by (induction xss) simp_all

lemma refused_map_action: "refused (map (map_action f g) as) = map f (refused as)"
  by (induction as rule: refused.induct) simp_all

lemma refused_map_Register [simp]: "refused (map (map_action f g \<circ> Register) rs) = []"
  by (induction rs) simp_all

lemma registered_map_action: "registered (map (map_action f g) as) = map g (registered as)"
  by (induction as rule: registered.induct) simp_all

text \<open>A run that returns no error registered everything, and the other way round.\<close>

lemma run_actions_None:
  "run_actions register as made = (None, out) \<longleftrightarrow>
     refused as = [] \<and> (\<forall>r\<in>set (registered as). register r = None) \<and> out = made @ registered as"
proof (induction register as made rule: run_actions.induct)
  case (3 register r rest made)
  then show ?case by (cases "register r") auto
qed auto

text \<open>Running one list after another, and what a run that fails has registered.\<close>

lemma run_actions_append:
  "run_actions register (as @ bs) made =
     (case run_actions register as made of
        (Some e, out) \<Rightarrow> (Some e, out)
      | (None, out) \<Rightarrow> run_actions register bs out)"
  by (induction register as made rule: run_actions.induct) (auto split: option.split)

lemma run_actions_prefix:
  "\<exists>n. snd (run_actions register as made) = made @ take n (registered as)"
proof (induction register as made rule: run_actions.induct)
  case (3 register r rest made)
  show ?case
  proof (cases "register r")
    case None
    with 3 obtain n where "snd (run_actions register rest (made @ [r])) = (made @ [r]) @ take n (registered rest)" by blast
    with None show ?thesis by (intro exI [of _ "Suc n"]) simp
  next
    case (Some f)
    then show ?thesis by (intro exI [of _ 0]) simp
  qed
qed (auto intro: exI [of _ 0])

lemma run_actions_refused: "fst (run_actions register as made) = Some (Inl e) \<Longrightarrow> e \<in> set (refused as)"
  by (induction register as made rule: run_actions.induct) (auto split: option.splits)

text \<open>An SDK that takes everything: the run stops at the first error of the code's own.\<close>

definition accept_all :: "'r \<Rightarrow> unit option" where
  "accept_all r = None"

lemma run_accept_all: "fst (run_actions accept_all as made) = (case refused as of [] \<Rightarrow> None | e # es \<Rightarrow> Some (Inl e))"
  by (induction "accept_all :: 'b \<Rightarrow> unit option" as made rule: run_actions.induct) (simp_all add: accept_all_def)

end
