(* ===== verification/Account_Tokens.thy ===== *)
theory Account_Tokens imports Go_Time Pulumi_Program begin

text \<open>
  \<open>cloudflare/cfnames/cfnames.go\<close>, \<open>cloudflare/account/childtoken.go\<close>, \<open>childtokenset.go\<close>,
  \<open>resourcekey.go\<close> and \<open>account.go\<close>: the API tokens an account mints. A scope is a datatype; the interface value nil is
  \<open>None\<close>. The clock and the account's list of permission groups are parameters: \<open>listed account name\<close>
  is what the provider's list returns for a name filter, whose exactness Cloudflare does not
  promise. \<open>json.Marshal\<close> is modelled on ASCII strings.
\<close>

section \<open>The provider of an account\<close>

text \<open>\<open>New\<close> of \<open>account.go\<close>: the one resource it registers, with the token and the base URL. The token
  is a string here; a nil input does not occur, every caller passes one.\<close>

record account_args =
  aa_account_id :: string
  aa_base_url :: string

datatype account_error =
    EANoAccountId

datatype account_provider = AProvider (ap_token: string) (ap_base_url: "string option")

definition account_validate :: "account_args \<Rightarrow> account_error option" where
  "account_validate a = fail_if (aa_account_id a = []) EANoAccountId"

definition account_actions :: "string \<Rightarrow> account_args \<Rightarrow> string \<Rightarrow> (account_error, string \<times> account_provider) action list" where
  "account_actions name a token =
     refuse (account_validate a) @
     [Register (''provider-'' @ name, AProvider token (if aa_base_url a = [] then None else Some (aa_base_url a)))]"

section \<open>Names\<close>

definition Jurisdictions :: "string list" where
  "Jurisdictions = [[], ''default'', ''eu'', ''fedramp'', ''us'']"

definition ValidJurisdiction :: "string \<Rightarrow> bool" where
  "ValidJurisdiction j \<longleftrightarrow> j \<in> set Jurisdictions"

text \<open>The loop over the characters of a bucket name; \<open>n\<close> is the length of the whole name.\<close>

fun bucket_chars :: "nat \<Rightarrow> nat \<Rightarrow> string \<Rightarrow> bool" where
  "bucket_chars n i [] = True"
| "bucket_chars n i (r # rs) =
     (if is_lower_letter r then bucket_chars n (Suc i) rs
      else if is_digit r then bucket_chars n (Suc i) rs
      else if r = CHR ''-'' then if i = 0 \<or> i = n - 1 then False else bucket_chars n (Suc i) rs
      else False)"

definition ValidBucketName :: "string \<Rightarrow> bool" where
  "ValidBucketName name \<longleftrightarrow> 3 \<le> length name \<and> length name \<le> 63 \<and> bucket_chars (length name) 0 name"

definition R2PermissionObjectReadWrite :: string where
  "R2PermissionObjectReadWrite = ''object-read-write''"

definition R2PermissionObjectReadOnly :: string where
  "R2PermissionObjectReadOnly = ''object-read-only''"

definition R2Permissions :: "string list" where
  "R2Permissions = [R2PermissionObjectReadWrite, R2PermissionObjectReadOnly]"

section \<open>Scopes\<close>

datatype token_scope =
    WholeAccountScope
  | ZoneScope (zs_zone_id: string)
  | R2BucketScope (r2_jurisdiction: string) (r2_bucket: string)

datatype scope_error =
    ESZone string
  | ESBucket string
  | ESJurisdiction string

definition hex_char :: "char \<Rightarrow> bool" where
  "hex_char c \<longleftrightarrow> is_digit c \<or> in_range CHR ''a'' CHR ''f'' c"

definition zoneIDValid :: "string \<Rightarrow> bool" where
  "zoneIDValid zid \<longleftrightarrow> length zid = 32 \<and> list_all hex_char zid"

definition scope_validate :: "token_scope \<Rightarrow> scope_error option" where
  "scope_validate s = (case s of
      WholeAccountScope \<Rightarrow> None
    | ZoneScope zid \<Rightarrow> fail_if (\<not> zoneIDValid zid) (ESZone zid)
    | R2BucketScope j b \<Rightarrow> first_of [
        fail_if (\<not> ValidBucketName b) (ESBucket b),
        fail_if (\<not> ValidJurisdiction j) (ESJurisdiction j)])"

definition resourceKey :: "token_scope \<Rightarrow> string \<Rightarrow> string" where
  "resourceKey s accountID = (case s of
      WholeAccountScope \<Rightarrow> ''com.cloudflare.api.account.'' @ accountID
    | ZoneScope zid \<Rightarrow> ''com.cloudflare.api.account.zone.'' @ zid
    | R2BucketScope j b \<Rightarrow>
        ''com.cloudflare.edge.r2.bucket.'' @ accountID @ ''_'' @ (if j = [] then ''default'' else j) @ ''_'' @ b)"

datatype key_error =
    EKNoScope
  | EKScope scope_error
  | EKAccount

definition isR2Bucket :: "token_scope \<Rightarrow> bool" where
  "isR2Bucket s \<longleftrightarrow> (case s of R2BucketScope _ _ \<Rightarrow> True | _ \<Rightarrow> False)"

definition ResourceKey :: "token_scope option \<Rightarrow> string \<Rightarrow> key_error + string" where
  "ResourceKey scope accountID = (case scope of
      None \<Rightarrow> Inl EKNoScope
    | Some s \<Rightarrow>
        unless (map_option EKScope (scope_validate s))
          (if (s = WholeAccountScope \<or> isR2Bucket s) \<and> accountID = [] then Inl EKAccount
           else Inr (resourceKey s accountID)))"

section \<open>One child token\<close>

definition permissionAccountAPITokensRead :: string where
  "permissionAccountAPITokensRead = ''Account API Tokens Read''"

definition permissionAccountAPITokensWrite :: string where
  "permissionAccountAPITokensWrite = ''Account API Tokens Write''"

record token_policy =
  tp_groups :: "string list"
  tp_scope :: "token_scope option"

record child_config =
  cc_name :: string
  cc_rotation :: string
  cc_expires_on :: string
  cc_policies :: "token_policy list"

datatype token_error =
    ECTName
  | ECTNoPolicy
  | ECTNoGroup nat
  | ECTGroupName nat
  | ECTForbidden nat string
  | ECTNoScope nat
  | ECTScope nat scope_error
  | ECTNotRFC3339 string
  | ECTPast string
  | ECTRotation string
  | ECTAccount
  | ECTLookup nat string
  | ECTNotFound nat string
  | ECTAmbiguous nat string nat

definition rotation_char :: "char \<Rightarrow> bool" where
  "rotation_char c \<longleftrightarrow> is_lower_letter c \<or> is_upper_letter c \<or> is_digit c \<or> c = CHR ''.'' \<or> c = CHR ''_'' \<or> c = CHR ''-''"

definition rotationValid :: "string \<Rightarrow> bool" where
  "rotationValid value \<longleftrightarrow> list_all rotation_char value"

definition validate_policy :: "nat \<times> token_policy \<Rightarrow> token_error option" where
  "validate_policy = (\<lambda>(i, p). first_of [
     fail_if (tp_groups p = []) (ECTNoGroup i),
     first_err (\<lambda>g. first_of [
        fail_if (g = []) (ECTGroupName i),
        fail_if (g = permissionAccountAPITokensRead \<or> g = permissionAccountAPITokensWrite) (ECTForbidden i g)]) (tp_groups p),
     (case tp_scope p of None \<Rightarrow> Some (ECTNoScope i) | Some s \<Rightarrow> map_option (ECTScope i) (scope_validate s))])"

definition ChildToken_Validate :: "int \<Rightarrow> child_config \<Rightarrow> token_error option" where
  "ChildToken_Validate now cfg = first_of [
     fail_if (cc_name cfg = []) ECTName,
     fail_if (cc_policies cfg = []) ECTNoPolicy,
     first_err validate_policy (enumerate 0 (cc_policies cfg)),
     (if cc_expires_on cfg = [] then None
      else case parse_RFC3339 (cc_expires_on cfg) of
          None \<Rightarrow> Some (ECTNotRFC3339 (cc_expires_on cfg))
        | Some t \<Rightarrow> fail_if (\<not> now < t) (ECTPast (cc_expires_on cfg))),
     fail_if (\<not> rotationValid (cc_rotation cfg)) (ECTRotation (cc_rotation cfg))]"

text \<open>What the account-scoped lookup of a group name returns: names with ids, or nothing when the call fails.\<close>

type_synonym group_list = "string \<Rightarrow> string \<Rightarrow> (string \<times> string) list option"

definition lookupPermissionGroupID :: "group_list \<Rightarrow> nat \<Rightarrow> string \<Rightarrow> string \<Rightarrow> token_error + string" where
  "lookupPermissionGroupID listed i accountID groupName =
     (case listed accountID groupName of
        None \<Rightarrow> Inl (ECTLookup i groupName)
      | Some results \<Rightarrow>
          let matches = map snd (filter (\<lambda>r. fst r = groupName) results) in
          if length matches = 0 then Inl (ECTNotFound i groupName)
          else if length matches = 1 then Inr (matches ! 0)
          else Inl (ECTAmbiguous i groupName (length matches)))"

definition hex_digit :: "nat \<Rightarrow> char" where
  "hex_digit n = ''0123456789abcdef'' ! n"

definition json_char :: "char \<Rightarrow> string" where
  "json_char c =
     (if c = CHR 0x22 \<or> c = CHR 0x5C then [CHR 0x5C, c]
      else if c = CHR 0x08 then [CHR 0x5C, CHR ''b'']
      else if c = CHR 0x0C then [CHR 0x5C, CHR ''f'']
      else if c = CHR 0x0A then [CHR 0x5C, CHR ''n'']
      else if c = CHR 0x0D then [CHR 0x5C, CHR ''r'']
      else if c = CHR 0x09 then [CHR 0x5C, CHR ''t'']
      else if char_code c < 32 \<or> c \<in> set ''<>&'' then
        [CHR 0x5C] @ ''u00'' @ [hex_digit (char_code c div 16), hex_digit (char_code c mod 16)]
      else [c])"

definition json_string :: "string \<Rightarrow> string" where
  "json_string s = [CHR 0x22] @ concat (map json_char s) @ [CHR 0x22]"

definition json_resources :: "string \<Rightarrow> string" where
  "json_resources key = ''{'' @ json_string key @ '':'' @ json_string ''*'' @ ''}''"

record account_policy =
  ap_effect :: string
  ap_group_ids :: "string list"
  ap_resources :: string

record account_token =
  at_account_id :: string
  at_name :: string
  at_policies :: "account_policy list"
  at_expires_on :: "string option"
  at_replace_on :: "string list"

type_synonym token_child = "string \<times> account_token"

definition policy_args :: "group_list \<Rightarrow> string \<Rightarrow> nat \<times> token_policy \<Rightarrow> token_error + account_policy" where
  "policy_args listed accountID = (\<lambda>(i, p).
     sum_bind (collect (lookupPermissionGroupID listed i accountID) (tp_groups p)) (\<lambda>ids.
       Inr \<lparr>ap_effect = ''allow'', ap_group_ids = ids,
         ap_resources = (case tp_scope p of None \<Rightarrow> [] | Some s \<Rightarrow> json_resources (resourceKey s accountID))\<rparr>))"

definition token_name :: "child_config \<Rightarrow> string" where
  "token_name cfg = (if cc_rotation cfg = [] then cc_name cfg else cc_name cfg @ ''-'' @ cc_rotation cfg)"

text \<open>The account is its id; \<open>None\<close> is the nil account.\<close>

definition NewChildToken :: "int \<Rightarrow> group_list \<Rightarrow> string \<Rightarrow> string option \<Rightarrow> child_config \<Rightarrow> (token_error, token_child) action list" where
  "NewChildToken now listed name acct cfg =
     (case acct of
        None \<Rightarrow> [Refuse ECTAccount]
      | Some accountID \<Rightarrow>
          refuse (fail_if (accountID = []) ECTAccount) @
          refuse (ChildToken_Validate now cfg) @
          (case collect (policy_args listed accountID) (enumerate 0 (cc_policies cfg)) of
             Inl e \<Rightarrow> [Refuse e]
           | Inr policies \<Rightarrow> [Register (name,
               \<lparr>at_account_id = accountID, at_name = token_name cfg, at_policies = policies,
                at_expires_on = (if cc_expires_on cfg = [] then None else Some (cc_expires_on cfg)),
                at_replace_on = [''name'']\<rparr>)]))"

section \<open>A set of child tokens\<close>

definition NewChildTokenSet :: "int \<Rightarrow> group_list \<Rightarrow> string option \<Rightarrow> child_config gomap \<Rightarrow> (string \<times> token_error, token_child) action list" where
  "NewChildTokenSet now listed acct cfgs =
     concat (map (\<lambda>(k, cfg). map (map_action (Pair k) (\<lambda>r. r)) (NewChildToken now listed k acct cfg)) (sorted_entries cfgs))"

section \<open>Policies\<close>

definition whole_account :: "string list \<Rightarrow> token_policy" where
  "whole_account groups = \<lparr>tp_groups = groups, tp_scope = Some WholeAccountScope\<rparr>"

definition on_zone :: "string list \<Rightarrow> string \<Rightarrow> token_policy" where
  "on_zone groups zoneID = \<lparr>tp_groups = groups, tp_scope = Some (ZoneScope zoneID)\<rparr>"

definition ZonePolicies :: "string list \<Rightarrow> token_policy list" where
  "ZonePolicies zoneIDs =
     map (on_zone [''DNS Write'', ''SSL and Certificates Write'', ''Zone Settings Write'', ''Cache Settings Write'', ''Config Settings Write'']) zoneIDs"

definition EdgePolicies :: "string list \<Rightarrow> token_policy list" where
  "EdgePolicies zoneIDs = whole_account [''Cloudflare Tunnel Write''] # ZonePolicies zoneIDs"

definition EdgePoliciesWithWAF :: "string list \<Rightarrow> string list \<Rightarrow> token_policy list" where
  "EdgePoliciesWithWAF wafZoneIDs zoneIDs = EdgePolicies zoneIDs @ map (on_zone [''Zone WAF Write'']) wafZoneIDs"

definition PermBotManagementWrite :: string where
  "PermBotManagementWrite = ''Bot Management Write''"

definition BotManagementPolicies :: "string list \<Rightarrow> token_policy list" where
  "BotManagementPolicies zoneIDs = map (on_zone [PermBotManagementWrite]) zoneIDs"

definition PermZoneSettingsWrite :: string where
  "PermZoneSettingsWrite = ''Zone Settings Write''"

definition SecurityTxtPolicies :: "string list \<Rightarrow> token_policy list" where
  "SecurityTxtPolicies zoneIDs = map (on_zone [PermZoneSettingsWrite]) zoneIDs"

definition R2AdminPolicies :: "token_policy list" where
  "R2AdminPolicies = [whole_account [''Workers R2 Storage Write'']]"

definition R2BucketParentPolicies :: "string \<Rightarrow> string \<Rightarrow> token_policy list" where
  "R2BucketParentPolicies jurisdiction bucket =
     [\<lparr>tp_groups = [''Workers R2 Storage Bucket Item Write''], tp_scope = Some (R2BucketScope jurisdiction bucket)\<rparr>]"

section \<open>The rules for names\<close>

lemma bucket_chars_iff:
  "bucket_chars n i rs \<longleftrightarrow> (\<forall>k<length rs. is_lower_letter (rs ! k) \<or> is_digit (rs ! k) \<or> rs ! k = CHR ''-'' \<and> i + k \<noteq> 0 \<and> i + k \<noteq> n - 1)"
proof (induction n i rs rule: bucket_chars.induct)
  case (2 n i r rs)
  then show ?case unfolding all_less_Suc_nth [of _ _ _ 0, simplified] by (auto simp: All_less_Suc2)
qed simp

definition bucket_char :: "char \<Rightarrow> bool" where
  "bucket_char c \<longleftrightarrow> is_lower_letter c \<or> is_digit c \<or> c = CHR ''-''"

lemma ValidBucketName_iff:
  "ValidBucketName b \<longleftrightarrow> 3 \<le> length b \<and> length b \<le> 63 \<and> list_all bucket_char b \<and> hd b \<noteq> CHR ''-'' \<and> last b \<noteq> CHR ''-''"
proof (cases "3 \<le> length b")
  case True
  then have "b \<noteq> []" by auto
  then have ends: "hd b = b ! 0" "last b = b ! (length b - 1)" by (simp_all add: hd_conv_nth last_conv_nth)
  have hyphen: "\<not> is_lower_letter CHR ''-'' \<and> \<not> is_digit CHR ''-''" by code_simp
  have "bucket_chars (length b) 0 b \<longleftrightarrow> list_all bucket_char b \<and> b ! 0 \<noteq> CHR ''-'' \<and> b ! (length b - 1) \<noteq> CHR ''-''" (is "?l \<longleftrightarrow> ?r")
  proof
    assume ?l
    then have char: "is_lower_letter (b ! k) \<or> is_digit (b ! k) \<or> b ! k = CHR ''-'' \<and> k \<noteq> 0 \<and> k \<noteq> length b - 1" if "k < length b" for k
      using that unfolding bucket_chars_iff by simp
    then have "list_all bucket_char b" by (auto simp: list_all_length bucket_char_def)
    moreover have "b ! 0 \<noteq> CHR ''-''" using char [of 0] \<open>b \<noteq> []\<close> hyphen by (metis length_greater_0_conv)
    moreover have "b ! (length b - 1) \<noteq> CHR ''-''"
      using char [of "length b - 1"] \<open>b \<noteq> []\<close> hyphen by (metis diff_less length_greater_0_conv zero_less_one)
    ultimately show ?r by blast
  next
    assume ?r
    then show ?l unfolding bucket_chars_iff list_all_length bucket_char_def by (auto intro!: gr0I)
  qed
  then show ?thesis unfolding ValidBucketName_def ends(1,2) by blast
qed (simp add: ValidBucketName_def)

lemma bucket_no_underscore: "ValidBucketName b \<Longrightarrow> CHR ''_'' \<notin> set b"
proof
  have "\<not> bucket_char CHR ''_''" by code_simp
  moreover assume "ValidBucketName b" "CHR ''_'' \<in> set b"
  ultimately show False by (auto simp: ValidBucketName_iff list_all_iff)
qed

section \<open>Resource keys\<close>

text \<open>The resource a scope names: the spellings of no jurisdiction are one, and a zone needs no account.\<close>

definition scope_resource :: "token_scope \<Rightarrow> string \<Rightarrow> token_scope \<times> string" where
  "scope_resource s accountID = (case s of
      WholeAccountScope \<Rightarrow> (s, accountID)
    | ZoneScope zid \<Rightarrow> (s, [])
    | R2BucketScope j b \<Rightarrow> (R2BucketScope (if j = [] then ''default'' else j) b, accountID))"

lemma split_last_mark:
  assumes "a @ c # b = a' @ c # b'" and "c \<notin> set b" and "c \<notin> set b'"
  shows "a = a' \<and> b = b'"
proof -
  from assms(1) have "rev b @ c # rev a = rev b' @ c # rev a'" by (metis append.assoc append_Cons append_Nil rev.simps(2) rev_append)
  moreover have "rev b = takeWhile (\<lambda>x. x \<noteq> c) (rev b @ c # rev a)" "rev b' = takeWhile (\<lambda>x. x \<noteq> c) (rev b' @ c # rev a')"
    using assms(2,3) by (subst takeWhile_append2; auto)+
  ultimately have "b = b'" by simp
  with assms(1) show ?thesis by simp
qed

lemma jurisdiction_no_underscore: "ValidJurisdiction j \<Longrightarrow> CHR ''_'' \<notin> set (if j = [] then ''default'' else j)"
  by (auto simp: ValidJurisdiction_def Jurisdictions_def)

lemma R2_key_inj:
  assumes "scope_validate (R2BucketScope j b) = None" and "scope_validate (R2BucketScope j' b') = None"
    and "resourceKey (R2BucketScope j b) a = resourceKey (R2BucketScope j' b') a'"
  shows "scope_resource (R2BucketScope j b) a = scope_resource (R2BucketScope j' b') a'"
proof -
  define d d' where "d = (if j = [] then ''default'' else j)" and "d' = (if j' = [] then ''default'' else j')"
  from assms(1,2) have marks: "CHR ''_'' \<notin> set b" "CHR ''_'' \<notin> set b'" "CHR ''_'' \<notin> set d" "CHR ''_'' \<notin> set d'"
    unfolding d_def d'_def by (simp_all add: scope_validate_def bucket_no_underscore jurisdiction_no_underscore del: if_split)
  from assms(3) have "(a @ ''_'' @ d) @ CHR ''_'' # b = (a' @ ''_'' @ d') @ CHR ''_'' # b'"
    by (simp add: resourceKey_def flip: d_def d'_def)
  from split_last_mark [OF this marks(1,2)] have "a @ CHR ''_'' # d = a' @ CHR ''_'' # d'" "b = b'" by simp_all
  with split_last_mark [OF this(1) marks(3,4)] show ?thesis by (simp add: scope_resource_def d_def d'_def)
qed

lemma account_not_zone_key: "CHR ''.'' \<notin> set a \<Longrightarrow> resourceKey WholeAccountScope a \<noteq> resourceKey (ZoneScope z) a'"
  by (auto simp: resourceKey_def)

lemma resourceKey_inj:
  assumes "scope_validate s = None" and "scope_validate s' = None" and "CHR ''.'' \<notin> set a" and "CHR ''.'' \<notin> set a'"
    and "resourceKey s a = resourceKey s' a'"
  shows "scope_resource s a = scope_resource s' a'"
proof (cases s; cases s')
  fix j b j' b' assume "s = R2BucketScope j b" "s' = R2BucketScope j' b'"
  with R2_key_inj assms show ?thesis by blast
next
  fix z assume "s = WholeAccountScope" "s' = ZoneScope z"
  with account_not_zone_key assms show ?thesis by metis
next
  fix z assume "s = ZoneScope z" "s' = WholeAccountScope"
  with account_not_zone_key assms show ?thesis by metis
qed (use assms(5) in \<open>simp_all add: resourceKey_def scope_resource_def\<close>)

lemma ResourceKey_Inr: "ResourceKey (Some s) a = Inr k \<Longrightarrow> scope_validate s = None \<and> k = resourceKey s a"
  by (auto simp: ResourceKey_def split: if_splits)

section \<open>What a token grants\<close>

lemma lookup_Inr:
  "lookupPermissionGroupID listed i a g = Inr gid \<longleftrightarrow> (\<exists>rs. listed a g = Some rs \<and> map snd (filter (\<lambda>r. fst r = g) rs) = [gid])"
proof (cases "listed a g")
  case (Some rs)
  define ms where "ms = map snd (filter (\<lambda>r. fst r = g) rs)"
  have one: "length ms = 1 \<and> ms ! 0 = gid \<longleftrightarrow> ms = [gid]" by (cases ms) auto
  have "lookupPermissionGroupID listed i a g = Inr gid \<longleftrightarrow> length ms = 1 \<and> ms ! 0 = gid"
    unfolding lookupPermissionGroupID_def Some Let_def option.case ms_def [symmetric] by simp
  then have "lookupPermissionGroupID listed i a g = Inr gid \<longleftrightarrow> map snd (filter (\<lambda>r. fst r = g) rs) = [gid]"
    unfolding one by (simp only: ms_def)
  with Some show ?thesis by (metis option.inject)
qed (simp add: lookupPermissionGroupID_def)

lemma lookup_listed:
  assumes "lookupPermissionGroupID listed i a g = Inr gid"
  shows "\<exists>rs. listed a g = Some rs \<and> (g, gid) \<in> set rs"
proof -
  from assms [unfolded lookup_Inr] obtain rs where rs: "listed a g = Some rs" "map snd (filter (\<lambda>r. fst r = g) rs) = [gid]"
    by iprover
  have "gid \<in> set (map snd (filter (\<lambda>r. fst r = g) rs))" by (simp only: rs(2) list.set insertI1)
  then obtain r where "r \<in> set rs" "fst r = g" "snd r = gid" by (auto simp only: set_map set_filter)
  then have "(g, gid) \<in> set rs" by (metis prod.collapse)
  with rs(1) show ?thesis by blast
qed

lemma validate_policy_None:
  "validate_policy (i, p) = None \<longleftrightarrow> tp_groups p \<noteq> [] \<and> [] \<notin> set (tp_groups p) \<and>
     permissionAccountAPITokensRead \<notin> set (tp_groups p) \<and> permissionAccountAPITokensWrite \<notin> set (tp_groups p) \<and>
     (\<exists>s. tp_scope p = Some s \<and> scope_validate s = None)"
  by (cases "tp_scope p") (auto simp: validate_policy_def first_err_None fail_if_def split: if_splits)

lemma first_err_enumerate_None: "first_err f (enumerate n xs) = None \<longleftrightarrow> (\<forall>i<length xs. f (n + i, xs ! i) = None)"
proof (induction xs arbitrary: n)
  case (Cons x xs)
  then show ?case by (simp add: All_less_Suc2)
qed simp

lemma ChildToken_Validate_policies:
  "ChildToken_Validate now cfg = None \<Longrightarrow> p \<in> set (cc_policies cfg) \<Longrightarrow> validate_policy (i, p) = None"
  unfolding ChildToken_Validate_def first_of_None first_err_enumerate_None validate_policy_None by (metis in_set_conv_nth)

text \<open>A token that is registered: its configuration is valid and its policies are those written.\<close>

lemma NewChildToken_accepted:
  assumes "refused (NewChildToken now listed name (Some a) cfg) = []"
  obtains policies where "ChildToken_Validate now cfg = None" and "a \<noteq> []"
    and "collect (policy_args listed a) (enumerate 0 (cc_policies cfg)) = Inr policies"
    and "registered (NewChildToken now listed name (Some a) cfg) = [(name,
       \<lparr>at_account_id = a, at_name = token_name cfg, at_policies = policies,
        at_expires_on = (if cc_expires_on cfg = [] then None else Some (cc_expires_on cfg)), at_replace_on = [''name'']\<rparr>)]"
proof (cases "collect (policy_args listed a) (enumerate 0 (cc_policies cfg))")
  case (Inl e)
  with assms show thesis by (simp add: NewChildToken_def)
next
  case (Inr policies)
  with assms have "ChildToken_Validate now cfg = None" "a \<noteq> []"
    by (simp_all add: NewChildToken_def fail_if_def split: option.splits if_splits)
  with that Inr show thesis by (simp add: NewChildToken_def)
qed

lemma policy_args_Inr:
  assumes "policy_args listed a (i, p) = Inr q"
  shows "collect (lookupPermissionGroupID listed i a) (tp_groups p) = Inr (ap_group_ids q)" and "ap_effect q = ''allow''"
    and "tp_scope p = Some s \<Longrightarrow> ap_resources q = json_resources (resourceKey s a)"
  using assms by (auto simp: policy_args_def)

lemma NewChildToken_failed:
  assumes "refused (NewChildToken now listed k acct cfg) \<noteq> []"
  shows "\<exists>e rest. NewChildToken now listed k acct cfg = Refuse e # rest"
proof (cases acct)
  case (Some a)
  show ?thesis
  proof (cases "collect (policy_args listed a) (enumerate 0 (cc_policies cfg))")
    case (Inl e)
    then show ?thesis by (cases "a = []"; cases "ChildToken_Validate now cfg") (simp_all add: NewChildToken_def Some fail_if_def)
  next
    case (Inr policies)
    with assms show ?thesis
      by (cases "a = []"; cases "ChildToken_Validate now cfg") (simp_all add: NewChildToken_def Some fail_if_def)
  qed
qed (simp add: NewChildToken_def)

section \<open>A set of tokens\<close>

lemma NewChildToken_registered:
  assumes "refused (NewChildToken now listed k acct cfg) = []"
  shows "map fst (registered (NewChildToken now listed k acct cfg)) = [k]"
proof (cases acct)
  case None
  with assms show ?thesis by (simp add: NewChildToken_def)
next
  case (Some a)
  from assms [unfolded Some] show ?thesis unfolding Some by (rule NewChildToken_accepted) simp
qed

text \<open>Running the tokens of the entries in order, up to the first that fails.\<close>

lemma run_entries:
  fixes f :: "string \<times> 'c \<Rightarrow> (string \<times> 'e, string \<times> 't) action list"
  assumes "\<And>k c. (k, c) \<in> set es \<Longrightarrow> refused (f (k, c)) = [] \<Longrightarrow> map fst (registered (f (k, c))) = [k]"
    and "\<And>k c. (k, c) \<in> set es \<Longrightarrow> refused (f (k, c)) \<noteq> [] \<Longrightarrow> \<exists>e rest. f (k, c) = Refuse (k, e) # rest"
    and "run_actions accept_all (concat (map f es)) made = (Some (Inl (k, e)), out)" and "sorted (map fst es)" and "distinct (map fst es)"
  shows "k \<in> fst ` set es \<and> map fst out = map fst made @ filter (\<lambda>j. j < k) (map fst es)"
  using assms
proof (induction es arbitrary: made)
  case (Cons x es)
  obtain j c where x: "x = (j, c)" by (cases x)
  show ?case
  proof (cases "refused (f (j, c)) = []")
    case True
    then have run: "run_actions accept_all (f (j, c)) made = (None, made @ registered (f (j, c)))"
      by (simp add: run_actions_None accept_all_def)
    with Cons.prems(3) have rest: "run_actions accept_all (concat (map f es)) (made @ registered (f (j, c))) = (Some (Inl (k, e)), out)"
      by (simp add: x run_actions_append)
    have ih: "k \<in> fst ` set es \<and> map fst out = map fst (made @ registered (f (j, c))) @ filter (\<lambda>j. j < k) (map fst es)"
      by (rule Cons.IH [OF _ _ rest]) (use Cons.prems in auto)
    moreover have "map fst (registered (f (j, c))) = [j]" using Cons.prems(1) True by (simp add: x)
    moreover have "j < k"
    proof -
      from ih have "k \<in> set (map fst es)" by auto
      with Cons.prems(4,5) have "j \<le> k" "j \<noteq> k" unfolding x by auto
      then show ?thesis by simp
    qed
    ultimately show ?thesis by (simp add: x)
  next
    case False
    with Cons.prems(2) obtain e' rest where "f (j, c) = Refuse (j, e') # rest" unfolding x by (metis list.set_intros(1))
    with Cons.prems(3) have "k = j" "out = made" by (simp_all add: x)
    moreover have "filter (\<lambda>i. i < j) (map fst (x # es)) = []"
      using Cons.prems(4) by (auto simp: x filter_empty_conv)
    ultimately show ?thesis by (simp add: x)
  qed
qed simp

text \<open>A policy of a minted token comes from one of its configuration.\<close>

lemma minted_policy:
  assumes "refused (NewChildToken now listed name (Some a) cfg) = []"
    and "(child, tok) \<in> set (registered (NewChildToken now listed name (Some a) cfg))"
    and "q \<in> set (at_policies tok)" and "gid \<in> set (ap_group_ids q)"
    and "\<forall>g rs. listed a g = Some rs \<longrightarrow> (\<forall>(n, i)\<in>set rs. named i = n)"
  shows "\<exists>p\<in>set (cc_policies cfg). \<exists>s. tp_scope p = Some s \<and> scope_validate s = None \<and>
     ap_resources q = json_resources (resourceKey s a) \<and> ap_effect q = ''allow'' \<and> named gid \<in> set (tp_groups p) \<and>
     named gid \<notin> {permissionAccountAPITokensRead, permissionAccountAPITokensWrite}"
proof (rule NewChildToken_accepted [OF assms(1)])
  fix policies
  assume valid: "ChildToken_Validate now cfg = None" and made: "collect (policy_args listed a) (enumerate 0 (cc_policies cfg)) = Inr policies"
    and reg: "registered (NewChildToken now listed name (Some a) cfg) = [(name,
       \<lparr>at_account_id = a, at_name = token_name cfg, at_policies = policies,
        at_expires_on = (if cc_expires_on cfg = [] then None else Some (cc_expires_on cfg)), at_replace_on = [''name'']\<rparr>)]"
  from assms(2,3) reg have "q \<in> set policies" by auto
  with made have "Inr q \<in> policy_args listed a ` set (enumerate 0 (cc_policies cfg))"
    unfolding collect_Inr by (metis image_eqI list.set_map)
  then obtain i p where q: "policy_args listed a (i, p) = Inr q" and p: "p \<in> set (cc_policies cfg)"
    by (auto simp: in_set_enumerate_eq)
  from ChildToken_Validate_policies [OF valid p] obtain s where s: "tp_scope p = Some s" "scope_validate s = None"
    "permissionAccountAPITokensRead \<notin> set (tp_groups p)" "permissionAccountAPITokensWrite \<notin> set (tp_groups p)"
    unfolding validate_policy_None by blast
  from policy_args_Inr(1) [OF q] assms(4) have "Inr gid \<in> lookupPermissionGroupID listed i a ` set (tp_groups p)"
    unfolding collect_Inr by (metis image_eqI list.set_map)
  then obtain g where g: "g \<in> set (tp_groups p)" "lookupPermissionGroupID listed i a g = Inr gid" by auto
  from lookup_listed [OF g(2)] assms(5) have "named gid = g" by blast
  with g s policy_args_Inr(2,3) [OF q] p show ?thesis by (intro bexI [of _ p] exI [of _ s]) auto
qed

text \<open>A set that is minted whole minted each of its tokens.\<close>

lemma NewChildTokenSet_member:
  assumes "refused (NewChildTokenSet now listed acct cfgs) = []" and "(k, tok) \<in> set (registered (NewChildTokenSet now listed acct cfgs))"
  obtains cfg where "mget cfgs k = Some cfg" and "refused (NewChildToken now listed k acct cfg) = []"
    and "(k, tok) \<in> set (registered (NewChildToken now listed k acct cfg))"
proof -
  from assms(2) obtain j cfg where entry: "(j, cfg) \<in> set (sorted_entries cfgs)"
    and reg: "(k, tok) \<in> set (registered (NewChildToken now listed j acct cfg))"
    by (auto simp: NewChildTokenSet_def registered_concat registered_map_action)
  from entry assms(1) have ok: "refused (NewChildToken now listed j acct cfg) = []"
    by (fastforce simp: NewChildTokenSet_def refused_concat refused_map_action)
  from reg have "k \<in> set (map fst (registered (NewChildToken now listed j acct cfg)))" by force
  then have "j = k" unfolding NewChildToken_registered [OF ok] by simp
  with entry reg ok that show thesis by (simp add: sorted_entries_map_of mget_def)
qed

section \<open>Properties\<close>

definition sample_zone_id :: string where
  "sample_zone_id = ''506e3185e9c882d175a2d0cb0093d9f2''"

definition sample_child :: child_config where
  "sample_child = \<lparr>cc_name = ''cloudflare-edge'', cc_rotation = ''r1'', cc_expires_on = ''2030-01-01T00:00:00Z'',
     cc_policies = EdgePoliciesWithWAF [sample_zone_id] [sample_zone_id]\<rparr>"

definition sample_groups :: group_list where
  "sample_groups accountID name = Some [(name, ''id of '' @ name), (name @ '' more'', ''id of '' @ name @ '' more'')]"

text \<open>A resource key names one resource: two valid scopes with one key are the same scope, up to the
  two spellings of no jurisdiction, and of the same account where the scope depends on one. Account
  ids hold no dot.\<close>

theorem ResourceKey_injective:
  assumes "ResourceKey (Some s) a = Inr k" and "ResourceKey (Some s') a' = Inr k" and "CHR ''.'' \<notin> set a" and "CHR ''.'' \<notin> set a'"
  shows "scope_resource s a = scope_resource s' a'"
  using assms ResourceKey_Inr resourceKey_inj by metis

theorem ResourceKey_injective_witness:
  "scope_resource (R2BucketScope [] ''my-bucket'') ''a_default'' = scope_resource (R2BucketScope ''default'' ''my-bucket'') ''a_default''"
  by (rule ResourceKey_injective [of _ _ "''com.cloudflare.edge.r2.bucket.a_default_default_my-bucket''"]) code_simp+

text \<open>C31 A minted token holds, for each policy of its configuration, the permission groups named there,
  each the only group of exactly that name, on the one resource of the policy's scope; none of them
  is a group that can mint or read tokens. An id of the account's list stands for one name.\<close>

theorem NewChildToken_grants:
  assumes "refused (NewChildToken now listed name (Some a) cfg) = []"
    and "(child, tok) \<in> set (registered (NewChildToken now listed name (Some a) cfg))"
    and "q \<in> set (at_policies tok)" and "gid \<in> set (ap_group_ids q)"
    and "\<forall>g rs. listed a g = Some rs \<longrightarrow> (\<forall>(n, i)\<in>set rs. named i = n)"
  shows "\<exists>p\<in>set (cc_policies cfg). \<exists>s. tp_scope p = Some s \<and> scope_validate s = None \<and>
     ap_resources q = json_resources (resourceKey s a) \<and> ap_effect q = ''allow'' \<and> named gid \<in> set (tp_groups p) \<and>
     named gid \<notin> {permissionAccountAPITokensRead, permissionAccountAPITokensWrite}"
  using assms by (rule minted_policy)

lemma sample_child_refused: "refused (NewChildToken 0 sample_groups ''edge'' (Some ''acc'') sample_child) = []"
  by code_simp

theorem NewChildToken_grants_witness:
  "\<exists>p\<in>set (cc_policies sample_child). ''DNS Write'' \<in> set (tp_groups p)"
proof -
  let ?child = "hd (registered (NewChildToken 0 sample_groups ''edge'' (Some ''acc'') sample_child))"
  have member: "(fst ?child, snd ?child) \<in> set (registered (NewChildToken 0 sample_groups ''edge'' (Some ''acc'') sample_child))"
    by code_simp
  have policy: "at_policies (snd ?child) ! 1 \<in> set (at_policies (snd ?child))" by code_simp
  have gid: "''id of DNS Write'' \<in> set (ap_group_ids (at_policies (snd ?child) ! 1))" by code_simp
  have named: "\<forall>g rs. sample_groups ''acc'' g = Some rs \<longrightarrow> (\<forall>(n, i)\<in>set rs. drop 6 i = n)" by (auto simp: sample_groups_def)
  from NewChildToken_grants [OF sample_child_refused member policy gid named] obtain p where
    "p \<in> set (cc_policies sample_child)" "drop 6 ''id of DNS Write'' \<in> set (tp_groups p)" by blast
  with this show ?thesis by (intro bexI [of _ p]) simp
qed

text \<open>Minting a set of tokens stops at the first name, in ascending order, whose token is refused: the
  tokens of exactly the names before it stay minted.\<close>

theorem NewChildTokenSet_stops:
  assumes "wf_map cfgs" and "run_actions accept_all (NewChildTokenSet now listed acct cfgs) [] = (Some (Inl (k, e)), out)"
  shows "has_key cfgs k \<and> map fst out = filter (\<lambda>j. j < k) (sorted_keys cfgs)"
proof -
  let ?f = "\<lambda>(k, cfg). map (map_action (Pair k) (\<lambda>r. r)) (NewChildToken now listed k acct cfg)"
  have keys: "map fst (sorted_entries cfgs) = sorted_keys cfgs" by (simp add: sorted_entries_def comp_def)
  have "k \<in> fst ` set (sorted_entries cfgs) \<and> map fst out = map fst ([] :: token_child list) @ filter (\<lambda>j. j < k) (map fst (sorted_entries cfgs))"
  proof (rule run_entries [where f = ?f and e = e])
    show "run_actions accept_all (concat (map ?f (sorted_entries cfgs))) [] = (Some (Inl (k, e)), out)"
      using assms(2) by (simp add: NewChildTokenSet_def)
    show "map fst (registered (?f (k, c))) = [k]" if "refused (?f (k, c)) = []" for k c
      using that NewChildToken_registered by (simp add: refused_map_action registered_map_action)
    show "\<exists>e rest. ?f (k, c) = Refuse (k, e) # rest" if "refused (?f (k, c)) \<noteq> []" for k c
      using that NewChildToken_failed [of now listed k acct c] by (auto simp: refused_map_action)
  qed (use assms(1) in \<open>simp_all add: keys wf_map_def\<close>)
  then have "k \<in> set (map fst (sorted_entries cfgs)) \<and> map fst out = filter (\<lambda>j. j < k) (map fst (sorted_entries cfgs))"
    by (simp only: set_map list.map append_Nil)
  then show ?thesis unfolding keys by (simp add: has_key_iff)
qed

definition sample_set :: "child_config gomap" where
  "sample_set = [(''status'', sample_child\<lparr>cc_policies := []\<rparr>), (''edge'', sample_child), (''zone'', sample_child)]"

theorem NewChildTokenSet_stops_witness:
  "map fst (snd (run_actions accept_all (NewChildTokenSet 0 sample_groups (Some ''acc'') sample_set) [])) = [''edge'']"
proof -
  have "fst (run_actions accept_all (NewChildTokenSet 0 sample_groups (Some ''acc'') sample_set) []) = Some (Inl (''status'', ECTNoPolicy))"
    by code_simp
  then have "run_actions accept_all (NewChildTokenSet 0 sample_groups (Some ''acc'') sample_set) [] =
      (Some (Inl (''status'', ECTNoPolicy)), snd (run_actions accept_all (NewChildTokenSet 0 sample_groups (Some ''acc'') sample_set) []))"
    by (metis prod.collapse)
  from NewChildTokenSet_stops [OF _ this] have "map fst (snd (run_actions accept_all (NewChildTokenSet 0 sample_groups (Some ''acc'') sample_set) [])) =
      filter (\<lambda>j. j < ''status'') (sorted_keys sample_set)" by (simp add: wf_map_def sample_set_def)
  also have "\<dots> = [''edge'']" by code_simp
  finally show ?thesis .
qed

text \<open>The edge grant passes validation exactly for zone ids of Cloudflare's shape, with the WAF, bot
  management and security.txt grants appended or not: none of its groups is one a child may not hold.\<close>

theorem edge_policies_valid:
  "ChildToken_Validate now \<lparr>cc_name = n, cc_rotation = r, cc_expires_on = [],
       cc_policies = EdgePoliciesWithWAF waf zs @ BotManagementPolicies bots @ SecurityTxtPolicies txts\<rparr> = None \<longleftrightarrow>
     n \<noteq> [] \<and> list_all rotation_char r \<and> list_all zoneIDValid (zs @ waf @ bots @ txts)"
proof -
  have policies: "first_err validate_policy (enumerate i ps) = None \<longleftrightarrow> list_all (\<lambda>p. validate_policy (0, p) = None) ps" for i ps
    by (induction ps arbitrary: i) (simp_all add: validate_policy_None)
  have zone: "validate_policy (0, on_zone gs z) = None \<longleftrightarrow> zoneIDValid z"
    if "gs \<noteq> []" "[] \<notin> set gs" "permissionAccountAPITokensRead \<notin> set gs" "permissionAccountAPITokensWrite \<notin> set gs" for gs z
    using that by (simp add: validate_policy_None on_zone_def scope_validate_def fail_if_def)
  have account: "validate_policy (0, whole_account [''Cloudflare Tunnel Write'']) = None"
    by (simp add: validate_policy_None whole_account_def scope_validate_def permissionAccountAPITokensRead_def permissionAccountAPITokensWrite_def)
  show ?thesis
    unfolding ChildToken_Validate_def first_of_None policies
    by (simp add: EdgePoliciesWithWAF_def EdgePolicies_def ZonePolicies_def BotManagementPolicies_def SecurityTxtPolicies_def
        list_all_iff account zone rotationValid_def permissionAccountAPITokensRead_def permissionAccountAPITokensWrite_def
        PermBotManagementWrite_def PermZoneSettingsWrite_def fail_if_def ball_Un conj_ac)
qed

end
