(* ===== verification/Config_Validate.thy ===== *)
theory Config_Validate imports Config_Model Catalog_Queries Account_Tokens begin

text \<open>
  \<open>cloudflare/config/config.go\<close>: the checks of the registry (\<open>validateRegistry\<close> and what it calls) and
  of the registry with its tunnels (\<open>Validate\<close>), check by check in the code's order. A check of a zone's
  block that calls \<open>zonespec\<close>'s own is the call, on arguments with that block alone.
\<close>

section \<open>Patterns\<close>

definition objectName :: rx where
  "objectName = Cat (Cls is_lower_letter) (Cat (rx_upto 30 (Cls lower_alnum_dash)) (Cls slug_char))"

definition CompanyPattern :: rx where
  "CompanyPattern = Cat (Cls is_lower_letter) (Star (Cls lower_alnum_dash))"

fun rx_word :: "string \<Rightarrow> rx" where
  "rx_word [] = Eps"
| "rx_word (c # s) = Cat (rx_lit c) (rx_word s)"

definition rx_times :: "nat \<Rightarrow> rx \<Rightarrow> rx" where
  "rx_times n r = fold (\<lambda>_. Cat r) [0..<n] Eps"

definition originTargetPattern :: rx where
  "originTargetPattern = Cat (rx_word ''d-'') (Cat (Cat (rx_times 6 (Cls slug_char)) (Star (Cls slug_char)))
     (Cat (rx_word ''.execute-api.'') (Cat (rx_plus (Cls lower_alnum_dash)) (rx_word ''.amazonaws.com''))))"

definition rulesetIDPattern :: rx where
  "rulesetIDPattern = rx_times 32 (Cls hex_char)"

definition pattern_space :: "char \<Rightarrow> bool" where
  "pattern_space c \<longleftrightarrow> c \<in> {CHR 0x09, CHR 0x0A, CHR 0x0C, CHR 0x0D, CHR '' ''}"

definition name_char :: "char \<Rightarrow> bool" where
  "name_char c \<longleftrightarrow> slug_char c \<or> c = CHR ''.'' \<or> c = CHR ''-''"

definition securityTxtContact :: rx where
  "securityTxtContact = Alt
     (Cat (rx_word ''mailto:'') (Cat (rx_plus (Cls (\<lambda>c. c \<noteq> CHR ''@'' \<and> \<not> pattern_space c))) (Cat (rx_lit CHR ''@'')
        (Cat (rx_plus (Cls name_char)) (Cat (rx_lit CHR ''.'') (rx_plus (Cls is_lower_letter)))))))
     (Cat (rx_word ''https://'') (Cat (rx_plus (Cls name_char)) (rx_opt (Cat (rx_lit CHR ''/'') (Star (Cls (\<lambda>c. \<not> pattern_space c)))))))"

section \<open>Blocks of a zone\<close>

datatype zone_cfg_error =
    CZName
  | CZAccount string
  | CZManage manage_error
  | CZPendingBesideId
  | CZPendingLegacy string
  | CZZoneId
  | CZNoSSLMode
  | CZSSLMode string
  | CZTrusted zone_error
  | CZRateHost nat nat string
  | CZRateLimits zone_error
  | CZRecords zone_error
  | CZOriginHost string
  | CZOriginTarget string string
  | CZWAFBoth
  | CZWAFWildcard nat string
  | CZHardening zone_error
  | CZPreload
  | CZHSTSFirst
  | CZNoContact
  | CZContact nat string
  | CZExpires string
  | CZPublicNoCache
  | CZPublicHost string
  | CZPublicTTL string
  | CZPublicRange int
  | CZRuleHost string
  | CZRuleMode string string
  | CZRefHost string
  | CZRef string string
  | CZImportAlone
  | CZImport string

abbreviation "block_args zone \<equiv> validation_args\<lparr>za_zone_id := zone\<rparr>"

definition cfg_name_chars :: string where
  "cfg_name_chars = ''*/:'' @ [CHR 0x22] @ '' ''"

text \<open>A lower-case exact hostname inside a zone, not the zone itself.\<close>

definition exact_inside :: "string \<Rightarrow> string \<Rightarrow> bool" where
  "exact_inside zone host \<longleftrightarrow> host = to_lower host \<and> \<not> contains_any host cfg_name_chars \<and> has_suffix host (''.'' @ zone)"

definition validate_trusted_cfg :: "string \<Rightarrow> trusted_clients_cfg option \<Rightarrow> zone_cfg_error option" where
  "validate_trusted_cfg zone t = (case t of None \<Rightarrow> None
    | Some _ \<Rightarrow> map_option CZTrusted (Args_Validate ((block_args zone)\<lparr>za_trusted_clients := TrustedClientsCfg_Library zone t\<rparr>)))"

definition validate_rate_limits_cfg :: "string \<Rightarrow> rate_limits_cfg option \<Rightarrow> zone_cfg_error option" where
  "validate_rate_limits_cfg zoneName r = (case r of None \<Rightarrow> None
    | Some rl \<Rightarrow> first_of [
        first_err (\<lambda>(i, rule). first_err (\<lambda>(j, e).
            fail_if (epc_host e \<noteq> zoneName \<and> \<not> has_suffix (epc_host e) (''.'' @ zoneName)) (CZRateHost i j (epc_host e)))
          (enumerate 0 (rrc_endpoints rule))) (enumerate 0 (rlc_rules rl)),
        map_option CZRateLimits (Args_Validate ((block_args ''validate'')\<lparr>za_rate_limits := RateLimitsCfg_Library r\<rparr>))])"

definition validateRecords :: "zone_cfg \<Rightarrow> string \<Rightarrow> zone_cfg_error option" where
  "validateRecords z zone = (case RecordsLibrary z zone of None \<Rightarrow> None
    | Some recs \<Rightarrow> map_option CZRecords (Args_Validate ((block_args zone)\<lparr>za_records := Some recs\<rparr>)))"

definition validateOriginCNAMEs :: "zone_cfg \<Rightarrow> string \<Rightarrow> zone_cfg_error option" where
  "validateOriginCNAMEs z zone = first_err (\<lambda>(host, origin). first_of [
     fail_if (\<not> exact_inside zone host) (CZOriginHost host),
     fail_if (origin \<noteq> [] \<and> \<not> rx_match originTargetPattern origin) (CZOriginTarget host origin)])
     (sorted_entries (nil_list (zn_origin_cnames z)))"

definition validateManagedWAF :: "zone_cfg \<Rightarrow> zone_cfg_error option" where
  "validateManagedWAF z = (case zn_managed_waf z of None \<Rightarrow> None
    | Some m \<Rightarrow> first_of [
        fail_if (mwc_enabled m \<and> (mwc_hosts m \<noteq> [] \<or> mwc_whole_zone m)) CZWAFBoth,
        first_err (\<lambda>(i, h). fail_if (CHR ''*'' \<in> set h) (CZWAFWildcard i h)) (enumerate 0 (mwc_hosts m))])"

definition hardening_args :: "zone_cfg \<Rightarrow> string \<Rightarrow> zone_args" where
  "hardening_args z zone = (block_args zone)\<lparr>za_always_use_https := zn_always_use_https z, za_hsts := HSTSCfg_Library (zn_hsts z),
     za_managed_waf := (if zn_managed_waf z \<noteq> None \<and> \<not> waf_enabled z then ManagedWAFCfg_Library zone (zn_managed_waf z) else None),
     za_bot_management := BotManagementCfg_Library (zn_bot_management z)\<rparr>"

definition validate_hsts_cfg :: "zone_cfg \<Rightarrow> hsts_cfg \<Rightarrow> zone_cfg_error option" where
  "validate_hsts_cfg z h = first_of [
     fail_if (hc_preload h) CZPreload,
     fail_if (hc_enabled h \<and> zn_always_use_https z \<noteq> Some True) CZHSTSFirst]"

definition validate_security_txt :: "security_txt_cfg \<Rightarrow> zone_cfg_error option" where
  "validate_security_txt t = first_of [
     fail_if (stc_contact t = []) CZNoContact,
     first_err (\<lambda>(i, c). fail_if (\<not> rx_match securityTxtContact c) (CZContact i c)) (enumerate 0 (stc_contact t)),
     fail_if (parse_RFC3339 (stc_expires t) = None) (CZExpires (stc_expires t))]"

definition validateHardening :: "zone_cfg \<Rightarrow> string \<Rightarrow> zone_cfg_error option" where
  "validateHardening z zone = first_of [
     validateManagedWAF z,
     (if zn_always_use_https z \<noteq> None \<or> zn_hsts z \<noteq> None \<or> za_managed_waf (hardening_args z zone) \<noteq> None \<or> zn_bot_management z \<noteq> None
      then map_option CZHardening (Args_Validate (hardening_args z zone)) else None),
     on_block (validate_hsts_cfg z) (zn_hsts z),
     on_block validate_security_txt (zn_security_txt z)]"

definition maxPublicCacheTTL :: int where
  "maxPublicCacheTTL = 3600 * second"

definition validate_public_cache :: "public_cache_cfg option \<Rightarrow> string \<Rightarrow> bool \<Rightarrow> zone_cfg_error option" where
  "validate_public_cache p zone hasCache = (case p of None \<Rightarrow> None
    | Some p \<Rightarrow> first_of [
        fail_if (\<not> hasCache) CZPublicNoCache,
        fail_if (pcc_host p = [] \<or> \<not> exact_inside zone (pcc_host p)) (CZPublicHost (pcc_host p)),
        (if pcc_ttl p = [] then None
         else case ParseDuration (pcc_ttl p) of
             None \<Rightarrow> Some (CZPublicTTL (pcc_ttl p))
           | Some d \<Rightarrow> fail_if (d < second \<or> maxPublicCacheTTL < d \<or> d mod second \<noteq> 0) (CZPublicRange d))])"

definition sslModeRuleModes :: "string list" where
  "sslModeRuleModes = [''full'', ''strict'']"

definition validateSSLModeRules :: "zone_cfg \<Rightarrow> string \<Rightarrow> zone_cfg_error option" where
  "validateSSLModeRules z zone = first_of [
     first_err (\<lambda>(host, mode). first_of [
        fail_if (\<not> exact_inside zone host) (CZRuleHost host),
        fail_if (mode \<notin> set sslModeRuleModes) (CZRuleMode host mode)]) (sorted_entries (nil_list (zn_ssl_mode_rules z))),
     first_err (\<lambda>(host, ref). first_of [
        fail_if (\<not> has_key (nil_list (zn_ssl_mode_rules z)) host) (CZRefHost host),
        fail_if (\<not> rx_match rulesetIDPattern ref) (CZRef host ref)]) (sorted_entries (nil_list (zn_ssl_mode_rule_refs z))),
     (let rid = zn_config_rules_import_id z in
      if rid = [] then None
      else first_of [
        fail_if (nil_list (zn_ssl_mode_rules z) = []) CZImportAlone,
        fail_if (\<not> rx_match rulesetIDPattern rid) (CZImport rid)])]"

definition validateEdge :: "zone_cfg \<Rightarrow> string \<Rightarrow> zone_cfg_error option" where
  "validateEdge z zone = first_of [
     validateRecords z zone,
     validateOriginCNAMEs z zone,
     validateHardening z zone,
     validate_public_cache (zn_public_cache z) zone (zn_cache z \<noteq> None),
     validateSSLModeRules z zone]"

section \<open>The registry\<close>

definition account_legacy :: "registry \<Rightarrow> string \<Rightarrow> bool" where
  "account_legacy c name = (case mget (rg_accounts c) name of None \<Rightarrow> False | Some a \<Rightarrow> ac_legacy_names a)"

definition validate_zone_cfg :: "registry \<Rightarrow> string \<times> zone_cfg \<Rightarrow> zone_cfg_error option" where
  "validate_zone_cfg c = (\<lambda>(name, z). first_of [
     fail_if (name \<noteq> to_lower name \<or> CHR ''.'' \<notin> set name \<or> CHR ''*'' \<in> set name) CZName,
     fail_if (\<not> has_key (rg_accounts c) (zn_account z)) (CZAccount (zn_account z)),
     map_option CZManage (validateManage z),
     (if SecurityTxtOnly z then validateHardening z name
      else first_of [
        fail_if (zn_zone_id_pending z \<and> zn_zone_id z \<noteq> []) CZPendingBesideId,
        fail_if (zn_zone_id_pending z \<and> account_legacy c (zn_account z)) (CZPendingLegacy (zn_account z)),
        fail_if (\<not> zn_zone_id_pending z \<and> zn_zone_id z = []) CZZoneId,
        fail_if (zn_ssl_mode z = []) CZNoSSLMode,
        fail_if (zn_ssl_mode z \<notin> set sslModeRuleModes) (CZSSLMode (zn_ssl_mode z)),
        validate_trusted_cfg name (zn_trusted_clients z),
        validate_rate_limits_cfg name (zn_rate_limits z),
        validateEdge z name])])"

datatype account_cfg_error =
    CAName
  | CAAccountId
  | CARoot
  | CACompany string

definition validate_account_cfg :: "string \<times> account_cfg \<Rightarrow> account_cfg_error option" where
  "validate_account_cfg = (\<lambda>(name, a). first_of [
     fail_if (\<not> rx_match objectName name) CAName,
     fail_if (ac_account_id a = []) CAAccountId,
     fail_if (ac_legacy_names a \<and> ac_root a \<noteq> None) CARoot,
     fail_if (ac_company a \<noteq> [] \<and> \<not> rx_match CompanyPattern (ac_company a)) (CACompany (ac_company a))])"

datatype r2_error =
    CRName
  | CRAccount string
  | CRBucket
  | CRJurisdiction string
  | CRLifecycle
  | CRPermission string

definition validate_r2_bucket :: "registry \<Rightarrow> string \<times> r2_bucket \<Rightarrow> r2_error option" where
  "validate_r2_bucket c = (\<lambda>(name, b). first_of [
     fail_if (\<not> rx_match objectName name) CRName,
     (if \<not> rb_enabled b then None
      else first_of [
        fail_if (\<not> has_key (rg_accounts c) (rb_account b)) (CRAccount (rb_account b)),
        fail_if (rb_bucket b = []) CRBucket,
        fail_if (\<not> ValidJurisdiction (rb_jurisdiction b)) (CRJurisdiction (rb_jurisdiction b)),
        (case rb_lifecycle b of None \<Rightarrow> None | Some days \<Rightarrow> fail_if (days \<le> 0) CRLifecycle),
        fail_if (rt_permission (rb_token b) \<notin> set R2Permissions) (CRPermission (rt_permission (rb_token b)))])])"

datatype tunnel_cfg_error =
    CTTwice
  | CTAccount
  | CTLegacy
  | CTZone string
  | CTNoZone string
  | CTForeign string string
  | CTNoHost
  | CTHostEmpty nat
  | CTHostZone nat string string

datatype cfg_error =
    CFGNoAccount
  | CFGAccount string account_cfg_error
  | CFGLegacy "string list"
  | CFGNoZone
  | CFGZone string zone_cfg_error
  | CFGService
  | CFGNamespace
  | CFGR2 string r2_error
  | CFGNoTunnel
  | CFGTunnel string string tunnel_cfg_error
  | CFGOrigin string string
  | CFGRecord string string string
  | CFGRouting routing_error

definition validateR2 :: "registry \<Rightarrow> cfg_error option" where
  "validateR2 c = first_err (\<lambda>kv. map_option (CFGR2 (fst kv)) (validate_r2_bucket c kv)) (sorted_entries (rg_r2 c))"

definition legacy_accounts :: "registry \<Rightarrow> string list" where
  "legacy_accounts c = map fst (filter (\<lambda>(name, a). ac_legacy_names a) (sorted_entries (rg_accounts c)))"

definition validateRegistry :: "registry \<Rightarrow> cfg_error option" where
  "validateRegistry c = first_of [
     fail_if (rg_accounts c = []) CFGNoAccount,
     first_err (\<lambda>kv. map_option (CFGAccount (fst kv)) (validate_account_cfg kv)) (sorted_entries (rg_accounts c)),
     fail_if (1 < length (legacy_accounts c)) (CFGLegacy (legacy_accounts c)),
     fail_if (rg_zones c = []) CFGNoZone,
     first_err (\<lambda>kv. map_option (CFGZone (fst kv)) (validate_zone_cfg c kv)) (sorted_entries (rg_zones c)),
     fail_if (rg_service c = []) CFGService,
     fail_if (rg_namespace c = []) CFGNamespace,
     validateR2 c]"

section \<open>The registry with its tunnels\<close>

definition managedZoneNames :: "registry \<Rightarrow> string list" where
  "managedZoneNames c = map fst (filter (\<lambda>(name, z). \<not> SecurityTxtOnly z) (sorted_entries (rg_zones c)))"

definition Registry_ZoneOf :: "registry \<Rightarrow> string \<Rightarrow> string" where
  "Registry_ZoneOf c host = ZoneOf (managedZoneNames c) host"

definition validate_tunnel_zone :: "registry \<Rightarrow> cfg_tunnel \<Rightarrow> string \<Rightarrow> tunnel_cfg_error option" where
  "validate_tunnel_zone c t name = (case mget (rg_zones c) name of
      None \<Rightarrow> Some (CTNoZone name)
    | Some zone \<Rightarrow> fail_if (zn_account zone \<noteq> ct_account t) (CTForeign name (zn_account zone)))"

definition validate_cfg_host :: "registry \<Rightarrow> cfg_tunnel \<Rightarrow> nat \<times> string \<Rightarrow> tunnel_cfg_error option" where
  "validate_cfg_host c t = (\<lambda>(i, host). first_of [
     fail_if (trim_space host = []) (CTHostEmpty i),
     fail_if (Registry_ZoneOf c host \<notin> set (InZones t)) (CTHostZone i host (Registry_ZoneOf c host))])"

definition validate_cfg_tunnel :: "registry \<Rightarrow> cfg_tunnel \<Rightarrow> tunnel_cfg_error option" where
  "validate_cfg_tunnel c t = (case mget (rg_accounts c) (ct_account t) of
      None \<Rightarrow> Some CTAccount
    | Some account \<Rightarrow> first_of [
        fail_if (ct_legacy_names t \<noteq> ac_legacy_names account) CTLegacy,
        fail_if (ct_zone t \<notin> set (InZones t)) (CTZone (ct_zone t)),
        first_err (validate_tunnel_zone c t) (InZones t),
        fail_if (ct_hosts t = []) CTNoHost,
        first_err (validate_cfg_host c t) (enumerate 0 (ct_hosts t))])"

definition tunnel_key_text :: "cfg_tunnel \<Rightarrow> string" where
  "tunnel_key_text t = ct_cluster t @ ''/'' @ ct_account t"

fun cfg_tunnels_loop :: "registry \<Rightarrow> string list \<Rightarrow> cfg_tunnel list \<Rightarrow> cfg_error option" where
  "cfg_tunnels_loop c seen [] = None"
| "cfg_tunnels_loop c seen (t # ts) =
     (if tunnel_key_text t \<in> set seen then Some (CFGTunnel (ct_cluster t) (ct_account t) CTTwice)
      else case validate_cfg_tunnel c t of
          Some e \<Rightarrow> Some (CFGTunnel (ct_cluster t) (ct_account t) e)
        | None \<Rightarrow> cfg_tunnels_loop c (tunnel_key_text t # seen) ts)"

definition validateOriginTunnels :: "registry \<Rightarrow> cfg_error option" where
  "validateOriginTunnels c = first_err (\<lambda>(name, z). first_err (\<lambda>host.
       fail_if (\<not> list_ex (\<lambda>t. OwnsRecord t name host) (rg_tunnels c)) (CFGOrigin name host))
     (sorted_keys (nil_list (zn_origin_cnames z)))) (sorted_entries (rg_zones c))"

definition validateRecordTunnels :: "registry \<Rightarrow> cfg_error option" where
  "validateRecordTunnels c = first_err (\<lambda>(name, z). first_err (\<lambda>r. first_err (\<lambda>t.
       fail_if (OwnsRecord t name (rc_name r)) (CFGRecord name (rc_name r) (Tunnel_Name t)))
     (rg_tunnels c)) (nil_list (zn_records z))) (sorted_entries (rg_zones c))"

definition validateDomainRouting :: "registry \<Rightarrow> cfg_error option" where
  "validateDomainRouting c = map_option CFGRouting (ValidateRouting (map (\<lambda>t. (edge_tunnel t)\<lparr>tun_dns_elsewhere := []\<rparr>) (rg_tunnels c)))"

definition Registry_Validate :: "registry \<Rightarrow> cfg_error option" where
  "Registry_Validate c = first_of [
     validateRegistry c,
     fail_if (rg_tunnels c = []) CFGNoTunnel,
     cfg_tunnels_loop c [] (rg_tunnels c),
     validateOriginTunnels c,
     validateRecordTunnels c,
     validateDomainRouting c]"

definition TunnelsOn :: "registry \<Rightarrow> string \<Rightarrow> cfg_tunnel list" where
  "TunnelsOn c cluster = filter (\<lambda>t. ct_cluster t = cluster) (rg_tunnels c)"

definition Clusters :: "registry \<Rightarrow> string list" where
  "Clusters c = sort (foldl (\<lambda>out t. if ct_cluster t \<in> set out then out else out @ [ct_cluster t]) [] (rg_tunnels c))"

section \<open>Foreign hosts\<close>

datatype foreign_error =
    CFNone
  | CFNoZone string string

definition ValidateForeignHosts :: "registry \<Rightarrow> string list gomap option \<Rightarrow> foreign_error option" where
  "ValidateForeignHosts c foreign = (case foreign of None \<Rightarrow> Some CFNone
    | Some hosts \<Rightarrow> first_err (\<lambda>(env, hs). first_err (\<lambda>host. fail_if (Registry_ZoneOf c host = []) (CFNoZone env host)) hs)
        (sorted_entries hosts))"

end
