(* ===== verification/Config_Derive.thy ===== *)
theory Config_Derive imports Config_Validate begin

text \<open>
  \<open>cloudflare/config/config.go\<close>: \<open>Parse\<close> after the decoding, \<open>derive\<close>, \<open>deriveWAF\<close>, \<open>AddWAFHosts\<close> and
  \<open>Load\<close>, which puts the registry and the edge catalog together. The catalog's tunnel-served exposures,
  flattened, are the input of \<open>edgespec.Derive\<close>; what it derives becomes the registry's tunnels and the
  hosts of its zones. A zone named by what is derived is a zone of the registry, so writing its hosts
  back updates an entry.
\<close>

section \<open>Derive\<close>

definition exposure_group :: "string \<Rightarrow> named_group \<Rightarrow> edge_group" where
  "exposure_group cluster g =
     \<lparr>eg_name = ng_name g, eg_cluster = cluster, eg_hosts = Hosts (ng_group g),
      eg_route_namespaces = grp_route_namespaces (ng_group g),
      eg_dns_elsewhere = map dom_host (filter dom_dns_elsewhere (grp_domains (ng_group g))),
      eg_waf_off = map dom_host (filter (\<lambda>d. \<not> WAFCovered d) (grp_domains (ng_group g)))\<rparr>"

definition derive_exposures :: "catalog \<Rightarrow> edge_exposure list" where
  "derive_exposures cat = concat (map (\<lambda>(name, e).
     if ex_arrival e \<noteq> ArrivalCloudflareTunnel then []
     else [\<lparr>ee_name = name, ee_accounts = ex_cloudflare_accounts e,
       ee_groups = concat (map (\<lambda>cluster. map (exposure_group cluster) (Groups cat name cluster)) (sorted_keys (ex_clusters e)))\<rparr>])
     (sorted_entries (cat_exposures cat)))"

definition edge_zones :: "registry \<Rightarrow> (string \<times> zone_cfg) list" where
  "edge_zones c = filter (\<lambda>(name, z). \<not> SecurityTxtOnly z) (rg_zones c)"

definition registry_input :: "registry \<Rightarrow> catalog \<Rightarrow> project list \<Rightarrow> edge_input" where
  "registry_input c cat projects =
     \<lparr>ei_exposures = derive_exposures cat,
      ei_zones = map (\<lambda>(name, z). (name, zn_account z)) (edge_zones c),
      ei_legacy_names = map (\<lambda>(name, a). (name, ac_legacy_names a)) (rg_accounts c),
      ei_business = map prj_name projects,
      ei_cache_zones = sort (map fst (filter (\<lambda>(name, z). zn_cache z \<noteq> None) (edge_zones c))),
      ei_waf_zones = sort (map fst (filter (\<lambda>(name, z). waf_enabled z) (edge_zones c)))\<rparr>"

definition cfg_tunnel_of :: "registry \<Rightarrow> tunnel \<Rightarrow> cfg_tunnel" where
  "cfg_tunnel_of c t = \<lparr>ct_cluster = tun_cluster t, ct_account = tun_account t,
     ct_legacy_names = account_legacy c (tun_account t), ct_zone = tun_zone t, ct_zones = tun_zones t,
     ct_hosts = tun_hosts t, ct_dns_elsewhere = tun_dns_elsewhere t\<rparr>"

definition update_zone :: "(zone_cfg \<Rightarrow> zone_cfg) \<Rightarrow> string \<Rightarrow> registry \<Rightarrow> registry" where
  "update_zone f name c = c\<lparr>rg_zones := update_keys (\<lambda>_. f) {name} (rg_zones c)\<rparr>"

datatype load_error =
    CLParse cfg_error
  | CLNoCatalog
  | CLNoProjects
  | CLDerive edge_error
  | CLWAFReason string string
  | CLWAFReasonAlone string string
  | CLWAFWildcard string string
  | CLValidate cfg_error

text \<open>The proxied records of a zone join the hosts of its managed WAF.\<close>

definition waf_record :: "string \<Rightarrow> record_cfg \<Rightarrow> string list \<Rightarrow> load_error + string list" where
  "waf_record name r hosts =
     unless (first_of [
         fail_if (rc_proxied r \<and> rc_waf r = Some False \<and> trim_space (rc_waf_reason r) = []) (CLWAFReason name (rc_name r)),
         fail_if (rc_waf_reason r \<noteq> [] \<and> rc_waf r \<noteq> Some False) (CLWAFReasonAlone name (rc_name r))])
       (if \<not> DnsRecord_WAFCovered (library_record r) then Inr hosts
        else if has_prefix (rc_name r) ''*.'' then Inl (CLWAFWildcard name (rc_name r))
        else Inr (hosts @ [rc_name r]))"

definition waf_zone_hosts :: "string list gomap \<Rightarrow> string \<Rightarrow> zone_cfg \<Rightarrow> load_error + string list" where
  "waf_zone_hosts fromCatalog name z = fold_err (waf_record name) (nil_list (zn_records z)) (lookup_list fromCatalog name)"

definition derive_waf_zone :: "string list gomap \<Rightarrow> string \<Rightarrow> registry \<Rightarrow> load_error + registry" where
  "derive_waf_zone fromCatalog name c = (case mget (rg_zones c) name of
      None \<Rightarrow> Inr c
    | Some z \<Rightarrow>
        if \<not> waf_enabled z then Inr c
        else sum_bind (waf_zone_hosts fromCatalog name z) (\<lambda>hosts.
          Inr (update_zone (\<lambda>z. z\<lparr>zn_waf_hosts := sort_compact hosts\<rparr>) name c)))"

definition registry_deriveWAF :: "string list gomap \<Rightarrow> registry \<Rightarrow> load_error + registry" where
  "registry_deriveWAF fromCatalog c = fold_err (derive_waf_zone fromCatalog) (sorted_keys (rg_zones c)) c"

definition registry_derive :: "catalog \<Rightarrow> project list \<Rightarrow> registry \<Rightarrow> load_error + registry" where
  "registry_derive cat projects c = (case Derive (registry_input c cat projects) of
      Inl e \<Rightarrow> Inl (CLDerive e)
    | Inr derived \<Rightarrow>
        let c = c\<lparr>rg_tunnels := map (cfg_tunnel_of c) (de_tunnels derived)\<rparr>;
            c = fold (\<lambda>(name, hosts). update_zone (\<lambda>z. z\<lparr>zn_cache_hosts := hosts\<rparr>) name) (de_cache_hosts derived) c in
        registry_deriveWAF (de_waf_hosts derived) c)"

section \<open>Load\<close>

definition Parse :: "registry \<Rightarrow> cfg_error + registry" where
  "Parse decoded = (let c = nameZones (applyRootDefaults decoded) in unless (validateRegistry c) (Inr c))"

definition cachesAnything :: "registry \<Rightarrow> bool" where
  "cachesAnything c \<longleftrightarrow> list_ex (\<lambda>(name, z). zn_cache z \<noteq> None) (rg_zones c)"

definition Load :: "registry \<Rightarrow> catalog option \<Rightarrow> project list option \<Rightarrow> load_error + registry" where
  "Load decoded cat projects = (case Parse decoded of
      Inl e \<Rightarrow> Inl (CLParse e)
    | Inr c \<Rightarrow> (case cat of
        None \<Rightarrow> Inl CLNoCatalog
      | Some cat \<Rightarrow>
          if projects = None \<and> cachesAnything c then Inl CLNoProjects
          else sum_bind (registry_derive cat (nil_list projects) c) (\<lambda>c.
            unless (map_option CLValidate (Registry_Validate c)) (Inr c))))"

section \<open>Hosts added to the managed WAF\<close>

datatype add_waf_error =
    AWNoZone string
  | AWNotEnabled string
  | AWHost string string

definition waf_name_chars :: string where
  "waf_name_chars = ''*/:'' @ [CHR 0x22, CHR 0x5C] @ '' ''"

definition validateExactWAFHost :: "string \<Rightarrow> string \<Rightarrow> add_waf_error option" where
  "validateExactWAFHost zone host =
     fail_if (host = [] \<or> host \<noteq> to_lower host \<or> contains_any host waf_name_chars \<or> has_suffix host ''.'' \<or>
       (host \<noteq> zone \<and> \<not> has_suffix host (''.'' @ zone))) (AWHost zone host)"

definition AddWAFHosts :: "string \<Rightarrow> string list \<Rightarrow> registry \<Rightarrow> add_waf_error + registry" where
  "AddWAFHosts zone hosts c = (case mget (rg_zones c) zone of
      None \<Rightarrow> Inl (AWNoZone zone)
    | Some z \<Rightarrow>
        if \<not> waf_enabled z then Inl (AWNotEnabled zone)
        else unless (first_err (validateExactWAFHost zone) hosts)
          (Inr (update_zone (\<lambda>z. z\<lparr>zn_waf_hosts := sort_compact (zn_waf_hosts z @ hosts)\<rparr>) zone c)))"

section \<open>What deriving leaves alone\<close>

text \<open>A registry without what is derived: neither tunnels nor hosts.\<close>

definition bare_zone :: "zone_cfg \<Rightarrow> zone_cfg" where
  "bare_zone z = z\<lparr>zn_cache_hosts := [], zn_waf_hosts := []\<rparr>"

definition bare :: "registry \<Rightarrow> registry" where
  "bare c = c\<lparr>rg_zones := map (\<lambda>(n, z). (n, bare_zone z)) (rg_zones c), rg_tunnels := []\<rparr>"

lemma bare_simps [simp]:
  "rg_accounts (bare c) = rg_accounts c" "rg_service (bare c) = rg_service c" "rg_namespace (bare c) = rg_namespace c"
  "rg_r2 (bare c) = rg_r2 c" "bare (c\<lparr>rg_tunnels := ts\<rparr>) = bare c"
  by (simp_all add: bare_def)

lemma map_fst_pair [simp]: "map fst (map (\<lambda>(n, z). (n, g n z)) m) = map fst m"
  by (induction m) auto

lemma sorted_keys_map [simp]: "sorted_keys (map (\<lambda>(n, z). (n, g n z)) m) = sorted_keys m"
  by (simp add: sorted_keys_def del: map_map)

lemma mget_map [simp]: "mget (map (\<lambda>(n, z). (n, g n z)) m) k = map_option (g k) (mget m k)"
  by (induction m) (auto simp: mget_def)

lemma sorted_entries_map: "sorted_entries (map (\<lambda>(n, z). (n, g n z)) m) = map (\<lambda>(n, z). (n, g n z)) (sorted_entries m)"
proof -
  have "map_of (map (\<lambda>(n, z). (n, g n z)) m) k = Some (g k (the (map_of m k)))" if k: "k \<in> fst ` set m" for k
  proof -
    have "map_of m k \<noteq> None" using k by (simp add: map_of_eq_None_iff)
    moreover have "map_of (map (\<lambda>(n, z). (n, g n z)) m) k = map_option (g k) (map_of m k)"
      using mget_map [of g m k] by (simp only: mget_def)
    ultimately show ?thesis by auto
  qed
  then show ?thesis by (simp add: sorted_entries_def)
qed

lemma bare_zone_parts:
  "zn_account (bare_zone z) = zn_account z" "SecurityTxtOnly (bare_zone z) = SecurityTxtOnly z" "validateManage (bare_zone z) = validateManage z"
  "validateManagedWAF (bare_zone z) = validateManagedWAF z" "hardening_args (bare_zone z) n = hardening_args z n"
  "validate_hsts_cfg (bare_zone z) = validate_hsts_cfg z" "RecordsLibrary (bare_zone z) n = RecordsLibrary z n"
  "validateOriginCNAMEs (bare_zone z) n = validateOriginCNAMEs z n"
  "zn_ssl_mode_rules (bare_zone z) = zn_ssl_mode_rules z" "zn_ssl_mode_rule_refs (bare_zone z) = zn_ssl_mode_rule_refs z"
  "zn_config_rules_import_id (bare_zone z) = zn_config_rules_import_id z"
  "zn_always_use_https (bare_zone z) = zn_always_use_https z" "zn_hsts (bare_zone z) = zn_hsts z"
  "zn_bot_management (bare_zone z) = zn_bot_management z" "zn_security_txt (bare_zone z) = zn_security_txt z"
  "zn_public_cache (bare_zone z) = zn_public_cache z" "zn_cache (bare_zone z) = zn_cache z"
  "zn_zone_id_pending (bare_zone z) = zn_zone_id_pending z" "zn_zone_id (bare_zone z) = zn_zone_id z" "zn_ssl_mode (bare_zone z) = zn_ssl_mode z"
  "zn_trusted_clients (bare_zone z) = zn_trusted_clients z" "zn_rate_limits (bare_zone z) = zn_rate_limits z"
  by (simp_all add: bare_zone_def SecurityTxtOnly_def validateManage_def other_fields_def hardening_args_def
      validateManagedWAF_def waf_enabled_def validate_hsts_cfg_def RecordsLibrary_def fun_eq_iff
      validateOriginCNAMEs_def)

lemma bare_zone_block [simp]:
  "SecurityTxtOnly (bare_zone z) = SecurityTxtOnly z" "zn_account (bare_zone z) = zn_account z"
  "validateHardening (bare_zone z) n = validateHardening z n" "validateEdge (bare_zone z) n = validateEdge z n"
  by (simp_all only: validateHardening_def validateEdge_def validateRecords_def validateSSLModeRules_def bare_zone_parts)

lemma validate_zone_bare: "validate_zone_cfg (bare c) (n, bare_zone z) = validate_zone_cfg c (n, z)"
  unfolding validate_zone_cfg_def account_legacy_def prod.case bare_zone_block bare_zone_parts bare_simps ..

lemma first_err_map: "first_err chk (map f xs) = first_err (\<lambda>x. chk (f x)) xs"
  by (induction xs) (simp_all add: first_err.simps split: option.split)

lemma validateRegistry_bare: "validateRegistry (bare c) = validateRegistry c"
proof -
  have entries: "sorted_entries (rg_zones (bare c)) = map (\<lambda>(n, z). (n, bare_zone z)) (sorted_entries (rg_zones c))"
    by (simp add: bare_def sorted_entries_map)
  have zones: "first_err (\<lambda>kv. map_option (CFGZone (fst kv)) (validate_zone_cfg (bare c) kv)) (sorted_entries (rg_zones (bare c))) =
      first_err (\<lambda>kv. map_option (CFGZone (fst kv)) (validate_zone_cfg c kv)) (sorted_entries (rg_zones c))"
    unfolding entries first_err_map by (simp add: case_prod_unfold validate_zone_bare)
  have nil: "rg_zones (bare c) = [] \<longleftrightarrow> rg_zones c = []" by (simp add: bare_def)
  have r2: "validate_r2_bucket (bare c) = validate_r2_bucket c" by (simp add: fun_eq_iff validate_r2_bucket_def)
  show ?thesis unfolding validateRegistry_def zones nil validateR2_def r2 legacy_accounts_def bare_simps ..
qed

lemma managedZoneNames_bare: "managedZoneNames (bare c) = managedZoneNames c"
proof -
  have "map fst (filter (\<lambda>(n, z). \<not> SecurityTxtOnly z) (map (\<lambda>(n, z). (n, bare_zone z)) m)) =
      map fst (filter (\<lambda>(n, z). \<not> SecurityTxtOnly z) m)" for m
    by (induction m) auto
  then show ?thesis by (simp add: managedZoneNames_def bare_def sorted_entries_map)
qed

lemma validate_cfg_tunnel_bare: "validate_cfg_tunnel (bare c) t = validate_cfg_tunnel c t"
proof -
  have zone: "validate_tunnel_zone (bare c) t = validate_tunnel_zone c t"
    by (auto simp: fun_eq_iff validate_tunnel_zone_def bare_def split: option.split)
  have host: "validate_cfg_host (bare c) t = validate_cfg_host c t"
    by (simp add: fun_eq_iff validate_cfg_host_def Registry_ZoneOf_def managedZoneNames_bare)
  show ?thesis unfolding validate_cfg_tunnel_def zone host bare_simps ..
qed

lemma bare_update_zone:
  assumes "\<And>z. bare_zone (f z) = bare_zone z"
  shows "bare (update_zone f n c) = bare c"
proof -
  have "map (\<lambda>(n, z). (n, bare_zone z)) (update_keys (\<lambda>_. f) {n} m) = map (\<lambda>(n, z). (n, bare_zone z)) m" for m
    by (induction m) (auto simp: update_keys_def assms)
  then show ?thesis by (simp add: bare_def update_zone_def del: map_map)
qed

lemma tunnels_update_zone [simp]: "rg_tunnels (update_zone f n c) = rg_tunnels c"
  by (simp add: update_zone_def)

lemma derive_waf_zone_frame:
  assumes "derive_waf_zone w n c = Inr c'"
  shows "bare c' = bare c \<and> rg_tunnels c' = rg_tunnels c"
proof -
  have "bare (update_zone (\<lambda>z. z\<lparr>zn_waf_hosts := h\<rparr>) n c) = bare c" for h
    by (rule bare_update_zone) (simp add: bare_zone_def)
  with assms show ?thesis by (auto simp: derive_waf_zone_def split: option.splits if_splits)
qed

lemma registry_deriveWAF_frame:
  assumes "registry_deriveWAF w c = Inr c'"
  shows "bare c' = bare c \<and> rg_tunnels c' = rg_tunnels c"
proof -
  have "fold_err (derive_waf_zone w) ns d = Inr d' \<Longrightarrow> bare d' = bare d \<and> rg_tunnels d' = rg_tunnels d" for ns d d'
  proof (induction ns arbitrary: d)
    case (Cons n ns)
    then obtain e where "derive_waf_zone w n d = Inr e" "fold_err (derive_waf_zone w) ns e = Inr d'" by (auto simp: sum_bind_Inr)
    with Cons.IH derive_waf_zone_frame show ?case by metis
  qed simp
  with assms show ?thesis unfolding registry_deriveWAF_def by blast
qed

lemma cache_hosts_frame:
  "bare (fold (\<lambda>(n, hosts). update_zone (\<lambda>z. z\<lparr>zn_cache_hosts := hosts\<rparr>) n) m c) = bare c \<and>
   rg_tunnels (fold (\<lambda>(n, hosts). update_zone (\<lambda>z. z\<lparr>zn_cache_hosts := hosts\<rparr>) n) m c) = rg_tunnels c"
proof (induction m arbitrary: c)
  case (Cons kv m)
  have "bare (update_zone (\<lambda>z. z\<lparr>zn_cache_hosts := snd kv\<rparr>) (fst kv) c) = bare c" by (rule bare_update_zone) (simp add: bare_zone_def)
  with Cons show ?case by (simp add: case_prod_unfold)
qed simp

lemma registry_derive_frame:
  assumes "registry_derive cat projects c = Inr c'"
  obtains d where "Derive (registry_input c cat projects) = Inr d" and "bare c' = bare c"
    and "rg_tunnels c' = map (cfg_tunnel_of c) (de_tunnels d)"
proof (cases "Derive (registry_input c cat projects)")
  case (Inl e)
  with assms show thesis by (simp add: registry_derive_def)
next
  case (Inr d)
  with assms registry_deriveWAF_frame have
    "bare c' = bare (fold (\<lambda>(n, hosts). update_zone (\<lambda>z. z\<lparr>zn_cache_hosts := hosts\<rparr>) n) (de_cache_hosts d)
       (c\<lparr>rg_tunnels := map (cfg_tunnel_of c) (de_tunnels d)\<rparr>)) \<and>
     rg_tunnels c' = rg_tunnels (fold (\<lambda>(n, hosts). update_zone (\<lambda>z. z\<lparr>zn_cache_hosts := hosts\<rparr>) n) (de_cache_hosts d)
       (c\<lparr>rg_tunnels := map (cfg_tunnel_of c) (de_tunnels d)\<rparr>))"
    unfolding registry_derive_def Let_def by (simp only: sum.case)
  with Inr that cache_hosts_frame show thesis by (simp add: cache_hosts_frame)
qed

end
