(* ===== verification/Config_Load.thy ===== *)
theory Config_Load imports Config_Derive begin

text \<open>
  What a loaded registry guarantees: the tunnels derived from the catalog pass every check of the
  registry that concerns tunnels, and the managed WAF of a zone lists exactly the names it should.
\<close>

section \<open>A checked registry\<close>

definition wf_registry :: "registry \<Rightarrow> bool" where
  "wf_registry c \<longleftrightarrow> wf_map (rg_accounts c) \<and> wf_map (rg_zones c) \<and> wf_map (rg_r2 c)"

lemma registry_zone:
  assumes "validateRegistry c = None" and "mget (rg_zones c) n = Some z"
  shows "validate_zone_cfg c (n, z) = None"
proof -
  have "(n, z) \<in> set (sorted_entries (rg_zones c))" using assms(2) by (simp add: sorted_entries_map_of mget_def)
  moreover have "\<forall>kv\<in>set (sorted_entries (rg_zones c)). validate_zone_cfg c kv = None"
    using assms(1) unfolding validateRegistry_def by (simp add: first_err_None)
  ultimately show ?thesis by blast
qed

lemma registry_zone_name:
  assumes "validateRegistry c = None" and "mget (rg_zones c) n = Some z"
  shows "n = to_lower n" and "CHR ''.'' \<in> set n" and "CHR ''*'' \<notin> set n" and "has_key (rg_accounts c) (zn_account z)"
  using registry_zone [OF assms] unfolding validate_zone_cfg_def prod.case first_of_None fail_if_None by blast+

lemma registry_account:
  assumes "validateRegistry c = None" and "mget (rg_accounts c) n = Some a"
  shows "validate_account_cfg (n, a) = None"
proof -
  have "(n, a) \<in> set (sorted_entries (rg_accounts c))" using assms(2) by (simp add: sorted_entries_map_of mget_def)
  moreover have "\<forall>kv\<in>set (sorted_entries (rg_accounts c)). validate_account_cfg kv = None"
    using assms(1) unfolding validateRegistry_def by (simp add: first_err_None)
  ultimately show ?thesis by blast
qed

lemma rx_within_upto: "rx_within p r \<Longrightarrow> rx_within p (rx_upto n r)"
  by (induction n) (simp_all add: rx_opt_def)

lemma object_name_chars: "rx_match objectName n \<Longrightarrow> list_all lower_alnum_dash n"
  unfolding rx_match_correct
  by (erule rx_within_chars) (simp add: objectName_def rx_within_upto lower_alnum_dash_def lower_alnum_def slug_char_def)

lemma object_name_no_slash: "rx_match objectName n \<Longrightarrow> CHR ''/'' \<notin> set n"
proof
  have "\<not> lower_alnum_dash CHR ''/''" by code_simp
  moreover assume "rx_match objectName n" "CHR ''/'' \<in> set n"
  ultimately show False using object_name_chars by (auto simp: list_all_iff)
qed

lemma account_no_slash:
  assumes "validateRegistry c = None" and "mget (rg_accounts c) n = Some a"
  shows "CHR ''/'' \<notin> set n"
  using registry_account [OF assms] object_name_no_slash unfolding validate_account_cfg_def prod.case first_of_None fail_if_None by blast

section \<open>The zones deriving sees\<close>

lemma mget_filter:
  "wf_map m \<Longrightarrow> mget (filter (\<lambda>(n, z). P n z) m) k = (case mget m k of None \<Rightarrow> None | Some z \<Rightarrow> if P k z then Some z else None)"
  by (induction m) (auto simp: mget_def wf_map_def map_of_eq_None_iff image_iff split: option.split dest: map_of_SomeD)

lemma derive_zone:
  assumes "wf_registry c"
  shows "mget (ei_zones (registry_input c cat projects)) n = Some a \<longleftrightarrow>
    (\<exists>z. mget (rg_zones c) n = Some z \<and> \<not> SecurityTxtOnly z \<and> zn_account z = a)"
  using assms by (auto simp: registry_input_def edge_zones_def wf_registry_def mget_filter split: option.splits)

lemma managed_zone_iff: "n \<in> set (managedZoneNames c) \<longleftrightarrow> (\<exists>z. mget (rg_zones c) n = Some z \<and> \<not> SecurityTxtOnly z)"
  by (force simp: managedZoneNames_def sorted_entries_map_of mget_def image_iff)

lemma derive_zone_names: "wf_registry c \<Longrightarrow> set (sorted_keys (ei_zones (registry_input c cat projects))) = set (managedZoneNames c)"
proof -
  assume wf: "wf_registry c"
  have "n \<in> set (sorted_keys (ei_zones (registry_input c cat projects))) \<longleftrightarrow> has_key (ei_zones (registry_input c cat projects)) n" for n
    by (simp add: has_key_iff)
  moreover have "has_key (ei_zones (registry_input c cat projects)) n \<longleftrightarrow> (\<exists>z. mget (rg_zones c) n = Some z \<and> \<not> SecurityTxtOnly z)" for n
    unfolding has_key_def not_None_eq derive_zone [OF wf] by blast
  ultimately show ?thesis using managed_zone_iff by blast
qed

lemma derive_zone_of:
  assumes "wf_registry c"
  shows "ZoneOf (sorted_keys (ei_zones (registry_input c cat projects))) h = Registry_ZoneOf c h"
  unfolding Registry_ZoneOf_def by (rule ZoneOf_cong) (rule derive_zone_names [OF assms])

section \<open>A derived tunnel passes\<close>

lemma zone_of_not_blank:
  assumes "validateRegistry c = None" and "Registry_ZoneOf c h \<noteq> []"
  shows "trim_space h \<noteq> []"
proof
  let ?z = "Registry_ZoneOf c h"
  assume "trim_space h = []"
  then have "list_all is_space h" by (simp add: trim_space_def trim_chars_Nil)
  moreover have "\<not> is_space CHR ''.''" by code_simp
  ultimately have space: "CHR ''.'' \<notin> set h" by (auto simp: list_all_iff)
  from assms(2) have z: "?z \<in> set (managedZoneNames c)" "in_zone (zone_name h) ?z"
    unfolding Registry_ZoneOf_def using zone_of.find_sound by blast+
  from z(1) obtain v where "mget (rg_zones c) ?z = Some v" by (auto simp: managedZoneNames_def sorted_entries_map_of mget_def)
  with registry_zone_name(2) [OF assms(1)] have "CHR ''.'' \<in> set ?z" by blast
  with z(2) have "CHR ''.'' \<in> set (zone_name h)" by (auto simp: in_zone_def has_suffix_iff)
  then obtain d where "d \<in> set (trim_prefix h ''*.'')" "lower_char d = CHR ''.''" by (auto simp: zone_name_def to_lower_def)
  moreover have "lower_char d = CHR ''.'' \<longleftrightarrow> d = CHR ''.''" by (rule lower_char_fixed) code_simp+
  ultimately have "CHR ''.'' \<in> set (trim_prefix h ''*.'')" by simp
  then have "CHR ''.'' \<in> set h" by (auto simp: trim_prefix_def split: if_splits dest: in_set_dropD)
  with space show False ..
qed

lemma derived_tunnel_valid:
  assumes "validateRegistry c = None" and "wf_registry c" and "Derive (registry_input c cat projects) = Inr d" and "t \<in> set (de_tunnels d)"
  shows "validate_cfg_tunnel c (cfg_tunnel_of c t) = None" and "CHR ''/'' \<notin> set (tun_account t)"
proof -
  let ?i = "registry_input c cat projects" and ?t = "cfg_tunnel_of c t"
  note facts = derived_tunnel_facts [OF assms(3,4)]
  have zones: "InZones ?t = tun_zones t" using facts(3) by (auto simp: InZones_def cfg_tunnel_of_def)
  have zone: "\<exists>v. mget (rg_zones c) z = Some v \<and> zn_account v = tun_account t" if "z \<in> set (tun_zones t)" for z
  proof -
    have "mget (ei_zones ?i) z = Some (tun_account t)" using facts(1) that by blast
    then show ?thesis unfolding derive_zone [OF assms(2)] by blast
  qed
  from zone [OF facts(3)] obtain v where "mget (rg_zones c) (tun_zone t) = Some v" "zn_account v = tun_account t" by blast
  with registry_zone_name(4) [OF assms(1)] have "has_key (rg_accounts c) (tun_account t)" by metis
  then obtain a where a: "mget (rg_accounts c) (tun_account t) = Some a" by (auto simp: has_key_def)
  then show "CHR ''/'' \<notin> set (tun_account t)" by (rule account_no_slash [OF assms(1)])
  have host: "Registry_ZoneOf c h \<in> set (tun_zones t)" "Registry_ZoneOf c h \<noteq> []" if "h \<in> set (tun_hosts t)" for h
  proof -
    have "set (tun_zones t) = ZoneOf (sorted_keys (ei_zones ?i)) ` set (tun_hosts t)" using facts(1) by blast
    then have "set (tun_zones t) = Registry_ZoneOf c ` set (tun_hosts t)" unfolding derive_zone_of [OF assms(2)] .
    with that show "Registry_ZoneOf c h \<in> set (tun_zones t)" by simp
    with facts(2) show "Registry_ZoneOf c h \<noteq> []" by metis
  qed
  have "first_err (validate_tunnel_zone c ?t) (InZones ?t) = None"
    unfolding zones first_err_None
  proof
    fix z assume "z \<in> set (tun_zones t)"
    from zone [OF this] obtain v where "mget (rg_zones c) z = Some v" "zn_account v = tun_account t" by blast
    then show "validate_tunnel_zone c ?t z = None" by (simp add: validate_tunnel_zone_def cfg_tunnel_of_def)
  qed
  moreover have "first_err (validate_cfg_host c ?t) (enumerate 0 (ct_hosts ?t)) = None"
    unfolding first_err_enumerate_None
  proof (intro allI impI)
    fix i assume "i < length (ct_hosts ?t)"
    then have mem: "ct_hosts ?t ! i \<in> set (tun_hosts t)" by (simp add: cfg_tunnel_of_def)
    show "validate_cfg_host c ?t (0 + i, ct_hosts ?t ! i) = None"
      unfolding validate_cfg_host_def prod.case zones using host [OF mem] zone_of_not_blank [OF assms(1) host(2) [OF mem]] by simp
  qed
  moreover have "ct_zone ?t \<in> set (InZones ?t)" unfolding zones using facts(3) by (simp add: cfg_tunnel_of_def)
  moreover have "mget (rg_accounts c) (ct_account ?t) = Some a" "ct_legacy_names ?t = ac_legacy_names a"
    using a by (simp_all add: cfg_tunnel_of_def account_legacy_def)
  moreover have "ct_hosts ?t \<noteq> []" using conjunct1 [OF facts(1)] by (simp add: cfg_tunnel_of_def)
  ultimately show "validate_cfg_tunnel c ?t = None" unfolding validate_cfg_tunnel_def by simp
qed

lemma cfg_tunnels_loop_None:
  "cfg_tunnels_loop c seen ts = None \<longleftrightarrow> (\<forall>t\<in>set ts. validate_cfg_tunnel c t = None) \<and> distinct (map tunnel_key_text ts) \<and>
     set (map tunnel_key_text ts) \<inter> set seen = {}"
  by (induction ts arbitrary: seen) (auto split: option.splits)

lemma tunnel_key_inject:
  assumes "tunnel_key_text t = tunnel_key_text u" and "CHR ''/'' \<notin> set (ct_account t)" and "CHR ''/'' \<notin> set (ct_account u)"
  shows "ct_cluster t = ct_cluster u \<and> ct_account t = ct_account u"
proof -
  have "ct_cluster t @ CHR ''/'' # ct_account t = ct_cluster u @ CHR ''/'' # ct_account u" using assms(1) by (simp add: tunnel_key_text_def)
  then show ?thesis using assms(2,3) by (rule split_last_mark)
qed

lemma derived_keys_distinct:
  assumes "validateRegistry c = None" and "wf_registry c" and "Derive (registry_input c cat projects) = Inr d"
  shows "distinct (map tunnel_key_text (map (cfg_tunnel_of c) (de_tunnels d)))"
proof -
  have "sorted_wrt (\<lambda>a b. tunnel_key_text (cfg_tunnel_of c a) \<noteq> tunnel_key_text (cfg_tunnel_of c b)) (de_tunnels d)"
  proof (rule sorted_wrt_mono_rel [OF _ derived_tunnels_ascending [OF assms(3)]])
    fix t u assume t: "t \<in> set (de_tunnels d)" and u: "u \<in> set (de_tunnels d)" and less: "(tun_cluster t, tun_account t) < (tun_cluster u, tun_account u)"
    show "tunnel_key_text (cfg_tunnel_of c t) \<noteq> tunnel_key_text (cfg_tunnel_of c u)"
    proof
      assume "tunnel_key_text (cfg_tunnel_of c t) = tunnel_key_text (cfg_tunnel_of c u)"
      then have "ct_cluster (cfg_tunnel_of c t) = ct_cluster (cfg_tunnel_of c u) \<and> ct_account (cfg_tunnel_of c t) = ct_account (cfg_tunnel_of c u)"
        by (rule tunnel_key_inject) (simp_all add: cfg_tunnel_of_def derived_tunnel_valid(2) [OF assms t] derived_tunnel_valid(2) [OF assms u])
      with less show False by (simp add: cfg_tunnel_of_def)
    qed
  qed
  then show ?thesis by (simp add: distinct_conv_nth sorted_wrt_iff_nth_less) (metis linorder_neqE_nat)
qed

lemma derived_routing_valid:
  assumes "validateRegistry c = None" and "wf_registry c" and "Derive (registry_input c cat projects) = Inr d"
    and "distinct (map (\<lambda>s. to_lower (site_host s)) (sites (registry_input c cat projects)))"
    and "rg_tunnels c' = map (cfg_tunnel_of c) (de_tunnels d)"
  shows "validateDomainRouting c' = None"
proof -
  have "''*'' \<notin> fst ` set (ei_zones (registry_input c cat projects))"
  proof
    assume "''*'' \<in> fst ` set (ei_zones (registry_input c cat projects))"
    then obtain a where "mget (ei_zones (registry_input c cat projects)) ''*'' = Some a" unfolding has_key_iff [symmetric] has_key_def by blast
    then show False unfolding derive_zone [OF assms(2)] using registry_zone_name(3) [OF assms(1)] by fastforce
  qed
  then have "routing_ok (de_tunnels d)" by (rule Derive_routing_ok [OF assms(3,4)])
  then have "routing_ok (map (\<lambda>t. (edge_tunnel t)\<lparr>tun_dns_elsewhere := []\<rparr>) (rg_tunnels c'))"
    unfolding assms(5) by (simp add: routing_ok_def edge_tunnel_def cfg_tunnel_of_def comp_def list_all_iff)
  then show ?thesis unfolding validateDomainRouting_def routing_check.check_None [symmetric] by simp
qed

text \<open>What deriving returns is refused for a reason of its records and origins only.\<close>

lemma derived_registry_checks:
  assumes "validateRegistry c = None" and "wf_registry c" and "registry_derive cat projects c = Inr c'"
    and "distinct (map (\<lambda>s. to_lower (site_host s)) (sites (registry_input c cat projects)))"
  shows "Registry_Validate c' = first_of [fail_if (rg_tunnels c' = []) CFGNoTunnel, validateOriginTunnels c', validateRecordTunnels c']"
proof -
  from registry_derive_frame [OF assms(3)] obtain d where d: "Derive (registry_input c cat projects) = Inr d"
    and bare: "bare c' = bare c" and ts: "rg_tunnels c' = map (cfg_tunnel_of c) (de_tunnels d)" by blast
  have "validateRegistry c' = None" using validateRegistry_bare [of c'] validateRegistry_bare [of c] assms(1) bare by simp
  moreover have "cfg_tunnels_loop c' [] (rg_tunnels c') = None"
    unfolding cfg_tunnels_loop_None
  proof (intro conjI ballI)
    show "distinct (map tunnel_key_text (rg_tunnels c'))" unfolding ts by (rule derived_keys_distinct [OF assms(1,2) d])
    fix t assume "t \<in> set (rg_tunnels c')"
    then obtain u where u: "u \<in> set (de_tunnels d)" "t = cfg_tunnel_of c u" unfolding ts by auto
    have "validate_cfg_tunnel c' t = validate_cfg_tunnel c t"
      using validate_cfg_tunnel_bare [of c' t] validate_cfg_tunnel_bare [of c t] bare by simp
    with derived_tunnel_valid(1) [OF assms(1,2) d u(1)] u(2) show "validate_cfg_tunnel c' t = None" by simp
  qed simp
  moreover have "validateDomainRouting c' = None" by (rule derived_routing_valid [OF assms(1,2) d assms(4) ts])
  ultimately show ?thesis by (simp add: Registry_Validate_def first_of.simps split: option.split)
qed

section \<open>The hosts of the managed WAF\<close>

lemma waf_records_Inr:
  "fold_err (waf_record name) rs hosts = Inr hosts' \<Longrightarrow>
     hosts' = hosts @ map rc_name (filter (\<lambda>r. DnsRecord_WAFCovered (library_record r)) rs) \<and>
     (\<forall>r\<in>set rs. DnsRecord_WAFCovered (library_record r) \<longrightarrow> \<not> isWildcard (rc_name r))"
proof (induction rs arbitrary: hosts)
  case (Cons r rs)
  then obtain h1 where "waf_record name r hosts = Inr h1" "fold_err (waf_record name) rs h1 = Inr hosts'" by auto
  with Cons.IH [OF this(2)] show ?case by (auto simp: waf_record_def isWildcard_def split: if_splits)
qed simp

lemma derive_waf_zone_other: "derive_waf_zone w k c = Inr c' \<Longrightarrow> k \<noteq> n \<Longrightarrow> mget (rg_zones c') n = mget (rg_zones c) n"
  by (auto simp: derive_waf_zone_def update_zone_def mget_update_keys option.map_ident split: option.splits if_splits)

lemma derive_waf_zone_own:
  assumes "derive_waf_zone w n c = Inr c'" and "mget (rg_zones c) n = Some z" and "waf_enabled z"
  shows "\<exists>hosts. waf_zone_hosts w n z = Inr hosts \<and> mget (rg_zones c') n = Some (z\<lparr>zn_waf_hosts := sort_compact hosts\<rparr>)"
  using assms by (auto simp: derive_waf_zone_def update_zone_def mget_update_keys)

lemma derive_waf_loop_other:
  "fold_err (derive_waf_zone w) ns c = Inr c' \<Longrightarrow> n \<notin> set ns \<Longrightarrow> mget (rg_zones c') n = mget (rg_zones c) n"
proof (induction ns arbitrary: c)
  case (Cons k ns)
  then obtain d where "derive_waf_zone w k c = Inr d" "fold_err (derive_waf_zone w) ns d = Inr c'" by auto
  with Cons derive_waf_zone_other show ?case by (metis list.set_intros(1) list.set_intros(2))
qed simp

lemma derive_waf_loop:
  assumes "fold_err (derive_waf_zone w) ns c = Inr c'" and "distinct ns" and "n \<in> set ns" and "mget (rg_zones c) n = Some z" and "waf_enabled z"
  shows "\<exists>hosts. waf_zone_hosts w n z = Inr hosts \<and> mget (rg_zones c') n = Some (z\<lparr>zn_waf_hosts := sort_compact hosts\<rparr>)"
  using assms
proof (induction ns arbitrary: c)
  case (Cons k ns)
  then obtain d where d: "derive_waf_zone w k c = Inr d" and rest: "fold_err (derive_waf_zone w) ns d = Inr c'" by auto
  show ?case
  proof (cases "k = n")
    case True
    with Cons.prems(2) have "mget (rg_zones c') n = mget (rg_zones d) n" by (intro derive_waf_loop_other [OF rest]) simp
    with derive_waf_zone_own [OF d [unfolded True] Cons.prems(4,5)] show ?thesis by simp
  next
    case False
    with derive_waf_zone_other [OF d] Cons.prems show ?thesis by (intro Cons.IH [OF rest]) auto
  qed
qed simp

text \<open>The names of the tunnel-served exposures that no domain leaves out of the WAF.\<close>

definition waf_name :: "catalog \<Rightarrow> string \<Rightarrow> bool" where
  "waf_name cat h \<longleftrightarrow> (\<exists>x cl g gr. arrival_of cat x = ArrivalCloudflareTunnel \<and> find_group cat x cl g = Some gr \<and>
     h \<in> set (Hosts gr) \<and> (\<forall>d\<in>set (grp_domains gr). dom_host d = h \<longrightarrow> WAFCovered d))"

lemma in_derive_exposures:
  "e \<in> set (derive_exposures cat) \<longleftrightarrow> (\<exists>x ex. mget (cat_exposures cat) x = Some ex \<and> ex_arrival ex = ArrivalCloudflareTunnel \<and>
     e = \<lparr>ee_name = x, ee_accounts = ex_cloudflare_accounts ex,
       ee_groups = concat (map (\<lambda>cluster. map (exposure_group cluster) (Groups cat x cluster)) (sorted_keys (ex_clusters ex)))\<rparr>)"
  unfolding derive_exposures_def concat_entries_iff by auto

lemma waf_name_sites:
  "waf_name cat h \<longleftrightarrow> (\<exists>e g. (e, g, h) \<in> set (sites (registry_input c cat projects)) \<and> h \<notin> set (eg_waf_off g))"
proof
  assume "waf_name cat h"
  then obtain x cl g gr where x: "arrival_of cat x = ArrivalCloudflareTunnel" and gr: "find_group cat x cl g = Some gr"
    and h: "h \<in> set (Hosts gr)" "\<forall>d\<in>set (grp_domains gr). dom_host d = h \<longrightarrow> WAFCovered d" unfolding waf_name_def by blast
  from gr obtain ex clr where ex: "mget (cat_exposures cat) x = Some ex" "mget (ex_clusters ex) cl = Some clr" unfolding find_group_iff by blast
  let ?e = "\<lparr>ee_name = x, ee_accounts = ex_cloudflare_accounts ex,
       ee_groups = concat (map (\<lambda>cluster. map (exposure_group cluster) (Groups cat x cluster)) (sorted_keys (ex_clusters ex)))\<rparr>"
  let ?g = "exposure_group cl \<lparr>ng_name = g, ng_group = gr\<rparr>"
  have e: "?e \<in> set (derive_exposures cat)" unfolding in_derive_exposures using x ex(1) by (auto simp: arrival_of_def)
  have "cl \<in> fst ` set (ex_clusters ex)" using ex(2) unfolding has_key_iff [symmetric] has_key_def by simp
  then have "map (exposure_group cl) (Groups cat x cl) \<in> set (map (\<lambda>cluster. map (exposure_group cluster) (Groups cat x cluster)) (sorted_keys (ex_clusters ex)))"
    unfolding set_map set_sorted_keys by (rule imageI)
  moreover have "?g \<in> set (map (exposure_group cl) (Groups cat x cl))" using gr unfolding set_map by (intro imageI) (simp add: Groups_iff)
  ultimately have "?g \<in> set (ee_groups ?e)" unfolding edge_exposure.simps set_concat by blast
  with e have "?e \<in> set (derive_exposures cat)" "?g \<in> set (ee_groups ?e)" by simp_all
  moreover have "h \<in> set (eg_hosts ?g)" "h \<notin> set (eg_waf_off ?g)" using h by (auto simp: exposure_group_def)
  moreover have "ei_exposures (registry_input c cat projects) = derive_exposures cat" by (simp add: registry_input_def)
  ultimately show "\<exists>e g. (e, g, h) \<in> set (sites (registry_input c cat projects)) \<and> h \<notin> set (eg_waf_off g)"
    unfolding in_sites by metis
next
  assume "\<exists>e g. (e, g, h) \<in> set (sites (registry_input c cat projects)) \<and> h \<notin> set (eg_waf_off g)"
  then obtain e g where e: "e \<in> set (derive_exposures cat)" and g: "g \<in> set (ee_groups e)" "h \<in> set (eg_hosts g)" "h \<notin> set (eg_waf_off g)"
    unfolding in_sites by (auto simp: registry_input_def)
  from e obtain x ex where ex: "mget (cat_exposures cat) x = Some ex" "ex_arrival ex = ArrivalCloudflareTunnel"
    and "e = \<lparr>ee_name = x, ee_accounts = ex_cloudflare_accounts ex,
       ee_groups = concat (map (\<lambda>cluster. map (exposure_group cluster) (Groups cat x cluster)) (sorted_keys (ex_clusters ex)))\<rparr>"
    unfolding in_derive_exposures by blast
  with g(1) obtain cl ng where "ng \<in> set (Groups cat x cl)" and g': "g = exposure_group cl ng" by auto
  then have "find_group cat x cl (ng_name ng) = Some (ng_group ng)" by (simp add: in_Groups)
  moreover have "h \<in> set (Hosts (ng_group ng))" "\<forall>d\<in>set (grp_domains (ng_group ng)). dom_host d = h \<longrightarrow> WAFCovered d"
    using g(2,3) by (auto simp: g' exposure_group_def)
  moreover have "arrival_of cat x = ArrivalCloudflareTunnel" using ex by (simp add: arrival_of_def)
  ultimately show "waf_name cat h" unfolding waf_name_def by blast
qed

lemma waf_listed_sites:
  assumes "wf_registry c" and "n \<in> set (ei_waf_zones (registry_input c cat projects))" and "n \<noteq> []"
  shows "h \<in> site_host ` set (filter (waf_listed (registry_input c cat projects) n) (sites (registry_input c cat projects))) \<longleftrightarrow>
     waf_name cat h \<and> Registry_ZoneOf c h = n"
  unfolding waf_name_sites [of cat h c projects] waf_listed_def derive_zone_of [OF assms(1)] using assms(2,3) by force

lemma ei_waf_zones_iff:
  assumes "wf_registry c" and "mget (rg_zones c) n = Some z"
  shows "n \<in> set (ei_waf_zones (registry_input c cat projects)) \<longleftrightarrow> waf_enabled z \<and> \<not> SecurityTxtOnly z"
    and "distinct (ei_waf_zones (registry_input c cat projects))"
proof -
  have "(n, z') \<in> set (rg_zones c) \<longleftrightarrow> z' = z" for z'
    using assms map_of_eq_Some_iff [of "rg_zones c" n z'] by (auto simp: wf_registry_def wf_map_def mget_def)
  then show "n \<in> set (ei_waf_zones (registry_input c cat projects)) \<longleftrightarrow> waf_enabled z \<and> \<not> SecurityTxtOnly z"
    by (force simp: registry_input_def edge_zones_def)
  have "distinct (map fst (filter P (filter Q (rg_zones c))))" for P Q
    using assms(1) by (auto simp: wf_registry_def wf_map_def intro!: distinct_map_filter)
  then show "distinct (ei_waf_zones (registry_input c cat projects))" by (simp add: registry_input_def edge_zones_def)
qed

lemma bare_zones: "rg_zones (bare c) = map (\<lambda>(n, z). (n, bare_zone z)) (rg_zones c)"
  by (simp add: bare_def)

lemma bare_zone_eq:
  assumes "bare_zone y = bare_zone z"
  shows "waf_enabled y = waf_enabled z" and "zn_records y = zn_records z"
proof -
  have "zn_managed_waf (bare_zone x) = zn_managed_waf x" "zn_records (bare_zone x) = zn_records x" for x by (simp_all add: bare_zone_def)
  with assms show "waf_enabled y = waf_enabled z" "zn_records y = zn_records z" unfolding waf_enabled_def by metis+
qed

lemma wf_update_zone: "wf_map (rg_zones (update_zone f n c)) \<longleftrightarrow> wf_map (rg_zones c)"
  by (simp add: update_zone_def)

lemma cache_wf: "wf_map (rg_zones (fold (\<lambda>(n, hosts). update_zone (\<lambda>z. z\<lparr>zn_cache_hosts := hosts\<rparr>) n) m c)) \<longleftrightarrow> wf_map (rg_zones c)"
  by (induction m arbitrary: c) (simp_all add: case_prod_unfold wf_update_zone)

lemma derived_waf_hosts:
  assumes "validateRegistry c = None" and "wf_registry c" and "registry_derive cat projects c = Inr c'"
    and "mget (rg_zones c) n = Some z" and "waf_enabled z" and "\<not> SecurityTxtOnly z"
  obtains z' hosts where "mget (rg_zones c') n = Some z'" and "zn_waf_hosts z' = sort_compact hosts"
    and "\<And>h. h \<in> set hosts \<longleftrightarrow> waf_name cat h \<and> Registry_ZoneOf c h = n \<or>
       (\<exists>r\<in>set (nil_list (zn_records z)). DnsRecord_WAFCovered (library_record r) \<and> rc_name r = h)"
    and "\<And>h. h \<in> set hosts \<Longrightarrow> \<not> isWildcard h"
proof -
  let ?i = "registry_input c cat projects"
  from assms(3) obtain d where d: "Derive ?i = Inr d" by (auto simp: registry_derive_def split: sum.splits)
  let ?c = "fold (\<lambda>(n, hosts). update_zone (\<lambda>z. z\<lparr>zn_cache_hosts := hosts\<rparr>) n) (de_cache_hosts d)
       (c\<lparr>rg_tunnels := map (cfg_tunnel_of c) (de_tunnels d)\<rparr>)"
  from assms(3) have loop: "fold_err (derive_waf_zone (de_waf_hosts d)) (sorted_keys (rg_zones ?c)) ?c = Inr c'"
    unfolding registry_derive_def d sum.case Let_def registry_deriveWAF_def .
  have "bare ?c = bare c" using cache_hosts_frame [of "de_cache_hosts d" "c\<lparr>rg_tunnels := map (cfg_tunnel_of c) (de_tunnels d)\<rparr>"] by simp
  then have "mget (rg_zones (bare ?c)) n = mget (rg_zones (bare c)) n" by (rule arg_cong)
  then have "map_option bare_zone (mget (rg_zones ?c) n) = Some (bare_zone z)" unfolding bare_zones mget_map assms(4) by simp
  then obtain y where y: "mget (rg_zones ?c) n = Some y" "bare_zone y = bare_zone z" unfolding map_option_eq_Some by iprover
  have same: "waf_enabled y \<longleftrightarrow> waf_enabled z" "zn_records y = zn_records z"
    by (rule bare_zone_eq [OF y(2)])+
  have "n \<in> fst ` set (rg_zones ?c)" using y(1) unfolding has_key_iff [symmetric] has_key_def by simp
  then have "n \<in> set (sorted_keys (rg_zones ?c))" by simp
  moreover have "wf_map (rg_zones ?c)" using assms(2) by (simp add: cache_wf wf_registry_def)
  then have "distinct (sorted_keys (rg_zones ?c))" by (simp add: sorted_keys_def wf_map_def)
  ultimately obtain hosts where hosts: "waf_zone_hosts (de_waf_hosts d) n y = Inr hosts"
    "mget (rg_zones c') n = Some (y\<lparr>zn_waf_hosts := sort_compact hosts\<rparr>)"
    using derive_waf_loop [OF loop _ _ y(1)] same(1) assms(5) by blast
  have nil: "n \<noteq> []" using registry_zone_name(2) [OF assms(1,4)] by auto
  note zones = ei_waf_zones_iff [OF assms(2,4), of cat projects]
  have listed: "n \<in> set (ei_waf_zones ?i)" using zones(1) assms(5,6) by blast
  note w = deriveWAF_Inr [OF Derive_Inr(5) [OF d] zones(2)]
  have look: "lookup_list (de_waf_hosts d) n = sort_compact (map site_host (filter (waf_listed ?i n) (sites ?i)))"
    using w(1) [of n] listed by (simp add: lookup_list_def mget_def)
  from waf_records_Inr [OF hosts(1) [unfolded waf_zone_hosts_def]]
  have eq: "hosts = lookup_list (de_waf_hosts d) n @ map rc_name (filter (\<lambda>r. DnsRecord_WAFCovered (library_record r)) (nil_list (zn_records z)))"
    and recs: "\<And>r. r \<in> set (nil_list (zn_records z)) \<Longrightarrow> DnsRecord_WAFCovered (library_record r) \<Longrightarrow> \<not> isWildcard (rc_name r)"
    unfolding same by blast+
  have mem: "h \<in> set hosts \<longleftrightarrow> waf_name cat h \<and> Registry_ZoneOf c h = n \<or>
       (\<exists>r\<in>set (nil_list (zn_records z)). DnsRecord_WAFCovered (library_record r) \<and> rc_name r = h)" for h
    unfolding eq look set_append set_sort_compact Un_iff set_map waf_listed_sites [OF assms(2) listed nil, symmetric] by auto
  show thesis
  proof (rule that [OF hosts(2) _ mem])
    show "zn_waf_hosts (y\<lparr>zn_waf_hosts := sort_compact hosts\<rparr>) = sort_compact hosts" by simp
    fix h assume "h \<in> set hosts"
    then show "\<not> isWildcard h" unfolding eq look using w(2) [of _ n] recs by auto
  qed
qed

section \<open>Properties\<close>

definition sample_cfg_catalog :: catalog where
  "sample_cfg_catalog = sample_catalog\<lparr>cat_exposures := [(''public'', sample_public\<lparr>ex_clusters :=
     [(''prod'', \<lparr>cl_class = [], cl_groups = [(''ops'', sample_ops)]\<rparr>)]\<rparr>)]\<rparr>"

definition sample_zone_cfg :: zone_cfg where
  "sample_zone_cfg = \<lparr>zn_name = ''example.com'', zn_account = ''main'', zn_zone_id = ''z1'', zn_manage = [], zn_zone_id_pending = False,
     zn_ssl_mode = ''full'', zn_min_tls_version = [], zn_total_tls = None, zn_cache = None, zn_cache_hosts = [], zn_waf_hosts = [],
     zn_trusted_clients = None, zn_rate_limits = None,
     zn_records = Some [\<lparr>rc_name = ''origin.example.com'', rc_type = ''A'', rc_content = ''192.0.2.1'', rc_proxied = True, rc_ttl = 0,
       rc_comment = [], rc_waf = None, rc_waf_reason = []\<rparr>],
     zn_origin_cnames = None, zn_public_cache = None, zn_ssl_mode_rules = None, zn_ssl_mode_rule_refs = None,
     zn_config_rules_import_id = [], zn_always_use_https = None, zn_hsts = None, zn_bot_management = None,
     zn_managed_waf = Some \<lparr>mwc_enabled = True, mwc_hosts = [], mwc_whole_zone = False\<rparr>, zn_security_txt = None\<rparr>"

definition sample_registry :: registry where
  "sample_registry = \<lparr>rg_accounts = [(''main'', \<lparr>ac_account_id = ''a1'', ac_legacy_names = True, ac_root = None,
       ac_breakglass_item = [], ac_company = []\<rparr>)],
     rg_zones = [(''example.com'', sample_zone_cfg)], rg_service = ''gateway'', rg_namespace = ''edge'', rg_tunnels = [], rg_r2 = [],
     rg_root = applyDefaults no_rotations\<rparr>"

definition sample_loaded :: registry where
  "sample_loaded = projr (registry_derive sample_cfg_catalog [] sample_registry)"

lemma sample_registry_valid: "validateRegistry sample_registry = None"
  by code_simp

lemma wf_sample_registry: "wf_registry sample_registry"
  by (simp add: wf_registry_def wf_map_def sample_registry_def)

lemma sample_derives_registry:
  "case registry_derive sample_cfg_catalog [] sample_registry of Inl e \<Rightarrow> False
   | Inr c \<Rightarrow> rg_tunnels c \<noteq> [] \<and> zn_waf_hosts (snd (hd (rg_zones c))) = [''grafana.example.com'', ''origin.example.com'']"
  by code_simp

lemma sample_loads: "registry_derive sample_cfg_catalog [] sample_registry = Inr sample_loaded"
  using sample_derives_registry by (auto simp: sample_loaded_def split: sum.splits)

text \<open>C11 The tunnels derived from a catalog pass every check of the registry that they are put into:
  no tunnel is declared twice, each has its account and that account's names, lies in zones of that
  account, holds only hosts of those zones, and no rule shadows another. What \<open>Validate\<close> can still
  refuse is that there is no tunnel, an origin switch for a host no tunnel writes, or a record that a
  tunnel writes too. The catalog's names are unique over all clusters.\<close>

theorem Load_tunnels_valid:
  assumes "validateRegistry c = None" and "wf_registry c" and "registry_derive cat projects c = Inr c'"
    and "distinct (map (\<lambda>s. to_lower (site_host s)) (sites (registry_input c cat projects)))"
  shows "Registry_Validate c' = first_of [fail_if (rg_tunnels c' = []) CFGNoTunnel, validateOriginTunnels c', validateRecordTunnels c']"
  using assms by (rule derived_registry_checks)

theorem Load_tunnels_valid_witness:
  "Registry_Validate sample_loaded = first_of [fail_if (rg_tunnels sample_loaded = []) CFGNoTunnel,
     validateOriginTunnels sample_loaded, validateRecordTunnels sample_loaded]"
  by (rule Load_tunnels_valid [OF sample_registry_valid wf_sample_registry sample_loads]) code_simp

text \<open>C12 The managed WAF of a zone with the switch on lists, sorted and once each, exactly the names
  of the zone that a tunnel-served exposure of the catalog serves and no domain leaves out, and the zone's
  proxied records that are not left out; none of them is a wildcard.\<close>

theorem Load_waf_hosts:
  assumes "validateRegistry c = None" and "wf_registry c" and "registry_derive cat projects c = Inr c'"
    and "mget (rg_zones c) n = Some z" and "waf_enabled z" and "\<not> SecurityTxtOnly z"
  shows "\<exists>z'. mget (rg_zones c') n = Some z' \<and> sorted (zn_waf_hosts z') \<and> distinct (zn_waf_hosts z') \<and>
     (\<forall>h. h \<in> set (zn_waf_hosts z') \<longleftrightarrow> waf_name cat h \<and> Registry_ZoneOf c h = n \<or>
        (\<exists>r\<in>set (nil_list (zn_records z)). DnsRecord_WAFCovered (library_record r) \<and> rc_name r = h)) \<and>
     (\<forall>h\<in>set (zn_waf_hosts z'). \<not> isWildcard h)"
proof (rule derived_waf_hosts [OF assms])
  fix z' hosts
  assume "mget (rg_zones c') n = Some z'" and hosts: "zn_waf_hosts z' = sort_compact hosts"
    and mem: "\<And>h. h \<in> set hosts \<longleftrightarrow> waf_name cat h \<and> Registry_ZoneOf c h = n \<or>
       (\<exists>r\<in>set (nil_list (zn_records z)). DnsRecord_WAFCovered (library_record r) \<and> rc_name r = h)"
    and wild: "\<And>h. h \<in> set hosts \<Longrightarrow> \<not> isWildcard h"
  moreover have "sorted (zn_waf_hosts z')" "distinct (zn_waf_hosts z')" "set (zn_waf_hosts z') = set hosts" unfolding hosts by simp_all
  ultimately show ?thesis by (intro exI [of _ z']) simp
qed

theorem Load_waf_hosts_witness:
  "\<exists>z'. mget (rg_zones sample_loaded) ''example.com'' = Some z' \<and> ''origin.example.com'' \<in> set (zn_waf_hosts z')"
proof -
  have zone: "mget (rg_zones sample_registry) ''example.com'' = Some sample_zone_cfg" by (simp add: sample_registry_def mget_def)
  have "waf_enabled sample_zone_cfg" "\<not> SecurityTxtOnly sample_zone_cfg" by code_simp+
  from Load_waf_hosts [OF sample_registry_valid wf_sample_registry sample_loads zone this]
  obtain z' where "mget (rg_zones sample_loaded) ''example.com'' = Some z'"
    "\<exists>r\<in>set (nil_list (zn_records sample_zone_cfg)). DnsRecord_WAFCovered (library_record r) \<and> rc_name r = ''origin.example.com'' \<Longrightarrow>
       ''origin.example.com'' \<in> set (zn_waf_hosts z')" by blast
  moreover have "list_ex (\<lambda>r. DnsRecord_WAFCovered (library_record r) \<and> rc_name r = ''origin.example.com'') (nil_list (zn_records sample_zone_cfg))"
    by code_simp
  ultimately show ?thesis unfolding list_ex_iff by blast
qed

end
