(* ===== verification/Zone_New.thy ===== *)
theory Zone_New imports Rule_Builders Pulumi_Program begin

text \<open>
  \<open>cloudflare/zone/zone.go\<close> and \<open>rulesets.go\<close>: the resources of one zone. The declaration blocks
  become contributions, the assembled phases become rulesets, every other setting a resource of
  its own. An optional argument of a resource is an option, \<open>None\<close> when the code leaves it unset.
  The seconds of a TTL are an integer here and a \<open>float64\<close> in the code, which holds the validated
  values (at most 86400) exactly.
\<close>

section \<open>The rules as the provider takes them\<close>

record provider_params =
  pp_cache :: "bool option"
  pp_edge_ttl :: "(string \<times> int option) option"
  pp_browser_ttl :: "(string \<times> int option) option"
  pp_respect_strong_etags :: "bool option"
  pp_ssl :: "string option"
  pp_ruleset :: "string option"
  pp_phases :: "string list option"
  pp_products :: "string list option"
  pp_id :: "string option"

definition no_provider_params :: provider_params where
  "no_provider_params = \<lparr>pp_cache = None, pp_edge_ttl = None, pp_browser_ttl = None, pp_respect_strong_etags = None,
     pp_ssl = None, pp_ruleset = None, pp_phases = None, pp_products = None, pp_id = None\<rparr>"

record provider_limit =
  pl_characteristics :: "string list"
  pl_period :: int
  pl_requests_per_period :: int
  pl_mitigation_timeout :: int
  pl_counting_expression :: "string option"

record provider_rule =
  pr_action :: string
  pr_description :: string
  pr_expression :: string
  pr_ref :: "string option"
  pr_enabled :: "bool option"
  pr_action_parameters :: "provider_params option"
  pr_logging :: bool
  pr_ratelimit :: "provider_limit option"

definition non_empty :: "'a list \<Rightarrow> 'a list option" where
  "non_empty xs = (if xs = [] then None else Some xs)"

definition provider_ttl :: "ttl \<Rightarrow> string \<times> int option" where
  "provider_ttl t = (ttl_mode t, if 0 < ttl_default t then Some (ttl_default t) else None)"

definition actionParameters :: "params \<Rightarrow> provider_params option" where
  "actionParameters p =
     (case par_cache p of
        Some c \<Rightarrow> Some (no_provider_params\<lparr>pp_cache := Some (cp_cache c),
          pp_edge_ttl := map_option provider_ttl (cp_edge_ttl c),
          pp_browser_ttl := map_option provider_ttl (cp_browser_ttl c),
          pp_respect_strong_etags := (if cp_respect_strong_etags c then Some True else None)\<rparr>)
      | None \<Rightarrow> (case par_config p of
        Some c \<Rightarrow> Some (no_provider_params\<lparr>pp_ssl := Some (cfp_ssl c)\<rparr>)
      | None \<Rightarrow> (case par_skip p of
        Some s \<Rightarrow> Some (no_provider_params\<lparr>pp_ruleset := non_empty (sp_ruleset s),
          pp_phases := non_empty (sp_phases s), pp_products := non_empty (sp_products s)\<rparr>)
      | None \<Rightarrow> (case par_execute p of
        Some x \<Rightarrow> Some (no_provider_params\<lparr>pp_id := Some (xp_id x)\<rparr>)
      | None \<Rightarrow> None))))"

definition provider_limit_of :: "rate_limit \<Rightarrow> provider_limit" where
  "provider_limit_of l = \<lparr>pl_characteristics = rl_characteristics l, pl_period = rl_period l,
     pl_requests_per_period = rl_requests l, pl_mitigation_timeout = rl_mitigation_timeout l,
     pl_counting_expression = non_empty (rl_counting_expression l)\<rparr>"

definition providerRule :: "rule \<Rightarrow> bool \<Rightarrow> bool \<Rightarrow> provider_rule" where
  "providerRule r builtin builtinEnabled = \<lparr>pr_action = rule_action r, pr_description = rule_description r,
     pr_expression = rule_expression r,
     pr_ref = (if \<not> builtin then Some (rule_ref r) else None),
     pr_enabled = (if \<not> builtin then Some (\<not> rule_disabled r) else if builtinEnabled then Some True else None),
     pr_action_parameters = actionParameters (rule_params r),
     pr_logging = rule_logging r,
     pr_ratelimit = map_option provider_limit_of (rule_rate_limit r)\<rparr>"

section \<open>The contributions of a zone\<close>

type_synonym builtins = "(phase \<times> string) \<rightharpoonup> bool"

datatype zone_new_error =
    EZNValidate zone_error
  | EZNTrusted rules_error
  | EZNManagedWAF rules_error
  | EZNRateLimits rules_error
  | EZNAssemble "assemble_error list"
  | EZNImport phase string

definition add_contribution :: "contribution \<Rightarrow> bool \<Rightarrow> contribution list \<times> builtins \<Rightarrow> contribution list \<times> builtins" where
  "add_contribution c enabled = (\<lambda>(out, known).
     (out @ [c], fold (\<lambda>r k. k((con_phase c, rule_ref r) \<mapsto> enabled)) (con_rules c) known))"

text \<open>A managed block is built, and its contribution added.\<close>

definition add_block :: "bool \<Rightarrow> rules_error + contribution \<Rightarrow> (rules_error \<Rightarrow> zone_new_error) \<Rightarrow> bool \<Rightarrow>
    contribution list \<times> builtins \<Rightarrow> zone_new_error + contribution list \<times> builtins" where
  "add_block managed built err enabled s =
     (if \<not> managed then Inr s
      else case built of Inl e \<Rightarrow> Inl (err e) | Inr c \<Rightarrow> Inr (add_contribution c enabled s))"

definition rate_limits_built :: "rate_limits option \<Rightarrow> rules_error + contribution" where
  "rate_limits_built l = (case l of None \<Rightarrow> RateLimits [] [] | Some r \<Rightarrow> RateLimits (rls_plan r) (rls_rules r))"

definition contributions :: "zone_args \<Rightarrow> zone_new_error + contribution list \<times> builtins" where
  "contributions a =
     (let known = [(PhaseCacheSettings, BypassRef) \<mapsto> False];
          s = (case za_cache a of None \<Rightarrow> ([], known) | Some c \<Rightarrow> add_contribution (CacheHosts (zc_hosts c)) False ([], known)) in
      sum_bind (add_block (TrustedClients_Managed (za_trusted_clients a)) (TrustedClients (za_trusted_clients a)) EZNTrusted False s) (\<lambda>s.
      sum_bind (add_block (ManagedWAF_Managed (za_managed_waf a)) (ManagedWAF (za_managed_waf a)) EZNManagedWAF True s) (\<lambda>s.
      sum_bind (add_block (RateLimits_Managed (za_rate_limits a)) (rate_limits_built (za_rate_limits a)) EZNRateLimits True s)
        (\<lambda>(out, known). Inr (out @ za_contributions a, known)))))"

section \<open>The resources\<close>

datatype setting_value =
    SText string
  | SNumber int
  | SHeader (sh_enabled: bool) (sh_max_age: int) (sh_include_subdomains: bool) (sh_nosniff: bool) (sh_preload: bool)

datatype zone_resource =
    ZComponent string
  | ZSetting string string setting_value
  | ZBotManagement string "string option" "bool option"
  | ZTotalTls string bool "string option"
  | ZRuleset string string phase string "provider_rule list" "string option"
  | ZRecord string string string string bool int "string option"
  | ZOutputs

type_synonym zone_child = "string \<times> zone_resource"

definition rulesetChild :: "phase \<Rightarrow> string \<Rightarrow> string" where
  "rulesetChild phase name =
     (if phase = PhaseCacheSettings then ''cache-rules-'' @ name
      else if phase = PhaseFirewallCustom then ''firewall-custom-'' @ name
      else if phase = PhaseFirewallManaged then ''firewall-managed-'' @ name
      else if phase = PhaseRateLimit then ''ratelimit-'' @ name
      else if phase = PhaseConfigSettings then ''ssl-mode-'' @ name
      else ''ruleset-'' @ phase @ ''-'' @ name)"

definition ruleset_rule :: "builtins \<Rightarrow> phase \<Rightarrow> rule \<Rightarrow> provider_rule" where
  "ruleset_rule known phase r =
     (case known (phase, rule_ref r) of
        None \<Rightarrow> providerRule r False False
      | Some enabled \<Rightarrow> providerRule r True enabled)"

definition ruleset_resource :: "string \<Rightarrow> zone_args \<Rightarrow> builtins \<Rightarrow> phase \<Rightarrow> rule list \<Rightarrow> zone_child" where
  "ruleset_resource name a known phase rules =
     (rulesetChild phase name,
      ZRuleset (za_zone_id a) ''zone'' phase ''default'' (map (ruleset_rule known phase) rules)
        (case mget (za_import_rulesets a) phase of
           None \<Rightarrow> None
         | Some i \<Rightarrow> if i = [] then None else Some (''zones/'' @ za_zone_id a @ ''/'' @ i)))"

definition newRulesets :: "string \<Rightarrow> zone_args \<Rightarrow> (zone_new_error, zone_child) action list" where
  "newRulesets name a =
     (case contributions a of
        Inl e \<Rightarrow> [Refuse e]
      | Inr (contribs, known) \<Rightarrow> (case Assemble contribs of
          Inl es \<Rightarrow> [Refuse (EZNAssemble es)]
        | Inr rulesets \<Rightarrow>
            refuse (first_err (\<lambda>(phase, i). fail_if (\<not> has_key rulesets phase) (EZNImport phase i)) (za_import_rulesets a)) @
            concat (map (\<lambda>phase. case mget rulesets phase of
                None \<Rightarrow> []
              | Some list \<Rightarrow> [Register (ruleset_resource name a known phase list)]) Phases)))"

definition hstsValue :: "hsts \<Rightarrow> setting_value" where
  "hstsValue h = SHeader (hs_enabled h) (hs_max_age h) (hs_include_subdomains h) (hs_nosniff h) (hs_preload h)"

definition recordSlug :: "string \<Rightarrow> string" where
  "recordSlug s = concat (map (\<lambda>c. if c = CHR ''*'' then ''star'' else if c = CHR ''.'' \<or> c = CHR '':'' then ''-'' else [c]) s)"

definition RecordName :: "string \<Rightarrow> dns_record \<Rightarrow> string" where
  "RecordName name r =
     ''record-'' @ name @ ''-'' @ recordSlug (dr_name r) @ ''-'' @ to_lower (dr_type r) @
     (if dr_type r \<noteq> ''CNAME'' then ''-'' @ recordSlug (dr_content r) else [])"

definition recordTTL :: "dns_record \<Rightarrow> int" where
  "recordTTL r = (if dr_proxied r \<or> dr_ttl r = 0 then 1 else dr_ttl r)"

definition record_resource :: "string \<Rightarrow> zone_args \<Rightarrow> dns_record \<Rightarrow> zone_child" where
  "record_resource name a r =
     (RecordName name r,
      ZRecord (za_zone_id a) (dr_name r) (dr_type r) (dr_content r) (dr_proxied r) (recordTTL r) (non_empty (dr_comment r)))"

definition on_off :: "bool \<Rightarrow> setting_value" where
  "on_off b = SText (if b then ''on'' else ''off'')"

text \<open>The settings before the rulesets, and what comes after them.\<close>

definition zone_settings :: "string \<Rightarrow> zone_args \<Rightarrow> zone_child list" where
  "zone_settings name a = (let zid = za_zone_id a in
     (if za_ssl a \<noteq> [] then [(''setting-'' @ name @ ''-ssl'', ZSetting zid ''ssl'' (SText (za_ssl a)))] else []) @
     (if za_min_tls_version a \<noteq> [] then [(''setting-'' @ name @ ''-min-tls-version'', ZSetting zid ''min_tls_version'' (SText (za_min_tls_version a)))] else []) @
     (case za_always_use_https a of None \<Rightarrow> [] | Some b \<Rightarrow> [(''setting-'' @ name @ ''-always-use-https'', ZSetting zid ''always_use_https'' (on_off b))]) @
     (case za_hsts a of None \<Rightarrow> [] | Some h \<Rightarrow> [(''setting-'' @ name @ ''-security-header'', ZSetting zid ''security_header'' (hstsValue h))]) @
     (case za_bot_management a of None \<Rightarrow> [] | Some b \<Rightarrow> [(''bot-management-'' @ name, ZBotManagement zid (non_empty (bm_ai_bots b)) (bm_managed_robots_txt b))]) @
     (case za_total_tls a of None \<Rightarrow> [] | Some t \<Rightarrow> [(''total-tls-'' @ name, ZTotalTls zid (tt_enabled t) (non_empty (tt_certificate_authority t)))]) @
     (case za_authenticated_origin_pulls a of None \<Rightarrow> [] | Some b \<Rightarrow> [(''tls-client-auth-'' @ name, ZSetting zid ''tls_client_auth'' (on_off b))]))"

definition browser_ttl_setting :: "string \<Rightarrow> zone_args \<Rightarrow> zone_child list" where
  "browser_ttl_setting name a =
     (case za_cache a of
        None \<Rightarrow> []
      | Some c \<Rightarrow> if zc_respect_origin_browser_ttl c
          then [(''setting-'' @ name @ ''-browser-cache-ttl'', ZSetting (za_zone_id a) ''browser_cache_ttl'' (SNumber 0))] else [])"

definition zone_records :: "string \<Rightarrow> zone_args \<Rightarrow> zone_child list" where
  "zone_records name a =
     (case za_records a of None \<Rightarrow> [] | Some rs \<Rightarrow> map (record_resource name a) (drs_entries rs))"

definition zone_actions :: "string \<Rightarrow> zone_args \<Rightarrow> (zone_new_error, zone_child) action list" where
  "zone_actions name a =
     refuse (map_option EZNValidate (Args_Validate a)) @
     [Register (name, ZComponent ''truvity:cloudflare:Zone'')] @
     map Register (zone_settings name a) @
     newRulesets name a @
     map Register (browser_ttl_setting name a) @
     map Register (zone_records name a) @
     [Register (name, ZOutputs)]"

section \<open>What the blocks contribute\<close>

definition rate_refs_ok :: "rate_limits option \<Rightarrow> bool" where
  "rate_refs_ok l = (case l of None \<Rightarrow> True | Some r \<Rightarrow>
     list_all (\<lambda>r. refSlug (rlr_name r) \<noteq> []) (rls_rules r) \<and> distinct (map rate_ref (rls_rules r)))"

definition block_refs :: "zone_args \<Rightarrow> phase \<Rightarrow> string list" where
  "block_refs a p =
     (if p = PhaseCacheSettings then (case za_cache a of None \<Rightarrow> [] | Some c \<Rightarrow> if zc_hosts c = [] then [] else [''cacheable-hosts''])
      else if p = PhaseFirewallCustom then (if TrustedClients_Managed (za_trusted_clients a) then [''trusted-clients''] else [])
      else if p = PhaseFirewallManaged then (if ManagedWAF_Managed (za_managed_waf a) then [''managed-waf''] else [])
      else if p = PhaseRateLimit then (case za_rate_limits a of None \<Rightarrow> [] | Some l \<Rightarrow> map rate_ref (rls_rules l))
      else [])"

definition bypass_refs :: "phase \<Rightarrow> string list" where
  "bypass_refs p = (if p = PhaseCacheSettings then [BypassRef] else [])"

definition block_phases :: "zone_args \<Rightarrow> phase list" where
  "block_phases a =
     (if za_cache a \<noteq> None then [PhaseCacheSettings] else []) @
     (if TrustedClients_Managed (za_trusted_clients a) then [PhaseFirewallCustom] else []) @
     (if ManagedWAF_Managed (za_managed_waf a) then [PhaseFirewallManaged] else []) @
     (if RateLimits_Managed (za_rate_limits a) then [PhaseRateLimit] else [])"

lemma rate_fold_total:
  "list_all (\<lambda>r. refSlug (rlr_name r) \<noteq> []) rows \<Longrightarrow> distinct (map rate_ref rows) \<Longrightarrow> \<forall>r\<in>set rows. \<not> has_key m (rate_ref r) \<Longrightarrow>
     \<exists>s. fold_err rate_step rows (m, rules) = Inr s"
proof (induction rows arbitrary: m rules)
  case (Cons r rows)
  from Cons.prems have "rate_step r (m, rules) = Inr (mput (rate_ref r) (rlr_name r) m, rules @ [rate_rule (rate_ref r) r])"
    by (simp add: rate_step_def rate_ref_def Let_def has_key_def)
  moreover have "\<forall>r'\<in>set rows. \<not> has_key (mput (rate_ref r) (rlr_name r) m) (rate_ref r')"
    using Cons.prems by (auto simp: image_iff)
  ultimately show ?case using Cons.prems Cons.IH [of "mput (rate_ref r) (rlr_name r) m"] by simp
qed simp

lemma RateLimits_total:
  assumes "RateLimits_validate l = None"
  shows "(\<exists>c. RateLimits (rls_plan l) (rls_rules l) = Inr c) \<longleftrightarrow> rate_refs_ok (Some l)"
proof
  assume "rate_refs_ok (Some l)"
  then obtain s where "fold_err rate_step (rls_rules l) ([], []) = Inr s"
    using rate_fold_total [of "rls_rules l" "[]" "[]"] by (auto simp: rate_refs_ok_def has_key_def)
  moreover have "Args_Validate (validation_args\<lparr>za_rate_limits := Some \<lparr>rls_plan = rls_plan l, rls_rules = rls_rules l\<rparr>\<rparr>) = None"
    using assms by (cases l) (simp add: Args_Validate_def on_block_def validation_args_def validationZone_def nothing_managed_def
        RateLimits_Managed_def Records_validate_def)
  ultimately show "\<exists>c. RateLimits (rls_plan l) (rls_rules l) = Inr c" by (cases s) (simp add: RateLimits_def)
qed (auto simp: rate_refs_ok_def dest: RateLimits_Inr)

lemma TrustedClients_total:
  assumes "TrustedClients_validate tc = None" and "TrustedClients_Managed (Some tc)"
  shows "\<exists>c. TrustedClients (Some tc) = Inr c \<and> con_phase c = PhaseFirewallCustom \<and> map rule_ref (con_rules c) = [''trusted-clients'']"
proof -
  have "Args_Validate (validation_args\<lparr>za_trusted_clients := Some tc\<rparr>) = None"
    using assms by (simp add: Args_Validate_def on_block_def validation_args_def validationZone_def nothing_managed_def Records_validate_def)
  moreover obtain r where "TrustedSkipSplit (tc_skip tc) = Inr r"
    using assms by (cases "TrustedSkipSplit (tc_skip tc)") (simp_all add: TrustedClients_validate_def)
  ultimately show ?thesis using assms(2) by (cases r) (simp add: TrustedClients_def Let_def zero_contribution_def)
qed

lemma ManagedWAF_total:
  assumes "ManagedWAF_validate w = None"
  shows "\<exists>c. ManagedWAF (Some w) = Inr c \<and> con_phase c = PhaseFirewallManaged \<and> map rule_ref (con_rules c) = [''managed-waf'']"
proof -
  have "Args_Validate (validation_args\<lparr>za_managed_waf := Some w\<rparr>) = None"
    using assms by (simp add: Args_Validate_def on_block_def validation_args_def validationZone_def nothing_managed_def
        ManagedWAF_Managed_def Records_validate_def)
  then show ?thesis by (simp add: ManagedWAF_def Let_def zero_contribution_def)
qed

text \<open>The map of the built-in rules knows the refs of what was added, and the bypass.\<close>

definition tracks :: "contribution list \<times> builtins \<Rightarrow> bool" where
  "tracks = (\<lambda>(out, known). list_all con_ok out \<and> dom known = {(p, r). r \<in> set (bypass_refs p @ refs_of p out)})"

lemma dom_add_known:
  "dom (fold (\<lambda>r k. k((p, rule_ref r) \<mapsto> b)) rs known) = dom known \<union> {p} \<times> rule_ref ` set rs"
  by (induction rs arbitrary: known) auto

lemma refs_of_snoc: "refs_of p (cs @ [c]) = refs_of p cs @ (if con_phase c = p then map rule_ref (con_rules c) else [])"
  by (simp add: refs_of_def)

lemma refs_of_append: "refs_of p (cs @ ds) = refs_of p cs @ refs_of p ds"
  by (simp add: refs_of_def)

lemma add_contribution_tracks: "tracks s \<Longrightarrow> con_ok c \<Longrightarrow> tracks (add_contribution c b s)"
  by (cases s) (auto simp: tracks_def add_contribution_def dom_add_known refs_of_snoc)

lemma fst_add_contribution [simp]: "fst (add_contribution c b s) = fst s @ [c]"
  by (cases s) (simp add: add_contribution_def)

lemma start_tracks: "tracks ([], [(PhaseCacheSettings, BypassRef) \<mapsto> False])"
  by (auto simp: tracks_def bypass_refs_def refs_of_def)

text \<open>One block: it adds nothing, or one contribution to one phase.\<close>

definition adds :: "bool \<Rightarrow> phase \<Rightarrow> string list \<Rightarrow> contribution list \<Rightarrow> bool" where
  "adds managed p refs bs \<longleftrightarrow> (\<forall>q. refs_of q bs = (if managed \<and> q = p then refs else [])) \<and>
     con_phase ` set bs = (if managed then {p} else {})"

lemma adds_one: "con_phase c = p \<Longrightarrow> map rule_ref (con_rules c) = refs \<Longrightarrow> adds True p refs [c]"
  by (auto simp: adds_def refs_of_def)

lemma adds_none: "adds False p refs []"
  by (simp add: adds_def refs_of_def)

lemma add_block_step:
  assumes "tracks s" and "managed \<Longrightarrow> \<exists>c. built = Inr c \<and> con_ok c \<and> con_phase c = p \<and> map rule_ref (con_rules c) = refs"
  obtains s' bs where "add_block managed built err b s = Inr s'" and "fst s' = fst s @ bs" and "tracks s'" and "adds managed p refs bs"
proof (cases managed)
  case True
  with assms(2) obtain c where c: "built = Inr c" "con_ok c" "con_phase c = p" "map rule_ref (con_rules c) = refs" by blast
  show thesis
    by (rule that [of "add_contribution c b s" "[c]"])
      (use True c add_contribution_tracks [OF assms(1) c(2)] in \<open>simp_all add: add_block_def adds_one\<close>)
next
  case False
  show thesis by (rule that [of s "[]"]) (use False assms(1) in \<open>simp_all add: add_block_def adds_none\<close>)
qed

definition cache_start :: "zone_args \<Rightarrow> contribution list \<times> builtins" where
  "cache_start a = (case za_cache a of
      None \<Rightarrow> ([], [(PhaseCacheSettings, BypassRef) \<mapsto> False])
    | Some c \<Rightarrow> add_contribution (CacheHosts (zc_hosts c)) False ([], [(PhaseCacheSettings, BypassRef) \<mapsto> False]))"

lemma cache_start_tracks: "tracks (cache_start a)"
  unfolding cache_start_def using start_tracks add_contribution_tracks [OF start_tracks CacheHosts_con_ok] by (simp split: option.split)

lemma cache_start_adds:
  "adds (za_cache a \<noteq> None) PhaseCacheSettings
     (case za_cache a of None \<Rightarrow> [] | Some c \<Rightarrow> if zc_hosts c = [] then [] else [''cacheable-hosts'']) (fst (cache_start a))"
proof (cases "za_cache a")
  case (Some c)
  then show ?thesis by (simp add: cache_start_def adds_one CacheHosts_def Let_def zero_contribution_def)
qed (simp add: cache_start_def adds_none)

lemmas phase_names = PhaseCacheSettings_def PhaseFirewallCustom_def PhaseFirewallManaged_def PhaseRateLimit_def

lemma Args_Validate_parts:
  assumes "Args_Validate a = None"
  shows "on_block TrustedClients_validate (za_trusted_clients a) = None" "on_block ManagedWAF_validate (za_managed_waf a) = None"
    "on_block RateLimits_validate (za_rate_limits a) = None" "Records_validate (za_records a) = None"
  using assms unfolding Args_Validate_def first_of_None map_option_is_None by iprover+

lemma contributions_rate_limits:
  assumes "Args_Validate a = None"
  obtains s bs where "contributions a =
       sum_bind (add_block (RateLimits_Managed (za_rate_limits a)) (rate_limits_built (za_rate_limits a)) EZNRateLimits True s)
         (\<lambda>(out, known). Inr (out @ za_contributions a, known))"
    and "tracks s" and "fst s = fst (cache_start a) @ bs"
    and "\<And>p. refs_of p bs = (if p = PhaseFirewallCustom \<and> TrustedClients_Managed (za_trusted_clients a) then [''trusted-clients'']
      else if p = PhaseFirewallManaged \<and> ManagedWAF_Managed (za_managed_waf a) then [''managed-waf''] else [])"
    and "con_phase ` set bs = (if TrustedClients_Managed (za_trusted_clients a) then {PhaseFirewallCustom} else {}) \<union>
      (if ManagedWAF_Managed (za_managed_waf a) then {PhaseFirewallManaged} else {})"
proof -
  note valid = Args_Validate_parts(1,2) [OF assms]
  have trusted: "\<exists>c. TrustedClients (za_trusted_clients a) = Inr c \<and> con_ok c \<and> con_phase c = PhaseFirewallCustom \<and> map rule_ref (con_rules c) = [''trusted-clients'']"
    if "TrustedClients_Managed (za_trusted_clients a)"
  proof -
    from that obtain tc where tc: "za_trusted_clients a = Some tc" by (cases "za_trusted_clients a") (simp_all add: TrustedClients_Managed_def)
    from valid(1) have "TrustedClients_validate tc = None" by (simp add: tc on_block_def)
    from TrustedClients_total [OF this] that obtain c where c: "TrustedClients (Some tc) = Inr c" "con_phase c = PhaseFirewallCustom"
      "map rule_ref (con_rules c) = [''trusted-clients'']" unfolding tc by metis
    with TrustedClients_con_ok [OF c(1)] show ?thesis unfolding tc by (intro exI [of _ c] conjI)
  qed
  have waf: "\<exists>c. ManagedWAF (za_managed_waf a) = Inr c \<and> con_ok c \<and> con_phase c = PhaseFirewallManaged \<and> map rule_ref (con_rules c) = [''managed-waf'']"
    if "ManagedWAF_Managed (za_managed_waf a)"
  proof -
    from that obtain w where w: "za_managed_waf a = Some w" by (auto simp: ManagedWAF_Managed_def)
    from valid(2) have "ManagedWAF_validate w = None" by (simp add: w on_block_def)
    from ManagedWAF_total [OF this] obtain c where c: "ManagedWAF (Some w) = Inr c" "con_phase c = PhaseFirewallManaged"
      "map rule_ref (con_rules c) = [''managed-waf'']" by metis
    with ManagedWAF_con_ok [OF c(1)] show ?thesis unfolding w by (intro exI [of _ c] conjI)
  qed
  from add_block_step [OF cache_start_tracks trusted] obtain s1 b1 where s1:
    "add_block (TrustedClients_Managed (za_trusted_clients a)) (TrustedClients (za_trusted_clients a)) EZNTrusted False (cache_start a) = Inr s1"
    "fst s1 = fst (cache_start a) @ b1" "tracks s1" "adds (TrustedClients_Managed (za_trusted_clients a)) PhaseFirewallCustom [''trusted-clients''] b1" .
  from add_block_step [OF s1(3) waf] obtain s2 b2 where s2:
    "add_block (ManagedWAF_Managed (za_managed_waf a)) (ManagedWAF (za_managed_waf a)) EZNManagedWAF True s1 = Inr s2"
    "fst s2 = fst s1 @ b2" "tracks s2" "adds (ManagedWAF_Managed (za_managed_waf a)) PhaseFirewallManaged [''managed-waf''] b2" .
  show thesis
  proof (rule that [of s2 "b1 @ b2"])
    show "contributions a = sum_bind (add_block (RateLimits_Managed (za_rate_limits a)) (rate_limits_built (za_rate_limits a)) EZNRateLimits True s2)
       (\<lambda>(out, known). Inr (out @ za_contributions a, known))"
      unfolding contributions_def Let_def cache_start_def [symmetric] s1(1) s2(1) sum_bind_simps ..
    show "tracks s2" by (rule s2(3))
    show "fst s2 = fst (cache_start a) @ b1 @ b2" by (simp add: s2(2) s1(2))
    have "PhaseFirewallCustom \<noteq> PhaseFirewallManaged" by (simp add: phase_names)
    with s1(4) s2(4) show "refs_of p (b1 @ b2) = (if p = PhaseFirewallCustom \<and> TrustedClients_Managed (za_trusted_clients a) then [''trusted-clients'']
        else if p = PhaseFirewallManaged \<and> ManagedWAF_Managed (za_managed_waf a) then [''managed-waf''] else [])" for p
      unfolding adds_def refs_of_append by simp
    from s1(4) s2(4) show "con_phase ` set (b1 @ b2) = (if TrustedClients_Managed (za_trusted_clients a) then {PhaseFirewallCustom} else {}) \<union>
        (if ManagedWAF_Managed (za_managed_waf a) then {PhaseFirewallManaged} else {})"
      unfolding adds_def by (simp only: set_append image_Un)
  qed
qed

lemma contributions_valid:
  assumes "Args_Validate a = None"
  shows "if rate_refs_ok (za_rate_limits a)
     then \<exists>blocks known. contributions a = Inr (blocks @ za_contributions a, known) \<and> tracks (blocks, known) \<and>
       (\<forall>p. refs_of p blocks = block_refs a p) \<and> con_phase ` set blocks = set (block_phases a)
     else \<exists>e. contributions a = Inl (EZNRateLimits e)"
proof -
  from contributions_rate_limits [OF assms] obtain s bs where rest: "contributions a =
       sum_bind (add_block (RateLimits_Managed (za_rate_limits a)) (rate_limits_built (za_rate_limits a)) EZNRateLimits True s)
         (\<lambda>(out, known). Inr (out @ za_contributions a, known))"
    and s: "tracks s" "fst s = fst (cache_start a) @ bs"
    and bs: "\<And>p. refs_of p bs = (if p = PhaseFirewallCustom \<and> TrustedClients_Managed (za_trusted_clients a) then [''trusted-clients'']
      else if p = PhaseFirewallManaged \<and> ManagedWAF_Managed (za_managed_waf a) then [''managed-waf''] else [])"
      "con_phase ` set bs = (if TrustedClients_Managed (za_trusted_clients a) then {PhaseFirewallCustom} else {}) \<union>
      (if ManagedWAF_Managed (za_managed_waf a) then {PhaseFirewallManaged} else {})" by blast
  have ok: "RateLimits_validate l = None" if "za_rate_limits a = Some l" for l
    using Args_Validate_parts(3) [OF assms] that by (simp add: on_block_def)
  show ?thesis
  proof (cases "rate_refs_ok (za_rate_limits a)")
    case True
    define refs where "refs = (case za_rate_limits a of None \<Rightarrow> [] | Some l \<Rightarrow> map rate_ref (rls_rules l))"
    have built: "\<exists>c. rate_limits_built (za_rate_limits a) = Inr c \<and> con_ok c \<and> con_phase c = PhaseRateLimit \<and> map rule_ref (con_rules c) = refs"
      if managed: "RateLimits_Managed (za_rate_limits a)"
    proof -
      from managed obtain l where l: "za_rate_limits a = Some l" by (auto simp: RateLimits_Managed_def)
      with RateLimits_total [OF ok [OF l]] True obtain c where c: "RateLimits (rls_plan l) (rls_rules l) = Inr c" by auto
      with RateLimits_Inr [OF c] RateLimits_con_ok [OF c] l show ?thesis
        by (auto simp: rate_limits_built_def refs_def rate_rule_def comp_def)
    qed
    from add_block_step [OF s(1) built] obtain s' b3 where s': "add_block (RateLimits_Managed (za_rate_limits a))
        (rate_limits_built (za_rate_limits a)) EZNRateLimits True s = Inr s'" "fst s' = fst s @ b3" "tracks s'"
      "adds (RateLimits_Managed (za_rate_limits a)) PhaseRateLimit refs b3" .
    have "refs_of p (fst s') = block_refs a p" for p
      using s'(4) bs(1) [of p] cache_start_adds [of a] unfolding s'(2) s(2) refs_of_append
      by (auto simp: adds_def block_refs_def phase_names refs_def RateLimits_Managed_def split: option.splits)
    moreover have "con_phase ` set (fst s') = set (block_phases a)"
      using s'(4) bs(2) cache_start_adds [of a] unfolding s'(2) s(2) by (auto simp: adds_def block_phases_def image_Un)
    ultimately show ?thesis using s'(1,3) True unfolding rest by (cases s') auto
  next
    case False
    then obtain l where l: "za_rate_limits a = Some l" by (cases "za_rate_limits a") (simp_all add: rate_refs_ok_def)
    with RateLimits_total [OF ok [OF l]] False obtain e where "RateLimits (rls_plan l) (rls_rules l) = Inl e"
      by (cases "RateLimits (rls_plan l) (rls_rules l)") auto
    with False l show ?thesis unfolding rest by (simp add: add_block_def rate_limits_built_def RateLimits_Managed_def)
  qed
qed

section \<open>When a zone is refused\<close>

text \<open>What a zone that passes its validation must meet besides: the names of its rate limits give
  distinct refs, its own contributions are fit and take no ref twice, and every ruleset to import
  is one the zone manages.\<close>

definition refs_unique :: "zone_args \<Rightarrow> bool" where
  "refs_unique a \<longleftrightarrow> list_all (\<lambda>p. distinct (bypass_refs p @ block_refs a p @ refs_of p (za_contributions a))) Phases"

definition imports_managed :: "zone_args \<Rightarrow> bool" where
  "imports_managed a \<longleftrightarrow>
     list_all (\<lambda>(phase, i). phase \<in> set (block_phases a) \<or> phase \<in> con_phase ` set (za_contributions a)) (za_import_rulesets a)"

definition zone_accepted :: "zone_args \<Rightarrow> bool" where
  "zone_accepted a \<longleftrightarrow> rate_refs_ok (za_rate_limits a) \<and> list_all con_ok (za_contributions a) \<and> refs_unique a \<and> imports_managed a"

lemma refs_outside: "list_all con_ok cs \<Longrightarrow> p \<notin> set Phases \<Longrightarrow> refs_of p cs = []"
  by (induction cs) (auto simp: refs_of_def con_ok_def)

lemma assemble_ok_blocks:
  assumes "tracks (blocks, known)" and "\<And>p. refs_of p blocks = block_refs a p"
  shows "assemble_ok (blocks @ za_contributions a) \<longleftrightarrow> list_all con_ok (za_contributions a) \<and> refs_unique a"
proof (cases "list_all con_ok (za_contributions a)")
  case True
  from assms(1) have blocks: "list_all con_ok blocks" by (simp add: tracks_def)
  let ?own = "\<lambda>p. block_refs a p @ refs_of p (za_contributions a)"
  have outside: "?own p = []" if "p \<notin> set Phases" for p
    using refs_outside [OF blocks that] refs_outside [OF True that] by (simp add: assms(2))
  have bypass: "distinct (bypass_refs p @ ?own p) \<longleftrightarrow> distinct (?own p) \<and> (p = PhaseCacheSettings \<longrightarrow> BypassRef \<notin> set (?own p))" for p
    by (auto simp: bypass_refs_def)
  have "assemble_ok (blocks @ za_contributions a) \<longleftrightarrow> (\<forall>p. distinct (bypass_refs p @ ?own p))"
    unfolding assemble_ok_def bypass refs_of_append assms(2) using blocks True by auto
  also have "\<dots> \<longleftrightarrow> (\<forall>p\<in>set Phases. distinct (bypass_refs p @ ?own p))"
    using outside Phases_cache by (metis append_Nil2 bypass_refs_def distinct.simps(1))
  finally show ?thesis using True by (simp add: refs_unique_def list_all_iff)
qed (simp add: assemble_ok_def)

lemma in_phase_iff: "in_phase p cs \<noteq> [] \<longleftrightarrow> p \<in> con_phase ` set cs"
  by (auto simp: filter_empty_conv)

lemma newRulesets_refused:
  assumes "Args_Validate a = None"
  shows "refused (newRulesets name a) = [] \<longleftrightarrow> zone_accepted a"
proof (cases "rate_refs_ok (za_rate_limits a)")
  case True
  with contributions_valid [OF assms] obtain blocks known where c: "contributions a = Inr (blocks @ za_contributions a, known)"
    "tracks (blocks, known)" "\<And>p. refs_of p blocks = block_refs a p" "con_phase ` set blocks = set (block_phases a)" by auto
  show ?thesis
  proof (cases "Assemble (blocks @ za_contributions a)")
    case (Inl es)
    with Assemble_Inl [OF Inl] assemble_ok_blocks [OF c(2,3)] c(1) show ?thesis
      by (auto simp: newRulesets_def zone_accepted_def)
  next
    case (Inr m)
    have "has_key m p \<longleftrightarrow> p \<in> set (block_phases a) \<or> p \<in> con_phase ` set (za_contributions a)" for p
    proof -
      from Assemble_Inr [OF Inr, of p] have "mget m p = assembled (blocks @ za_contributions a) p" by simp
      then have "has_key m p \<longleftrightarrow> in_phase p (blocks @ za_contributions a) \<noteq> []"
        unfolding has_key_def assembled_def by simp
      then show ?thesis unfolding in_phase_iff by (simp add: image_Un c(4))
    qed
    then have managed: "first_err (\<lambda>(phase, i). fail_if (\<not> has_key m phase) (EZNImport phase i)) (za_import_rulesets a) = None \<longleftrightarrow> imports_managed a"
      by (simp add: first_err_None imports_managed_def list_all_iff case_prod_beta)
    have "assemble_ok (blocks @ za_contributions a)" using Assemble_Inr [OF Inr] by blast
    then have accepted: "zone_accepted a \<longleftrightarrow> imports_managed a"
      unfolding zone_accepted_def assemble_ok_blocks [OF c(2,3)] using True by blast
    let ?check = "first_err (\<lambda>(phase, i). fail_if (\<not> has_key m phase) (EZNImport phase i)) (za_import_rulesets a)"
    let ?rulesets = "concat (map (\<lambda>phase. case mget m phase of None \<Rightarrow> []
      | Some list \<Rightarrow> [Register (ruleset_resource name a known phase list) :: (zone_new_error, zone_child) action]) Phases)"
    have none: "refused ?rulesets = []" by (simp add: refused_concat split: option.split)
    have "newRulesets name a = refuse ?check @ ?rulesets" by (simp add: newRulesets_def c(1) Inr)
    then have "refused (newRulesets name a) = refused (refuse ?check :: (zone_new_error, zone_child) action list)"
      by (simp only: refused_append none append_Nil2)
    then show ?thesis unfolding accepted managed [symmetric] by (cases ?check) simp_all
  qed
next
  case False
  with contributions_valid [OF assms] obtain e where "contributions a = Inl (EZNRateLimits e)" by auto
  with False show ?thesis by (simp add: newRulesets_def zone_accepted_def)
qed

lemma newRulesets_refused_first: "refused (newRulesets name a) \<noteq> [] \<Longrightarrow> \<exists>e rest. newRulesets name a = Refuse e # rest"
proof (cases "contributions a")
  case (Inr c)
  moreover assume "refused (newRulesets name a) \<noteq> []"
  ultimately show ?thesis
    by (cases c; cases "Assemble (fst c)") (auto simp: newRulesets_def refused_concat refuse_def split: option.splits)
qed (simp add: newRulesets_def)

lemma run_registers: "run_actions accept_all (map Register rs @ as) made = run_actions accept_all as (made @ rs)"
  by (induction rs arbitrary: made) (simp_all add: accept_all_def)

section \<open>Which rules carry a ref\<close>

lemma ruleset_rule_ref: "pr_ref (ruleset_rule known p r) = (if (p, rule_ref r) \<in> dom known then None else Some (rule_ref r))"
  by (auto simp: ruleset_rule_def providerRule_def split: option.split)

lemma image_mset_const_on: "(\<And>x. x \<in># M \<Longrightarrow> f x = c) \<Longrightarrow> image_mset f M = replicate_mset (size M) c"
  by (induction M) auto

lemma contributed_refs:
  assumes "tracks (blocks, known)" and "\<And>p. refs_of p blocks = block_refs a p"
    and "Assemble (blocks @ za_contributions a) = Inr m" and "mget m p = Some rs"
  shows "mset (map (\<lambda>r. pr_ref (ruleset_rule known p r)) rs) =
     mset (map Some (refs_of p (za_contributions a))) + replicate_mset (length (bypass_refs p @ block_refs a p)) None"
proof -
  let ?built = "bypass_refs p @ block_refs a p" and ?own = "refs_of p (za_contributions a)"
  let ?label = "\<lambda>k. if (p, k) \<in> dom known then None else Some k"
  have known: "(p, k) \<in> dom known \<longleftrightarrow> k \<in> set ?built" for k using assms(1) by (simp add: tracks_def assms(2))
  have ok: "assemble_ok (blocks @ za_contributions a)" "assembled (blocks @ za_contributions a) p = Some rs"
    using Assemble_Inr [OF assms(3), of p] assms(4) by simp_all
  from ok(2) obtain c where "c \<in> set (blocks @ za_contributions a)" "con_phase c = p"
    by (auto simp: assembled_def filter_empty_conv split: if_splits)
  moreover from ok(1) have "list_all con_ok (blocks @ za_contributions a)" unfolding assemble_ok_def by blast
  ultimately have phase: "p \<in> set Phases" unfolding list_all_iff con_ok_def by blast
  from ok(1) have "refs_unique a" using assemble_ok_blocks [OF assms(1,2)] by blast
  with phase have "distinct (?built @ ?own)" by (simp add: refs_unique_def list_all_iff)
  then have disjoint: "set ?own \<inter> set ?built = {}" by auto
  have "mset (map rule_ref rs) = mset ?own + mset ?built"
    using mset_assembled_refs [OF ok(2)] by (simp add: refs_of_append assms(2) bypass_refs_def)
  then have "image_mset ?label (mset (map rule_ref rs)) = image_mset ?label (mset ?own) + image_mset ?label (mset ?built)"
    by simp
  also have "image_mset ?label (mset ?own) = image_mset Some (mset ?own)"
    using disjoint by (intro image_mset_cong) (auto simp: known)
  also have "image_mset ?label (mset ?built) = replicate_mset (length ?built) None"
    by (subst image_mset_const_on [of "mset ?built" ?label None]) (simp_all only: known set_mset_mset if_True size_mset)
  finally show ?thesis by (simp add: ruleset_rule_ref comp_def image_mset.compositionality)
qed

section \<open>Properties\<close>

definition sample_zone_resources :: zone_args where
  "sample_zone_resources = sample_hsts_zone\<lparr>za_import_rulesets := [(''http_ratelimit'', ''abc'')],
     za_contributions := [zero_contribution\<lparr>con_source := ''ssl-mode:x'', con_phase := PhaseConfigSettings,
       con_rules := [zero_rule\<lparr>rule_ref := ''x'', rule_action := ActionSetConfig, rule_expression := ''true''\<rparr>]\<rparr>],
     za_cache := Some \<lparr>zc_hosts = [''www.example.com''], zc_respect_origin_browser_ttl = True\<rparr>\<rparr>"

lemma sample_zone_valid: "Args_Validate sample_zone_resources = None"
  by code_simp

text \<open>C27 A zone that passes its validation is refused by nothing later, unless the names of two rate
  limits give one ref or none, a contribution of its own is unfit or takes a ref twice, or a
  ruleset is to be imported into a phase the zone does not manage. When it is refused, its plain
  settings are registered and none of its rulesets or records is.\<close>

theorem Zone_New_accepts:
  assumes "Args_Validate a = None"
  shows "if zone_accepted a then run_actions accept_all (zone_actions name a) [] = (None, registered (zone_actions name a))
     else \<exists>e. run_actions accept_all (zone_actions name a) [] =
       (Some (Inl e), (name, ZComponent ''truvity:cloudflare:Zone'') # zone_settings name a)"
proof -
  let ?start = "(name, ZComponent ''truvity:cloudflare:Zone'') # zone_settings name a"
  have split: "zone_actions name a = map Register ?start @
      newRulesets name a @ map Register (browser_ttl_setting name a) @ map Register (zone_records name a) @ [Register (name, ZOutputs)]"
    using assms by (simp add: zone_actions_def)
  show ?thesis
  proof (cases "zone_accepted a")
    case True
    then have "refused (zone_actions name a) = []"
      unfolding split using newRulesets_refused [OF assms] by simp
    with True show ?thesis by (simp add: run_actions_None accept_all_def)
  next
    case False
    then obtain e rest where "newRulesets name a = Refuse e # rest"
      using newRulesets_refused [OF assms] newRulesets_refused_first by blast
    with False show ?thesis unfolding split run_registers by simp
  qed
qed

theorem Zone_New_accepts_witness:
  "\<exists>e. run_actions accept_all (zone_actions ''z'' sample_zone_resources) [] =
     (Some (Inl e), (''z'', ZComponent ''truvity:cloudflare:Zone'') # zone_settings ''z'' sample_zone_resources)"
proof -
  have "\<not> zone_accepted sample_zone_resources" by code_simp
  then show ?thesis using Zone_New_accepts [OF sample_zone_valid, of "''z''"] by simp
qed

text \<open>Of the rules a zone registers for a phase, exactly those of its own contributions carry their
  ref; the rules of its blocks, and the bypass, are registered without one.\<close>

theorem Zone_rules_refs:
  assumes "Args_Validate a = None" and "(child, ZRuleset zid kind p n rules imported) \<in> set (registered (newRulesets name a))"
  shows "mset (map pr_ref rules) =
     mset (map Some (refs_of p (za_contributions a))) + replicate_mset (length (bypass_refs p @ block_refs a p)) None"
proof -
  from assms(2) have "rate_refs_ok (za_rate_limits a)"
    using contributions_valid [OF assms(1)] by (auto simp: newRulesets_def split: if_splits)
  with contributions_valid [OF assms(1)] obtain blocks known where c: "contributions a = Inr (blocks @ za_contributions a, known)"
    "tracks (blocks, known)" "\<And>p. refs_of p blocks = block_refs a p" by auto
  with assms(2) obtain m rs where "Assemble (blocks @ za_contributions a) = Inr m" "mget m p = Some rs"
    and rules: "rules = map (ruleset_rule known p) rs"
    by (auto simp: newRulesets_def registered_concat ruleset_resource_def split: sum.splits option.splits)
  from contributed_refs [OF c(2,3) this(1,2)] show ?thesis unfolding rules by (simp add: comp_def)
qed

theorem Zone_rules_refs_witness:
  "\<exists>rules. mset (map pr_ref rules) = {#Some ''x''#} \<and>
     (''ssl-mode-z'', ZRuleset ''z1'' ''zone'' PhaseConfigSettings ''default'' rules None) \<in>
       set (registered (newRulesets ''z'' sample_zone_resources))"
proof -
  obtain rules where rules: "(''ssl-mode-z'', ZRuleset ''z1'' ''zone'' PhaseConfigSettings ''default'' rules None) \<in>
      set (registered (newRulesets ''z'' sample_zone_resources))"
  proof
    show "(''ssl-mode-z'', ZRuleset ''z1'' ''zone'' PhaseConfigSettings ''default''
        [providerRule (zero_rule\<lparr>rule_ref := ''x'', rule_action := ActionSetConfig, rule_expression := ''true''\<rparr>) False False] None) \<in>
      set (registered (newRulesets ''z'' sample_zone_resources))"
      by code_simp
  qed
  moreover have "mset (map Some (refs_of PhaseConfigSettings (za_contributions sample_zone_resources))) +
      replicate_mset (length (bypass_refs PhaseConfigSettings @ block_refs sample_zone_resources PhaseConfigSettings)) None = {#Some ''x''#}"
    by (simp add: sample_zone_resources_def refs_of_def bypass_refs_def block_refs_def PhaseConfigSettings_def phase_names)
  ultimately show ?thesis using Zone_rules_refs [OF sample_zone_valid rules] by auto
qed

end
