(* ===== verification/Config_Rules.thy ===== *)
theory Config_Rules imports Config_Load Zone_New begin

text \<open>
  \<open>cloudflare/config/contributions.go\<close>: when the rules of a checked zone can be built. The registry's
  checks cover most of what the builders ask; what they leave open are the hosts of the cache and the
  SSL mode rules, whose pattern is narrower, the names of the rate limiting rules, whose refs must be
  distinct, and the derived hosts of the managed WAF.
\<close>

lemma map_error_Inr: "(\<exists>y. map_error f r = Inr y) \<longleftrightarrow> (\<exists>x. r = Inr x)"
  by (cases r) (simp_all add: map_error_def)

lemma edge_zone_blocks:
  assumes "validateRegistry c = None" and "mget (rg_zones c) n = Some z" and "\<not> SecurityTxtOnly z"
  shows "validate_trusted_cfg n (zn_trusted_clients z) = None" and "validate_rate_limits_cfg n (zn_rate_limits z) = None"
    and "validateHardening z n = None" and "validate_public_cache (zn_public_cache z) n (zn_cache z \<noteq> None) = None"
    and "validateSSLModeRules z n = None" and "validateRecords z n = None"
  using registry_zone [OF assms(1,2)] assms(3) unfolding validate_zone_cfg_def prod.case if_False first_of_None validateEdge_def
  by (simp_all only: if_False first_of_None)

lemma public_cache_builds:
  assumes "validate_public_cache (Some p) n cached = None"
  shows "(\<exists>r. PublicPathsCache (pcc_host p) \<lparr>ppa_ttl = EdgeTTL (Some p), ppa_paths = []\<rparr> = Inr r) \<longleftrightarrow> rx_match hostPattern (pcc_host p)"
proof -
  define ttl where "ttl = (if EdgeTTL (Some p) = 0 then DefaultPublicCacheTTL else EdgeTTL (Some p))"
  have "EdgeTTL (Some p) = 0 \<or> second \<le> EdgeTTL (Some p) \<and> EdgeTTL (Some p) \<le> maxPublicCacheTTL \<and> EdgeTTL (Some p) mod second = 0"
    using assms by (auto simp: validate_public_cache_def EdgeTTL_def split: option.splits if_splits)
  then have ttl: "\<not> (ttl < second \<or> MaxPublicCacheTTL < ttl \<or> ttl mod second \<noteq> 0)"
    by (auto simp: ttl_def DefaultPublicCacheTTL_def MaxPublicCacheTTL_def maxPublicCacheTTL_def second_def)
  have paths: "first_err (\<lambda>p. fail_if (\<not> rx_match pathPattern p) (EBPath p)) DefaultPublicCachePaths = None"
    "length (remdups_adj (sort DefaultPublicCachePaths)) = length (sort DefaultPublicCachePaths)" by code_simp+
  show ?thesis unfolding PublicPathsCache_def public_paths_args.simps Let_def ttl_def [symmetric] if_True eqTrueI [OF refl]
    using ttl paths by simp
qed

lemma ssl_mode_builds:
  assumes "mode \<in> set sslModeRuleModes"
  shows "(\<exists>c. SSLMode host mode (SSLModeRef z host) = Inr c) \<longleftrightarrow> rx_match hostPattern host"
proof -
  have modes: "Args_Validate (validation_args\<lparr>za_ssl := ''full''\<rparr>) = None" "Args_Validate (validation_args\<lparr>za_ssl := ''strict''\<rparr>) = None"
    by code_simp+
  have "SSLModeRef z host \<noteq> []" by (simp add: SSLModeRef_def split: option.split)
  with assms modes show ?thesis by (auto simp: SSLMode_def sslModeRuleModes_def)
qed

lemma rate_limits_builds:
  assumes "validate_rate_limits_cfg n (Some r) = None" and "RateLimitsCfg_Library (Some r) = Some rl"
  shows "(\<exists>c. RateLimits (rls_plan rl) (rls_rules rl) = Inr c) \<longleftrightarrow> rate_refs_ok (Some rl)"
proof (rule RateLimits_total)
  have "Args_Validate ((block_args ''validate'')\<lparr>za_rate_limits := Some rl\<rparr>) = None"
    using assms unfolding validate_rate_limits_cfg_def option.case first_of_None map_option_is_None by metis
  from Args_Validate_parts(3) [OF this] show "RateLimits_validate rl = None" by (simp add: on_block_def)
qed

lemma trusted_builds:
  assumes "validate_trusted_cfg n (Some t) = None" and "TrustedClientsCfg_Library n (Some t) = Some tc"
  shows "\<exists>c. TrustedClients (Some tc) = Inr c"
proof (cases "TrustedClients_Managed (Some tc)")
  case True
  have "Args_Validate ((block_args n)\<lparr>za_trusted_clients := Some tc\<rparr>) = None"
    using assms unfolding validate_trusted_cfg_def option.case map_option_is_None by metis
  from Args_Validate_parts(1) [OF this] have "TrustedClients_validate tc = None" by (simp add: on_block_def)
  with TrustedClients_total True show ?thesis by blast
qed (simp add: TrustedClients_def)

lemma waf_builds: "(\<exists>c. ManagedWAF (Some w) = Inr c) \<longleftrightarrow> ManagedWAF_validate w = None"
proof
  assume "\<exists>c. ManagedWAF (Some w) = Inr c"
  then have "Args_Validate (validation_args\<lparr>za_managed_waf := Some w\<rparr>) = None" by (auto simp: ManagedWAF_def)
  from Args_Validate_parts(2) [OF this] show "ManagedWAF_validate w = None" by (simp add: on_block_def)
qed (use ManagedWAF_total in blast)

lemma written_waf_valid:
  assumes "validateHardening z n = None" and "\<not> waf_enabled z" and "ManagedWAFLibrary z n = Some w"
  shows "ManagedWAF_validate w = None"
proof -
  have w: "za_managed_waf (hardening_args z n) = Some w"
    using assms(2,3) by (auto simp: hardening_args_def ManagedWAFLibrary_def ManagedWAFCfg_Library_def)
  then have "Args_Validate (hardening_args z n) = None" using assms(1) unfolding validateHardening_def by (simp split: if_splits)
  from Args_Validate_parts(2) [OF this] show ?thesis by (simp add: on_block_def w)
qed

text \<open>The conditions the checks leave open.\<close>

definition builders_open :: "zone_cfg \<Rightarrow> bool" where
  "builders_open z \<longleftrightarrow>
     (case zn_public_cache z of None \<Rightarrow> True | Some p \<Rightarrow> rx_match hostPattern (pcc_host p)) \<and>
     list_all (rx_match hostPattern) (map fst (sorted_entries (nil_list (zn_ssl_mode_rules z)))) \<and>
     rate_refs_ok (RateLimitsCfg_Library (zn_rate_limits z)) \<and>
     (case ManagedWAFLibrary z (zn_name z) of None \<Rightarrow> True | Some w \<Rightarrow> waf_enabled z \<longrightarrow> ManagedWAF_validate w = None)"

lemma checked_blocks_build:
  assumes ok: "validate_trusted_cfg n (zn_trusted_clients z) = None" "validate_rate_limits_cfg n (zn_rate_limits z) = None"
    "validateHardening z n = None" "validate_public_cache (zn_public_cache z) n (zn_cache z \<noteq> None) = None" "validateSSLModeRules z n = None"
    and name: "zn_name z = n" and edge: "\<not> SecurityTxtOnly z"
  shows "(\<exists>cs. Zone_Contributions z = Inr cs) \<longleftrightarrow> builders_open z"
proof -
  have entries: "(\<forall>b\<in>set (map (\<lambda>(host, mode). map_error (CESSLMode host) (SSLMode host mode (SSLModeRef z host))) es). \<exists>y. b = Inr y) \<longleftrightarrow>
      list_all (rx_match hostPattern) (map fst es)" if "\<forall>(host, mode)\<in>set es. mode \<in> set sslModeRuleModes" for es
    using that
  proof (induction es)
    case (Cons kv es)
    obtain host mode where kv: "kv = (host, mode)" by (cases kv)
    have "(\<exists>y. map_error (CESSLMode host) (SSLMode host mode (SSLModeRef z host)) = Inr y) \<longleftrightarrow> rx_match hostPattern host"
      unfolding map_error_Inr using Cons.prems by (intro ssl_mode_builds) (simp add: kv)
    with Cons show ?case by (simp add: kv)
  qed simp
  have "first_err (\<lambda>(host, mode). first_of [fail_if (\<not> exact_inside n host) (CZRuleHost host),
        fail_if (mode \<notin> set sslModeRuleModes) (CZRuleMode host mode)]) (sorted_entries (nil_list (zn_ssl_mode_rules z))) = None"
    using ok(5) unfolding validateSSLModeRules_def first_of_None by blast
  then have modes: "\<forall>(host, mode)\<in>set (sorted_entries (nil_list (zn_ssl_mode_rules z))). mode \<in> set sslModeRuleModes"
    unfolding first_err_None by auto
  have public: "(\<forall>b\<in>set (case zn_public_cache z of None \<Rightarrow> [] | Some p \<Rightarrow> [map_error CEPublicCache
         (sum_bind (PublicPathsCache (pcc_host p) \<lparr>ppa_ttl = EdgeTTL (Some p), ppa_paths = []\<rparr>) (\<lambda>rule. Inr (CacheRule_Contribution rule)))]). \<exists>y. b = Inr y) \<longleftrightarrow>
      (case zn_public_cache z of None \<Rightarrow> True | Some p \<Rightarrow> rx_match hostPattern (pcc_host p))"
  proof (cases "zn_public_cache z")
    case (Some p)
    have "(\<exists>y. map_error CEPublicCache (sum_bind (PublicPathsCache (pcc_host p) \<lparr>ppa_ttl = EdgeTTL (Some p), ppa_paths = []\<rparr>)
         (\<lambda>rule. Inr (CacheRule_Contribution rule))) = Inr y) \<longleftrightarrow>
       (\<exists>r. PublicPathsCache (pcc_host p) \<lparr>ppa_ttl = EdgeTTL (Some p), ppa_paths = []\<rparr> = Inr r)"
      unfolding map_error_Inr by auto
    also have "\<dots> \<longleftrightarrow> rx_match hostPattern (pcc_host p)" by (rule public_cache_builds [OF ok(4) [unfolded Some]])
    finally show ?thesis by (simp add: Some)
  qed simp
  have rates: "(\<forall>b\<in>set (case RateLimitsCfg_Library (zn_rate_limits z) of None \<Rightarrow> [] | Some rl \<Rightarrow>
         [map_error CERateLimits (RateLimits (rls_plan rl) (rls_rules rl))]). \<exists>y. b = Inr y) \<longleftrightarrow> rate_refs_ok (RateLimitsCfg_Library (zn_rate_limits z))"
  proof (cases "zn_rate_limits z")
    case (Some r)
    then obtain rl where "RateLimitsCfg_Library (Some r) = Some rl" by (simp add: RateLimitsCfg_Library_def)
    with rate_limits_builds [OF ok(2) [unfolded Some] this] Some show ?thesis by (simp add: map_error_Inr)
  qed (simp add: RateLimitsCfg_Library_def rate_refs_ok_def)
  have trusted: "\<forall>b\<in>set (case TrustedClientsCfg_Library n (zn_trusted_clients z) of None \<Rightarrow> [] | Some t \<Rightarrow>
         [map_error CETrusted (TrustedClients (Some t))]). \<exists>y. b = Inr y"
  proof (cases "zn_trusted_clients z")
    case (Some t)
    then obtain tc where "TrustedClientsCfg_Library n (Some t) = Some tc" by (simp add: TrustedClientsCfg_Library_def)
    with trusted_builds [OF ok(1) [unfolded Some] this] Some show ?thesis by (simp add: map_error_Inr)
  qed (simp add: TrustedClientsCfg_Library_def)
  have waf: "(\<forall>b\<in>set (case ManagedWAFLibrary z n of None \<Rightarrow> [] | Some w \<Rightarrow> [map_error CEWAF (ManagedWAF (Some w))]). \<exists>y. b = Inr y) \<longleftrightarrow>
      (case ManagedWAFLibrary z n of None \<Rightarrow> True | Some w \<Rightarrow> waf_enabled z \<longrightarrow> ManagedWAF_validate w = None)"
  proof (cases "ManagedWAFLibrary z n")
    case (Some w)
    with written_waf_valid [OF ok(3) _ Some] show ?thesis by (auto simp: map_error_Inr waf_builds)
  qed simp
  have "(\<forall>b\<in>set (contribution_builds z). \<exists>y. b = Inr y) \<longleftrightarrow> builders_open z"
    unfolding contribution_builds_def set_append ball_Un name public entries [OF modes] rates waf builders_open_def using trusted by blast
  then show ?thesis using edge unfolding Zone_Contributions_def by (simp add: collect_Inr_all)
qed

lemma contributions_build:
  assumes "validateRegistry c = None" and "mget (rg_zones c) n = Some z" and "\<not> SecurityTxtOnly z"
  shows "(\<exists>cs. Zone_Contributions (z\<lparr>zn_name := n\<rparr>) = Inr cs) \<longleftrightarrow> builders_open (z\<lparr>zn_name := n\<rparr>)"
proof (rule checked_blocks_build)
  let ?z = "z\<lparr>zn_name := n\<rparr>"
  note ok = edge_zone_blocks [OF assms]
  have "validateHardening ?z n = validateHardening z n"
    unfolding validateHardening_def validateManagedWAF_def validate_hsts_cfg_def hardening_args_def waf_enabled_def by simp
  with ok(3) show "validateHardening ?z n = None" by simp
  have "validateSSLModeRules ?z n = validateSSLModeRules z n" unfolding validateSSLModeRules_def by (simp cong: if_cong)
  with ok(5) show "validateSSLModeRules ?z n = None" by simp
  show "\<not> SecurityTxtOnly ?z" using assms(3) by (simp add: SecurityTxtOnly_def)
qed (use edge_zone_blocks [OF assms] in simp_all)

section \<open>Properties\<close>

text \<open>The rules of a checked zone can be built exactly when the host of its public cache and those of its
  SSL mode rules are plain domain names, the names of its rate limiting rules give distinct non-empty
  refs, and the hosts derived for its managed WAF pass the library's check: the builders refuse nothing
  else that the registry lets through.\<close>

theorem Contributions_accepts:
  assumes "validateRegistry c = None" and "mget (rg_zones c) n = Some z" and "zn_name z = n" and "\<not> SecurityTxtOnly z"
  shows "(\<exists>cs. Zone_Contributions z = Inr cs) \<longleftrightarrow> builders_open z"
proof -
  have "z\<lparr>zn_name := n\<rparr> = z" using assms(3) by (cases z) simp
  with contributions_build [OF assms(1,2,4)] show ?thesis by simp
qed

theorem Contributions_accepts_witness:
  "(\<exists>cs. Zone_Contributions sample_zone_cfg = Inr cs) \<longleftrightarrow> builders_open sample_zone_cfg"
proof (rule Contributions_accepts [OF sample_registry_valid])
  show "mget (rg_zones sample_registry) ''example.com'' = Some sample_zone_cfg" by (simp add: sample_registry_def mget_def)
qed code_simp+

end
