(* ===== verification/Config_Stacks.thy ===== *)
theory Config_Stacks imports Config_Load begin

text \<open>
  \<open>cloudflare/config/stacks.go\<close>: the names of an estate's stacks, the accounts and companies they serve,
  and the registry as one account's stacks see it (\<open>ForAccount\<close>).
\<close>

definition StackRoot :: string where
  "StackRoot = ''root''"

definition StackEdge :: string where
  "StackEdge = ''edge''"

definition StackR2 :: string where
  "StackR2 = ''r2''"

definition stackPrefix :: string where
  "stackPrefix = ''cloudflare-''"

definition LegacyAccount :: "registry \<Rightarrow> string option" where
  "LegacyAccount c = (case legacy_accounts c of [] \<Rightarrow> None | name # _ \<Rightarrow> Some name)"

definition CompanyOf :: "registry \<Rightarrow> string \<Rightarrow> string" where
  "CompanyOf c account = (case mget (rg_accounts c) account of
      None \<Rightarrow> account
    | Some a \<Rightarrow> if ac_company a \<noteq> [] then ac_company a else account)"

definition AccountsOf :: "registry \<Rightarrow> string \<Rightarrow> string list" where
  "AccountsOf c company = filter (\<lambda>name. CompanyOf c name = company) (sorted_keys (rg_accounts c))"

definition Registry_StackName :: "registry \<Rightarrow> string \<Rightarrow> string \<Rightarrow> string" where
  "Registry_StackName c kind account =
     (if account_legacy c account then stackPrefix @ kind else stackPrefix @ kind @ ''-'' @ account)"

datatype stack_error =
    CSNoLegacy string
  | CSKind string string
  | CSNoAccount string string
  | CSLegacy string string

definition StackAccount :: "registry \<Rightarrow> string \<Rightarrow> string \<Rightarrow> stack_error + string" where
  "StackAccount c stack kind =
     (let base = stackPrefix @ kind in
      if stack = base then (case LegacyAccount c of None \<Rightarrow> Inl (CSNoLegacy stack) | Some legacy \<Rightarrow> Inr legacy)
      else case cut_prefix stack (base @ ''-'') of
          None \<Rightarrow> Inl (CSKind stack kind)
        | Some account \<Rightarrow> (case mget (rg_accounts c) account of
            None \<Rightarrow> Inl (CSNoAccount stack account)
          | Some a \<Rightarrow> if ac_legacy_names a then Inl (CSLegacy stack account) else Inr account))"

definition RootFor :: "registry \<Rightarrow> string \<Rightarrow> child_rotations" where
  "RootFor c account = (case mget (rg_accounts c) account of
      None \<Rightarrow> applyDefaults no_rotations
    | Some a \<Rightarrow>
        if ac_legacy_names a then rg_root c
        else case ac_root a of Some r \<Rightarrow> r | None \<Rightarrow> applyDefaults no_rotations)"

datatype for_account_error =
    CANoAccount string
  | CAPending string string

text \<open>The loops over the zones and the buckets range over sorted keys and put the entries of the
  account into a new map.\<close>

definition account_zone :: "string \<Rightarrow> string \<times> zone_cfg \<Rightarrow> zone_cfg gomap \<Rightarrow> for_account_error + zone_cfg gomap" where
  "account_zone account = (\<lambda>(name, z) out.
     if zn_account z \<noteq> account then Inr out
     else if zn_zone_id_pending z then Inl (CAPending name account)
     else Inr (mput name z out))"

definition account_bucket :: "string \<Rightarrow> string \<times> r2_bucket \<Rightarrow> r2_bucket gomap \<Rightarrow> r2_bucket gomap" where
  "account_bucket account = (\<lambda>(name, b) out. if rb_account b = account then mput name b out else out)"

definition ForAccount :: "registry \<Rightarrow> string \<Rightarrow> for_account_error + registry" where
  "ForAccount c account = (case mget (rg_accounts c) account of
      None \<Rightarrow> Inl (CANoAccount account)
    | Some a \<Rightarrow> sum_bind (fold_err (account_zone account) (sorted_entries (rg_zones c)) []) (\<lambda>zones.
        Inr \<lparr>rg_accounts = [(account, a)], rg_zones = zones, rg_service = rg_service c, rg_namespace = rg_namespace c,
          rg_tunnels = filter (\<lambda>t. ct_account t = account) (rg_tunnels c),
          rg_r2 = fold (account_bucket account) (sorted_entries (rg_r2 c)) [],
          rg_root = RootFor c account\<rparr>))"

section \<open>The stacks of a company\<close>

definition StackKindZone :: string where
  "StackKindZone = ''zone''"

definition StackKindServices :: string where
  "StackKindServices = ''services''"

definition StackKindSTS :: string where
  "StackKindSTS = ''sts''"

definition StackName :: "string \<Rightarrow> string \<Rightarrow> string" where
  "StackName kind company = stackPrefix @ company @ ''-'' @ kind"

definition StackZone :: "string \<Rightarrow> string" where
  "StackZone company = StackName StackKindZone company"

definition StackServices :: "string \<Rightarrow> string" where
  "StackServices company = StackName StackKindServices company"

definition StackSTS :: "string \<Rightarrow> string" where
  "StackSTS company = StackName StackKindSTS company"

section \<open>One account's view\<close>

lemma account_zones_loop:
  assumes "fold_err (account_zone account) es out = Inr out'" and "distinct (map fst es)" and "fst ` set es \<inter> fst ` set out = {}"
  shows "mget out' n = (case map_of es n of Some z \<Rightarrow> if zn_account z = account then Some z else mget out n | None \<Rightarrow> mget out n)"
    and "\<forall>(n, z)\<in>set es. zn_account z = account \<longrightarrow> \<not> zn_zone_id_pending z"
proof -
  have "mget out' n = (case map_of es n of Some z \<Rightarrow> if zn_account z = account then Some z else mget out n | None \<Rightarrow> mget out n) \<and>
     (\<forall>(n, z)\<in>set es. zn_account z = account \<longrightarrow> \<not> zn_zone_id_pending z)"
    using assms(1,2)
  proof (induction es arbitrary: out)
    case (Cons kv es)
    obtain k z where kv: "kv = (k, z)" by (cases kv)
    from Cons.prems(1) obtain o1 where o1: "account_zone account kv out = Inr o1" and rest: "fold_err (account_zone account) es o1 = Inr out'" by auto
    have k: "map_of es k = None" using Cons.prems(2) by (simp add: kv map_of_eq_None_iff)
    from o1 have "o1 = (if zn_account z = account then mput k z out else out)" "zn_account z = account \<longrightarrow> \<not> zn_zone_id_pending z"
      by (auto simp: account_zone_def kv split: if_splits)
    with Cons.IH [OF rest] Cons.prems(2) k show ?case by (auto simp: kv split: option.splits)
  qed simp
  then show "mget out' n = (case map_of es n of Some z \<Rightarrow> if zn_account z = account then Some z else mget out n | None \<Rightarrow> mget out n)"
    and "\<forall>(n, z)\<in>set es. zn_account z = account \<longrightarrow> \<not> zn_zone_id_pending z" by blast+
qed

lemma account_buckets_loop:
  "distinct (map fst es) \<Longrightarrow> mget (fold (account_bucket account) es out) n =
     (case map_of es n of Some b \<Rightarrow> if rb_account b = account then Some b else mget out n | None \<Rightarrow> mget out n)"
proof (induction es arbitrary: out)
  case (Cons kv es)
  obtain k b where kv: "kv = (k, b)" by (cases kv)
  have "map_of es k = None" using Cons.prems by (simp add: kv map_of_eq_None_iff)
  with Cons show ?case by (auto simp: kv account_bucket_def split: option.splits)
qed simp

lemma map_of_sorted_entries: "wf_map m \<Longrightarrow> map_of (sorted_entries m) k = mget m k"
proof -
  assume wf: "wf_map m"
  then have "distinct (map fst (sorted_entries m))" by (simp add: sorted_keys_def wf_map_def)
  then have "map_of (sorted_entries m) k = Some v \<longleftrightarrow> mget m k = Some v" for v
    by (simp add: map_of_eq_Some_iff sorted_entries_map_of mget_def)
  then show ?thesis by (cases "mget m k") (metis not_None_eq)+
qed

lemma ForAccount_Inr:
  assumes "wf_registry c" and "ForAccount c account = Inr v"
  shows "mget (rg_zones v) n = (case mget (rg_zones c) n of None \<Rightarrow> None | Some z \<Rightarrow> if zn_account z = account then Some z else None)"
    and "rg_tunnels v = filter (\<lambda>t. ct_account t = account) (rg_tunnels c)"
    and "mget (rg_r2 v) n = (case mget (rg_r2 c) n of None \<Rightarrow> None | Some b \<Rightarrow> if rb_account b = account then Some b else None)"
    and "mget (rg_zones v) n = Some z \<Longrightarrow> \<not> zn_zone_id_pending z" and "rg_root v = RootFor c account"
proof -
  from assms(2) obtain a zones where zones: "fold_err (account_zone account) (sorted_entries (rg_zones c)) [] = Inr zones"
    and v: "v = \<lparr>rg_accounts = [(account, a)], rg_zones = zones, rg_service = rg_service c, rg_namespace = rg_namespace c,
          rg_tunnels = filter (\<lambda>t. ct_account t = account) (rg_tunnels c),
          rg_r2 = fold (account_bucket account) (sorted_entries (rg_r2 c)) [], rg_root = RootFor c account\<rparr>"
    by (auto simp: ForAccount_def split: option.splits)
  have distinct: "distinct (map fst (sorted_entries (rg_zones c)))" "distinct (map fst (sorted_entries (rg_r2 c)))"
    using assms(1) by (simp_all add: sorted_keys_def wf_registry_def wf_map_def)
  have maps: "map_of (sorted_entries (rg_zones c)) n = mget (rg_zones c) n" "map_of (sorted_entries (rg_r2 c)) n = mget (rg_r2 c) n" for n
    using assms(1) by (simp_all add: wf_registry_def map_of_sorted_entries)
  note loop = account_zones_loop [OF zones distinct(1)]
  show z: "mget (rg_zones v) n = (case mget (rg_zones c) n of None \<Rightarrow> None | Some z \<Rightarrow> if zn_account z = account then Some z else None)"
    using loop(1) [of n] unfolding maps v by (simp split: option.splits)
  show "mget (rg_r2 v) n = (case mget (rg_r2 c) n of None \<Rightarrow> None | Some b \<Rightarrow> if rb_account b = account then Some b else None)"
    unfolding v registry.simps account_buckets_loop [OF distinct(2)] maps by (simp split: option.splits)
  show "\<not> zn_zone_id_pending z" if "mget (rg_zones v) n = Some z"
  proof -
    from that z have "mget (rg_zones c) n = Some z" "zn_account z = account" by (auto split: option.splits if_splits)
    moreover from this(1) have "(n, z) \<in> set (sorted_entries (rg_zones c))" by (simp add: sorted_entries_map_of mget_def)
    ultimately show ?thesis using loop(2) by auto
  qed
  show "rg_tunnels v = filter (\<lambda>t. ct_account t = account) (rg_tunnels c)" "rg_root v = RootFor c account" by (simp_all add: v)
qed

section \<open>Names\<close>

lemma legacy_accounts_set: "name \<in> set (legacy_accounts c) \<longleftrightarrow> account_legacy c name"
  by (force simp: legacy_accounts_def account_legacy_def sorted_entries_map_of mget_def image_iff split: option.splits)

lemma LegacyAccount_sole:
  assumes "validateRegistry c = None" and "account_legacy c name"
  shows "LegacyAccount c = Some name"
proof -
  have "length (legacy_accounts c) \<le> 1" using assms(1) unfolding validateRegistry_def first_of_None by simp
  moreover have "name \<in> set (legacy_accounts c)" using assms(2) by (simp add: legacy_accounts_set)
  ultimately have "legacy_accounts c = [name]" by (cases "legacy_accounts c") auto
  then show ?thesis by (simp add: LegacyAccount_def)
qed

lemma StackAccount_iff:
  assumes "validateRegistry c = None"
  shows "StackAccount c stack kind = Inr a \<longleftrightarrow> has_key (rg_accounts c) a \<and> stack = Registry_StackName c kind a"
proof
  assume stack: "StackAccount c stack kind = Inr a"
  show "has_key (rg_accounts c) a \<and> stack = Registry_StackName c kind a"
  proof (cases "stack = stackPrefix @ kind")
    case True
    with stack have "LegacyAccount c = Some a" by (auto simp: StackAccount_def split: option.splits)
    then have "a \<in> set (legacy_accounts c)" by (auto simp: LegacyAccount_def split: list.splits)
    then have "account_legacy c a" by (simp add: legacy_accounts_set)
    then show ?thesis using True by (auto simp: Registry_StackName_def account_legacy_def has_key_def split: option.splits)
  next
    case False
    with stack have "cut_prefix stack (stackPrefix @ kind @ ''-'') = Some a" "mget (rg_accounts c) a \<noteq> None" "\<not> account_legacy c a"
      by (auto simp: StackAccount_def Let_def account_legacy_def split: option.splits if_splits)
    then show ?thesis by (auto simp: cut_prefix_def has_prefix_iff Registry_StackName_def has_key_def split: if_splits)
  qed
next
  assume a: "has_key (rg_accounts c) a \<and> stack = Registry_StackName c kind a"
  show "StackAccount c stack kind = Inr a"
  proof (cases "account_legacy c a")
    case True
    with a LegacyAccount_sole [OF assms True] show ?thesis by (simp add: StackAccount_def Registry_StackName_def)
  next
    case False
    with a have stack: "stack = (stackPrefix @ kind @ ''-'') @ a" by (simp add: Registry_StackName_def)
    then have "cut_prefix stack (stackPrefix @ kind @ ''-'') = Some a" "stack \<noteq> stackPrefix @ kind"
      by (simp_all only: cut_prefix_def has_prefix_append if_True append_eq_conv_conj) simp_all
    with a False show ?thesis by (auto simp: StackAccount_def Let_def account_legacy_def has_key_def)
  qed
qed

text \<open>The stacks per account and per company share their names: an account \<open>zone\<close> beside a company \<open>edge\<close>.\<close>

lemma stack_names_collide:
  "\<not> account_legacy c StackKindZone \<Longrightarrow> Registry_StackName c StackEdge StackKindZone = StackZone StackEdge"
  by (simp add: Registry_StackName_def StackZone_def StackName_def)

section \<open>A view is valid\<close>

lemma view_has_zone:
  assumes "wf_registry c" and "ForAccount c account = Inr v"
  shows "mget (rg_zones v) n = Some z \<longleftrightarrow> mget (rg_zones c) n = Some z \<and> zn_account z = account"
  unfolding ForAccount_Inr(1) [OF assms] by (auto split: option.splits if_splits)

lemma view_accounts:
  assumes "ForAccount c account = Inr v"
  obtains a where "mget (rg_accounts c) account = Some a" and "rg_accounts v = [(account, a)]" and "rg_service v = rg_service c"
    and "rg_namespace v = rg_namespace c"
  using assms by (auto simp: ForAccount_def split: option.splits)

lemma view_validate_zone:
  assumes "ForAccount c account = Inr v" and "zn_account z = account"
  shows "validate_zone_cfg v (n, z) = validate_zone_cfg c (n, z)"
proof -
  from view_accounts [OF assms(1)] obtain a where "mget (rg_accounts c) account = Some a" "rg_accounts v = [(account, a)]" by blast
  then have "has_key (rg_accounts v) account = has_key (rg_accounts c) account" "account_legacy v account = account_legacy c account"
    by (simp_all add: has_key_def account_legacy_def mget_def)
  then show ?thesis unfolding validate_zone_cfg_def prod.case assms(2) by simp
qed

lemma view_validate_bucket:
  assumes "ForAccount c account = Inr v" and "rb_account b = account"
  shows "validate_r2_bucket v (n, b) = validate_r2_bucket c (n, b)"
proof -
  from view_accounts [OF assms(1)] obtain a where "mget (rg_accounts c) account = Some a" "rg_accounts v = [(account, a)]" by blast
  then have "has_key (rg_accounts v) account = has_key (rg_accounts c) account" by (simp add: has_key_def mget_def)
  then show ?thesis unfolding validate_r2_bucket_def prod.case assms(2) by simp
qed

lemma loop_entries_None:
  "first_err (\<lambda>kv. map_option (f (fst kv)) (chk kv)) (sorted_entries m) = None \<longleftrightarrow> (\<forall>k x. mget m k = Some x \<longrightarrow> chk (k, x) = None)"
  by (auto simp: first_err_None sorted_entries_map_of mget_def)

lemma view_registry_valid:
  assumes "validateRegistry c = None" and "wf_registry c" and "ForAccount c account = Inr v"
  shows "validateRegistry v = fail_if (rg_zones v = []) CFGNoZone"
proof -
  from view_accounts [OF assms(3)] obtain a where a: "mget (rg_accounts c) account = Some a" and v: "rg_accounts v = [(account, a)]"
    "rg_service v = rg_service c" "rg_namespace v = rg_namespace c" by blast
  have entries: "sorted_entries [(account, a)] = [(account, a)]" by (simp add: sorted_entries_def sorted_keys_def)
  have accounts: "first_err (\<lambda>kv. map_option (CFGAccount (fst kv)) (validate_account_cfg kv)) (sorted_entries (rg_accounts v)) = None"
    unfolding v entries using registry_account [OF assms(1) a] by simp
  have legacy: "length (legacy_accounts v) \<le> 1" unfolding legacy_accounts_def v entries by simp
  have zones: "first_err (\<lambda>kv. map_option (CFGZone (fst kv)) (validate_zone_cfg v kv)) (sorted_entries (rg_zones v)) = None"
    unfolding loop_entries_None
    using view_has_zone [OF assms(2,3)] view_validate_zone [OF assms(3)] registry_zone [OF assms(1)] by metis
  have "first_err (\<lambda>kv. map_option (CFGR2 (fst kv)) (validate_r2_bucket c kv)) (sorted_entries (rg_r2 c)) = None"
    using assms(1) unfolding validateRegistry_def validateR2_def by simp
  then have bucket: "validate_r2_bucket c (n, b) = None" if "mget (rg_r2 c) n = Some b" for n b using that unfolding loop_entries_None by blast
  have "validate_r2_bucket v (n, b) = None" if "mget (rg_r2 v) n = Some b" for n b
  proof -
    from that have "mget (rg_r2 c) n = Some b" "rb_account b = account"
      unfolding ForAccount_Inr(3) [OF assms(2,3)] by (auto split: option.splits if_splits)
    with bucket view_validate_bucket [OF assms(3)] show ?thesis by metis
  qed
  then have r2: "validateR2 v = None" unfolding validateR2_def loop_entries_None by blast
  have "rg_service c \<noteq> []" "rg_namespace c \<noteq> []" using assms(1) unfolding validateRegistry_def by simp_all
  then show ?thesis unfolding validateRegistry_def zones accounts r2 using legacy v by (simp add: first_of.simps fail_if_def)
qed

lemma Registry_Validate_tunnel:
  assumes "Registry_Validate c = None" and "t \<in> set (rg_tunnels c)"
  shows "validate_cfg_tunnel c t = None"
proof -
  have "cfg_tunnels_loop c [] (rg_tunnels c) = None" using assms(1) unfolding Registry_Validate_def first_of_None by blast
  then show ?thesis using assms(2) unfolding cfg_tunnels_loop_None by blast
qed

lemma valid_tunnel_zone:
  assumes "validate_cfg_tunnel c t = None" and "n \<in> set (InZones t)"
  obtains z where "mget (rg_zones c) n = Some z" and "zn_account z = ct_account t"
proof -
  have "first_err (validate_tunnel_zone c t) (InZones t) = None"
    using assms(1) unfolding validate_cfg_tunnel_def by (simp split: option.splits)
  then have "validate_tunnel_zone c t n = None" using assms(2) unfolding first_err_None by blast
  with that show thesis unfolding validate_tunnel_zone_def by (auto split: option.splits)
qed

lemma valid_tunnel_host:
  assumes "validate_cfg_tunnel c t = None" and "i < length (ct_hosts t)"
  shows "validate_cfg_host c t (i, ct_hosts t ! i) = None" and "Registry_ZoneOf c (ct_hosts t ! i) \<in> set (InZones t)"
proof -
  have "first_err (validate_cfg_host c t) (enumerate 0 (ct_hosts t)) = None"
    using assms(1) unfolding validate_cfg_tunnel_def by (simp split: option.splits)
  then show ok: "validate_cfg_host c t (i, ct_hosts t ! i) = None" using assms(2) unfolding first_err_enumerate_None by simp
  then show "Registry_ZoneOf c (ct_hosts t ! i) \<in> set (InZones t)" by (simp add: validate_cfg_host_def)
qed

lemma zone_not_empty: "validateRegistry c = None \<Longrightarrow> mget (rg_zones c) n = Some z \<Longrightarrow> n \<noteq> []"
  by (drule (1) registry_zone_name(2)) auto

lemma view_zone_of:
  assumes "Registry_Validate c = None" and "wf_registry c" and "ForAccount c account = Inr v"
    and "t \<in> set (rg_tunnels c)" and "ct_account t = account" and "i < length (ct_hosts t)"
  shows "Registry_ZoneOf v (ct_hosts t ! i) = Registry_ZoneOf c (ct_hosts t ! i)"
proof -
  let ?h = "ct_hosts t ! i" and ?z = "Registry_ZoneOf c (ct_hosts t ! i)"
  have reg: "validateRegistry c = None" using assms(1) unfolding Registry_Validate_def first_of_None by blast
  note valid = Registry_Validate_tunnel [OF assms(1,4)]
  from valid_tunnel_zone [OF valid valid_tunnel_host(2) [OF valid assms(6)]] obtain z where
    z: "mget (rg_zones c) ?z = Some z" "zn_account z = account" using assms(5) by metis
  have "?z \<noteq> []" by (rule zone_not_empty [OF reg z(1)])
  then have sound: "?z \<in> set (managedZoneNames c)" "in_zone (zone_name ?h) ?z" using zone_of.find_sound unfolding Registry_ZoneOf_def by blast+
  have sub: "n \<in> set (managedZoneNames v) \<longleftrightarrow> (\<exists>z. mget (rg_zones c) n = Some z \<and> zn_account z = account \<and> \<not> SecurityTxtOnly z)" for n
    unfolding managed_zone_iff view_has_zone [OF assms(2,3)] by blast
  show ?thesis unfolding Registry_ZoneOf_def [of v]
  proof (rule zone_of.find_unique)
    show "?z \<in> set (managedZoneNames v)" unfolding sub using sound(1) [unfolded managed_zone_iff] z by auto
    show "in_zone (zone_name ?h) ?z" by (rule sound(2))
    fix n assume "n \<in> set (managedZoneNames v)" "in_zone (zone_name ?h) n"
    then show "length n \<le> length ?z" unfolding sub Registry_ZoneOf_def by (intro zone_of.find_longest) (auto simp: managed_zone_iff)
  qed
qed

lemma view_tunnel_valid:
  assumes "Registry_Validate c = None" and "wf_registry c" and "ForAccount c account = Inr v"
    and "t \<in> set (rg_tunnels c)" and "ct_account t = account"
  shows "validate_cfg_tunnel v t = None"
proof -
  note valid = Registry_Validate_tunnel [OF assms(1,4)]
  from view_accounts [OF assms(3)] obtain a where a: "mget (rg_accounts c) account = Some a" "rg_accounts v = [(account, a)]" by blast
  have acc: "mget (rg_accounts v) (ct_account t) = Some a" unfolding assms(5) a(2) by (simp add: mget_def)
  have "first_err (validate_tunnel_zone v t) (InZones t) = None"
    unfolding first_err_None
  proof
    fix n assume "n \<in> set (InZones t)"
    from valid_tunnel_zone [OF valid this] obtain z where "mget (rg_zones c) n = Some z" "zn_account z = ct_account t" by blast
    then have "mget (rg_zones v) n = Some z" unfolding view_has_zone [OF assms(2,3)] using assms(5) by simp
    then show "validate_tunnel_zone v t n = None" using \<open>zn_account z = ct_account t\<close> by (simp add: validate_tunnel_zone_def)
  qed
  moreover have "first_err (validate_cfg_host v t) (enumerate 0 (ct_hosts t)) = None"
    unfolding first_err_enumerate_None
  proof (intro allI impI)
    fix i assume i: "i < length (ct_hosts t)"
    show "validate_cfg_host v t (0 + i, ct_hosts t ! i) = None"
      using valid_tunnel_host(1) [OF valid i] view_zone_of [OF assms i] by (simp add: validate_cfg_host_def)
  qed
  moreover have "ct_legacy_names t = ac_legacy_names a" "ct_zone t \<in> set (InZones t)" "ct_hosts t \<noteq> []"
    using valid a(1) assms(5) unfolding validate_cfg_tunnel_def by simp_all
  ultimately show ?thesis unfolding validate_cfg_tunnel_def acc by simp
qed

lemma owner_in_zone_account:
  assumes "Registry_Validate c = None" and "t \<in> set (rg_tunnels c)" and "OwnsRecord t n host" and "mget (rg_zones c) n = Some z"
  shows "zn_account z = ct_account t"
proof -
  have reg: "validateRegistry c = None" using assms(1) unfolding Registry_Validate_def first_of_None by blast
  have "ZoneOf (InZones t) host = n" using assms(3) by (simp add: OwnsRecord_def CarriesIn_def)
  with zone_not_empty [OF reg assms(4)] zone_of.find_sound [of "InZones t" host] have "n \<in> set (InZones t)" by auto
  from valid_tunnel_zone [OF Registry_Validate_tunnel [OF assms(1,2)] this] assms(4) show ?thesis by (metis option.inject)
qed

lemma distinct_concat_filter:
  "distinct (map f (concat (map g xs))) \<Longrightarrow> distinct (map f (concat (map g (filter P xs))))"
  by (induction xs) (auto simp: map_concat)

lemma view_routing:
  assumes "validateDomainRouting c = None" and "rg_tunnels v = filter P (rg_tunnels c)"
  shows "validateDomainRouting v = None"
proof -
  let ?f = "\<lambda>t. (edge_tunnel t)\<lparr>tun_dns_elsewhere := []\<rparr>"
  have "routing_ok (map ?f (rg_tunnels c))" using assms(1) unfolding validateDomainRouting_def by (simp add: routing_check.check_None)
  then have "routing_ok (map ?f (filter P (rg_tunnels c)))"
    using distinct_concat_filter [of to_lower "\<lambda>t. tun_hosts (?f t)" "rg_tunnels c" P]
    by (simp add: routing_ok_def comp_def list_all_iff)
  then show ?thesis unfolding validateDomainRouting_def assms(2) by (simp add: routing_check.check_None)
qed

lemma view_valid:
  assumes "Registry_Validate c = None" and "wf_registry c" and "ForAccount c account = Inr v"
  shows "Registry_Validate v = first_of [fail_if (rg_zones v = []) CFGNoZone, fail_if (rg_tunnels v = []) CFGNoTunnel]"
proof -
  have reg: "validateRegistry c = None" "cfg_tunnels_loop c [] (rg_tunnels c) = None" "validateOriginTunnels c = None"
    "validateRecordTunnels c = None" "validateDomainRouting c = None"
    using assms(1) unfolding Registry_Validate_def first_of_None by blast+
  note ts = ForAccount_Inr(2) [OF assms(2,3)]
  have "cfg_tunnels_loop v [] (rg_tunnels v) = None"
    unfolding cfg_tunnels_loop_None ts using reg(2) view_tunnel_valid [OF assms]
    unfolding cfg_tunnels_loop_None by (auto intro: distinct_map_filter)
  moreover have "validateOriginTunnels v = None"
    unfolding validateOriginTunnels_def first_err_None case_prod_unfold
  proof (intro ballI)
    fix kv host assume kv: "kv \<in> set (sorted_entries (rg_zones v))" and host: "host \<in> set (sorted_keys (nil_list (zn_origin_cnames (snd kv))))"
    from kv have z: "mget (rg_zones v) (fst kv) = Some (snd kv)" by (metis prod.collapse sorted_entries_map_of mget_def)
    then have c: "mget (rg_zones c) (fst kv) = Some (snd kv)" "zn_account (snd kv) = account" unfolding view_has_zone [OF assms(2,3)] by blast+
    then have "kv \<in> set (sorted_entries (rg_zones c))" by (metis prod.collapse sorted_entries_map_of mget_def)
    with reg(3) host have "list_ex (\<lambda>t. OwnsRecord t (fst kv) host) (rg_tunnels c)"
      unfolding validateOriginTunnels_def first_err_None case_prod_unfold by fastforce
    then obtain t where t: "t \<in> set (rg_tunnels c)" "OwnsRecord t (fst kv) host" by (auto simp: list_ex_iff)
    with owner_in_zone_account [OF assms(1) t c(1)] c(2) have "t \<in> set (rg_tunnels v)" unfolding ts by simp
    with t(2) show "fail_if (\<not> list_ex (\<lambda>t. OwnsRecord t (fst kv) host) (rg_tunnels v)) (CFGOrigin (fst kv) host) = None"
      by (auto simp: list_ex_iff)
  qed
  moreover have "validateRecordTunnels v = None"
    unfolding validateRecordTunnels_def first_err_None case_prod_unfold
  proof (intro ballI)
    fix kv r t
    assume kv: "kv \<in> set (sorted_entries (rg_zones v))" and r: "r \<in> set (nil_list (zn_records (snd kv)))" and t: "t \<in> set (rg_tunnels v)"
    from kv have "mget (rg_zones v) (fst kv) = Some (snd kv)" by (metis prod.collapse sorted_entries_map_of mget_def)
    then have "mget (rg_zones c) (fst kv) = Some (snd kv)" unfolding view_has_zone [OF assms(2,3)] by blast
    then have c: "kv \<in> set (sorted_entries (rg_zones c))" by (metis prod.collapse sorted_entries_map_of mget_def)
    from reg(4) c r have "\<forall>t\<in>set (rg_tunnels c). \<not> OwnsRecord t (fst kv) (rc_name r)"
      unfolding validateRecordTunnels_def first_err_None case_prod_unfold by fastforce
    with t show "fail_if (OwnsRecord t (fst kv) (rc_name r)) (CFGRecord (fst kv) (rc_name r) (Tunnel_Name t)) = None"
      unfolding ts by simp
  qed
  moreover have "validateDomainRouting v = None" by (rule view_routing [OF reg(5) ts])
  ultimately show ?thesis
    unfolding Registry_Validate_def view_registry_valid [OF reg(1) assms(2,3)] by (simp add: first_of.simps fail_if_def)
qed

section \<open>Properties\<close>

definition sample_view :: registry where
  "sample_view = projr (ForAccount sample_loaded ''main'')"

text \<open>C13 What validates as a whole validates for each of its accounts: the view of an account holds exactly
  its zones, tunnels and buckets, none with a pending id, and is refused only when the account has no zone
  or no tunnel.\<close>

theorem ForAccount_valid:
  assumes "Registry_Validate c = None" and "wf_registry c" and "ForAccount c account = Inr v"
  shows "Registry_Validate v = first_of [fail_if (rg_zones v = []) CFGNoZone, fail_if (rg_tunnels v = []) CFGNoTunnel] \<and>
    (\<forall>n z. mget (rg_zones v) n = Some z \<longleftrightarrow> mget (rg_zones c) n = Some z \<and> zn_account z = account) \<and>
    (\<forall>n b. mget (rg_r2 v) n = Some b \<longleftrightarrow> mget (rg_r2 c) n = Some b \<and> rb_account b = account) \<and>
    rg_tunnels v = filter (\<lambda>t. ct_account t = account) (rg_tunnels c) \<and>
    (\<forall>n z. mget (rg_zones v) n = Some z \<longrightarrow> \<not> zn_zone_id_pending z)"
proof (intro conjI allI)
  show "Registry_Validate v = first_of [fail_if (rg_zones v = []) CFGNoZone, fail_if (rg_tunnels v = []) CFGNoTunnel]"
    by (rule view_valid [OF assms])
  note view = ForAccount_Inr [OF assms(2,3)]
  fix n
  show "mget (rg_zones v) n = Some z \<longleftrightarrow> mget (rg_zones c) n = Some z \<and> zn_account z = account" for z
    by (rule view_has_zone [OF assms(2,3)])
  show "mget (rg_r2 v) n = Some b \<longleftrightarrow> mget (rg_r2 c) n = Some b \<and> rb_account b = account" for b
    unfolding view(3) by (auto split: option.splits if_splits)
  show "mget (rg_zones v) n = Some z \<longrightarrow> \<not> zn_zone_id_pending z" for z using view(4) by blast
qed (rule ForAccount_Inr(2) [OF assms(2,3)])

theorem ForAccount_valid_witness:
  "Registry_Validate sample_view = first_of [fail_if (rg_zones sample_view = []) CFGNoZone, fail_if (rg_tunnels sample_view = []) CFGNoTunnel]"
proof -
  have "Registry_Validate sample_loaded = None" by code_simp
  moreover have "wf_registry sample_loaded" by code_simp
  moreover have "case ForAccount sample_loaded ''main'' of Inl e \<Rightarrow> False | Inr v \<Rightarrow> True" by code_simp
  then have "ForAccount sample_loaded ''main'' = Inr sample_view" by (auto simp: sample_view_def split: sum.splits)
  ultimately show ?thesis by (rule ForAccount_valid [THEN conjunct1])
qed

text \<open>C34 Stack names and accounts correspond: a stack of a kind serves an account exactly when the account
  exists and the stack has the name given to it, so no two stacks of a kind serve one account and none
  serves two.\<close>

theorem StackAccount_roundtrip:
  assumes "validateRegistry c = None"
  shows "StackAccount c stack kind = Inr a \<longleftrightarrow> has_key (rg_accounts c) a \<and> stack = Registry_StackName c kind a"
  using assms by (rule StackAccount_iff)

theorem StackAccount_roundtrip_witness:
  "StackAccount sample_registry ''cloudflare-edge'' StackEdge = Inr ''main'' \<longleftrightarrow>
     has_key (rg_accounts sample_registry) ''main'' \<and> ''cloudflare-edge'' = Registry_StackName sample_registry StackEdge ''main''"
  by (rule StackAccount_roundtrip [OF sample_registry_valid])

end
