(* ===== verification/Tunnel_Args.thy ===== *)
theory Tunnel_Args imports Edge_Derive Pulumi_Program begin

text \<open>
  \<open>cloudflare/tunnel/tunnel.go\<close>: the arguments of one tunnel, their validation, and the
  resources \<open>New\<close> registers for them, in order. The outputs of a resource (the tunnel's id and
  token, the content of its records) are not modelled: they are strings known only after the
  deployment.
\<close>

record ingress_rule =
  in_hostname :: string
  in_service :: string
  in_origin_server_name :: string
  in_ca_pool :: string
  in_no_tls_verify :: bool

record dns_zone =
  dz_zone_id :: string
  dz_name :: string

record tunnel_dns =
  td_zone_id :: string
  td_names :: "string list"
  td_zones :: "dns_zone list"

record tunnel_certificates =
  ct_zone_id :: string
  ct_zone :: string
  ct_hosts :: "string list"
  ct_validity_days :: int
  ct_certificate_authority :: string

record tunnel_args =
  ta_account_id :: string
  ta_name :: string
  ta_ingress :: "ingress_rule list"
  ta_dns :: "tunnel_dns option"
  ta_certificates :: "tunnel_certificates option"

datatype tunnel_error =
    ETAccount
  | ETName
  | ETNoIngress
  | ETIngressFields nat
  | ETIngressTwice nat nat string
  | ETIngressShadowed nat string nat string
  | ETDnsNoZone
  | ETDnsBothZones
  | ETDnsNoNames
  | ETDnsZoneFields nat
  | ETDnsZoneNameTwice nat string
  | ETDnsZoneIdTwice nat string
  | ETDnsNameTwice nat string
  | ETDnsNoZoneOf nat string
  | ETCertZone
  | ETCertNoHosts
  | ETCertSpanZones
  | ETSecret
  | ETOptions
  | ETRecord string

section \<open>Validation\<close>

definition hostnameCovers :: "string \<Rightarrow> string \<Rightarrow> bool" where
  "hostnameCovers pattern candidate \<longleftrightarrow> Covers pattern candidate"

definition ingress_pair :: "nat \<Rightarrow> ingress_rule \<Rightarrow> nat \<times> ingress_rule \<Rightarrow> tunnel_error option" where
  "ingress_pair i earlier = (\<lambda>(j, later).
     if \<not> hostnameCovers (in_hostname earlier) (in_hostname later) then None
     else if in_hostname earlier = in_hostname later then Some (ETIngressTwice i j (in_hostname earlier))
     else Some (ETIngressShadowed j (in_hostname later) i (in_hostname earlier)))"

definition validateIngressOrder :: "ingress_rule list \<Rightarrow> tunnel_error option" where
  "validateIngressOrder rules =
     first_err (\<lambda>(i, earlier). first_err (ingress_pair i earlier) (drop (Suc i) (enumerate 0 rules))) (enumerate 0 rules)"

definition ZoneIDOf :: "tunnel_dns \<Rightarrow> string \<Rightarrow> string option" where
  "ZoneIDOf d host =
     (if td_zone_id d \<noteq> [] then Some (td_zone_id d)
      else
        let names = map (\<lambda>z. to_lower (dz_name z)) (td_zones d);
            ids = foldl (\<lambda>m z. mput (to_lower (dz_name z)) (dz_zone_id z) m) [] (td_zones d);
            zone = ZoneOf names host in
        if zone = [] then None else Some (case mget ids zone of None \<Rightarrow> [] | Some zid \<Rightarrow> zid))"

fun dns_zones_loop :: "nat \<Rightarrow> string list \<Rightarrow> string list \<Rightarrow> dns_zone list \<Rightarrow> tunnel_error option" where
  "dns_zones_loop i names ids [] = None"
| "dns_zones_loop i names ids (z # zs) =
     (if dz_zone_id z = [] \<or> dz_name z = [] then Some (ETDnsZoneFields i)
      else if to_lower (dz_name z) \<in> set names then Some (ETDnsZoneNameTwice i (dz_name z))
      else if dz_zone_id z \<in> set ids then Some (ETDnsZoneIdTwice i (dz_name z))
      else dns_zones_loop (Suc i) (to_lower (dz_name z) # names) (dz_zone_id z # ids) zs)"

text \<open>Here the repeated name is looked for before the zone is.\<close>

fun dns_names_loop :: "tunnel_dns \<Rightarrow> nat \<Rightarrow> string list \<Rightarrow> string list \<Rightarrow> tunnel_error option" where
  "dns_names_loop d i names [] = None"
| "dns_names_loop d i names (host # hosts) =
     (if to_lower host \<in> set names then Some (ETDnsNameTwice i host)
      else if ZoneIDOf d host = None then Some (ETDnsNoZoneOf i host)
      else dns_names_loop d (Suc i) (to_lower host # names) hosts)"

definition DNS_validate :: "tunnel_dns \<Rightarrow> tunnel_error option" where
  "DNS_validate d = first_of [
     fail_if (td_zone_id d = [] \<and> td_zones d = []) ETDnsNoZone,
     fail_if (td_zone_id d \<noteq> [] \<and> td_zones d \<noteq> []) ETDnsBothZones,
     fail_if (td_names d = []) ETDnsNoNames,
     dns_zones_loop 0 [] [] (td_zones d),
     dns_names_loop d 0 [] (td_names d)]"

definition Certificates_validate :: "tunnel_dns option \<Rightarrow> tunnel_certificates \<Rightarrow> tunnel_error option" where
  "Certificates_validate dns c = first_of [
     fail_if (ct_zone_id c = [] \<or> ct_zone c = []) ETCertZone,
     fail_if (ct_hosts c = [] \<and> (case dns of None \<Rightarrow> True | Some d \<Rightarrow> td_names d = [])) ETCertNoHosts,
     fail_if (ct_hosts c = [] \<and> (case dns of None \<Rightarrow> False | Some d \<Rightarrow> td_zones d \<noteq> [])) ETCertSpanZones]"

definition Tunnel_Validate :: "tunnel_args \<Rightarrow> tunnel_error option" where
  "Tunnel_Validate a = first_of [
     fail_if (ta_account_id a = []) ETAccount,
     fail_if (ta_name a = []) ETName,
     fail_if (ta_ingress a = []) ETNoIngress,
     first_err (\<lambda>(i, r). fail_if (in_hostname r = [] \<or> in_service r = []) (ETIngressFields i)) (enumerate 0 (ta_ingress a)),
     validateIngressOrder (ta_ingress a),
     (case ta_dns a of None \<Rightarrow> None | Some d \<Rightarrow> DNS_validate d),
     (case ta_certificates a of None \<Rightarrow> None | Some c \<Rightarrow> Certificates_validate (ta_dns a) c)]"

section \<open>Resources\<close>

definition replace_star :: "string \<Rightarrow> string" where
  "replace_star s = replace_char CHR ''*'' ''star'' s"

definition Slug :: "string \<Rightarrow> string" where
  "Slug host = replace_char CHR ''.'' ''-'' (replace_star host)"

text \<open>A rule of the configuration; an argument of the origin request that is left unset is \<open>None\<close>.\<close>

record origin_rule =
  or_hostname :: "string option"
  or_service :: string
  or_origin_server_name :: "string option"
  or_ca_pool :: "string option"
  or_no_tls_verify :: "bool option"

definition unset_or :: "string \<Rightarrow> string option" where
  "unset_or s = (if s = [] then None else Some s)"

definition origin_rule_of :: "ingress_rule \<Rightarrow> origin_rule" where
  "origin_rule_of r = \<lparr>or_hostname = Some (in_hostname r), or_service = in_service r,
     or_origin_server_name = unset_or (in_origin_server_name r), or_ca_pool = unset_or (in_ca_pool r),
     or_no_tls_verify = (if in_no_tls_verify r then Some True else None)\<rparr>"

definition catch_all :: origin_rule where
  "catch_all = \<lparr>or_hostname = None, or_service = ''http_status:404'', or_origin_server_name = None, or_ca_pool = None,
     or_no_tls_verify = None\<rparr>"

datatype tunnel_resource =
    RComponent string
  | RTunnel (rt_account: string) (rt_name: string) (rt_config_src: string)
  | RRecord (rr_zone: string) (rr_name: string) (rr_type: string) (rr_proxied: bool) (rr_ttl: nat)
  | RPack (rp_zone: string) (rp_type: string) (rp_hosts: "string list") (rp_method: string) (rp_days: int) (rp_ca: string)
  | RConfig (rc_account: string) (rc_rules: "origin_rule list")
  | ROutputs

type_synonym named_resource = "string \<times> tunnel_resource"

definition tunnel_record :: "string \<Rightarrow> tunnel_dns \<Rightarrow> string \<Rightarrow> (tunnel_error, named_resource) action" where
  "tunnel_record name d host =
     (case ZoneIDOf d host of
        None \<Rightarrow> Refuse (ETRecord host)
      | Some zid \<Rightarrow> Register (''cname-'' @ name @ ''-'' @ Slug host, RRecord zid host ''CNAME'' True 1))"

definition tunnel_packs :: "string \<Rightarrow> tunnel_dns option \<Rightarrow> tunnel_certificates \<Rightarrow> named_resource list" where
  "tunnel_packs name dns c =
     (let hosts = (if ct_hosts c = [] then (case dns of None \<Rightarrow> [] | Some d \<Rightarrow> td_names d) else ct_hosts c);
          validity = (if ct_validity_days c = 0 then 90 else ct_validity_days c);
          ca = (if ct_certificate_authority c = [] then ''lets_encrypt'' else ct_certificate_authority c) in
      map (\<lambda>host. (''acm-'' @ name @ ''-'' @ Slug host, RPack (ct_zone_id c) ''advanced'' [host, ct_zone c] ''txt'' validity ca))
        (filter (\<lambda>host. host \<noteq> ''*.'' @ ct_zone c) hosts))"

definition tunnel_config :: "string \<Rightarrow> ingress_rule list \<Rightarrow> tunnel_resource" where
  "tunnel_config account rules = RConfig account (map origin_rule_of rules @ [catch_all])"

definition tunnel_resources :: "string \<Rightarrow> tunnel_args \<Rightarrow> (tunnel_error, named_resource) action list" where
  "tunnel_resources name a =
     [Register (''tunnel-'' @ name, RTunnel (ta_account_id a) (ta_name a) ''cloudflare'')] @
     (case ta_dns a of None \<Rightarrow> [] | Some d \<Rightarrow> map (tunnel_record name d) (td_names d)) @
     (case ta_certificates a of None \<Rightarrow> [] | Some c \<Rightarrow> map Register (tunnel_packs name (ta_dns a) c)) @
     [Register (''ingress-'' @ name, tunnel_config (ta_account_id a) (ta_ingress a))]"

text \<open>\<open>New\<close>: \<open>secret\<close> says that a secret was given and \<open>options_ok\<close> that the SDK can read the provider
  from the resource options.\<close>

definition tunnel_actions :: "bool \<Rightarrow> string \<Rightarrow> tunnel_args \<Rightarrow> bool \<Rightarrow> (tunnel_error, named_resource) action list" where
  "tunnel_actions options_ok name a secret =
     refuse (Tunnel_Validate a) @
     refuse (fail_if (\<not> secret) ETSecret) @
     [Register (name, RComponent ''truvity:cloudflare:Tunnel'')] @
     refuse (fail_if (\<not> options_ok) ETOptions) @
     tunnel_resources name a @
     [Register (name, ROutputs)]"

section \<open>The order of the rules\<close>

abbreviation not_caught :: "ingress_rule \<Rightarrow> ingress_rule \<Rightarrow> bool" where
  "not_caught earlier later \<equiv> \<not> Covers (in_hostname earlier) (in_hostname later)"

lemma ingress_pair_None: "ingress_pair i e (j, l) = None \<longleftrightarrow> not_caught e l"
  by (simp add: ingress_pair_def hostnameCovers_def)

lemma drop_enumerate: "drop n (enumerate k xs) = enumerate (k + n) (drop n xs)"
  by (induction n arbitrary: k xs) (auto simp: drop_Suc neq_Nil_conv split: list.split, case_tac xs, simp_all)

lemma later_sorted_wrt:
  "(\<forall>i<length xs. \<forall>y\<in>set (drop (Suc i) xs). R (xs ! i) y) \<longleftrightarrow> sorted_wrt R xs"
proof (induction xs)
  case (Cons x xs)
  have "(\<forall>i<length (x # xs). \<forall>y\<in>set (drop (Suc i) (x # xs)). R ((x # xs) ! i) y) \<longleftrightarrow>
      (\<forall>y\<in>set xs. R x y) \<and> (\<forall>i<length xs. \<forall>y\<in>set (drop (Suc i) xs). R (xs ! i) y)"
    by (simp add: All_less_Suc2)
  then show ?case unfolding Cons.IH by simp
qed simp

lemma validateIngressOrder_None:
  "validateIngressOrder rules = None \<longleftrightarrow> sorted_wrt not_caught rules"
proof -
  have inner: "first_err (ingress_pair i e) (enumerate n ls) = None \<longleftrightarrow> (\<forall>l\<in>set ls. not_caught e l)" for i e n ls
    by (induction ls arbitrary: n) (simp_all add: ingress_pair_None)
  have "validateIngressOrder rules = None \<longleftrightarrow>
      (\<forall>(i, e)\<in>set (enumerate 0 rules). \<forall>l\<in>set (drop (Suc i) rules). not_caught e l)"
    unfolding validateIngressOrder_def drop_enumerate inner first_err_None [of _ "enumerate 0 rules"] case_prod_beta ..
  also have "\<dots> \<longleftrightarrow> (\<forall>i<length rules. \<forall>l\<in>set (drop (Suc i) rules). not_caught (rules ! i) l)"
    by (simp only: Ball_def [of "set (enumerate 0 rules)"] split_paired_All prod.case in_set_enumerate_eq) auto
  also have "\<dots> \<longleftrightarrow> sorted_wrt not_caught rules"
    by (rule later_sorted_wrt)
  finally show ?thesis .
qed

text \<open>A rule is matched by its own hostname, and by a hostname that is another rule's exactly when
  it covers that rule.\<close>

lemma rule_matches_Covers: "rule_matches p c \<longleftrightarrow> Covers p c"
proof
  assume "Covers p c"
  then have "\<forall>h. rule_matches c h \<longrightarrow> rule_matches p h" by (simp only: tunnel_ingress.covers_iff)
  then show "rule_matches p c" by (simp add: rule_matches_iff)
next
  assume match: "rule_matches p c"
  show "Covers p c"
  proof (cases "isWildcard c")
    case False
    with match show ?thesis by (auto simp: rule_matches_iff Covers_iff trim_exact)
  next
    case True
    then obtain t where c: "c = ''*.'' @ t" by (auto simp: isWildcard_iff)
    from match consider "p = c" | "p = ''*''" | s where "p = ''*.'' @ s" "has_suffix c (''.'' @ s)"
      by (auto simp: rule_matches_iff)
    then show ?thesis
    proof cases
      case (3 s)
      then have "has_suffix t (''.'' @ s) \<or> s = t" unfolding c by (simp only: has_suffix_dot_cases)
      then show ?thesis using 3 c by (auto simp: Covers_iff trim_prefix_def)
    qed (simp_all add: Covers_iff)
  qed
qed

lemma find_nth:
  assumes "i < length xs" and "P (xs ! i)" and "\<And>j. j < i \<Longrightarrow> \<not> P (xs ! j)"
  shows "List.find P xs = Some (xs ! i)"
  using assms unfolding find_Some_iff by blast

definition chosen_rule :: "ingress_rule list \<Rightarrow> string \<Rightarrow> ingress_rule option" where
  "chosen_rule rules h = List.find (\<lambda>r. rule_matches (in_hostname r) h) rules"

lemma chosen_own:
  assumes "sorted_wrt not_caught rules" and "i < length rules"
  shows "chosen_rule rules (in_hostname (rules ! i)) = Some (rules ! i)"
  unfolding chosen_rule_def
proof (rule find_nth [OF assms(2)])
  show "rule_matches (in_hostname (rules ! i)) (in_hostname (rules ! i))" by (simp add: rule_matches_iff)
  show "\<not> rule_matches (in_hostname (rules ! j)) (in_hostname (rules ! i))" if "j < i" for j
    using sorted_wrt_nth_less [OF assms(1) that assms(2)] by (simp add: rule_matches_Covers)
qed

section \<open>The zone of a record\<close>

lemma zones_loop_None:
  "dns_zones_loop i names ids zs = None \<longleftrightarrow> list_all (\<lambda>z. dz_zone_id z \<noteq> [] \<and> dz_name z \<noteq> []) zs \<and>
     distinct (map (\<lambda>z. to_lower (dz_name z)) zs) \<and> distinct (map dz_zone_id zs) \<and>
     (\<forall>z\<in>set zs. to_lower (dz_name z) \<notin> set names \<and> dz_zone_id z \<notin> set ids)"
proof (induction zs arbitrary: i names ids)
  case (Cons z zs)
  then show ?case by (auto simp: image_iff)
qed simp

lemma names_loop_None:
  "dns_names_loop d i names hosts = None \<longleftrightarrow> distinct (map to_lower hosts) \<and> (\<forall>h\<in>set hosts. ZoneIDOf d h \<noteq> None) \<and>
     (\<forall>h\<in>set hosts. to_lower h \<notin> set names)"
proof (induction hosts arbitrary: i names)
  case (Cons h hosts)
  then show ?case by (auto simp: image_iff)
qed simp

lemma ids_lookup:
  assumes "distinct (map (\<lambda>z. to_lower (dz_name z)) zs)"
  shows "mget (foldl (\<lambda>m z. mput (to_lower (dz_name z)) (dz_zone_id z) m) m zs) k =
     (case List.find (\<lambda>z. to_lower (dz_name z) = k) zs of Some z \<Rightarrow> Some (dz_zone_id z) | None \<Rightarrow> mget m k)"
  using assms
proof (induction zs arbitrary: m)
  case (Cons z zs)
  have "List.find (\<lambda>y. to_lower (dz_name y) = to_lower (dz_name z)) zs = None"
    using Cons.prems by (auto simp: find_None_iff image_iff)
  with Cons show ?case by (auto split: option.split)
qed simp

definition encloses :: "string \<Rightarrow> dns_zone \<Rightarrow> bool" where
  "encloses host z \<longleftrightarrow> in_zone (zone_name host) (to_lower (dz_name z))"

lemma ZoneIDOf_longest:
  assumes "td_zone_id d = []" and "dns_zones_loop 0 [] [] (td_zones d) = None" and "ZoneIDOf d host = Some zid"
  shows "\<exists>z\<in>set (td_zones d). dz_zone_id z = zid \<and> encloses host z \<and>
     (\<forall>z'\<in>set (td_zones d). encloses host z' \<longrightarrow> length (dz_name z') \<le> length (dz_name z))"
proof -
  let ?names = "map (\<lambda>z. to_lower (dz_name z)) (td_zones d)"
  let ?zone = "ZoneOf ?names host"
  from assms(2) have dist: "distinct ?names" unfolding zones_loop_None by simp
  from assms(1,3) have zone: "?zone \<noteq> []" by (auto simp: ZoneIDOf_def Let_def split: if_splits)
  from zone_of.find_sound [OF zone] obtain z where z: "z \<in> set (td_zones d)" "to_lower (dz_name z) = ?zone" "in_zone (zone_name host) ?zone"
    by auto
  have unique: "y = z" if "y \<in> set (td_zones d)" "to_lower (dz_name y) = ?zone" for y
  proof -
    from dist have "inj_on (\<lambda>z. to_lower (dz_name z)) (set (td_zones d))" by (simp add: distinct_map)
    then show ?thesis by (rule inj_onD) (use that z in simp_all)
  qed
  obtain y where y: "List.find (\<lambda>y. to_lower (dz_name y) = ?zone) (td_zones d) = Some y"
    using z(1,2) by (cases "List.find (\<lambda>y. to_lower (dz_name y) = ?zone) (td_zones d)") (auto simp: find_None_iff)
  then have "y = z" by (intro unique) (auto simp: find_Some_iff)
  with y assms(1,3) zone have "zid = dz_zone_id z"
    by (simp add: ZoneIDOf_def Let_def ids_lookup [OF dist])
  moreover have "length (dz_name z') \<le> length (dz_name z)" if "z' \<in> set (td_zones d)" "encloses host z'" for z'
  proof -
    have "length (to_lower (dz_name z')) \<le> length ?zone"
      using that by (intro zone_of.find_longest) (auto simp: encloses_def)
    then have "length (to_lower (dz_name z')) \<le> length (to_lower (dz_name z))" unfolding z(2) .
    then show ?thesis by (simp only: length_to_lower)
  qed
  ultimately show ?thesis using z by (auto simp: encloses_def)
qed

section \<open>Properties\<close>

definition sample_tunnel_args :: tunnel_args where
  "sample_tunnel_args = \<lparr>ta_account_id = ''acc'', ta_name = ''prod'',
     ta_ingress = [
       \<lparr>in_hostname = ''shop.example.com'', in_service = ''https://gw:443'', in_origin_server_name = [], in_ca_pool = [], in_no_tls_verify = False\<rparr>,
       \<lparr>in_hostname = ''*.example.com'', in_service = ''https://gw:443'', in_origin_server_name = [], in_ca_pool = [], in_no_tls_verify = False\<rparr>],
     ta_dns = Some \<lparr>td_zone_id = [], td_names = [''shop.example.com'', ''*.example.com''],
       td_zones = [\<lparr>dz_zone_id = ''z1'', dz_name = ''example.com''\<rparr>, \<lparr>dz_zone_id = ''z2'', dz_name = ''example.org''\<rparr>]\<rparr>,
     ta_certificates = None\<rparr>"

lemma sample_tunnel_valid: "Tunnel_Validate sample_tunnel_args = None"
  by code_simp

text \<open>In a validated tunnel no rule is dead: a request for a rule's own hostname is answered by
  that very rule, so every origin is reached under the name that was written for it.\<close>

theorem Tunnel_rules_reachable:
  assumes "Tunnel_Validate a = None" and "i < length (ta_ingress a)"
  shows "chosen_rule (ta_ingress a) (in_hostname (ta_ingress a ! i)) = Some (ta_ingress a ! i)"
proof -
  from assms(1) have "sorted_wrt not_caught (ta_ingress a)"
    by (simp add: Tunnel_Validate_def flip: validateIngressOrder_None)
  then show ?thesis using assms(2) by (rule chosen_own)
qed

theorem Tunnel_rules_reachable_witness:
  "chosen_rule (ta_ingress sample_tunnel_args) ''*.example.com'' = Some (ta_ingress sample_tunnel_args ! 1)"
proof -
  have "1 < length (ta_ingress sample_tunnel_args)" "in_hostname (ta_ingress sample_tunnel_args ! 1) = ''*.example.com''"
    by (simp_all add: sample_tunnel_args_def)
  with Tunnel_rules_reachable [OF sample_tunnel_valid] show ?thesis by metis
qed

text \<open>Every DNS name of a validated tunnel gets one record, in the zone that encloses it most
  closely: the block's one zone, or the longest of its zones that is the name or a parent of it.\<close>

theorem Tunnel_records_zone:
  assumes "Tunnel_Validate a = None" and "ta_dns a = Some d" and "host \<in> set (td_names d)"
  shows "\<exists>zid. ZoneIDOf d host = Some zid \<and> zid \<noteq> [] \<and> distinct (map to_lower (td_names d)) \<and>
     (if td_zone_id d \<noteq> [] then zid = td_zone_id d
      else \<exists>z\<in>set (td_zones d). dz_zone_id z = zid \<and> encloses host z \<and>
        (\<forall>z'\<in>set (td_zones d). encloses host z' \<longrightarrow> length (dz_name z') \<le> length (dz_name z)))"
proof -
  from assms(1,2) have ok: "dns_zones_loop 0 [] [] (td_zones d) = None" "dns_names_loop d 0 [] (td_names d) = None"
    by (simp_all add: Tunnel_Validate_def DNS_validate_def)
  then obtain zid where zid: "ZoneIDOf d host = Some zid" and dist: "distinct (map to_lower (td_names d))"
    using assms(3) unfolding names_loop_None by auto
  show ?thesis
  proof (cases "td_zone_id d = []")
    case True
    from ZoneIDOf_longest [OF True ok(1) zid] obtain z where z: "z \<in> set (td_zones d)" "dz_zone_id z = zid" "encloses host z"
      "\<forall>z'\<in>set (td_zones d). encloses host z' \<longrightarrow> length (dz_name z') \<le> length (dz_name z)" by blast
    moreover have "zid \<noteq> []" using ok(1) z(1,2) unfolding zones_loop_None list_all_iff by auto
    ultimately show ?thesis using zid dist True by auto
  next
    case False
    with zid dist show ?thesis by (simp add: ZoneIDOf_def)
  qed
qed

theorem Tunnel_records_zone_witness:
  "\<exists>zid. ZoneIDOf (the (ta_dns sample_tunnel_args)) ''shop.example.com'' = Some zid \<and> zid \<noteq> []"
  using Tunnel_records_zone [OF sample_tunnel_valid, of _ "''shop.example.com''"]
  by (auto simp: sample_tunnel_args_def)

section \<open>Names of resources\<close>

text \<open>A hyphen of a name and the hyphen that stands for a dot are the same in a resource name, so two
  names of a valid tunnel can give two resources of one name.\<close>

definition colliding_tunnel :: tunnel_args where
  "colliding_tunnel = sample_tunnel_args\<lparr>ta_dns := Some \<lparr>td_zone_id = ''z1'',
     td_names = [''a-b.example.com'', ''a.b.example.com''], td_zones = []\<rparr>\<rparr>"

lemma colliding_names:
  "Tunnel_Validate colliding_tunnel = None \<and> \<not> distinct (map fst (registered (tunnel_resources ''t'' colliding_tunnel)))"
  by code_simp

section \<open>A validated tunnel is refused nowhere\<close>

lemma tunnel_records_accepted:
  "\<forall>h\<in>set hosts. ZoneIDOf d h \<noteq> None \<Longrightarrow> refused (map (tunnel_record name d) hosts) = []"
  by (induction hosts) (auto simp: tunnel_record_def)

lemma tunnel_actions_accepted:
  assumes "Tunnel_Validate a = None"
  shows "refused (tunnel_actions True name a True) = []"
proof -
  have "refused (map (tunnel_record name d) (td_names d)) = []" if "ta_dns a = Some d" for d
  proof (rule tunnel_records_accepted)
    from assms that have "dns_names_loop d 0 [] (td_names d) = None" by (simp add: Tunnel_Validate_def DNS_validate_def)
    then show "\<forall>h\<in>set (td_names d). ZoneIDOf d h \<noteq> None" unfolding names_loop_None by blast
  qed
  then show ?thesis using assms by (simp add: tunnel_actions_def tunnel_resources_def fail_if_def split: option.split)
qed

end
