(* ===== verification/Stack_Zones.thy ===== *)
theory Stack_Zones imports Config_Rules Config_Stacks Account_Tokens Tunnel_Args begin

text \<open>
  \<open>cloudflare/zonestack/zonestack.go\<close>: the zone stack of one company, the providers of its accounts and
  its zones, as one list of actions. A zone's resources are registered with the provider that serves
  them. The resource options a caller adds (aliases) and the logger have no part in it; the further
  rules it may contribute to a zone are the parameter \<open>zs_extra\<close>.
\<close>

section \<open>The arguments of a zone\<close>

datatype zonestack_error =
    ZSNoConfig
  | ZSNoAccount string
  | ZSNoToken string
  | ZSAccount string account_error
  | ZSPending string string
  | ZSZoneAccount string account_error
  | ZSSecurityTxtOnly string
  | ZSContributions string contributions_error
  | ZSZone string zone_new_error

definition AOPProviderPrefix :: string where
  "AOPProviderPrefix = ''aop-provider-''"

definition needsAOP :: "zone_cfg \<Rightarrow> bool" where
  "needsAOP z \<longleftrightarrow> ActiveOrigins z \<noteq> [] \<or> nil_list (zn_ssl_mode_rules z) \<noteq> []"

definition ZoneArgs :: "string \<Rightarrow> zone_cfg \<Rightarrow> zonestack_error + zone_args" where
  "ZoneArgs name z =
     (if SecurityTxtOnly z then Inl (ZSSecurityTxtOnly name)
      else case Zone_Contributions (z\<lparr>zn_name := name\<rparr>) of
          Inl e \<Rightarrow> Inl (ZSContributions name e)
        | Inr cs \<Rightarrow> Inr
           \<lparr>za_zone_id = zn_zone_id z, za_ssl = zn_ssl_mode z, za_min_tls_version = zn_min_tls_version z,
            za_total_tls = map_option (\<lambda>t. \<lparr>tt_enabled = ttc_enabled t, tt_certificate_authority = ttc_certificate_authority t\<rparr>) (zn_total_tls z),
            za_cache = map_option (\<lambda>c. \<lparr>zc_hosts = zn_cache_hosts z, zc_respect_origin_browser_ttl = chc_respect_origin_browser_ttl c\<rparr>) (zn_cache z),
            za_trusted_clients = None, za_rate_limits = None, za_records = RecordsLibrary z name,
            za_always_use_https = zn_always_use_https z, za_hsts = HSTSCfg_Library (zn_hsts z), za_managed_waf = None,
            za_bot_management = BotManagementCfg_Library (zn_bot_management z), za_contributions = cs,
            za_authenticated_origin_pulls = (if ActiveOrigins z \<noteq> [] then Some True else None),
            za_import_rulesets = (if zn_config_rules_import_id z \<noteq> [] then [(PhaseConfigSettings, zn_config_rules_import_id z)] else [])\<rparr>)"

section \<open>The stack\<close>

text \<open>A resource of the stack: a provider, or one of a zone with the name of the provider that serves it.\<close>

datatype zonestack_resource =
    SProvider account_provider
  | SZone string zone_resource

record zonestack_args =
  zs_config :: "registry option"
  zs_company :: string
  zs_tokens :: "string gomap"
  zs_extra :: "string \<Rightarrow> contribution list"

definition account_id_of :: "registry \<Rightarrow> string \<Rightarrow> string" where
  "account_id_of c name = (case mget (rg_accounts c) name of None \<Rightarrow> [] | Some a \<Rightarrow> account_cfg.ac_account_id a)"

definition token_of :: "string gomap \<Rightarrow> string \<Rightarrow> string" where
  "token_of tokens name = (case mget tokens name of None \<Rightarrow> [] | Some t \<Rightarrow> t)"

definition company_provider :: "registry \<Rightarrow> string gomap \<Rightarrow> string \<Rightarrow> string \<Rightarrow> (account_error, string \<times> account_provider) action list" where
  "company_provider c tokens provider account =
     account_actions provider \<lparr>aa_account_id = account_id_of c account, aa_base_url = []\<rparr> (token_of tokens account)"

definition newCompanyAccount :: "registry \<Rightarrow> string gomap \<Rightarrow> string \<Rightarrow> (zonestack_error, string \<times> zonestack_resource) action list" where
  "newCompanyAccount c tokens name =
     refuse (fail_if (token_of tokens name = []) (ZSNoToken name)) @
     map (map_action (ZSAccount name) (\<lambda>(n, p). (n, SProvider p))) (company_provider c tokens name name)"

text \<open>The transformation \<open>aopProvider\<close> puts the zone's own provider behind the account's for two of the
  zone's resources, and the last provider serves.\<close>

definition serving :: "zone_cfg \<Rightarrow> string \<Rightarrow> string \<Rightarrow> string" where
  "serving z slug n =
     (if needsAOP z \<and> (n = ''tls-client-auth-'' @ slug \<or> n = ''ssl-mode-'' @ slug) then AOPProviderPrefix @ slug else zn_account z)"

definition deployZone :: "registry \<Rightarrow> string gomap \<Rightarrow> (string \<Rightarrow> contribution list) \<Rightarrow> string \<Rightarrow> zone_cfg \<Rightarrow>
    (zonestack_error, string \<times> zonestack_resource) action list" where
  "deployZone c tokens extra name z =
     (case ZoneArgs name z of
        Inl e \<Rightarrow> [Refuse e]
      | Inr a \<Rightarrow>
          (if needsAOP z
           then map (map_action (ZSZoneAccount name) (\<lambda>(n, p). (n, SProvider p))) (company_provider c tokens (AOPProviderPrefix @ Slug name) (zn_account z))
           else []) @
          map (map_action (ZSZone name) (\<lambda>(n, r). (n, SZone (serving z (Slug name) n) r)))
            (zone_actions (Slug name) (a\<lparr>za_contributions := za_contributions a @ extra name\<rparr>)))"

definition company_zone :: "registry \<Rightarrow> string gomap \<Rightarrow> (string \<Rightarrow> contribution list) \<Rightarrow> string list \<Rightarrow> string \<times> zone_cfg \<Rightarrow>
    (zonestack_error, string \<times> zonestack_resource) action list" where
  "company_zone c tokens extra accounts = (\<lambda>(name, z).
     if zn_account z \<notin> set accounts then []
     else if SecurityTxtOnly z then []
     else if zn_zone_id_pending z then [Refuse (ZSPending name (zn_account z))]
     else deployZone c tokens extra name z)"

definition Zones_Deploy :: "zonestack_args \<Rightarrow> (zonestack_error, string \<times> zonestack_resource) action list" where
  "Zones_Deploy args = (case zs_config args of
      None \<Rightarrow> [Refuse ZSNoConfig]
    | Some c \<Rightarrow>
        let accounts = AccountsOf c (zs_company args) in
        refuse (fail_if (accounts = []) (ZSNoAccount (zs_company args))) @
        concat (map (newCompanyAccount c (zs_tokens args)) accounts) @
        concat (map (company_zone c (zs_tokens args) (zs_extra args) accounts) (sorted_entries (rg_zones c))))"

section \<open>What a checked zone contributes\<close>

lemma collect_map_Inr: "collect (\<lambda>r. r) (map f xs) = Inr ys \<longleftrightarrow> collect f xs = Inr ys"
  unfolding collect_Inr by (simp add: comp_def)

lemma collect_append: "collect f (xs @ ys) = Inr zs \<longleftrightarrow> (\<exists>us vs. collect f xs = Inr us \<and> collect f ys = Inr vs \<and> zs = us @ vs)"
  unfolding collect_Inr by (auto simp: append_eq_map_conv map_eq_append_conv)

lemma collect_in: "collect f xs = Inr ys \<Longrightarrow> y \<in> set ys \<Longrightarrow> \<exists>x\<in>set xs. f x = Inr y"
  unfolding collect_Inr by (metis (mono_tags, lifting) image_eqI image_iff list.set_map)

lemma map_error_Inr_iff: "map_error f r = Inr x \<longleftrightarrow> r = Inr x"
  by (cases r) (simp_all add: map_error_def)

text \<open>The references each block brings, by phase.\<close>

lemma SSLMode_refs: "SSLMode host mode ref = Inr c \<Longrightarrow> con_phase c = PhaseConfigSettings \<and> map rule_ref (con_rules c) = [ref]"
  by (auto simp: SSLMode_def zero_contribution_def zero_rule_def)

lemma TrustedClients_refs:
  "TrustedClients (Some t) = Inr c \<Longrightarrow> con_phase c = PhaseFirewallCustom \<and> map rule_ref (con_rules c) \<in> {[], [''trusted-clients'']}"
  by (auto simp: TrustedClients_def Let_def zero_contribution_def zero_rule_def split: if_splits sum.splits prod.splits)

lemma ManagedWAF_refs:
  "ManagedWAF (Some w) = Inr c \<Longrightarrow> con_phase c = PhaseFirewallManaged \<and> map rule_ref (con_rules c) = [''managed-waf'']"
  by (auto simp: ManagedWAF_def Let_def zero_contribution_def zero_rule_def)

lemma PublicCache_refs:
  "con_phase (CacheRule_Contribution r) = PhaseCacheSettings \<and> map rule_ref (con_rules (CacheRule_Contribution r)) = [''public-paths-'' @ cr_host r]"
  by (simp add: CacheRule_Contribution_def zero_contribution_def zero_rule_def)

lemma RateLimits_refs:
  "RateLimits plan rows = Inr c \<Longrightarrow> con_phase c = PhaseRateLimit \<and> distinct (map rule_ref (con_rules c))"
  by (drule RateLimits_Inr) (simp add: comp_def rate_rule_def zero_rule_def)

lemma refs_of_other: "\<forall>c\<in>set cs. con_phase c = q \<Longrightarrow> p \<noteq> q \<Longrightarrow> refs_of p cs = []"
  by (induction cs) (auto simp: refs_of_def)

lemma refs_of_single: "con_phase c = p \<Longrightarrow> refs_of p [c] = map rule_ref (con_rules c)"
  by (simp add: refs_of_def)

lemma ssl_builds_refs:
  assumes "collect (\<lambda>(host, mode). map_error (CESSLMode host) (SSLMode host mode (SSLModeRef z host))) es = Inr cs"
  shows "(\<forall>c\<in>set cs. con_ok c \<and> con_phase c = PhaseConfigSettings) \<and>
     refs_of PhaseConfigSettings cs = map (SSLModeRef z) (map fst es) \<and> length cs = length es"
  using assms
proof (induction es arbitrary: cs)
  case Nil
  then show ?case by (simp add: refs_of_def)
next
  case (Cons kv es)
  obtain host mode where kv: "kv = (host, mode)" by (cases kv)
  from Cons.prems obtain c cs' where c: "SSLMode host mode (SSLModeRef z host) = Inr c" and cs: "cs = c # cs'"
    and rest: "collect (\<lambda>(host, mode). map_error (CESSLMode host) (SSLMode host mode (SSLModeRef z host))) es = Inr cs'"
    by (auto simp: kv map_error_Inr_iff)
  from SSLMode_refs [OF c] have "refs_of PhaseConfigSettings (c # cs') = SSLModeRef z host # refs_of PhaseConfigSettings cs'"
    by (simp add: refs_of_def)
  with Cons.IH [OF rest] SSLMode_refs [OF c] SSLMode_con_ok [OF c] show ?case by (simp add: kv cs)
qed

text \<open>At most one contribution of one phase, with the references given.\<close>

definition one_of :: "phase \<Rightarrow> (string list \<Rightarrow> bool) \<Rightarrow> contribution list \<Rightarrow> bool" where
  "one_of p P cs \<longleftrightarrow> cs = [] \<or> (\<exists>c. cs = [c] \<and> con_ok c \<and> con_phase c = p \<and> P (map rule_ref (con_rules c)))"

lemma one_of_refs: "one_of p P cs \<Longrightarrow> (\<forall>c\<in>set cs. con_ok c \<and> con_phase c = p) \<and> (refs_of p cs = [] \<or> P (refs_of p cs))"
  by (auto simp: one_of_def refs_of_def)

lemma one_of_collect:
  assumes "collect (\<lambda>r. r) (case x of None \<Rightarrow> [] | Some y \<Rightarrow> [map_error f (g y)]) = Inr cs"
    and "\<And>y c. g y = Inr c \<Longrightarrow> con_ok c \<and> con_phase c = p \<and> P (map rule_ref (con_rules c))"
  shows "one_of p P cs"
  using assms by (cases x) (auto simp: one_of_def map_error_Inr_iff)

lemma contributions_parts:
  assumes "Zone_Contributions z = Inr cs" and "\<not> SecurityTxtOnly z"
  obtains cache ssl rate trusted waf where "cs = cache @ ssl @ rate @ trusted @ waf"
    and "one_of PhaseCacheSettings (\<lambda>rs. \<exists>h. rs = [''public-paths-'' @ h]) cache"
    and "collect (\<lambda>(host, mode). map_error (CESSLMode host) (SSLMode host mode (SSLModeRef z host))) (sorted_entries (nil_list (zn_ssl_mode_rules z))) = Inr ssl"
    and "one_of PhaseRateLimit distinct rate"
    and "one_of PhaseFirewallCustom (\<lambda>rs. rs \<in> {[], [''trusted-clients'']}) trusted"
    and "one_of PhaseFirewallManaged (\<lambda>rs. rs = [''managed-waf'']) waf"
proof -
  from assms have "collect (\<lambda>r. r) (contribution_builds z) = Inr cs" by (simp add: Zone_Contributions_def)
  then obtain cache ssl rate trusted waf where cs: "cs = cache @ ssl @ rate @ trusted @ waf"
    and cache: "collect (\<lambda>r. r) (case zn_public_cache z of None \<Rightarrow> []
        | Some p \<Rightarrow> [map_error CEPublicCache (sum_bind (PublicPathsCache (pcc_host p) \<lparr>ppa_ttl = EdgeTTL (Some p), ppa_paths = []\<rparr>)
            (\<lambda>rule. Inr (CacheRule_Contribution rule)))]) = Inr cache"
    and ssl: "collect (\<lambda>(host, mode). map_error (CESSLMode host) (SSLMode host mode (SSLModeRef z host))) (sorted_entries (nil_list (zn_ssl_mode_rules z))) = Inr ssl"
    and rate: "collect (\<lambda>r. r) (case RateLimitsCfg_Library (zn_rate_limits z) of None \<Rightarrow> []
        | Some rl \<Rightarrow> [map_error CERateLimits (RateLimits (rls_plan rl) (rls_rules rl))]) = Inr rate"
    and trusted: "collect (\<lambda>r. r) (case TrustedClientsCfg_Library (zn_name z) (zn_trusted_clients z) of None \<Rightarrow> []
        | Some t \<Rightarrow> [map_error CETrusted (TrustedClients (Some t))]) = Inr trusted"
    and waf: "collect (\<lambda>r. r) (case ManagedWAFLibrary z (zn_name z) of None \<Rightarrow> []
        | Some w \<Rightarrow> [map_error CEWAF (ManagedWAF (Some w))]) = Inr waf"
    unfolding contribution_builds_def collect_append collect_map_Inr by blast
  show thesis
  proof (rule that [OF cs _ ssl])
    show "one_of PhaseCacheSettings (\<lambda>rs. \<exists>h. rs = [''public-paths-'' @ h]) cache"
      by (rule one_of_collect [OF cache]) (use PublicPathsCache_con_ok PublicCache_refs in fastforce)
    show "one_of PhaseRateLimit distinct rate"
      by (rule one_of_collect [OF rate]) (use RateLimits_con_ok RateLimits_refs in blast)
    show "one_of PhaseFirewallCustom (\<lambda>rs. rs \<in> {[], [''trusted-clients'']}) trusted"
      by (rule one_of_collect [OF trusted]) (use TrustedClients_con_ok TrustedClients_refs in blast)
    show "one_of PhaseFirewallManaged (\<lambda>rs. rs = [''managed-waf'']) waf"
      by (rule one_of_collect [OF waf]) (use ManagedWAF_con_ok ManagedWAF_refs in blast)
  qed
qed

definition ssl_refs :: "zone_cfg \<Rightarrow> string list" where
  "ssl_refs z = map (SSLModeRef z) (map fst (sorted_entries (nil_list (zn_ssl_mode_rules z))))"

lemma contributions_refs:
  assumes "Zone_Contributions z = Inr cs" and "\<not> SecurityTxtOnly z"
  shows "list_all con_ok cs" and "refs_of PhaseConfigSettings cs = ssl_refs z"
    and "\<exists>hs. refs_of PhaseCacheSettings cs = map (\<lambda>h. ''public-paths-'' @ h) hs \<and> length hs \<le> 1"
    and "distinct (refs_of PhaseRateLimit cs)" and "distinct (refs_of PhaseFirewallCustom cs)" and "distinct (refs_of PhaseFirewallManaged cs)"
    and "ssl_refs z \<noteq> [] \<Longrightarrow> PhaseConfigSettings \<in> con_phase ` set cs"
proof -
  from contributions_parts [OF assms] obtain cache ssl rate trusted waf where cs: "cs = cache @ ssl @ rate @ trusted @ waf"
    and cache: "one_of PhaseCacheSettings (\<lambda>rs. \<exists>h. rs = [''public-paths-'' @ h]) cache"
    and ssl: "collect (\<lambda>(host, mode). map_error (CESSLMode host) (SSLMode host mode (SSLModeRef z host))) (sorted_entries (nil_list (zn_ssl_mode_rules z))) = Inr ssl"
    and rate: "one_of PhaseRateLimit distinct rate"
    and trusted: "one_of PhaseFirewallCustom (\<lambda>rs. rs \<in> {[], [''trusted-clients'']}) trusted"
    and waf: "one_of PhaseFirewallManaged (\<lambda>rs. rs = [''managed-waf'']) waf" by blast
  note parts = one_of_refs [OF cache] one_of_refs [OF rate] one_of_refs [OF trusted] one_of_refs [OF waf]
  note sslp = ssl_builds_refs [OF ssl]
  have phase: "\<forall>c\<in>set cache. con_phase c = PhaseCacheSettings" "\<forall>c\<in>set ssl. con_phase c = PhaseConfigSettings"
    "\<forall>c\<in>set rate. con_phase c = PhaseRateLimit" "\<forall>c\<in>set trusted. con_phase c = PhaseFirewallCustom" "\<forall>c\<in>set waf. con_phase c = PhaseFirewallManaged"
    using parts sslp by blast+
  note other = phase [THEN refs_of_other]
  have differ: "distinct [PhaseCacheSettings, PhaseConfigSettings, PhaseRateLimit, PhaseFirewallCustom, PhaseFirewallManaged]"
    "distinct [PhaseFirewallManaged, PhaseFirewallCustom, PhaseRateLimit, PhaseConfigSettings, PhaseCacheSettings]" by code_simp+
  then have at: "refs_of PhaseCacheSettings cs = refs_of PhaseCacheSettings cache" "refs_of PhaseConfigSettings cs = refs_of PhaseConfigSettings ssl"
    "refs_of PhaseRateLimit cs = refs_of PhaseRateLimit rate" "refs_of PhaseFirewallCustom cs = refs_of PhaseFirewallCustom trusted"
    "refs_of PhaseFirewallManaged cs = refs_of PhaseFirewallManaged waf"
    unfolding cs refs_of_append by (simp_all add: other)
  show "list_all con_ok cs" unfolding cs list_all_iff set_append using parts sslp by blast
  show "refs_of PhaseConfigSettings cs = ssl_refs z" unfolding at ssl_refs_def using sslp by blast
  show "\<exists>hs. refs_of PhaseCacheSettings cs = map (\<lambda>h. ''public-paths-'' @ h) hs \<and> length hs \<le> 1"
  proof (cases "refs_of PhaseCacheSettings cache = []")
    case False
    then obtain h where "refs_of PhaseCacheSettings cache = [''public-paths-'' @ h]" using parts(1) by blast
    then show ?thesis unfolding at by (intro exI [of _ "[h]"]) simp
  qed (simp add: at)
  show "distinct (refs_of PhaseRateLimit cs)" "distinct (refs_of PhaseFirewallCustom cs)" "distinct (refs_of PhaseFirewallManaged cs)"
    unfolding at using parts by auto
  assume "ssl_refs z \<noteq> []"
  then have "sorted_entries (nil_list (zn_ssl_mode_rules z)) \<noteq> []" unfolding ssl_refs_def by (metis list.map(1))
  then have "ssl \<noteq> []" using sslp by (metis length_0_conv)
  then show "PhaseConfigSettings \<in> con_phase ` set cs" unfolding cs using phase(2) by (cases ssl) auto
qed

section \<open>What the stack accepts\<close>

text \<open>What the checks of the registry leave to the zone library: the TLS version, the certificate authority
  and the derived cache hosts; what they leave to the builders (\<open>builders_open\<close>); and that no two SSL mode
  rules were given one reference.\<close>

definition zone_open :: "string \<Rightarrow> zone_cfg \<Rightarrow> bool" where
  "zone_open name z \<longleftrightarrow>
     (zn_min_tls_version z = [] \<or> oneOf (zn_min_tls_version z) validMinTLSVersion) \<and>
     (case zn_total_tls z of None \<Rightarrow> True | Some t \<Rightarrow> ttc_certificate_authority t = [] \<or> oneOf (ttc_certificate_authority t) validCA) \<and>
     (case zn_cache z of None \<Rightarrow> True | Some c \<Rightarrow> Cache_validate \<lparr>zc_hosts = zn_cache_hosts z, zc_respect_origin_browser_ttl = False\<rparr> = None) \<and>
     builders_open (z\<lparr>zn_name := name\<rparr>) \<and> distinct (ssl_refs z)"

lemma ZoneArgs_Inr:
  assumes "ZoneArgs name z = Inr a"
  shows "\<not> SecurityTxtOnly z" and "Zone_Contributions (z\<lparr>zn_name := name\<rparr>) = Inr (za_contributions a)"
    and "za_zone_id a = zn_zone_id z" and "za_ssl a = zn_ssl_mode z" and "za_min_tls_version a = zn_min_tls_version z"
    and "za_records a = RecordsLibrary z name" and "za_always_use_https a = zn_always_use_https z" and "za_hsts a = HSTSCfg_Library (zn_hsts z)"
    and "za_bot_management a = BotManagementCfg_Library (zn_bot_management z)" and "za_trusted_clients a = None" and "za_rate_limits a = None" and "za_managed_waf a = None"
    and "za_total_tls a = map_option (\<lambda>t. \<lparr>tt_enabled = ttc_enabled t, tt_certificate_authority = ttc_certificate_authority t\<rparr>) (zn_total_tls z)"
    and "za_cache a = map_option (\<lambda>c. \<lparr>zc_hosts = zn_cache_hosts z, zc_respect_origin_browser_ttl = chc_respect_origin_browser_ttl c\<rparr>) (zn_cache z)"
    and "za_import_rulesets a = (if zn_config_rules_import_id z \<noteq> [] then [(PhaseConfigSettings, zn_config_rules_import_id z)] else [])"
  using assms unfolding ZoneArgs_def by (auto split: if_splits sum.splits)

lemma ZoneArgs_ssl_refs: "ssl_refs (z\<lparr>zn_name := name\<rparr>) = ssl_refs z"
  by (simp add: ssl_refs_def SSLModeRef_def)

text \<open>A checked zone's arguments pass the zone library's checks when what was left to them holds.\<close>

lemma hardening_valid:
  assumes "validateHardening z n = None"
  shows "on_block (\<lambda>h. HSTS_validate h (zn_always_use_https z)) (HSTSCfg_Library (zn_hsts z)) = None"
    and "on_block BotManagement_validate (BotManagementCfg_Library (zn_bot_management z)) = None"
proof -
  have checked: "zn_hsts z \<noteq> None \<or> zn_bot_management z \<noteq> None \<Longrightarrow> Args_Validate (hardening_args z n) = None"
    using assms unfolding validateHardening_def by (simp split: if_splits)
  have fields: "za_hsts (hardening_args z n) = HSTSCfg_Library (zn_hsts z)" "za_always_use_https (hardening_args z n) = zn_always_use_https z"
    "za_bot_management (hardening_args z n) = BotManagementCfg_Library (zn_bot_management z)" by (simp_all add: hardening_args_def)
  show "on_block (\<lambda>h. HSTS_validate h (zn_always_use_https z)) (HSTSCfg_Library (zn_hsts z)) = None"
  proof (cases "zn_hsts z")
    case None
    then show ?thesis by (simp add: HSTSCfg_Library_def on_block_def)
  next
    case (Some h)
    with checked show ?thesis unfolding Args_Validate_def first_of_None fields by blast
  qed
  show "on_block BotManagement_validate (BotManagementCfg_Library (zn_bot_management z)) = None"
  proof (cases "zn_bot_management z")
    case None
    then show ?thesis by (simp add: BotManagementCfg_Library_def on_block_def)
  next
    case (Some b)
    with checked show ?thesis unfolding Args_Validate_def first_of_None fields by blast
  qed
qed

lemma records_valid:
  assumes "validateRecords z n = None"
  shows "Records_validate (RecordsLibrary z n) = None"
proof (cases "RecordsLibrary z n")
  case None
  then show ?thesis by (simp add: Records_validate_def)
next
  case (Some recs)
  with assms have "Args_Validate ((block_args n)\<lparr>za_records := Some recs\<rparr>) = None" by (simp add: validateRecords_def)
  from Args_Validate_parts(4) [OF this] show ?thesis by (simp add: Some)
qed

lemma fold_Cat_within: "rx_within p r \<Longrightarrow> rx_within p q \<Longrightarrow> rx_within p (fold (\<lambda>_. Cat r) ns q)"
  by (induction ns arbitrary: q) simp_all

lemma ruleset_id_plain:
  assumes "rx_match rulesetIDPattern i"
  shows "i \<noteq> []" and "\<not> contains_any i (''/ '' @ [CHR 0x09, CHR 0x0A])"
proof -
  have "\<not> rx_match rulesetIDPattern []" by code_simp
  with assms show "i \<noteq> []" by metis
  have "list_all hex_char i"
    using assms unfolding rx_match_correct rulesetIDPattern_def rx_times_def
    by (rule rx_within_chars) (simp add: fold_Cat_within)
  moreover have "list_all (\<lambda>c. \<not> hex_char c) (''/ '' @ [CHR 0x09, CHR 0x0A])" by code_simp
  ultimately show "\<not> contains_any i (''/ '' @ [CHR 0x09, CHR 0x0A])"
    unfolding contains_any_def list_ex_iff list_all_iff by blast
qed

lemma import_valid:
  assumes "validateSSLModeRules z n = None" and "zn_config_rules_import_id z \<noteq> []"
  shows "rx_match rulesetIDPattern (zn_config_rules_import_id z)" and "nil_list (zn_ssl_mode_rules z) \<noteq> []"
  using assms unfolding validateSSLModeRules_def first_of_None Let_def by (auto simp: fail_if_def split: if_splits)

lemma ZoneArgs_valid:
  assumes "validateRegistry c = None" and "mget (rg_zones c) n = Some z" and "\<not> zn_zone_id_pending z" and "ZoneArgs n z = Inr a"
  shows "Args_Validate a = None \<longleftrightarrow>
     (zn_min_tls_version z = [] \<or> oneOf (zn_min_tls_version z) validMinTLSVersion) \<and>
     (case zn_total_tls z of None \<Rightarrow> True | Some t \<Rightarrow> ttc_certificate_authority t = [] \<or> oneOf (ttc_certificate_authority t) validCA) \<and>
     (case zn_cache z of None \<Rightarrow> True | Some c \<Rightarrow> Cache_validate \<lparr>zc_hosts = zn_cache_hosts z, zc_respect_origin_browser_ttl = False\<rparr> = None)"
proof -
  note a = ZoneArgs_Inr [OF assms(4)]
  note blocks = edge_zone_blocks [OF assms(1,2) a(1)]
  have zone: "zn_zone_id z \<noteq> []" "zn_ssl_mode z \<noteq> []" "zn_ssl_mode z \<in> set sslModeRuleModes"
    using registry_zone [OF assms(1,2)] a(1) assms(3) unfolding validate_zone_cfg_def prod.case first_of_None
    by (simp_all only: if_False first_of_None fail_if_None) simp_all
  have modes: "list_all (\<lambda>m. oneOf m validSSL) sslModeRuleModes" by code_simp
  have imp: "first_err (\<lambda>(phase, id). fail_if (phase = [] \<or> id = [] \<or> contains_any id (''/ '' @ [CHR 0x09, CHR 0x0A])) (EZImport phase id)) (za_import_rulesets a) = None"
    unfolding a(15) using import_valid(1) [OF blocks(5)] ruleset_id_plain by (simp add: PhaseConfigSettings_def)
  have cache: "on_block Cache_validate (za_cache a) = None \<longleftrightarrow>
     (case zn_cache z of None \<Rightarrow> True | Some c \<Rightarrow> Cache_validate \<lparr>zc_hosts = zn_cache_hosts z, zc_respect_origin_browser_ttl = False\<rparr> = None)"
    unfolding a(14) by (simp add: on_block_def Cache_validate_def split: option.split)
  have tls: "on_block (\<lambda>tls. fail_if (tt_certificate_authority tls \<noteq> [] \<and> \<not> oneOf (tt_certificate_authority tls) validCA)
        (EZCA (tt_certificate_authority tls))) (za_total_tls a) = None \<longleftrightarrow>
     (case zn_total_tls z of None \<Rightarrow> True | Some t \<Rightarrow> ttc_certificate_authority t = [] \<or> oneOf (ttc_certificate_authority t) validCA)"
    unfolding a(13) by (auto simp: on_block_def split: option.split)
  have none: "on_block TrustedClients_validate (za_trusted_clients a) = None" "on_block RateLimits_validate (za_rate_limits a) = None"
    "on_block ManagedWAF_validate (za_managed_waf a) = None" unfolding a(10-12) by (simp_all add: on_block_def)
  have some: "\<not> nothing_managed a" using zone(2) a(4) by (simp add: nothing_managed_def)
  show ?thesis unfolding Args_Validate_def first_of_None map_option_is_None cache tls
    using zone modes imp none some hardening_valid [OF blocks(3)] records_valid [OF blocks(6)]
    unfolding a(3-9) by (simp add: list_all_iff)
qed

lemma refs_unique_iff:
  assumes "Zone_Contributions z = Inr (za_contributions a)" and "\<not> SecurityTxtOnly z"
    and "za_trusted_clients a = None" and "za_rate_limits a = None" and "za_managed_waf a = None"
  shows "refs_unique a \<longleftrightarrow> distinct (ssl_refs z)"
proof -
  note refs = contributions_refs [OF assms(1,2)]
  from refs(3) obtain hs where hs: "refs_of PhaseCacheSettings (za_contributions a) = map (\<lambda>h. ''public-paths-'' @ h) hs" "length hs \<le> 1" by blast
  have cache: "distinct (bypass_refs PhaseCacheSettings @ block_refs a PhaseCacheSettings @ refs_of PhaseCacheSettings (za_contributions a))"
    unfolding hs(1) using hs(2) by (cases hs) (auto simp: bypass_refs_def block_refs_def BypassRef_def split: option.split)
  have off: "bypass_refs p @ block_refs a p = []" if "p \<noteq> PhaseCacheSettings" for p
    using that assms(3-5) by (simp add: bypass_refs_def block_refs_def TrustedClients_Managed_def ManagedWAF_Managed_def)
  have phases: "set Phases = {PhaseCacheSettings, PhaseConfigSettings, PhaseRateLimit, PhaseFirewallCustom, PhaseFirewallManaged}" by code_simp
  have split: "distinct (bypass_refs p @ block_refs a p @ refs_of p (za_contributions a)) \<longleftrightarrow> distinct (refs_of p (za_contributions a))"
    if "p \<noteq> PhaseCacheSettings" for p using off [OF that] by (metis append_assoc append_Nil)
  have differ: "list_all (\<lambda>p. p \<noteq> PhaseCacheSettings) [PhaseConfigSettings, PhaseRateLimit, PhaseFirewallCustom, PhaseFirewallManaged]" by code_simp
  then have "PhaseConfigSettings \<noteq> PhaseCacheSettings" "PhaseRateLimit \<noteq> PhaseCacheSettings" "PhaseFirewallCustom \<noteq> PhaseCacheSettings"
    "PhaseFirewallManaged \<noteq> PhaseCacheSettings" by simp_all
  note each = this [THEN split]
  have own: "distinct (bypass_refs PhaseConfigSettings @ block_refs a PhaseConfigSettings @ refs_of PhaseConfigSettings (za_contributions a)) \<longleftrightarrow>
      distinct (ssl_refs z)" using each(1) unfolding refs(2) .
  show ?thesis unfolding refs_unique_def list_all_iff phases using cache own each(2-4) refs(4-6) by blast
qed

lemma ZoneArgs_accepted:
  assumes "validateRegistry c = None" and "mget (rg_zones c) n = Some z" and "ZoneArgs n z = Inr a"
  shows "zone_accepted a \<longleftrightarrow> distinct (ssl_refs z)"
proof -
  note a = ZoneArgs_Inr [OF assms(3)]
  note blocks = edge_zone_blocks [OF assms(1,2) a(1)]
  let ?z = "z\<lparr>zn_name := n\<rparr>"
  have edge: "\<not> SecurityTxtOnly ?z" using a(1) by (simp add: SecurityTxtOnly_def)
  note refs = contributions_refs [OF a(2) edge]
  have "imports_managed a"
  proof (cases "zn_config_rules_import_id z = []")
    case False
    from import_valid(2) [OF blocks(5) this] have "ssl_refs ?z \<noteq> []"
      by (simp add: ssl_refs_def sorted_keys_def)
    with refs(7) show ?thesis by (simp add: imports_managed_def a(15))
  qed (simp add: imports_managed_def a(15))
  then show ?thesis unfolding zone_accepted_def refs_unique_iff [OF a(2) edge a(10-12)] ZoneArgs_ssl_refs
    using refs(1) a(11) by (simp add: rate_refs_ok_def)
qed

lemma ZoneArgs_total:
  assumes "validateRegistry c = None" and "mget (rg_zones c) n = Some z" and "\<not> SecurityTxtOnly z"
  shows "(\<exists>a. ZoneArgs n z = Inr a) \<longleftrightarrow> builders_open (z\<lparr>zn_name := n\<rparr>)"
proof -
  have "(\<exists>a. ZoneArgs n z = Inr a) \<longleftrightarrow> (\<exists>cs. Zone_Contributions (z\<lparr>zn_name := n\<rparr>) = Inr cs)"
    using assms(3) by (cases "Zone_Contributions (z\<lparr>zn_name := n\<rparr>)") (simp_all add: ZoneArgs_def)
  also have "\<dots> \<longleftrightarrow> builders_open (z\<lparr>zn_name := n\<rparr>)"
    by (rule contributions_build [OF assms])
  finally show ?thesis .
qed

text \<open>A zone of the stack is refused at no step exactly when what was left open holds.\<close>

lemma deployZone_refused:
  assumes "validateRegistry c = None" and "mget (rg_zones c) n = Some z" and "\<not> SecurityTxtOnly z" and "\<not> zn_zone_id_pending z"
    and "extra n = []"
  shows "refused (deployZone c tokens extra n z) = [] \<longleftrightarrow> zone_open n z"
proof (cases "ZoneArgs n z")
  case (Inl e)
  then have "\<not> builders_open (z\<lparr>zn_name := n\<rparr>)" using ZoneArgs_total [OF assms(1-3)] by simp
  with Inl show ?thesis by (simp add: deployZone_def zone_open_def)
next
  case (Inr a)
  have open_builders: "builders_open (z\<lparr>zn_name := n\<rparr>)" using Inr ZoneArgs_total [OF assms(1-3)] by blast
  from registry_zone [OF assms(1,2)] have "has_key (rg_accounts c) (zn_account z)" unfolding validate_zone_cfg_def prod.case first_of_None by simp
  then have "account_id_of c (zn_account z) \<noteq> []"
    using registry_account [OF assms(1), of "zn_account z"] unfolding account_id_of_def has_key_def validate_account_cfg_def by auto
  then have provider: "refused (company_provider c tokens p (zn_account z)) = []" for p
    by (simp add: company_provider_def account_actions_def account_validate_def fail_if_def)
  have "refused (deployZone c tokens extra n z) = [] \<longleftrightarrow> refused (zone_actions (Slug n) a) = []"
    using assms(5) by (simp add: deployZone_def Inr refused_map_action provider del: map_map)
  also have "\<dots> \<longleftrightarrow> Args_Validate a = None \<and> zone_accepted a"
  proof (cases "Args_Validate a")
    case None
    with newRulesets_refused [OF None] show ?thesis by (simp add: zone_actions_def)
  qed (simp add: zone_actions_def)
  also have "\<dots> \<longleftrightarrow> zone_open n z"
    unfolding ZoneArgs_valid [OF assms(1,2,4) Inr] ZoneArgs_accepted [OF assms(1,2) Inr] zone_open_def using open_builders by blast
  finally show ?thesis .
qed

section \<open>Properties\<close>

definition company_zones :: "registry \<Rightarrow> string \<Rightarrow> (string \<times> zone_cfg) list" where
  "company_zones c company = filter (\<lambda>(n, z). CompanyOf c (zn_account z) = company \<and> has_key (rg_accounts c) (zn_account z) \<and> \<not> SecurityTxtOnly z)
     (sorted_entries (rg_zones c))"

lemma AccountsOf_iff: "a \<in> set (AccountsOf c company) \<longleftrightarrow> has_key (rg_accounts c) a \<and> CompanyOf c a = company"
  by (auto simp: AccountsOf_def has_key_def mget_def) (metis image_eqI fst_conv map_of_eq_None_iff not_Some_eq)+

lemma newCompanyAccount_refused:
  assumes "validateRegistry c = None" and "has_key (rg_accounts c) a"
  shows "refused (newCompanyAccount c tokens a) = [] \<longleftrightarrow> token_of tokens a \<noteq> []"
proof -
  from assms(2) obtain x where x: "mget (rg_accounts c) a = Some x" unfolding has_key_def by auto
  from registry_account [OF assms(1) x] have "account_cfg.ac_account_id x \<noteq> []" unfolding validate_account_cfg_def prod.case first_of_None by simp
  with x show ?thesis
    by (simp add: newCompanyAccount_def company_provider_def account_actions_def account_validate_def account_id_of_def fail_if_def)
qed

lemma company_zone_refused:
  assumes "validateRegistry c = None" and "(n, z) \<in> set (sorted_entries (rg_zones c))" and "extra n = []"
  shows "refused (company_zone c tokens extra (AccountsOf c company) (n, z)) = [] \<longleftrightarrow>
     ((n, z) \<in> set (company_zones c company) \<longrightarrow> \<not> zn_zone_id_pending z \<and> zone_open n z)"
proof -
  have z: "mget (rg_zones c) n = Some z" using assms(2) by (simp add: sorted_entries_map_of mget_def)
  show ?thesis unfolding company_zone_def company_zones_def AccountsOf_iff
    using deployZone_refused [where extra = extra, OF assms(1) z _ _ assms(3)] assms(2) by auto
qed

lemma run_accepts: "fst (run_actions accept_all as made) = None \<longleftrightarrow> refused as = []"
  by (simp add: run_accept_all split: list.split)

definition sample_company :: registry where
  "sample_company = sample_registry\<lparr>rg_zones := [(''example.com'', sample_zone_cfg\<lparr>zn_managed_waf := None, zn_security_txt := None,
     zn_ssl_mode_rules := Some [(''a.example.com'', ''strict'')]\<rparr>)]\<rparr>"

definition sample_zonestack :: zonestack_args where
  "sample_zonestack = \<lparr>zs_config = Some sample_company, zs_company = ''main'', zs_tokens = [(''main'', ''t'')], zs_extra = (\<lambda>_. [])\<rparr>"

text \<open>C36 The zone stack of a company deploys to the end exactly when the company has accounts, each with a token,
  and each of its zones that is not managed for its security.txt alone has its id and meets what the
  registry's checks leave open: the TLS version, the certificate authority, the derived cache hosts, the
  conditions of the rule builders, and no SSL mode reference given twice. All else that is refused on the
  way is refused by the registry before.\<close>

theorem Zones_Deploy_accepts:
  assumes "validateRegistry c = None" and "zs_config args = Some c" and "zs_extra args = (\<lambda>_. [])"
  shows "fst (run_actions accept_all (Zones_Deploy args) []) = None \<longleftrightarrow>
     AccountsOf c (zs_company args) \<noteq> [] \<and>
     list_all (\<lambda>a. token_of (zs_tokens args) a \<noteq> []) (AccountsOf c (zs_company args)) \<and>
     list_all (\<lambda>(n, z). \<not> zn_zone_id_pending z \<and> zone_open n z) (company_zones c (zs_company args))"
proof -
  let ?accounts = "AccountsOf c (zs_company args)"
  have "refused (concat (map (newCompanyAccount c (zs_tokens args)) ?accounts)) = [] \<longleftrightarrow> list_all (\<lambda>a. token_of (zs_tokens args) a \<noteq> []) ?accounts"
    using newCompanyAccount_refused [OF assms(1)] by (auto simp: refused_concat list_all_iff AccountsOf_iff)
  moreover have "refused (concat (map (company_zone c (zs_tokens args) (zs_extra args) ?accounts) (sorted_entries (rg_zones c)))) = [] \<longleftrightarrow>
      list_all (\<lambda>(n, z). \<not> zn_zone_id_pending z \<and> zone_open n z) (company_zones c (zs_company args))"
  proof -
    have "refused (company_zone c (zs_tokens args) (zs_extra args) ?accounts e) = [] \<longleftrightarrow>
        (e \<in> set (company_zones c (zs_company args)) \<longrightarrow> \<not> zn_zone_id_pending (snd e) \<and> zone_open (fst e) (snd e))"
      if "e \<in> set (sorted_entries (rg_zones c))" for e
      using company_zone_refused [OF assms(1), where extra = "zs_extra args"] that unfolding assms(3) by (cases e) simp
    moreover have "set (company_zones c (zs_company args)) \<subseteq> set (sorted_entries (rg_zones c))" by (auto simp: company_zones_def)
    ultimately show ?thesis unfolding refused_concat concat_eq_Nil_conv list_all_iff by (auto simp: case_prod_beta)
  qed
  ultimately show ?thesis unfolding run_accepts
    by (simp add: Zones_Deploy_def assms(2) Let_def fail_if_def)
qed

theorem Zones_Deploy_accepts_witness:
  "fst (run_actions accept_all (Zones_Deploy sample_zonestack) []) = None"
proof -
  have valid: "validateRegistry sample_company = None" by code_simp
  have args: "zs_config sample_zonestack = Some sample_company" "zs_extra sample_zonestack = (\<lambda>_. [])" by (simp_all add: sample_zonestack_def)
  have "AccountsOf sample_company (zs_company sample_zonestack) \<noteq> []" by code_simp
  moreover have "list_all (\<lambda>a. token_of (zs_tokens sample_zonestack) a \<noteq> []) (AccountsOf sample_company (zs_company sample_zonestack))" by code_simp
  moreover have "list_all (\<lambda>(n, z). \<not> zn_zone_id_pending z \<and> zone_open n z) (company_zones sample_company (zs_company sample_zonestack))" by code_simp
  ultimately show ?thesis using Zones_Deploy_accepts [OF valid args] by blast
qed

end
