(* ===== verification/Edge_Deploy.thy ===== *)
theory Edge_Deploy imports Edge_Derive Tunnel_Args Zone_New Account_Tokens begin

text \<open>
  \<open>cloudflare/edge/edge.go\<close>: the edge stack, the
  providers of its accounts, its zones and its tunnels, as one list of actions. The resource
  options a caller adds (aliases) and the logger have no part in it; \<open>options_ok\<close> says for which
  tunnels the SDK can read the provider from them. The maps from names are filled in the order of
  the lists, a later entry replacing an earlier one. \<open>sort.Slice\<close> leaves the order of equal
  names open; here they keep the order of the list.
\<close>

text \<open>The resources of a stack, each with its name.\<close>

datatype edge_resource =
    EProvider account_provider
  | EZoneChild zone_resource
  | ESecret nat
  | ETunnelChild tunnel_resource
  | ESink

type_synonym edge_child = "string \<times> edge_resource"

section \<open>The stack\<close>

record cf_account =
  ac_name :: string
  ac_account_id :: string
  ac_token :: string

record edge_zone =
  ez_name :: string
  ez_account :: string
  ez_args :: zone_args

record edge_args =
  ed_accounts :: "cf_account list"
  ed_zones :: "edge_zone list"
  ed_tunnels :: "tunnel list"
  ed_service :: string
  ed_namespace :: string
  ed_ca_pool_path :: string
  ed_sink :: bool

datatype tunnel_deploy_error =
    EDNoSink
  | EDZoneNotListed string
  | EDZoneUndeclared string
  | EDZoneForeign string string
  | EDHostOutside string
  | EDTunnelArgs tunnel_error

datatype deploy_error =
    EDepNoSink
  | EDepNoToken string
  | EDepAccount string account_error
  | EDepZoneAccount string string
  | EDepZone string zone_new_error
  | EDepTunnelAccount string string
  | EDepTunnel string tunnel_deploy_error

definition DefaultCAPoolPath :: string where
  "DefaultCAPoolPath = ''/etc/cloudflared/certs/ca.pem''"

definition DefaultOriginPort :: string where
  "DefaultOriginPort = ''443''"

definition tunnelZones :: "tunnel \<Rightarrow> string list" where
  "tunnelZones t = (if tun_zones t \<noteq> [] then tun_zones t else [tun_zone t])"

definition tunnelArgs :: "edge_args \<Rightarrow> string \<Rightarrow> tunnel_dns option \<Rightarrow> tunnel \<Rightarrow> tunnel_args" where
  "tunnelArgs args accountID dns t =
     (let dnsDomain = (if tun_dns_domain t = [] then ''cluster.'' @ tun_cluster t else tun_dns_domain t);
          caPool = (if ed_ca_pool_path args = [] then DefaultCAPoolPath else ed_ca_pool_path args);
          origin = ''https://'' @ ed_service args @ ''.'' @ ed_namespace args @ ''.svc.'' @ dnsDomain @ '':'' @ DefaultOriginPort in
      \<lparr>ta_account_id = accountID, ta_name = tun_name t,
       ta_ingress = map (\<lambda>host. \<lparr>in_hostname = host, in_service = origin, in_origin_server_name = host,
          in_ca_pool = caPool, in_no_tls_verify = False\<rparr>) (tun_hosts t),
       ta_dns = (case dns of None \<Rightarrow> None | Some d \<Rightarrow> if td_names d = [] then None else Some d),
       ta_certificates = None\<rparr>)"

definition TunnelArgs :: "edge_args \<Rightarrow> string \<Rightarrow> string \<Rightarrow> tunnel \<Rightarrow> tunnel_args" where
  "TunnelArgs args accountID zoneID t =
     tunnelArgs args accountID (Some \<lparr>td_zone_id = zoneID, td_names = DNSNames t, td_zones = []\<rparr>) t"

text \<open>The loop that collects the zones of the DNS block.\<close>

definition zone_entry :: "string gomap \<Rightarrow> string \<Rightarrow> tunnel_deploy_error + dns_zone" where
  "zone_entry zoneIDs name = (case mget zoneIDs name of
      None \<Rightarrow> Inl (EDZoneUndeclared name)
    | Some zoneID \<Rightarrow> Inr \<lparr>dz_zone_id = zoneID, dz_name = name\<rparr>)"

definition TunnelArgsInZones :: "edge_args \<Rightarrow> string \<Rightarrow> string gomap \<Rightarrow> tunnel \<Rightarrow> tunnel_deploy_error + tunnel_args" where
  "TunnelArgsInZones args accountID zoneIDs t =
     (let zones = tunnelZones t in
      if length zones = 1 then
        (case mget zoneIDs (zones ! 0) of
           None \<Rightarrow> Inl (EDZoneUndeclared (zones ! 0))
         | Some zoneID \<Rightarrow> Inr (TunnelArgs args accountID zoneID t))
      else sum_bind (collect (zone_entry zoneIDs) zones) (\<lambda>dz.
        Inr (tunnelArgs args accountID (Some \<lparr>td_zone_id = [], td_names = DNSNames t, td_zones = dz\<rparr>) t)))"

definition checkTunnelZones :: "tunnel \<Rightarrow> string gomap \<Rightarrow> tunnel_deploy_error option" where
  "checkTunnelZones t zoneAccounts = first_of [
     fail_if (tun_zones t \<noteq> [] \<and> tun_zone t \<noteq> [] \<and> tun_zone t \<notin> set (tun_zones t)) (EDZoneNotListed (tun_zone t)),
     first_err (\<lambda>name. case mget zoneAccounts name of
         None \<Rightarrow> Some (EDZoneUndeclared name)
       | Some owner \<Rightarrow> fail_if (owner \<noteq> tun_account t) (EDZoneForeign name owner)) (tunnelZones t),
     first_err (\<lambda>host. fail_if (ZoneOf (tunnelZones t) host = []) (EDHostOutside host)) (tun_hosts t)]"

definition tunnel_child :: "named_resource \<Rightarrow> edge_child" where
  "tunnel_child = (\<lambda>(name, r). (name, ETunnelChild r))"

definition deployTunnel :: "(tunnel \<Rightarrow> bool) \<Rightarrow> edge_args \<Rightarrow> string \<Rightarrow> string gomap \<Rightarrow> tunnel \<Rightarrow>
    (tunnel_deploy_error, edge_child) action list" where
  "deployTunnel options_ok args accountID zoneIDs t =
     (case TunnelArgsInZones args accountID zoneIDs t of
        Inl e \<Rightarrow> [Refuse e]
      | Inr tunArgs \<Rightarrow>
          [Register (''tunnel-secret-'' @ tun_name t, ESecret 32)] @
          map (map_action EDTunnelArgs tunnel_child) (tunnel_actions (options_ok t) (tun_name t) tunArgs True) @
          [Register (tun_name t, ESink)])"

definition DeployTunnel :: "(tunnel \<Rightarrow> bool) \<Rightarrow> edge_args \<Rightarrow> string \<Rightarrow> string gomap \<Rightarrow> string gomap \<Rightarrow> tunnel \<Rightarrow>
    (tunnel_deploy_error, edge_child) action list" where
  "DeployTunnel options_ok args accountID zoneIDs zoneAccounts t =
     refuse (fail_if (\<not> ed_sink args) EDNoSink) @
     refuse (checkTunnelZones t zoneAccounts) @
     deployTunnel options_ok args accountID zoneIDs t"

definition newAccount :: "cf_account \<Rightarrow> (deploy_error, edge_child) action list" where
  "newAccount a =
     refuse (fail_if (ac_token a = []) (EDepNoToken (ac_name a))) @
     map (map_action (EDepAccount (ac_name a)) (\<lambda>(name, p). (name, EProvider p)))
       (account_actions (ac_name a) \<lparr>aa_account_id = ac_account_id a, aa_base_url = []\<rparr> (ac_token a))"

definition sortedAccounts :: "cf_account list \<Rightarrow> cf_account list" where
  "sortedAccounts accounts = sort_key ac_name accounts"

definition sortedZones :: "edge_zone list \<Rightarrow> edge_zone list" where
  "sortedZones zones = sort_key ez_name zones"

definition account_ids :: "cf_account list \<Rightarrow> string gomap" where
  "account_ids accounts = fold (\<lambda>a. mput (ac_name a) (ac_account_id a)) accounts []"

definition zone_ids :: "edge_zone list \<Rightarrow> string gomap" where
  "zone_ids zones = fold (\<lambda>z. mput (ez_name z) (za_zone_id (ez_args z))) (sortedZones zones) []"

definition zone_accounts :: "edge_zone list \<Rightarrow> string gomap" where
  "zone_accounts zones = fold (\<lambda>z. mput (ez_name z) (ez_account z)) (sortedZones zones) []"

definition zone_child :: "string \<times> zone_resource \<Rightarrow> edge_child" where
  "zone_child = (\<lambda>(name, r). (name, EZoneChild r))"

definition deploy_zone :: "string gomap \<Rightarrow> edge_zone \<Rightarrow> (deploy_error, edge_child) action list" where
  "deploy_zone accounts z =
     refuse (fail_if (\<not> has_key accounts (ez_account z)) (EDepZoneAccount (ez_name z) (ez_account z))) @
     map (map_action (EDepZone (ez_name z)) zone_child) (zone_actions (Slug (ez_name z)) (ez_args z))"

definition deploy_tunnel :: "(tunnel \<Rightarrow> bool) \<Rightarrow> edge_args \<Rightarrow> tunnel \<Rightarrow> (deploy_error, edge_child) action list" where
  "deploy_tunnel options_ok args t =
     (case mget (account_ids (ed_accounts args)) (tun_account t) of
        None \<Rightarrow> [Refuse (EDepTunnelAccount (tun_name t) (tun_account t))]
      | Some accountID \<Rightarrow> map (map_action (EDepTunnel (tun_name t)) (\<lambda>r. r))
          (DeployTunnel options_ok args accountID (zone_ids (ed_zones args)) (zone_accounts (ed_zones args)) t))"

definition Deploy :: "(tunnel \<Rightarrow> bool) \<Rightarrow> edge_args \<Rightarrow> (deploy_error, edge_child) action list" where
  "Deploy options_ok args =
     refuse (fail_if (\<not> ed_sink args) EDepNoSink) @
     concat (map newAccount (sortedAccounts (ed_accounts args))) @
     concat (map (deploy_zone (account_ids (ed_accounts args))) (sortedZones (ed_zones args))) @
     concat (map (deploy_tunnel options_ok args) (ed_tunnels args))"

section \<open>Lower-cased patterns\<close>

lemma to_lower_suffix: "has_suffix s t \<Longrightarrow> has_suffix (to_lower s) (to_lower t)"
  by (auto simp: has_suffix_iff)

lemma to_lower_wildcard: "to_lower (''*.'' @ s) = ''*.'' @ to_lower s"
  by (simp add: to_lower_def lower_char_def is_upper_letter_def in_range_def char_code_def)

lemma to_lower_dot: "to_lower (''.'' @ s) = ''.'' @ to_lower s"
  by (simp add: to_lower_def lower_char_def is_upper_letter_def in_range_def char_code_def)

lemma to_lower_trim: "trim_prefix (to_lower c) ''*.'' = to_lower (trim_prefix c ''*.'')"
proof (cases "isWildcard c")
  case True
  then obtain s where "c = ''*.'' @ s" by (auto simp: isWildcard_iff)
  then show ?thesis using to_lower_wildcard [of s] by (simp add: trim_prefix_def)
qed (simp add: trim_exact)

lemma Covers_to_lower: "Covers p c \<Longrightarrow> Covers (to_lower p) (to_lower c)"
  unfolding Covers_iff to_lower_trim using to_lower_wildcard to_lower_dot to_lower_suffix to_lower_star by metis

lemma no_shadow_sorted: "no_shadow hosts \<Longrightarrow> sorted_wrt (\<lambda>p c. \<not> Covers p c) hosts"
  unfolding no_shadow_def sorted_wrt_iff_nth_less using Covers_to_lower by blast

section \<open>The arguments of one tunnel\<close>

lemma first_err_enumerate: "(\<And>i x. x \<in> set xs \<Longrightarrow> f (i, x) = None) \<Longrightarrow> first_err f (enumerate n xs) = None"
  by (induction xs arbitrary: n) simp_all

lemma tunnelArgs_valid:
  assumes "accountID \<noteq> []" and "tun_name t \<noteq> []" and "tun_hosts t \<noteq> []" and "[] \<notin> set (tun_hosts t)" and "no_shadow (tun_hosts t)"
    and "td_names d \<noteq> [] \<Longrightarrow> DNS_validate d = None"
  shows "Tunnel_Validate (tunnelArgs args accountID (Some d) t) = None"
proof -
  let ?a = "tunnelArgs args accountID (Some d) t"
  have service: "in_service r \<noteq> [] \<and> in_hostname r \<in> set (tun_hosts t)" if "r \<in> set (ta_ingress ?a)" for r
    using that by (auto simp: tunnelArgs_def Let_def)
  have "first_err (\<lambda>(i, r). fail_if (in_hostname r = [] \<or> in_service r = []) (ETIngressFields i)) (enumerate 0 (ta_ingress ?a)) = None"
    using assms(4) by (intro first_err_enumerate) (auto dest: service)
  moreover have "validateIngressOrder (ta_ingress ?a) = None"
    unfolding validateIngressOrder_None using no_shadow_sorted [OF assms(5)] by (simp add: tunnelArgs_def Let_def sorted_wrt_map)
  moreover have "(case ta_dns ?a of None \<Rightarrow> None | Some d \<Rightarrow> DNS_validate d) = None"
    using assms(6) by (simp add: tunnelArgs_def Let_def)
  moreover have "ta_account_id ?a \<noteq> []" "ta_name ?a \<noteq> []" "ta_ingress ?a \<noteq> []" "ta_certificates ?a = None"
    using assms(1-3) by (simp_all add: tunnelArgs_def Let_def)
  ultimately show ?thesis unfolding Tunnel_Validate_def by simp
qed

lemma DNSNames_sub: "set (DNSNames t) \<subseteq> set (tun_hosts t)" "distinct (map to_lower (tun_hosts t)) \<Longrightarrow> distinct (map to_lower (DNSNames t))"
  by (auto simp: DNSNames_def distinct_map_filter)

text \<open>A block of one zone needs its id; one of several zones needs lower-case names, ids that
  differ, and every name in a zone.\<close>

lemma DNS_validate_one:
  assumes "zid \<noteq> []" and "ns \<noteq> []" and "distinct (map to_lower ns)"
  shows "DNS_validate \<lparr>td_zone_id = zid, td_names = ns, td_zones = []\<rparr> = None"
  using assms by (simp add: DNS_validate_def names_loop_None ZoneIDOf_def)

lemma DNS_validate_several:
  assumes "zs \<noteq> []" and "ns \<noteq> []" and "distinct (map to_lower ns)" and "\<And>z. z \<in> set zs \<Longrightarrow> dz_zone_id z \<noteq> [] \<and> dz_name z \<noteq> [] \<and> to_lower (dz_name z) = dz_name z"
    and "distinct (map dz_name zs)" and "distinct (map dz_zone_id zs)" and "\<And>n. n \<in> set ns \<Longrightarrow> ZoneOf (map dz_name zs) n \<noteq> []"
  shows "DNS_validate \<lparr>td_zone_id = [], td_names = ns, td_zones = zs\<rparr> = None"
proof -
  have names: "map (\<lambda>z. to_lower (dz_name z)) zs = map dz_name zs" using assms(4) by simp
  have "dns_zones_loop 0 [] [] zs = None" unfolding zones_loop_None names using assms(4-6) by (simp add: list_all_iff)
  moreover have "ZoneIDOf \<lparr>td_zone_id = [], td_names = ns, td_zones = zs\<rparr> n \<noteq> None" if "n \<in> set ns" for n
    using assms(7) [OF that] unfolding ZoneIDOf_def Let_def by (simp add: names)
  ultimately show ?thesis unfolding DNS_validate_def using assms(1-3) by (simp add: names_loop_None)
qed

text \<open>A tunnel whose zones are known to the maps, each with its account, an id of its own and a lower-case
  name, and whose hosts lie in them, is deployed.\<close>

definition placed :: "string gomap \<Rightarrow> string gomap \<Rightarrow> tunnel \<Rightarrow> bool" where
  "placed zoneIDs zoneAccounts t \<longleftrightarrow>
     tun_name t \<noteq> [] \<and> tun_hosts t \<noteq> [] \<and> [] \<notin> set (tun_hosts t) \<and> distinct (map to_lower (tun_hosts t)) \<and> no_shadow (tun_hosts t) \<and>
     (tun_zones t \<noteq> [] \<longrightarrow> tun_zone t \<in> set (tun_zones t)) \<and> distinct (tunnelZones t) \<and>
     (\<forall>h\<in>set (tun_hosts t). ZoneOf (tunnelZones t) h \<noteq> []) \<and>
     (\<forall>n\<in>set (tunnelZones t). mget zoneAccounts n = Some (tun_account t) \<and> n \<noteq> [] \<and> to_lower n = n \<and> (\<exists>i. mget zoneIDs n = Some i \<and> i \<noteq> [])) \<and>
     inj_on (mget zoneIDs) (set (tunnelZones t))"

lemma placed_check_zones:
  assumes "placed zoneIDs zoneAccounts t"
  shows "checkTunnelZones t zoneAccounts = None"
proof -
  have "\<forall>name\<in>set (tunnelZones t). mget zoneAccounts name = Some (tun_account t)" "\<forall>h\<in>set (tun_hosts t). ZoneOf (tunnelZones t) h \<noteq> []"
    "tun_zones t \<noteq> [] \<longrightarrow> tun_zone t \<in> set (tun_zones t)" using assms unfolding placed_def by blast+
  then show ?thesis by (auto simp: checkTunnelZones_def first_err_None fail_if_def split: if_splits)
qed

lemma placed_tunnel_args:
  assumes "placed zoneIDs zoneAccounts t" and "accountID \<noteq> []"
  shows "\<exists>a. TunnelArgsInZones args accountID zoneIDs t = Inr a \<and> Tunnel_Validate a = None"
proof -
  from assms(1) have t: "tun_name t \<noteq> []" "tun_hosts t \<noteq> []" "[] \<notin> set (tun_hosts t)" "distinct (map to_lower (tun_hosts t))" "no_shadow (tun_hosts t)"
    and dist: "distinct (tunnelZones t)" and inside: "\<And>h. h \<in> set (tun_hosts t) \<Longrightarrow> ZoneOf (tunnelZones t) h \<noteq> []"
    and inj: "inj_on (mget zoneIDs) (set (tunnelZones t))"
    and zone: "\<And>n. n \<in> set (tunnelZones t) \<Longrightarrow> n \<noteq> [] \<and> to_lower n = n \<and> (\<exists>i. mget zoneIDs n = Some i \<and> i \<noteq> [])"
    unfolding placed_def by blast+
  let ?id = "\<lambda>n. the (mget zoneIDs n)"
  have ids: "mget zoneIDs n = Some (?id n)" "?id n \<noteq> []" if "n \<in> set (tunnelZones t)" for n using zone [OF that] by auto
  have some: "tunnelZones t \<noteq> []" by (simp add: tunnelZones_def)
  note names = DNSNames_sub(2) [OF t(4)]
  have valid: "Tunnel_Validate (tunnelArgs args accountID (Some dns) t) = None" if "td_names dns \<noteq> [] \<Longrightarrow> DNS_validate dns = None" for dns
    using tunnelArgs_valid [OF assms(2) t(1-3,5) that] by blast
  show ?thesis
  proof (cases "length (tunnelZones t) = 1")
    case True
    then have first: "tunnelZones t ! 0 \<in> set (tunnelZones t)" by (intro nth_mem) simp
    have "TunnelArgsInZones args accountID zoneIDs t = Inr (TunnelArgs args accountID (?id (tunnelZones t ! 0)) t)"
      using True ids(1) [OF first] unfolding TunnelArgsInZones_def Let_def by (cases "mget zoneIDs (tunnelZones t ! 0)") simp_all
    moreover have "Tunnel_Validate (TunnelArgs args accountID (?id (tunnelZones t ! 0)) t) = None"
      unfolding TunnelArgs_def using DNS_validate_one [OF ids(2) [OF first] _ names] by (intro valid) simp
    ultimately show ?thesis by blast
  next
    case False
    let ?entry = "\<lambda>name. \<lparr>dz_zone_id = ?id name, dz_name = name\<rparr>"
    let ?dns = "\<lparr>td_zone_id = [], td_names = DNSNames t, td_zones = map ?entry (tunnelZones t)\<rparr>"
    have "collect (zone_entry zoneIDs) (tunnelZones t) = Inr (map ?entry (tunnelZones t))"
    proof (rule collect_total)
      fix name assume "name \<in> set (tunnelZones t)"
      from ids(1) [OF this] show "zone_entry zoneIDs name = Inr (?entry name)" unfolding zone_entry_def by (cases "mget zoneIDs name") simp_all
    qed
    then have "TunnelArgsInZones args accountID zoneIDs t = Inr (tunnelArgs args accountID (Some ?dns) t)"
      using False by (simp add: TunnelArgsInZones_def Let_def)
    moreover have "DNS_validate ?dns = None" if "DNSNames t \<noteq> []"
    proof (rule DNS_validate_several [OF _ that names])
      have "inj_on ?id (set (tunnelZones t))" using inj ids(1) by (intro inj_onI) (metis inj_onD)
      then show "distinct (map dz_zone_id (map ?entry (tunnelZones t)))" using dist by (simp add: distinct_map comp_def inj_on_def)
      show "ZoneOf (map dz_name (map ?entry (tunnelZones t))) n \<noteq> []" if "n \<in> set (DNSNames t)" for n
        using inside DNSNames_sub(1) that by (auto simp: comp_def)
    qed (use some ids(2) zone dist in \<open>auto simp: comp_def\<close>)
    then have "Tunnel_Validate (tunnelArgs args accountID (Some ?dns) t) = None" by (intro valid) simp
    ultimately show ?thesis by blast
  qed
qed

lemma placed_tunnel_deployed:
  assumes "placed zoneIDs zoneAccounts t" and "accountID \<noteq> []" and "ed_sink args"
  shows "refused (DeployTunnel (\<lambda>t. True) args accountID zoneIDs zoneAccounts t) = []"
proof -
  from placed_tunnel_args [OF assms(1,2)] obtain a where a: "TunnelArgsInZones args accountID zoneIDs t = Inr a" "Tunnel_Validate a = None" by blast
  with placed_check_zones [OF assms(1)] tunnel_actions_accepted [OF a(2)] assms(3) show ?thesis
    by (simp add: DeployTunnel_def deployTunnel_def refused_map_action fail_if_def del: map_map)
qed

section \<open>The maps of the stack\<close>

lemma mget_put_distinct:
  assumes "distinct (map k xs)" and "x \<in> set xs"
  shows "mget (fold (\<lambda>x. mput (k x) (v x)) xs m) (k x) = Some (v x)"
proof -
  have other: "q \<notin> k ` set xs \<Longrightarrow> mget (fold (\<lambda>x. mput (k x) (v x)) xs m) q = mget m q" for q xs and m :: "'b gomap"
    by (induction xs arbitrary: m) auto
  show ?thesis using assms by (induction xs arbitrary: m) (auto simp: other)
qed

lemma mget_fold_in:
  "mget (fold (\<lambda>x. mput (k x) (v x)) xs m) q = Some y \<Longrightarrow> (\<exists>x\<in>set xs. v x = y) \<or> mget m q = Some y"
  by (induction xs arbitrary: m) (fastforce split: if_splits)+

lemma has_key_fold: "has_key (fold (\<lambda>x. mput (k x) (v x)) xs m) q \<longleftrightarrow> q \<in> k ` set xs \<or> has_key m q"
  by (induction xs arbitrary: m) auto

section \<open>A stack for what was derived\<close>

text \<open>The stack declares the zones and accounts the routing was derived from: each zone once, under
  a lower-case name, with an id of its own and settings that are accepted; each account with its id
  and its token.\<close>

definition stack_zone :: "edge_args \<Rightarrow> edge_zone \<Rightarrow> bool" where
  "stack_zone args z \<longleftrightarrow> ez_account z \<in> ac_name ` set (ed_accounts args) \<and> ez_name z \<noteq> [] \<and> to_lower (ez_name z) = ez_name z \<and>
     Args_Validate (ez_args z) = None \<and> zone_accepted (ez_args z)"

definition stack_for :: "edge_input \<Rightarrow> edge_args \<Rightarrow> bool" where
  "stack_for i args \<longleftrightarrow> ed_sink args \<and>
     list_all (\<lambda>a. ac_token a \<noteq> [] \<and> ac_account_id a \<noteq> []) (ed_accounts args) \<and>
     list_all (stack_zone args) (ed_zones args) \<and>
     distinct (map ez_name (ed_zones args)) \<and> distinct (map (\<lambda>z. za_zone_id (ez_args z)) (ed_zones args)) \<and>
     list_all (\<lambda>(zone, account). list_ex (\<lambda>z. ez_name z = zone \<and> ez_account z = account) (ed_zones args)) (ei_zones i)"

lemma stack_maps:
  assumes "stack_for i args" and "z \<in> set (ed_zones args)"
  shows "mget (zone_ids (ed_zones args)) (ez_name z) = Some (za_zone_id (ez_args z))"
    and "mget (zone_accounts (ed_zones args)) (ez_name z) = Some (ez_account z)"
proof -
  from assms(1) have "distinct (map ez_name (ed_zones args))" by (simp add: stack_for_def)
  then have sorted: "distinct (map ez_name (sortedZones (ed_zones args)))" "z \<in> set (sortedZones (ed_zones args))"
    using assms(2) by (simp_all add: sortedZones_def distinct_map)
  from mget_put_distinct [OF sorted] show "mget (zone_ids (ed_zones args)) (ez_name z) = Some (za_zone_id (ez_args z))"
    "mget (zone_accounts (ed_zones args)) (ez_name z) = Some (ez_account z)"
    by (simp_all add: zone_ids_def zone_accounts_def)
qed

lemma stack_accounts:
  assumes "stack_for i args"
  shows "has_key (account_ids (ed_accounts args)) n \<longleftrightarrow> n \<in> ac_name ` set (ed_accounts args)"
    and "mget (account_ids (ed_accounts args)) n = Some accountID \<Longrightarrow> accountID \<noteq> []"
proof -
  show "has_key (account_ids (ed_accounts args)) n \<longleftrightarrow> n \<in> ac_name ` set (ed_accounts args)"
    unfolding account_ids_def has_key_fold by (simp add: has_key_def)
  assume "mget (account_ids (ed_accounts args)) n = Some accountID"
  then have "accountID \<in> ac_account_id ` set (ed_accounts args)"
    unfolding account_ids_def using mget_fold_in by fastforce
  with assms show "accountID \<noteq> []" by (auto simp: stack_for_def list_all_iff)
qed

lemma Args_Validate_id: "Args_Validate a = None \<Longrightarrow> za_zone_id a \<noteq> []"
  unfolding Args_Validate_def first_of_None by (simp add: fail_if_def split: if_splits)

text \<open>A zone a derived tunnel serves is a zone of the stack, of the tunnel's account.\<close>

lemma tunnel_zone_declared:
  assumes "Derive i = Inr d" and "stack_for i args" and "t \<in> set (de_tunnels d)" and "name \<in> set (tun_zones t)"
  shows "\<exists>z\<in>set (ed_zones args). ez_name z = name \<and> ez_account z = tun_account t \<and> stack_zone args z"
proof -
  have "mget (ei_zones i) name = Some (tun_account t)" using derived_tunnel_facts(1) [OF assms(1,3)] assms(4) by blast
  then have "(name, tun_account t) \<in> set (ei_zones i)" by (simp add: mget_def map_of_SomeD)
  then have "list_ex (\<lambda>z. ez_name z = name \<and> ez_account z = tun_account t) (ed_zones args)"
    using assms(2) by (auto simp: stack_for_def list_all_iff)
  then show ?thesis using assms(2) by (auto simp: stack_for_def list_all_iff list_ex_iff)
qed

lemma derived_host_zone:
  assumes "Derive i = Inr d" and "t \<in> set (de_tunnels d)" and "host \<in> set (tun_hosts t)"
  shows "ZoneOf (tun_zones t) host \<noteq> []" and "host \<noteq> []"
proof -
  let ?z = "sorted_keys (ei_zones i)"
  have member: "ZoneOf ?z host \<in> set (tun_zones t)" using derived_tunnel_facts(1) [OF assms(1,2)] assms(3) by blast
  with derived_tunnel_facts(2) [OF assms(1,2)] have some: "ZoneOf ?z host \<noteq> []" by metis
  have inside: "ZoneOf ?z host \<in> set ?z" "in_zone (zone_name host) (ZoneOf ?z host)"
    using zone_of.find_sound [OF some] by (rule conjunct1, rule conjunct2)
  show "ZoneOf (tun_zones t) host \<noteq> []"
  proof
    assume "ZoneOf (tun_zones t) host = []"
    then have "\<forall>z\<in>set (tun_zones t). in_zone (zone_name host) z \<longrightarrow> z = []" by (simp only: zone_of.find_none)
    with member inside(2) some show False by metis
  qed
  have "zone_name [] = []" by (simp add: zone_name_def trim_prefix_def has_prefix_def to_lower_def)
  with some have "\<not> in_zone (zone_name []) (ZoneOf ?z host)" by (simp add: in_zone_def has_suffix_iff)
  with inside(2) show "host \<noteq> []" by metis
qed

abbreviation zone_id_of :: "edge_args \<Rightarrow> string \<Rightarrow> string" where
  "zone_id_of args name \<equiv> the (mget (zone_ids (ed_zones args)) name)"

lemma tunnel_zone_id:
  assumes "Derive i = Inr d" and "stack_for i args" and "t \<in> set (de_tunnels d)" and "name \<in> set (tun_zones t)"
  shows "mget (zone_ids (ed_zones args)) name = Some (zone_id_of args name)" and "zone_id_of args name \<noteq> []"
    and "name \<noteq> []" and "to_lower name = name"
    and "name' \<in> set (tun_zones t) \<Longrightarrow> zone_id_of args name' = zone_id_of args name \<Longrightarrow> name' = name"
proof -
  from tunnel_zone_declared [OF assms] obtain z where z: "z \<in> set (ed_zones args)" "ez_name z = name" "stack_zone args z" by blast
  note maps = stack_maps(1) [OF assms(2) z(1), unfolded z(2)]
  then show "mget (zone_ids (ed_zones args)) name = Some (zone_id_of args name)" by simp
  have "Args_Validate (ez_args z) = None" using z(3) by (simp add: stack_zone_def)
  then show "zone_id_of args name \<noteq> []" using maps Args_Validate_id by simp
  show "name \<noteq> []" "to_lower name = name" using z(2,3) by (auto simp: stack_zone_def)
  assume "name' \<in> set (tun_zones t)" and same: "zone_id_of args name' = zone_id_of args name"
  with tunnel_zone_declared [OF assms(1-3)] obtain z' where z': "z' \<in> set (ed_zones args)" "ez_name z' = name'" by blast
  have "za_zone_id (ez_args z') = za_zone_id (ez_args z)"
    using same maps stack_maps(1) [OF assms(2) z'(1)] by (simp add: z'(2))
  moreover have "inj_on (\<lambda>z. za_zone_id (ez_args z)) (set (ed_zones args))"
    using assms(2) by (simp add: stack_for_def distinct_map)
  ultimately have "z' = z" using z'(1) z(1) inj_onD by metis
  with z z' show "name' = name" by simp
qed

lemma derived_tunnel_placed:
  assumes "Derive i = Inr d" and "stack_for i args" and "t \<in> set (de_tunnels d)" and "tun_name t \<noteq> []"
    and "distinct (map to_lower (tun_hosts t))" and "no_shadow (tun_hosts t)"
  shows "placed (zone_ids (ed_zones args)) (zone_accounts (ed_zones args)) t"
proof -
  note ids = tunnel_zone_id [OF assms(1-3)]
  note facts = derived_tunnel_facts [OF assms(1,3)]
  have "tun_zones t \<noteq> []" using facts(3) by force
  then have zones: "tunnelZones t = tun_zones t" by (simp add: tunnelZones_def)
  have "tun_hosts t \<noteq> []" "[] \<notin> set (tun_hosts t)" using facts(1) derived_host_zone(2) [OF assms(1,3)] by blast+
  moreover have "mget (zone_accounts (ed_zones args)) name = Some (tun_account t)" if "name \<in> set (tun_zones t)" for name
    using tunnel_zone_declared [OF assms(1-3) that] stack_maps(2) [OF assms(2)] by metis
  moreover have "inj_on (mget (zone_ids (ed_zones args))) (set (tun_zones t))"
    using ids(1,5) by (intro inj_onI) (metis option.sel)
  moreover have "\<exists>i. mget (zone_ids (ed_zones args)) n = Some i \<and> i \<noteq> []" "n \<noteq> []" "to_lower n = n" if "n \<in> set (tun_zones t)" for n
    using ids(1-4) [OF that] by blast+
  ultimately show ?thesis unfolding placed_def zones
    using assms(4-6) facts(3,4) derived_host_zone(1) [OF assms(1,3)] by blast
qed

lemma derived_tunnel_deployed:
  assumes "Derive i = Inr d" and "stack_for i args" and "t \<in> set (de_tunnels d)" and "tun_name t \<noteq> []"
    and "distinct (map to_lower (tun_hosts t))" and "no_shadow (tun_hosts t)"
  shows "refused (deploy_tunnel (\<lambda>t. True) args t) = []"
proof -
  from tunnel_zone_declared [OF assms(1-3) derived_tunnel_facts(3) [OF assms(1,3)]]
  have "tun_account t \<in> ac_name ` set (ed_accounts args)" unfolding stack_zone_def by metis
  then obtain accountID where account: "mget (account_ids (ed_accounts args)) (tun_account t) = Some accountID"
    using stack_accounts(1) [OF assms(2)] by (auto simp: has_key_def)
  have "ed_sink args" using assms(2) by (simp add: stack_for_def)
  from placed_tunnel_deployed [OF derived_tunnel_placed [OF assms] stack_accounts(2) [OF assms(2) account] this] show ?thesis
    by (simp add: deploy_tunnel_def account refused_map_action del: map_map)
qed

lemma deploy_zone_accepted:
  assumes "stack_for i args" and "z \<in> set (ed_zones args)"
  shows "refused (deploy_zone (account_ids (ed_accounts args)) z) = []"
proof -
  from assms have zone: "stack_zone args z" by (simp add: stack_for_def list_all_iff)
  then have "has_key (account_ids (ed_accounts args)) (ez_account z)" using stack_accounts(1) [OF assms(1)] by (simp add: stack_zone_def)
  moreover have valid: "Args_Validate (ez_args z) = None" using zone by (simp add: stack_zone_def)
  moreover have "refused (newRulesets n (ez_args z)) = []" for n using zone newRulesets_refused [OF valid] by (simp add: stack_zone_def)
  ultimately show ?thesis by (simp add: deploy_zone_def refused_map_action zone_actions_def fail_if_def)
qed

section \<open>Properties\<close>

text \<open>The names of tunnels do not determine cluster and account.\<close>

lemma TunnelName_collision: "TunnelName ''eu-west'' ''main'' False = TunnelName ''eu'' ''west-main'' False"
  by code_simp

definition sample_stack_zone :: "string \<Rightarrow> string \<Rightarrow> string \<Rightarrow> edge_zone" where
  "sample_stack_zone name account zid = \<lparr>ez_name = name, ez_account = account, ez_args = sample_hsts_zone\<lparr>za_zone_id := zid\<rparr>\<rparr>"

definition sample_stack :: edge_args where
  "sample_stack = \<lparr>ed_accounts = [\<lparr>ac_name = ''main'', ac_account_id = ''a1'', ac_token = ''t1''\<rparr>,
       \<lparr>ac_name = ''labs'', ac_account_id = ''a2'', ac_token = ''t2''\<rparr>],
     ed_zones = [sample_stack_zone ''example.com'' ''main'' ''z1'', sample_stack_zone ''example.org'' ''labs'' ''z2''],
     ed_tunnels = de_tunnels sample_derived, ed_service = ''gateway'', ed_namespace = ''edge'', ed_ca_pool_path = [], ed_sink = True\<rparr>"

text \<open>C2 What \<open>Derive\<close> returns can be deployed: a stack that declares the zones and accounts it was
  derived from, each zone valid, is refused at no step, so everything is registered, the sink has
  the token of every tunnel, and no tunnel fails its own validation.\<close>

theorem Derive_deploys:
  assumes "Derive i = Inr d" and "distinct (map (\<lambda>s. to_lower (site_host s)) (sites i))" and "''*'' \<notin> fst ` set (ei_zones i)"
    and "\<And>e g h. (e, g, h) \<in> set (sites i) \<Longrightarrow> eg_cluster g \<noteq> []"
    and "stack_for i args" and "ed_tunnels args = de_tunnels d"
  shows "run_actions accept_all (Deploy (\<lambda>t. True) args) [] = (None, registered (Deploy (\<lambda>t. True) args))"
proof -
  from Derive_routing_ok [OF assms(1-3)] have routing: "distinct (map to_lower (concat (map tun_hosts (de_tunnels d))))"
    "\<And>t. t \<in> set (de_tunnels d) \<Longrightarrow> no_shadow (tun_hosts t)" by (simp_all add: routing_ok_def list_all_iff)
  have "refused (deploy_tunnel (\<lambda>t. True) args t) = []" if t: "t \<in> set (ed_tunnels args)" for t
  proof (rule derived_tunnel_deployed [OF assms(1,5)])
    show mem: "t \<in> set (de_tunnels d)" using t assms(6) by simp
    show "no_shadow (tun_hosts t)" by (rule routing(2) [OF mem])
    show "distinct (map to_lower (tun_hosts t))" using routing(1) mem by (induction "de_tunnels d") (auto simp: map_concat dest: split_list)
    from derived_tunnel_facts(6) [OF assms(1) mem] obtain e g h where "(e, g, h) \<in> set (sites i)" "tun_cluster t = eg_cluster g"
      by (auto simp: site_key_def)
    then have "tun_cluster t \<noteq> []" using assms(4) by metis
    then show "tun_name t \<noteq> []" using derived_tunnel_facts(7) [OF assms(1) mem] by (auto simp: TunnelName_def suffixed_def split: if_splits)
  qed
  moreover have "refused (newAccount a) = []" if "a \<in> set (ed_accounts args)" for a
    using assms(5) that by (simp add: stack_for_def list_all_iff newAccount_def account_actions_def account_validate_def refused_map_action fail_if_def)
  moreover have "ed_sink args" using assms(5) by (simp add: stack_for_def)
  ultimately have "refused (Deploy (\<lambda>t. True) args) = []"
    using deploy_zone_accepted [OF assms(5)]
    by (simp add: Deploy_def refused_concat refused_map_action sortedAccounts_def sortedZones_def fail_if_def)
  then show ?thesis by (simp add: run_actions_None accept_all_def)
qed

theorem Derive_deploys_witness:
  "fst (run_actions accept_all (Deploy (\<lambda>t. True) sample_stack) []) = None"
proof -
  have "distinct (map (\<lambda>s. to_lower (site_host s)) (sites sample_edge))" by code_simp
  moreover have "''*'' \<notin> fst ` set (ei_zones sample_edge)" by (simp add: sample_edge_def)
  moreover have "list_all (\<lambda>(e, g, h). eg_cluster g \<noteq> []) (sites sample_edge)" by code_simp
  then have "\<And>e g h. (e, g, h) \<in> set (sites sample_edge) \<Longrightarrow> eg_cluster g \<noteq> []" by (auto simp: list_all_iff)
  moreover have "stack_for sample_edge sample_stack" by code_simp
  moreover have "ed_tunnels sample_stack = de_tunnels sample_derived" by (simp add: sample_stack_def)
  ultimately show ?thesis using Derive_deploys [OF Derive_sample] by simp
qed

end
