(* ===== verification/Stack_Services.thy ===== *)
theory Stack_Services imports Stack_Zones Edge_Deploy begin

text \<open>
  \<open>cloudflare/services/services.go\<close>: the services stack of one company, the providers of its accounts and
  its tunnels, as one list of actions. A tunnel is deployed by \<open>edge.DeployTunnel\<close>; a resource of it is
  registered with the content that \<open>originCNAMEs\<close> writes over its record's own, if it does. The resource
  options a caller adds and the logger have no part in it. The zone maps are ranged over in the order of
  the list.
\<close>

section \<open>The stack\<close>

record service_cluster =
  scl_name :: string
  scl_dns_domain :: string

record services_args =
  sv_config :: "registry option"
  sv_company :: string
  sv_clusters :: "service_cluster list"
  sv_service :: string
  sv_namespace :: string
  sv_ca_pool_path :: string
  sv_tokens :: "string gomap"
  sv_sink :: bool

datatype services_error =
    SVNoSink
  | SVNoConfig
  | SVNoAccount string
  | SVNoToken string
  | SVAccount string account_error
  | SVTunnel string tunnel_deploy_error

datatype services_resource =
    VProvider account_provider
  | VTunnel "string option" edge_resource

definition tunnelOrigins :: "registry \<Rightarrow> string list \<Rightarrow> string gomap" where
  "tunnelOrigins c hosts = fold (\<lambda>host out.
     case (case mget (rg_zones c) (Registry_ZoneOf c host) of None \<Rightarrow> None | Some z \<Rightarrow> mget (ActiveOrigins z) host) of
       None \<Rightarrow> out
     | Some origin \<Rightarrow> mput host origin out) hosts []"

definition origin_records :: "string \<Rightarrow> string gomap \<Rightarrow> string gomap" where
  "origin_records tunnelName origins =
     fold (\<lambda>(host, origin). mput (''cname-'' @ tunnelName @ ''-'' @ Slug host) origin) origins []"

definition originCNAMEs :: "string gomap \<Rightarrow> edge_child \<Rightarrow> string \<times> services_resource" where
  "originCNAMEs byRecord = (\<lambda>(name, r).
     (name, VTunnel (case r of ETunnelChild (RRecord _ _ _ _ _) \<Rightarrow> mget byRecord name | _ \<Rightarrow> None) r))"

definition newServicesAccount :: "registry \<Rightarrow> string gomap \<Rightarrow> string \<Rightarrow> (services_error, string \<times> services_resource) action list" where
  "newServicesAccount c tokens name =
     refuse (fail_if (token_of tokens name = []) (SVNoToken name)) @
     map (map_action (SVAccount name) (\<lambda>(n, p). (n, VProvider p))) (company_provider c tokens name name)"

definition services_zones :: "registry \<Rightarrow> string list \<Rightarrow> zone_cfg gomap" where
  "services_zones c accounts = filter (\<lambda>(name, z). \<not> SecurityTxtOnly z \<and> zn_account z \<in> set accounts) (rg_zones c)"

definition services_zone_ids :: "registry \<Rightarrow> string list \<Rightarrow> string gomap" where
  "services_zone_ids c accounts = map (\<lambda>(name, z). (name, zn_zone_id z)) (services_zones c accounts)"

definition services_zone_accounts :: "registry \<Rightarrow> string list \<Rightarrow> string gomap" where
  "services_zone_accounts c accounts = map (\<lambda>(name, z). (name, zn_account z)) (services_zones c accounts)"

definition cluster_domains :: "service_cluster list \<Rightarrow> string gomap" where
  "cluster_domains clusters = fold (\<lambda>k. mput (scl_name k) (scl_dns_domain k)) clusters []"

definition services_tunnel :: "string gomap \<Rightarrow> cfg_tunnel \<Rightarrow> tunnel" where
  "services_tunnel domains t =
     \<lparr>tun_name = Tunnel_Name t, tun_cluster = ct_cluster t, tun_account = ct_account t, tun_zone = cfg_tunnel.ct_zone t,
      tun_zones = ct_zones t, tun_hosts = cfg_tunnel.ct_hosts t, tun_dns_elsewhere = ct_dns_elsewhere t,
      tun_dns_domain = (case mget domains (ct_cluster t) of None \<Rightarrow> [] | Some d \<Rightarrow> d)\<rparr>"

text \<open>An origin left empty is the registry's. The sink handed to \<open>DeployTunnel\<close> is there always.\<close>

definition services_edge_args :: "services_args \<Rightarrow> registry \<Rightarrow> edge_args" where
  "services_edge_args args c =
     (let own = sv_service args \<noteq> [] \<or> sv_namespace args \<noteq> [] in
      \<lparr>ed_accounts = [], ed_zones = [], ed_tunnels = [],
       ed_service = (if own then sv_service args else rg_service c),
       ed_namespace = (if own then sv_namespace args else rg_namespace c),
       ed_ca_pool_path = sv_ca_pool_path args, ed_sink = True\<rparr>)"

definition deploy_service :: "services_args \<Rightarrow> registry \<Rightarrow> string list \<Rightarrow> cfg_tunnel \<Rightarrow> (services_error, string \<times> services_resource) action list" where
  "deploy_service args c accounts t =
     (if ct_account t \<notin> set accounts then []
      else
        let et = services_tunnel (cluster_domains (sv_clusters args)) t in
        map (map_action (SVTunnel (tun_name et)) (originCNAMEs (origin_records (tun_name et) (tunnelOrigins c (tun_hosts et)))))
          (DeployTunnel (\<lambda>_. True) (services_edge_args args c) (account_id_of c (ct_account t))
            (services_zone_ids c accounts) (services_zone_accounts c accounts) et))"

definition Services_Deploy :: "services_args \<Rightarrow> (services_error, string \<times> services_resource) action list" where
  "Services_Deploy args =
     refuse (fail_if (\<not> sv_sink args) SVNoSink) @
     (case sv_config args of
        None \<Rightarrow> [Refuse SVNoConfig]
      | Some c \<Rightarrow>
          let accounts = AccountsOf c (sv_company args) in
          refuse (fail_if (accounts = []) (SVNoAccount (sv_company args))) @
          concat (map (newServicesAccount c (sv_tokens args)) accounts) @
          concat (map (deploy_service args c accounts) (rg_tunnels c)))"

section \<open>The records of the origin switch\<close>

lemma tunnelOrigins_mget:
  "mget (tunnelOrigins c hosts) h =
     (if h \<in> set hosts then case mget (rg_zones c) (Registry_ZoneOf c h) of None \<Rightarrow> None | Some z \<Rightarrow> mget (ActiveOrigins z) h else None)"
proof -
  let ?o = "\<lambda>h. case mget (rg_zones c) (Registry_ZoneOf c h) of None \<Rightarrow> None | Some z \<Rightarrow> mget (ActiveOrigins z) h"
  have "mget (fold (\<lambda>host out. case ?o host of None \<Rightarrow> out | Some origin \<Rightarrow> mput host origin out) hosts m) h =
      (if h \<in> set hosts \<and> ?o h \<noteq> None then ?o h else mget m h)" for m
    by (induction hosts arbitrary: m) (auto split: option.splits)
  from this [of "[]"] show ?thesis unfolding tunnelOrigins_def by auto
qed

lemma wf_tunnelOrigins: "wf_map (tunnelOrigins c hosts)"
proof -
  have "wf_map (fold (\<lambda>host out. case f host of None \<Rightarrow> out | Some origin \<Rightarrow> mput host origin out) hosts m)" if "wf_map m" for f :: "string \<Rightarrow> string option" and m
    using that by (induction hosts arbitrary: m) (auto split: option.split)
  then show ?thesis unfolding tunnelOrigins_def by (simp add: wf_map_def)
qed

text \<open>The record of a host of the tunnel is found again when no two hosts have one slug.\<close>

lemma origin_records_mget:
  assumes "inj_on Slug (set hosts)" and "h \<in> set hosts" and "fst ` set origins \<subseteq> set hosts" and "distinct (map fst origins)"
  shows "mget (origin_records n origins) (''cname-'' @ n @ ''-'' @ Slug h) = mget origins h"
proof -
  let ?key = "\<lambda>h. ''cname-'' @ n @ ''-'' @ Slug h"
  have "mget (fold (\<lambda>(host, origin). mput (?key host) origin) origins m) (?key h) =
      (case map_of origins h of None \<Rightarrow> mget m (?key h) | Some v \<Rightarrow> Some v)" for m
    using assms(3,4)
  proof (induction origins arbitrary: m)
    case (Cons kv origins)
    obtain k v where kv: "kv = (k, v)" by (cases kv)
    have "k \<in> set hosts" using Cons.prems(1) by (simp add: kv)
    then have "?key k = ?key h \<longleftrightarrow> k = h" using assms(1,2) by (auto dest: inj_onD)
    moreover have "map_of origins k = None" using Cons.prems(2) by (simp add: kv map_of_eq_None_iff)
    ultimately show ?case using Cons by (auto simp: kv split: option.split)
  qed simp
  then show ?thesis unfolding origin_records_def by (simp add: mget_def split: option.split)
qed

text \<open>The records of a tunnel are those of its hosts.\<close>

lemma tunnel_records_named:
  assumes "(n, RRecord zid host ty proxied ttl) \<in> set (registered (tunnel_actions ok name a secret))"
  shows "n = ''cname-'' @ name @ ''-'' @ Slug host \<and> (\<exists>d. ta_dns a = Some d \<and> host \<in> set (td_names d))"
proof -
  have rec: "(n, RRecord zid host ty proxied ttl) \<in> set (registered (map (tunnel_record name d) hs)) \<Longrightarrow>
      n = ''cname-'' @ name @ ''-'' @ Slug host \<and> host \<in> set hs" for d hs
    by (induction hs) (auto simp: tunnel_record_def split: option.splits)
  have "(n, RRecord zid host ty proxied ttl) \<in> set (registered (tunnel_resources name a))"
    using assms by (simp add: tunnel_actions_def)
  moreover have "(n, RRecord zid host ty proxied ttl) \<notin> set (tunnel_packs name dns c)" for dns c
    by (auto simp: tunnel_packs_def Let_def)
  ultimately show ?thesis using rec by (auto simp: tunnel_resources_def tunnel_config_def split: option.splits)
qed

lemma edge_records_named:
  assumes "(n, ETunnelChild (RRecord zid host ty proxied ttl)) \<in> set (registered (DeployTunnel ok args accountID zoneIDs zoneAccounts t))"
  shows "n = ''cname-'' @ tun_name t @ ''-'' @ Slug host \<and> host \<in> set (tun_hosts t)"
proof -
  from assms obtain a where a: "TunnelArgsInZones args accountID zoneIDs t = Inr a"
    and "(n, RRecord zid host ty proxied ttl) \<in> set (registered (tunnel_actions (ok t) (tun_name t) a True))"
    by (auto simp: DeployTunnel_def deployTunnel_def registered_map_action tunnel_child_def split: sum.splits)
  from tunnel_records_named [OF this(2)] obtain d where n: "n = ''cname-'' @ tun_name t @ ''-'' @ Slug host"
    and d: "ta_dns a = Some d" "host \<in> set (td_names d)" by blast
  have "td_names d = DNSNames t" using a d(1)
    by (auto simp: TunnelArgsInZones_def TunnelArgs_def tunnelArgs_def Let_def split: if_splits option.splits sum.splits)
  with n d(2) subsetD [OF DNSNames_sub(1)] show ?thesis by metis
qed

lemma service_records:
  assumes "(n, VTunnel content (ETunnelChild (RRecord zid host ty proxied ttl))) \<in> set (registered (deploy_service args c accounts t))"
    and "inj_on Slug (set (cfg_tunnel.ct_hosts t))"
  shows "host \<in> set (cfg_tunnel.ct_hosts t) \<and>
     content = (case mget (rg_zones c) (Registry_ZoneOf c host) of None \<Rightarrow> None | Some z \<Rightarrow> mget (ActiveOrigins z) host)"
proof -
  let ?et = "services_tunnel (cluster_domains (sv_clusters args)) t"
  let ?origins = "tunnelOrigins c (tun_hosts ?et)"
  let ?records = "origin_records (tun_name ?et) ?origins"
  from assms(1) obtain r where r: "r \<in> set (registered (DeployTunnel (\<lambda>_. True) (services_edge_args args c) (account_id_of c (ct_account t))
      (services_zone_ids c accounts) (services_zone_accounts c accounts) ?et))"
    "(n, VTunnel content (ETunnelChild (RRecord zid host ty proxied ttl))) = originCNAMEs ?records r"
    unfolding deploy_service_def by (auto simp: Let_def registered_map_action split: if_splits)
  then have "r = (n, ETunnelChild (RRecord zid host ty proxied ttl))" and content: "content = mget ?records n"
    by (auto simp: originCNAMEs_def split: prod.splits)
  with edge_records_named r(1) have named: "n = ''cname-'' @ tun_name ?et @ ''-'' @ Slug host" "host \<in> set (tun_hosts ?et)" by blast+
  have hosts: "tun_hosts ?et = cfg_tunnel.ct_hosts t" by (simp add: services_tunnel_def)
  have "fst ` set ?origins \<subseteq> set (tun_hosts ?et)"
  proof
    fix h assume "h \<in> fst ` set ?origins"
    then have "mget ?origins h \<noteq> None" unfolding has_key_iff [symmetric] has_key_def .
    then show "h \<in> set (tun_hosts ?et)" unfolding tunnelOrigins_mget by (simp split: if_splits)
  qed
  moreover have "distinct (map fst ?origins)" using wf_tunnelOrigins by (simp add: wf_map_def)
  moreover have "inj_on Slug (set (tun_hosts ?et))" unfolding hosts by (rule assms(2))
  ultimately have "content = mget ?origins host"
    unfolding content named(1) by (intro origin_records_mget [OF _ named(2)])
  with named(2) show ?thesis unfolding tunnelOrigins_mget hosts by simp
qed

section \<open>A loaded tunnel is placed\<close>

lemma services_zones_mget:
  "wf_registry c \<Longrightarrow> mget (services_zones c accounts) n =
     (case mget (rg_zones c) n of None \<Rightarrow> None | Some z \<Rightarrow> if \<not> SecurityTxtOnly z \<and> zn_account z \<in> set accounts then Some z else None)"
  unfolding services_zones_def wf_registry_def by (simp add: mget_filter)

lemma services_maps_mget:
  "mget (services_zone_ids c accounts) n = map_option zn_zone_id (mget (services_zones c accounts) n)"
  "mget (services_zone_accounts c accounts) n = map_option zn_account (mget (services_zones c accounts) n)"
  unfolding services_zone_ids_def services_zone_accounts_def mget_map by simp_all

text \<open>The zones of a company's accounts have ids of their own.\<close>

definition ids_ready :: "registry \<Rightarrow> string list \<Rightarrow> bool" where
  "ids_ready c accounts \<longleftrightarrow> [] \<notin> snd ` set (services_zone_ids c accounts) \<and> distinct (map snd (services_zone_ids c accounts))"

lemma ids_ready_inj:
  assumes "ids_ready c accounts" and "mget (services_zone_ids c accounts) n = Some i" and "mget (services_zone_ids c accounts) m = Some i"
  shows "n = m" and "i \<noteq> []"
proof -
  have mem: "(n, i) \<in> set (services_zone_ids c accounts)" "(m, i) \<in> set (services_zone_ids c accounts)"
    using assms(2,3) by (auto simp: mget_def dest: map_of_SomeD)
  have "inj_on snd (set (services_zone_ids c accounts))" using assms(1) by (simp add: ids_ready_def distinct_map)
  from inj_onD [OF this _ mem] show "n = m" by simp
  show "i \<noteq> []" using assms(1) mem(1) unfolding ids_ready_def by force
qed

definition tunnel_ready :: "registry \<Rightarrow> cfg_tunnel \<Rightarrow> bool" where
  "tunnel_ready c t \<longleftrightarrow> ct_cluster t \<noteq> [] \<and> distinct (InZones t) \<and> list_all (\<lambda>n. n \<in> set (managedZoneNames c)) (InZones t)"

lemma services_tunnel_zones: "tunnelZones (services_tunnel domains t) = InZones t"
  by (simp add: tunnelZones_def services_tunnel_def InZones_def)

lemma valid_tunnel_hosts:
  assumes "Registry_Validate c = None" and "t \<in> set (rg_tunnels c)"
  shows "cfg_tunnel.ct_hosts t \<noteq> []" and "[] \<notin> set (cfg_tunnel.ct_hosts t)" and "cfg_tunnel.ct_zone t \<in> set (InZones t)"
    and "distinct (map to_lower (cfg_tunnel.ct_hosts t))" and "no_shadow (cfg_tunnel.ct_hosts t)"
    and "\<And>h. h \<in> set (cfg_tunnel.ct_hosts t) \<Longrightarrow> ZoneOf (InZones t) h \<noteq> []"
proof -
  note valid = Registry_Validate_tunnel [OF assms]
  have reg: "validateRegistry c = None" "validateDomainRouting c = None" using assms(1) unfolding Registry_Validate_def first_of_None by blast+
  show "cfg_tunnel.ct_hosts t \<noteq> []" "cfg_tunnel.ct_zone t \<in> set (InZones t)"
    using valid unfolding validate_cfg_tunnel_def by (simp_all split: option.splits)
  have host: "h \<noteq> [] \<and> Registry_ZoneOf c h \<in> set (InZones t)" if "h \<in> set (cfg_tunnel.ct_hosts t)" for h
  proof -
    from that obtain i where i: "i < length (cfg_tunnel.ct_hosts t)" "h = cfg_tunnel.ct_hosts t ! i" by (metis in_set_conv_nth)
    from valid_tunnel_host [OF valid i(1)] i(2) show ?thesis by (auto simp: validate_cfg_host_def trim_space_def trim_chars_Nil)
  qed
  then show "[] \<notin> set (cfg_tunnel.ct_hosts t)" by blast
  have routing: "routing_ok (map (\<lambda>t. (edge_tunnel t)\<lparr>tun_dns_elsewhere := []\<rparr>) (rg_tunnels c))"
    using reg(2) unfolding validateDomainRouting_def by (simp add: routing_check.check_None)
  then show "no_shadow (cfg_tunnel.ct_hosts t)" using assms(2) by (auto simp: routing_ok_def list_all_iff edge_tunnel_def)
  have "distinct (map to_lower (concat (map cfg_tunnel.ct_hosts (rg_tunnels c))))"
    using routing by (simp add: routing_ok_def edge_tunnel_def comp_def)
  then show "distinct (map to_lower (cfg_tunnel.ct_hosts t))" using assms(2) by (auto simp: map_concat dest!: split_list)
  fix h assume "h \<in> set (cfg_tunnel.ct_hosts t)"
  with host have z: "Registry_ZoneOf c h \<in> set (InZones t)" by blast
  from valid_tunnel_zone [OF valid z] obtain v where "mget (rg_zones c) (Registry_ZoneOf c h) = Some v" by blast
  with zone_not_empty [OF reg(1)] have some: "Registry_ZoneOf c h \<noteq> []" by metis
  then have "in_zone (zone_name h) (Registry_ZoneOf c h)" unfolding Registry_ZoneOf_def using zone_of.find_sound by blast
  with z some show "ZoneOf (InZones t) h \<noteq> []" by (metis zone_of.find_none)
qed

lemma services_tunnel_placed:
  assumes "Registry_Validate c = None" and "wf_registry c" and "t \<in> set (rg_tunnels c)" and "ct_account t \<in> set accounts"
    and "tunnel_ready c t" and "ids_ready c accounts"
  shows "placed (services_zone_ids c accounts) (services_zone_accounts c accounts) (services_tunnel domains t)"
proof -
  have reg: "validateRegistry c = None" using assms(1) unfolding Registry_Validate_def first_of_None by blast
  have zone: "\<exists>z. mget (services_zones c accounts) n = Some z \<and> zn_account z = ct_account t \<and> n \<noteq> [] \<and> to_lower n = n" if "n \<in> set (InZones t)" for n
  proof -
    from valid_tunnel_zone [OF Registry_Validate_tunnel [OF assms(1,3)] that] obtain z where
      z: "mget (rg_zones c) n = Some z" "zn_account z = ct_account t" by blast
    have "n \<in> set (managedZoneNames c)" using assms(5) that by (simp add: tunnel_ready_def list_all_iff)
    with z have "mget (services_zones c accounts) n = Some z"
      unfolding services_zones_mget [OF assms(2)] managed_zone_iff using assms(4) by auto
    with z registry_zone_name(1) [OF reg z(1)] zone_not_empty [OF reg z(1)] show ?thesis by auto
  qed
  have ids: "\<exists>i. mget (services_zone_ids c accounts) n = Some i" if "n \<in> set (InZones t)" for n
    using zone [OF that] unfolding services_maps_mget by auto
  have "inj_on (mget (services_zone_ids c accounts)) (set (InZones t))"
    using ids ids_ready_inj(1) [OF assms(6)] by (intro inj_onI) metis
  moreover have "\<forall>n\<in>set (InZones t). mget (services_zone_accounts c accounts) n = Some (ct_account t) \<and> n \<noteq> [] \<and> to_lower n = n \<and>
      (\<exists>i. mget (services_zone_ids c accounts) n = Some i \<and> i \<noteq> [])"
  proof
    fix n assume n: "n \<in> set (InZones t)"
    from ids [OF n] obtain i where i: "mget (services_zone_ids c accounts) n = Some i" by blast
    have "i \<noteq> []" by (rule ids_ready_inj(2) [OF assms(6) i i])
    with zone [OF n] i show "mget (services_zone_accounts c accounts) n = Some (ct_account t) \<and> n \<noteq> [] \<and> to_lower n = n \<and>
      (\<exists>i. mget (services_zone_ids c accounts) n = Some i \<and> i \<noteq> [])" unfolding services_maps_mget(2) by auto
  qed
  moreover have "Tunnel_Name t \<noteq> []"
    using assms(5) by (auto simp: tunnel_ready_def Tunnel_Name_def TunnelName_def suffixed_def)
  moreover have "ct_zones t \<noteq> [] \<longrightarrow> cfg_tunnel.ct_zone t \<in> set (ct_zones t)"
    using valid_tunnel_hosts(3) [OF assms(1,3)] by (simp add: InZones_def split: if_splits)
  ultimately show ?thesis
    unfolding placed_def services_tunnel_zones using valid_tunnel_hosts [OF assms(1,3)] assms(5)
    by (simp add: services_tunnel_def tunnel_ready_def)
qed

section \<open>What \<open>Load\<close> returns is ready\<close>

lemma Load_Inr:
  assumes "Load decoded cat projects = Inr c"
  obtains c1 kat where "Parse decoded = Inr c1" and "registry_derive kat (nil_list projects) c1 = Inr c" and "Registry_Validate c = None"
  using assms unfolding Load_def by (auto split: sum.splits option.splits if_splits)

lemma wf_map_values: "wf_map (map (\<lambda>(n, x). (n, f n x)) m) \<longleftrightarrow> wf_map m"
  by (simp add: wf_map_def comp_def case_prod_unfold)

lemma wf_bare: "wf_registry (bare c) \<longleftrightarrow> wf_registry c"
  by (simp add: wf_registry_def bare_def wf_map_values)

lemma Parse_wf: "Parse decoded = Inr c \<Longrightarrow> wf_registry decoded \<Longrightarrow> validateRegistry c = None \<and> wf_registry c"
  by (auto simp: Parse_def Let_def wf_registry_def nameZones_def applyRootDefaults_def wf_map_values split: if_splits option.splits)

lemma loaded_tunnel_ready:
  assumes "validateRegistry c = None" and "wf_registry c" and "registry_derive cat projects c = Inr c'" and "t \<in> set (rg_tunnels c')"
    and "ct_cluster t \<noteq> []"
  shows "tunnel_ready c' t"
proof -
  from registry_derive_frame [OF assms(3)] obtain d where d: "Derive (registry_input c cat projects) = Inr d"
    and bare: "bare c' = bare c" and ts: "rg_tunnels c' = map (cfg_tunnel_of c) (de_tunnels d)" by blast
  from assms(4) obtain u where u: "u \<in> set (de_tunnels d)" "t = cfg_tunnel_of c u" unfolding ts by auto
  note facts = derived_tunnel_facts [OF d u(1)]
  have zones: "InZones t = tun_zones u" using facts(3) by (auto simp: InZones_def cfg_tunnel_of_def u(2))
  have "n \<in> set (managedZoneNames c')" if "n \<in> set (tun_zones u)" for n
  proof -
    have "mget (ei_zones (registry_input c cat projects)) n = Some (tun_account u)" using facts(1) that by blast
    then have "n \<in> set (managedZoneNames c)" unfolding derive_zone [OF assms(2)] managed_zone_iff by blast
    moreover have "managedZoneNames c' = managedZoneNames c"
      using managedZoneNames_bare [of c'] managedZoneNames_bare [of c] bare by simp
    ultimately show ?thesis by simp
  qed
  then show ?thesis unfolding tunnel_ready_def zones list_all_iff using facts(4) assms(5) by blast
qed

lemma newServicesAccount_accepted:
  assumes "validateRegistry c = None" and "a \<in> set (AccountsOf c company)" and "token_of tokens a \<noteq> []"
  shows "refused (newServicesAccount c tokens a) = []" and "account_id_of c a \<noteq> []"
proof -
  from assms(2) obtain x where x: "mget (rg_accounts c) a = Some x" unfolding AccountsOf_iff has_key_def by auto
  from registry_account [OF assms(1) x] have "account_cfg.ac_account_id x \<noteq> []" unfolding validate_account_cfg_def prod.case first_of_None by simp
  with x show "account_id_of c a \<noteq> []" by (simp add: account_id_of_def)
  with assms(3) show "refused (newServicesAccount c tokens a) = []"
    by (simp add: newServicesAccount_def company_provider_def account_actions_def account_validate_def fail_if_def)
qed

section \<open>Properties\<close>

definition sample_switched :: registry where
  "sample_switched = sample_registry\<lparr>rg_zones := [(''example.com'', sample_zone_cfg\<lparr>zn_managed_waf := None,
       zn_origin_cnames := Some [(''grafana.example.com'', ''d-abcdef1234.execute-api.eu-west-1.amazonaws.com'')]\<rparr>)]\<rparr>"

definition sample_services_config :: registry where
  "sample_services_config = sample_switched\<lparr>rg_tunnels := [\<lparr>ct_cluster = ''prod'', ct_account = ''main'', ct_legacy_names = True,
     ct_zone = ''example.com'', ct_zones = [''example.com''], ct_hosts = [''grafana.example.com'', ''hooks.example.com''], ct_dns_elsewhere = []\<rparr>]\<rparr>"

definition sample_services :: services_args where
  "sample_services = \<lparr>sv_config = Some sample_services_config, sv_company = ''main'', sv_clusters = [],
     sv_service = [], sv_namespace = [], sv_ca_pool_path = [], sv_tokens = [(''main'', ''t'')], sv_sink = True\<rparr>"

lemma sample_switched_loads: "Load sample_switched (Some sample_cfg_catalog) None = Inr sample_services_config"
  by code_simp

lemma sample_services_facts: "sv_config sample_services = Some sample_services_config" "sv_company sample_services = ''main''" "sv_sink sample_services"
  by (simp_all add: sample_services_def)

text \<open>C14 What \<open>Load\<close> returns can be deployed by the services stack of any of its companies: when each account of
  the company has a token and its zones have ids, no two the same, the deployment is refused at no
  step, so every tunnel of the company is registered with its rules and its records, and its token
  goes to the sink.\<close>

theorem Services_deploys:
  assumes "Load decoded cat projects = Inr c" and "wf_registry decoded" and "\<And>t. t \<in> set (rg_tunnels c) \<Longrightarrow> ct_cluster t \<noteq> []"
    and "sv_config args = Some c" and "sv_sink args" and "AccountsOf c (sv_company args) \<noteq> []"
    and "\<And>a. a \<in> set (AccountsOf c (sv_company args)) \<Longrightarrow> token_of (sv_tokens args) a \<noteq> []"
    and "ids_ready c (AccountsOf c (sv_company args))"
  shows "run_actions accept_all (Services_Deploy args) [] = (None, registered (Services_Deploy args))"
proof -
  let ?accounts = "AccountsOf c (sv_company args)"
  from assms(1) obtain c1 kat where parsed: "Parse decoded = Inr c1" and derived: "registry_derive kat (nil_list projects) c1 = Inr c"
    and valid: "Registry_Validate c = None" by (rule Load_Inr)
  note c1 = Parse_wf [OF parsed assms(2)]
  have reg: "validateRegistry c = None" using valid unfolding Registry_Validate_def first_of_None by blast
  from derived have "bare c = bare c1" by (rule registry_derive_frame)
  then have wf: "wf_registry c" using wf_bare c1 by metis
  have "refused (deploy_service args c ?accounts t) = []" if t: "t \<in> set (rg_tunnels c)" for t
  proof (cases "ct_account t \<in> set ?accounts")
    case True
    have ready: "tunnel_ready c t" using c1 by (intro loaded_tunnel_ready [OF _ _ derived t assms(3) [OF t]]) blast+
    have id: "account_id_of c (ct_account t) \<noteq> []" by (rule newServicesAccount_accepted(2) [OF reg True assms(7) [OF True]])
    have sink: "ed_sink (services_edge_args args c)" by (simp add: services_edge_args_def Let_def)
    from placed_tunnel_deployed [OF services_tunnel_placed [OF valid wf t True ready assms(8)] id sink] True show ?thesis
      by (simp add: deploy_service_def Let_def refused_map_action del: map_map)
  qed (simp add: deploy_service_def)
  moreover have "refused (newServicesAccount c (sv_tokens args) a) = []" if "a \<in> set ?accounts" for a
    by (rule newServicesAccount_accepted(1) [OF reg that assms(7) [OF that]])
  ultimately have "refused (Services_Deploy args) = []"
    using assms(4-6) by (simp add: Services_Deploy_def Let_def refused_concat fail_if_def)
  then show ?thesis by (simp add: run_actions_None accept_all_def)
qed

theorem Services_deploys_witness:
  "fst (run_actions accept_all (Services_Deploy sample_services) []) = None"
proof -
  let ?c = sample_services_config
  have "list_all (\<lambda>t. ct_cluster t \<noteq> []) (rg_tunnels ?c)" by code_simp
  then have clusters: "\<And>t. t \<in> set (rg_tunnels ?c) \<Longrightarrow> ct_cluster t \<noteq> []" by (simp add: list_all_iff)
  have "AccountsOf ?c ''main'' = [''main'']" by code_simp
  moreover have "ids_ready ?c [''main'']" by code_simp
  moreover have "token_of (sv_tokens sample_services) ''main'' \<noteq> []" by code_simp
  moreover have "wf_registry sample_switched" by code_simp
  ultimately show ?thesis
    using Services_deploys [OF sample_switched_loads _ clusters sample_services_facts(1,3)] by (simp add: sample_services_facts(2))
qed

text \<open>The origin switch rewrites exactly the records it is for: of the records the services stack registers, the
  one of a host gets another content exactly when the zone the host lies in has an active origin for it,
  and that origin is the content. The hosts of a tunnel have distinct slugs, which name its records.\<close>

theorem Services_origin_switch:
  assumes "sv_config args = Some c" and "\<And>t. t \<in> set (rg_tunnels c) \<Longrightarrow> inj_on Slug (set (cfg_tunnel.ct_hosts t))"
    and "(n, VTunnel content (ETunnelChild (RRecord zid host ty proxied ttl))) \<in> set (registered (Services_Deploy args))"
  shows "content = (case mget (rg_zones c) (Registry_ZoneOf c host) of None \<Rightarrow> None | Some z \<Rightarrow> mget (ActiveOrigins z) host)"
proof -
  have provider: "(n, VTunnel content (ETunnelChild (RRecord zid host ty proxied ttl))) \<notin> set (registered (newServicesAccount c tokens a))" for tokens a
    by (auto simp: newServicesAccount_def registered_map_action)
  with assms(1,3) obtain t where "t \<in> set (rg_tunnels c)"
    "(n, VTunnel content (ETunnelChild (RRecord zid host ty proxied ttl))) \<in> set (registered (deploy_service args c (AccountsOf c (sv_company args)) t))"
    by (auto simp: Services_Deploy_def Let_def registered_concat)
  with service_records assms(2) show ?thesis by blast
qed

lemma sample_switched_record:
  "\<exists>n. (n, VTunnel (Some ''d-abcdef1234.execute-api.eu-west-1.amazonaws.com'') (ETunnelChild (RRecord ''z1'' ''grafana.example.com'' ''CNAME'' True 1)))
     \<in> set (registered (Services_Deploy sample_services))"
proof -
  have "VTunnel (Some ''d-abcdef1234.execute-api.eu-west-1.amazonaws.com'') (ETunnelChild (RRecord ''z1'' ''grafana.example.com'' ''CNAME'' True 1))
      \<in> set (map snd (registered (Services_Deploy sample_services)))" by code_simp
  then show ?thesis by auto
qed

theorem Services_origin_switch_witness:
  "(case mget (rg_zones sample_services_config) (Registry_ZoneOf sample_services_config ''grafana.example.com'') of
      None \<Rightarrow> None | Some z \<Rightarrow> mget (ActiveOrigins z) ''grafana.example.com'') = Some ''d-abcdef1234.execute-api.eu-west-1.amazonaws.com''"
proof -
  let ?c = sample_services_config
  have "list_all (\<lambda>t. distinct (map Slug (cfg_tunnel.ct_hosts t))) (rg_tunnels ?c)" by code_simp
  then have slugs: "\<And>t. t \<in> set (rg_tunnels ?c) \<Longrightarrow> inj_on Slug (set (cfg_tunnel.ct_hosts t))" by (simp add: list_all_iff distinct_map)
  from sample_switched_record obtain n where
    "(n, VTunnel (Some ''d-abcdef1234.execute-api.eu-west-1.amazonaws.com'') (ETunnelChild (RRecord ''z1'' ''grafana.example.com'' ''CNAME'' True 1)))
      \<in> set (registered (Services_Deploy sample_services))" by (elim exE)
  from Services_origin_switch [OF sample_services_facts(1) slugs this] show ?thesis by (rule sym)
qed

end
