(* ===== verification/Token_Split.thy ===== *)
theory Token_Split imports Account_Tokens Go_Sort begin

text \<open>
  \<open>cloudflare/tokensplit/tokensplit.go\<close>: the root stack, which mints the least-privilege children of
  an account and writes each where its consumers read it, and the read side. What a child's token
  will be is known only after the deployment: a written property refers to the child, and reading
  it back is stated for any values of the children. \<open>unicode.IsSpace\<close> is modelled on ASCII.
\<close>

definition PermCloudflareTunnelWrite :: string where
  "PermCloudflareTunnelWrite = ''Cloudflare Tunnel Write''"

definition PermDNSWrite :: string where
  "PermDNSWrite = ''DNS Write''"

definition ChildEdge :: string where
  "ChildEdge = ''edge''"

definition ChildStatus :: string where
  "ChildStatus = ''status''"

definition ChildR2Admin :: string where
  "ChildR2Admin = ''r2-admin''"

definition ChildR2Parent :: string where
  "ChildR2Parent = ''r2-parent-''"

definition rootProviderName :: string where
  "rootProviderName = ''root''"

definition tokenNamePrefix :: string where
  "tokenNamePrefix = ''cloudflare-''"

record split_zone =
  sz_name :: string
  sz_id :: string
  sz_account_id :: string
  sz_security_txt_only :: bool

record split_bucket =
  sb_name :: string
  sb_bucket :: string
  sb_jurisdiction :: string

record rotations =
  ro_edge :: string
  ro_status :: string
  ro_r2_admin :: string
  ro_r2_parent :: string

record split_inputs =
  si_root_token :: string
  si_account_id :: string
  si_zones :: "split_zone list"
  si_buckets :: "split_bucket list"
  si_rotation :: rotations
  si_waf_zone :: string
  si_without_r2_admin :: bool
  si_namespace :: string
  si_key_prefix :: string

section \<open>The children\<close>

text \<open>\<open>sort.Slice\<close> may reorder zones of one name; the model keeps their order.\<close>

definition zoneIDs :: "split_zone list \<Rightarrow> string \<Rightarrow> bool \<Rightarrow> string list" where
  "zoneIDs zones accountID securityTxtOnly =
     map sz_id (filter (\<lambda>z. sz_account_id z = accountID \<and> sz_security_txt_only z = securityTxtOnly) (sort_key sz_name zones))"

definition MatchingZoneIDs :: "split_zone list \<Rightarrow> string \<Rightarrow> string list" where
  "MatchingZoneIDs zones accountID = zoneIDs zones accountID False"

definition SecurityTxtZoneIDs :: "split_zone list \<Rightarrow> string \<Rightarrow> string list" where
  "SecurityTxtZoneIDs zones accountID = zoneIDs zones accountID True"

definition split_EdgePolicies :: "split_zone list \<Rightarrow> string list \<Rightarrow> string \<Rightarrow> token_policy list" where
  "split_EdgePolicies zones zone_ids wafZone =
     EdgePoliciesWithWAF
       (foldl (\<lambda>waf z. if wafZone \<noteq> [] \<and> sz_name z = wafZone \<and> sz_id z \<in> set zone_ids then [sz_id z] else waf) [] zones)
       zone_ids"

definition StatusPolicies :: "string list \<Rightarrow> token_policy list" where
  "StatusPolicies zone_ids = whole_account [PermCloudflareTunnelWrite] # map (on_zone [PermDNSWrite]) zone_ids"

definition child_of :: "string \<Rightarrow> string \<Rightarrow> token_policy list \<Rightarrow> child_config" where
  "child_of name rotation policies = \<lparr>cc_name = tokenNamePrefix @ name, cc_rotation = rotation, cc_expires_on = [], cc_policies = policies\<rparr>"

definition bucket_child :: "split_inputs \<Rightarrow> split_bucket \<Rightarrow> child_config gomap \<Rightarrow> child_config gomap" where
  "bucket_child inp b = mput (ChildR2Parent @ sb_name b)
     (child_of (ChildR2Parent @ sb_name b) (ro_r2_parent (si_rotation inp)) (R2BucketParentPolicies (sb_jurisdiction b) (sb_bucket b)))"

definition split_configs :: "split_inputs \<Rightarrow> child_config gomap" where
  "split_configs inp =
     (let zone_ids = MatchingZoneIDs (si_zones inp) (si_account_id inp);
          txt_ids = SecurityTxtZoneIDs (si_zones inp) (si_account_id inp);
          cfgs = mput ChildEdge (child_of ChildEdge (ro_edge (si_rotation inp))
              (split_EdgePolicies (si_zones inp) zone_ids (si_waf_zone inp) @ SecurityTxtPolicies txt_ids)) [];
          cfgs = mput ChildStatus (child_of ChildStatus (ro_status (si_rotation inp)) (StatusPolicies zone_ids)) cfgs;
          cfgs = (if \<not> si_without_r2_admin inp
            then mput ChildR2Admin (child_of ChildR2Admin (ro_r2_admin (si_rotation inp)) R2AdminPolicies) cfgs else cfgs) in
      fold (bucket_child inp) (si_buckets inp) cfgs)"

definition account_children :: "split_inputs \<Rightarrow> string list" where
  "account_children inp = [ChildEdge, ChildStatus] @ (if \<not> si_without_r2_admin inp then [ChildR2Admin] else [])"

section \<open>Deploy\<close>

text \<open>A property of a written secret: the value or the id of a child's token, or a text.\<close>

datatype secret_property =
    ValueOf string
  | IdOf string
  | PlainText string

datatype split_resource =
    SProvider account_provider
  | SToken account_token
  | SPut string "(string \<times> secret_property) list"

datatype split_error =
    ETSAccount account_error
  | ETSNoZone string
  | ETSMint string token_error

type_synonym split_child = "string \<times> split_resource"

definition put :: "split_inputs \<Rightarrow> string \<Rightarrow> (string \<times> secret_property) list \<Rightarrow> (split_error, split_child) action" where
  "put inp child properties = Register (si_key_prefix inp @ ''/'' @ child, SPut (si_namespace inp) properties)"

definition account_properties :: "split_inputs \<Rightarrow> string \<Rightarrow> (string \<times> secret_property) list" where
  "account_properties inp name = [(''api-token'', ValueOf name), (''account-id'', PlainText (si_account_id inp))]"

definition split_Deploy :: "int \<Rightarrow> group_list \<Rightarrow> split_inputs \<Rightarrow> (split_error, split_child) action list" where
  "split_Deploy now listed inp =
     map (map_action ETSAccount (\<lambda>(n, p). (n, SProvider p)))
       (account_actions rootProviderName \<lparr>aa_account_id = si_account_id inp, aa_base_url = []\<rparr> (si_root_token inp)) @
     refuse (fail_if (length (MatchingZoneIDs (si_zones inp) (si_account_id inp)) +
         length (SecurityTxtZoneIDs (si_zones inp) (si_account_id inp)) = 0) (ETSNoZone (si_account_id inp))) @
     map (map_action (\<lambda>(k, e). ETSMint k e) (\<lambda>(n, t). (n, SToken t)))
       (NewChildTokenSet now listed (Some (si_account_id inp)) (split_configs inp)) @
     map (\<lambda>name. put inp name (account_properties inp name)) (account_children inp) @
     map (\<lambda>b. let name = ChildR2Parent @ sb_name b in put inp name (account_properties inp name @ [(''token-id'', IdOf name)]))
       (si_buckets inp)"

section \<open>The read side\<close>

definition SoleAccount :: "string list \<Rightarrow> string option" where
  "SoleAccount accounts = (if length accounts \<noteq> 1 then None else Some (accounts ! 0))"

datatype secret_error =
    ESENone
  | ESEMissing
  | ESEWhitespace string
  | ESEAccount string

definition refuseWhitespace :: "string \<Rightarrow> string \<Rightarrow> secret_error option" where
  "refuseWhitespace field value = fail_if (list_ex is_space value) (ESEWhitespace field)"

text \<open>The loop over the two fields ranges over a map; its order only decides which error is
  reported when both values hold whitespace. A missing property reads as the empty string.\<close>

definition property :: "string gomap \<Rightarrow> string \<Rightarrow> string" where
  "property data k = (case mget data k of None \<Rightarrow> [] | Some v \<Rightarrow> v)"

definition ParseRootToken :: "string gomap option \<Rightarrow> secret_error + string \<times> string" where
  "ParseRootToken secret = (case secret of
      None \<Rightarrow> Inl ESENone
    | Some data \<Rightarrow>
        let apiToken = property data ''api-token''; accountID = property data ''account-id'' in
        unless (first_of [
            fail_if (apiToken = [] \<or> accountID = []) ESEMissing,
            first_err (\<lambda>(field, value). refuseWhitespace field value) [(''api-token'', apiToken), (''account-id'', accountID)]])
          (Inr (apiToken, accountID)))"

definition ParseChild :: "string gomap option \<Rightarrow> string \<Rightarrow> secret_error + string" where
  "ParseChild secret wantAccountID =
     sum_bind (ParseRootToken secret) (\<lambda>(apiToken, accountID).
       if accountID \<noteq> wantAccountID then Inl (ESEAccount accountID) else Inr apiToken)"

section \<open>The scopes of the children\<close>

lemma set_zoneIDs: "set (zoneIDs zones a txt) = sz_id ` {z \<in> set zones. sz_account_id z = a \<and> sz_security_txt_only z = txt}"
  by (auto simp: zoneIDs_def)

definition own_zone :: "split_inputs \<Rightarrow> bool \<Rightarrow> string \<Rightarrow> bool" where
  "own_zone inp txt zid \<longleftrightarrow> (\<exists>z\<in>set (si_zones inp). sz_id z = zid \<and> sz_account_id z = si_account_id inp \<and> sz_security_txt_only z = txt)"

text \<open>What each child is to hold, no more and no less. On each edge zone of the account the edge child has five groups, and on the WAF zone
  one more; on a zone listed for its security.txt it has the settings alone; the status child has DNS alone. The admin child
  has R2 storage on the account, and the parent of a bucket has the objects of that bucket.\<close>

definition edge_grants :: "split_inputs \<Rightarrow> token_policy \<Rightarrow> bool" where
  "edge_grants inp p \<longleftrightarrow>
     p = whole_account [''Cloudflare Tunnel Write''] \<or>
     (\<exists>z\<in>set (si_zones inp). own_zone inp False (sz_id z) \<and>
        (p = on_zone [''DNS Write'', ''SSL and Certificates Write'', ''Zone Settings Write'', ''Cache Settings Write'', ''Config Settings Write''] (sz_id z) \<or>
         p = on_zone [''Zone WAF Write''] (sz_id z) \<and> sz_name z = si_waf_zone inp \<and> si_waf_zone inp \<noteq> [])) \<or>
     (\<exists>z\<in>set (si_zones inp). own_zone inp True (sz_id z) \<and> p = on_zone [''Zone Settings Write''] (sz_id z))"

definition status_grants :: "split_inputs \<Rightarrow> token_policy \<Rightarrow> bool" where
  "status_grants inp p \<longleftrightarrow>
     p = whole_account [''Cloudflare Tunnel Write''] \<or>
     (\<exists>z\<in>set (si_zones inp). own_zone inp False (sz_id z) \<and> p = on_zone [''DNS Write''] (sz_id z))"

definition child_grants :: "split_inputs \<Rightarrow> string \<Rightarrow> token_policy \<Rightarrow> bool" where
  "child_grants inp child p \<longleftrightarrow>
     child = ''edge'' \<and> edge_grants inp p \<or>
     child = ''status'' \<and> status_grants inp p \<or>
     child = ''r2-admin'' \<and> \<not> si_without_r2_admin inp \<and> p = whole_account [''Workers R2 Storage Write''] \<or>
     (\<exists>b\<in>set (si_buckets inp). child = ''r2-parent-'' @ sb_name b \<and>
        p = \<lparr>tp_groups = [''Workers R2 Storage Bucket Item Write''], tp_scope = Some (R2BucketScope (sb_jurisdiction b) (sb_bucket b))\<rparr>)"

text \<open>A policy of a minted token is what a declared one stands for, where \<open>named\<close> gives the name of a group's id.\<close>

definition policy_of :: "(string \<Rightarrow> string) \<Rightarrow> string \<Rightarrow> token_policy \<Rightarrow> account_policy \<Rightarrow> bool" where
  "policy_of named a p q \<longleftrightarrow> ap_effect q = ''allow'' \<and> map named (ap_group_ids q) = tp_groups p \<and>
     (case tp_scope p of None \<Rightarrow> False | Some s \<Rightarrow> ap_resources q = json_resources (resourceKey s a))"

lemma MatchingZoneIDs_own: "zid \<in> set (MatchingZoneIDs (si_zones inp) (si_account_id inp)) \<longleftrightarrow> own_zone inp False zid"
  by (auto simp: MatchingZoneIDs_def set_zoneIDs own_zone_def)

lemma SecurityTxtZoneIDs_own: "zid \<in> set (SecurityTxtZoneIDs (si_zones inp) (si_account_id inp)) \<longleftrightarrow> own_zone inp True zid"
  by (auto simp: SecurityTxtZoneIDs_def set_zoneIDs own_zone_def)

lemma own_zone_listed: "own_zone inp txt zid \<Longrightarrow> \<exists>z\<in>set (si_zones inp). own_zone inp txt (sz_id z) \<and> sz_id z = zid"
  unfolding own_zone_def by blast

definition waf_ids :: "split_inputs \<Rightarrow> string list" where
  "waf_ids inp = foldl (\<lambda>waf z. if si_waf_zone inp \<noteq> [] \<and> sz_name z = si_waf_zone inp \<and>
     sz_id z \<in> set (MatchingZoneIDs (si_zones inp) (si_account_id inp)) then [sz_id z] else waf) [] (si_zones inp)"

lemma waf_fold_from:
  "zid \<in> set (foldl (\<lambda>waf z. if wafZone \<noteq> [] \<and> sz_name z = wafZone \<and> sz_id z \<in> set ids then [sz_id z] else waf) w zones) \<Longrightarrow>
     zid \<in> set w \<or> (\<exists>z\<in>set zones. wafZone \<noteq> [] \<and> sz_name z = wafZone \<and> sz_id z \<in> set ids \<and> zid = sz_id z)"
proof (induction zones arbitrary: w)
  case (Cons z zones)
  from Cons.IH [OF Cons.prems [unfolded foldl_Cons]] show ?case by (auto split: if_splits)
qed simp

lemma waf_fold_to:
  assumes "distinct (map sz_name zones)" and "z \<in> set zones" and "wafZone \<noteq> []" and "sz_name z = wafZone" and "sz_id z \<in> set ids"
  shows "foldl (\<lambda>waf z. if wafZone \<noteq> [] \<and> sz_name z = wafZone \<and> sz_id z \<in> set ids then [sz_id z] else waf) w zones = [sz_id z]"
  using assms(1,2)
proof (induction zones arbitrary: w)
  case (Cons y zones)
  have keep: "foldl (\<lambda>waf z. if wafZone \<noteq> [] \<and> sz_name z = wafZone \<and> sz_id z \<in> set ids then [sz_id z] else waf) v zs = v"
    if "wafZone \<notin> sz_name ` set zs" for v zs
    using that by (induction zs) auto
  show ?case
  proof (cases "z = y")
    case True
    then have "wafZone \<notin> sz_name ` set zones" using Cons.prems(1) assms(4) by auto
    then show ?thesis using True assms(3-5) keep by simp
  next
    case False
    then show ?thesis using Cons by simp
  qed
qed simp

lemma edge_policies_set:
  "set (split_EdgePolicies (si_zones inp) (MatchingZoneIDs (si_zones inp) (si_account_id inp)) (si_waf_zone inp) @
     SecurityTxtPolicies (SecurityTxtZoneIDs (si_zones inp) (si_account_id inp))) =
   {whole_account [''Cloudflare Tunnel Write'']} \<union>
   on_zone [''DNS Write'', ''SSL and Certificates Write'', ''Zone Settings Write'', ''Cache Settings Write'', ''Config Settings Write''] ` {zid. own_zone inp False zid} \<union>
   on_zone [''Zone WAF Write''] ` set (waf_ids inp) \<union> on_zone [''Zone Settings Write''] ` {zid. own_zone inp True zid}"
proof -
  have "set (MatchingZoneIDs (si_zones inp) (si_account_id inp)) = {zid. own_zone inp False zid}"
    "set (SecurityTxtZoneIDs (si_zones inp) (si_account_id inp)) = {zid. own_zone inp True zid}"
    by (auto simp: MatchingZoneIDs_own SecurityTxtZoneIDs_own)
  then show ?thesis
    unfolding split_EdgePolicies_def EdgePoliciesWithWAF_def EdgePolicies_def ZonePolicies_def SecurityTxtPolicies_def PermZoneSettingsWrite_def waf_ids_def
    by (simp only: set_append set_simps set_map Un_insert_left Un_empty_left insert_is_Un [symmetric] Un_assoc)
qed

lemma edge_child_policies:
  assumes "p \<in> set (split_EdgePolicies (si_zones inp) (MatchingZoneIDs (si_zones inp) (si_account_id inp)) (si_waf_zone inp) @
     SecurityTxtPolicies (SecurityTxtZoneIDs (si_zones inp) (si_account_id inp)))"
  shows "edge_grants inp p"
proof -
  from assms [unfolded edge_policies_set] consider "p = whole_account [''Cloudflare Tunnel Write'']"
    | zid where "own_zone inp False zid" "p = on_zone [''DNS Write'', ''SSL and Certificates Write'', ''Zone Settings Write'', ''Cache Settings Write'', ''Config Settings Write''] zid"
    | zid where "zid \<in> set (waf_ids inp)" "p = on_zone [''Zone WAF Write''] zid"
    | zid where "own_zone inp True zid" "p = on_zone [''Zone Settings Write''] zid" by blast
  then show ?thesis
  proof cases
    case 2
    then show ?thesis using own_zone_listed unfolding edge_grants_def by blast
  next
    case 3
    from waf_fold_from [OF 3(1) [unfolded waf_ids_def]] 3(2) show ?thesis
      by (auto simp: edge_grants_def MatchingZoneIDs_own)
  next
    case 4
    then show ?thesis using own_zone_listed unfolding edge_grants_def by blast
  qed (simp add: edge_grants_def)
qed

lemma edge_child_complete:
  assumes "distinct (map sz_name (si_zones inp))" and "edge_grants inp p"
  shows "p \<in> set (split_EdgePolicies (si_zones inp) (MatchingZoneIDs (si_zones inp) (si_account_id inp)) (si_waf_zone inp) @
     SecurityTxtPolicies (SecurityTxtZoneIDs (si_zones inp) (si_account_id inp)))"
proof -
  have waf: "waf_ids inp = [sz_id z]" if "z \<in> set (si_zones inp)" "own_zone inp False (sz_id z)" "sz_name z = si_waf_zone inp" "si_waf_zone inp \<noteq> []" for z
    unfolding waf_ids_def by (rule waf_fold_to [OF assms(1)]) (use that in \<open>simp_all add: MatchingZoneIDs_own\<close>)
  from assms(2) [unfolded edge_grants_def] show ?thesis unfolding edge_policies_set
    by (elim disjE bexE conjE) (use waf in simp_all)
qed

lemma status_child_policies:
  "p \<in> set (StatusPolicies (MatchingZoneIDs (si_zones inp) (si_account_id inp))) \<longleftrightarrow> status_grants inp p"
proof -
  have "p \<in> set (StatusPolicies (MatchingZoneIDs (si_zones inp) (si_account_id inp))) \<longleftrightarrow>
      p = whole_account [''Cloudflare Tunnel Write''] \<or> (\<exists>zid. own_zone inp False zid \<and> p = on_zone [''DNS Write''] zid)"
    unfolding StatusPolicies_def PermCloudflareTunnelWrite_def PermDNSWrite_def using MatchingZoneIDs_own [of _ inp] by auto
  then show ?thesis using own_zone_listed unfolding status_grants_def by blast
qed

lemma mget_bucket_children:
  assumes "mget (fold (bucket_child inp) bs m) k = Some cfg"
  shows "mget m k = Some cfg \<or> (\<exists>b\<in>set bs. k = ChildR2Parent @ sb_name b \<and> cfg = child_of k (ro_r2_parent (si_rotation inp))
     (R2BucketParentPolicies (sb_jurisdiction b) (sb_bucket b)))"
  using assms by (induction bs arbitrary: m) (fastforce simp: bucket_child_def split: if_splits)+

text \<open>The configuration of each child.\<close>

lemma split_configs_cases:
  assumes "mget (split_configs inp) k = Some cfg"
  obtains
    (edge) "k = ChildEdge" "cfg = child_of ChildEdge (ro_edge (si_rotation inp))
      (split_EdgePolicies (si_zones inp) (MatchingZoneIDs (si_zones inp) (si_account_id inp)) (si_waf_zone inp) @
       SecurityTxtPolicies (SecurityTxtZoneIDs (si_zones inp) (si_account_id inp)))"
  | (status) "k = ChildStatus" "cfg = child_of ChildStatus (ro_status (si_rotation inp))
      (StatusPolicies (MatchingZoneIDs (si_zones inp) (si_account_id inp)))"
  | (admin) "\<not> si_without_r2_admin inp" "k = ChildR2Admin" "cfg = child_of ChildR2Admin (ro_r2_admin (si_rotation inp)) R2AdminPolicies"
  | (parent) b where "b \<in> set (si_buckets inp)" "k = ChildR2Parent @ sb_name b"
      "cfg = child_of k (ro_r2_parent (si_rotation inp)) (R2BucketParentPolicies (sb_jurisdiction b) (sb_bucket b))"
  using mget_bucket_children [OF assms [unfolded split_configs_def Let_def]] by (auto split: if_splits)

lemma split_configs_grants:
  assumes "mget (split_configs inp) k = Some cfg" and "p \<in> set (cc_policies cfg)"
  shows "child_grants inp k p"
  using assms(1)
proof (cases rule: split_configs_cases)
  case edge
  then have "p \<in> set (split_EdgePolicies (si_zones inp) (MatchingZoneIDs (si_zones inp) (si_account_id inp)) (si_waf_zone inp) @
     SecurityTxtPolicies (SecurityTxtZoneIDs (si_zones inp) (si_account_id inp)))" using assms(2) by (simp only: child_of_def child_config.simps)
  from edge_child_policies [OF this] show ?thesis by (simp add: child_grants_def edge(1) ChildEdge_def)
next
  case status
  then have "p \<in> set (StatusPolicies (MatchingZoneIDs (si_zones inp) (si_account_id inp)))" using assms(2) by (simp only: child_of_def child_config.simps)
  then show ?thesis unfolding status_child_policies by (simp add: child_grants_def status(1) ChildStatus_def)
next
  case admin
  with assms(2) show ?thesis by (simp add: child_of_def R2AdminPolicies_def child_grants_def ChildR2Admin_def)
next
  case (parent b)
  with assms(2) show ?thesis by (auto simp: child_of_def R2BucketParentPolicies_def child_grants_def ChildR2Parent_def)
qed

lemma split_configs_complete:
  assumes "mget (split_configs inp) k = Some cfg" and "distinct (map sz_name (si_zones inp))" and "distinct (map sb_name (si_buckets inp))"
    and "child_grants inp k p"
  shows "p \<in> set (cc_policies cfg)"
  using assms(1)
proof (cases rule: split_configs_cases)
  case edge
  with assms(4) have "edge_grants inp p" by (simp add: child_grants_def ChildEdge_def)
  from edge_child_complete [OF assms(2) this] show ?thesis unfolding edge(2) by (simp only: child_of_def child_config.simps)
next
  case status
  with assms(4) have "status_grants inp p" by (simp add: child_grants_def ChildStatus_def)
  then show ?thesis unfolding status(2) status_child_policies [symmetric] by (simp only: child_of_def child_config.simps)
next
  case admin
  with assms(4) have "p = whole_account [''Workers R2 Storage Write'']" by (simp add: child_grants_def ChildR2Admin_def)
  then show ?thesis by (simp add: admin(3) child_of_def R2AdminPolicies_def)
next
  case (parent b)
  with assms(4) obtain b' where b': "b' \<in> set (si_buckets inp)" "sb_name b' = sb_name b"
    "p = \<lparr>tp_groups = [''Workers R2 Storage Bucket Item Write''], tp_scope = Some (R2BucketScope (sb_jurisdiction b') (sb_bucket b'))\<rparr>"
    by (auto simp: child_grants_def ChildR2Parent_def)
  from assms(3) b'(1,2) parent(1) have "b' = b" by (auto simp: distinct_map dest: inj_onD)
  then show ?thesis using b'(3) by (simp add: parent(3) child_of_def R2BucketParentPolicies_def)
qed

section \<open>Written and read back\<close>

text \<open>The data a written secret holds, for given values and ids of the children's tokens.\<close>

definition secret_text :: "(string \<Rightarrow> string) \<Rightarrow> (string \<Rightarrow> string) \<Rightarrow> secret_property \<Rightarrow> string" where
  "secret_text val idt p = (case p of ValueOf c \<Rightarrow> val c | IdOf c \<Rightarrow> idt c | PlainText s \<Rightarrow> s)"

definition secret_data :: "(string \<Rightarrow> string) \<Rightarrow> (string \<Rightarrow> string) \<Rightarrow> (string \<times> secret_property) list \<Rightarrow> string gomap" where
  "secret_data val idt ps = map (\<lambda>(k, p). (k, secret_text val idt p)) ps"

lemma ParseRootToken_Inr:
  "ParseRootToken secret = Inr (tok, acc) \<longleftrightarrow> (\<exists>data. secret = Some data \<and> mget data ''api-token'' = Some tok \<and> mget data ''account-id'' = Some acc \<and>
     tok \<noteq> [] \<and> acc \<noteq> [] \<and> \<not> list_ex is_space tok \<and> \<not> list_ex is_space acc)"
  by (cases secret) (auto simp: ParseRootToken_def Let_def property_def refuseWhitespace_def fail_if_def split: option.splits if_splits)

lemma ParseChild_Inr:
  "ParseChild secret want = Inr tok \<longleftrightarrow> ParseRootToken secret = Inr (tok, want)"
  by (auto simp: ParseChild_def split: if_splits)

lemma registered_puts: "registered (map (\<lambda>x. put inp (f x) (g x)) xs) = map (\<lambda>x. (si_key_prefix inp @ ''/'' @ f x, SPut (si_namespace inp) (g x))) xs"
  by (induction xs) (simp_all add: put_def)

lemma registered_split_Deploy:
  "registered (split_Deploy now listed inp) =
     map (\<lambda>(n, p). (n, SProvider p)) (registered (account_actions rootProviderName \<lparr>aa_account_id = si_account_id inp, aa_base_url = []\<rparr> (si_root_token inp))) @
     map (\<lambda>(n, t). (n, SToken t)) (registered (NewChildTokenSet now listed (Some (si_account_id inp)) (split_configs inp))) @
     map (\<lambda>name. (si_key_prefix inp @ ''/'' @ name, SPut (si_namespace inp) (account_properties inp name))) (account_children inp) @
     map (\<lambda>b. (si_key_prefix inp @ ''/'' @ ChildR2Parent @ sb_name b,
       SPut (si_namespace inp) (account_properties inp (ChildR2Parent @ sb_name b) @ [(''token-id'', IdOf (ChildR2Parent @ sb_name b))]))) (si_buckets inp)"
  by (simp add: split_Deploy_def Let_def registered_map_action registered_puts)

text \<open>Each put registered is a child's, under its own name, in the inputs' namespace.\<close>

lemma written_children:
  assumes "(n, SPut ns ps) \<in> set (registered (split_Deploy now listed inp))"
  shows "\<exists>child rest. n = si_key_prefix inp @ ''/'' @ child \<and> ns = si_namespace inp \<and> ps = account_properties inp child @ rest \<and>
     (child \<in> set (account_children inp) \<or> (\<exists>b\<in>set (si_buckets inp). child = ChildR2Parent @ sb_name b))"
  using assms unfolding registered_split_Deploy by (auto split: prod.splits)

lemma account_data_read:
  "ParseRootToken (Some (secret_data val idt (account_properties inp child @ rest))) = Inr (val child, si_account_id inp) \<longleftrightarrow>
     val child \<noteq> [] \<and> si_account_id inp \<noteq> [] \<and> \<not> list_ex is_space (val child) \<and> \<not> list_ex is_space (si_account_id inp)"
  by (simp add: ParseRootToken_Inr secret_data_def account_properties_def secret_text_def mget_def)

lemma minted_child:
  assumes "refused (split_Deploy now listed inp) = []" and "(k, SToken tok) \<in> set (registered (split_Deploy now listed inp))"
  obtains cfg where "mget (split_configs inp) k = Some cfg"
    and "refused (NewChildToken now listed k (Some (si_account_id inp)) cfg) = []"
    and "(k, tok) \<in> set (registered (NewChildToken now listed k (Some (si_account_id inp)) cfg))"
proof (rule NewChildTokenSet_member)
  show "refused (NewChildTokenSet now listed (Some (si_account_id inp)) (split_configs inp)) = []"
    using assms(1) by (simp add: split_Deploy_def refused_map_action)
  show "(k, tok) \<in> set (registered (NewChildTokenSet now listed (Some (si_account_id inp)) (split_configs inp)))"
    using assms(2) unfolding registered_split_Deploy by auto
qed (rule that)

text \<open>A minted token has a policy for each one of its configuration, with its groups in their order, and no other.\<close>

lemma collect_named:
  assumes "collect (lookupPermissionGroupID listed i a) gs = Inr ids" and "\<forall>g rs. listed a g = Some rs \<longrightarrow> (\<forall>(n, i)\<in>set rs. named i = n)"
  shows "map named ids = gs"
  using assms(1)
proof (induction gs arbitrary: ids)
  case (Cons g gs)
  then obtain gid rest where ids: "ids = gid # rest" "lookupPermissionGroupID listed i a g = Inr gid"
    "collect (lookupPermissionGroupID listed i a) gs = Inr rest"
    unfolding collect_Inr by (cases ids) auto
  from lookup_listed [OF ids(2)] assms(2) have "named gid = g" by blast
  then show ?case using Cons.IH [OF ids(3)] by (simp add: ids(1))
qed (simp add: collect_Inr)

lemma minted_policies:
  assumes "refused (NewChildToken now listed name (Some a) cfg) = []"
    and "(child, tok) \<in> set (registered (NewChildToken now listed name (Some a) cfg))"
    and "\<forall>g rs. listed a g = Some rs \<longrightarrow> (\<forall>(n, i)\<in>set rs. named i = n)"
  shows "list_all2 (policy_of named a) (cc_policies cfg) (at_policies tok)"
proof (rule NewChildToken_accepted [OF assms(1)])
  fix policies
  assume valid: "ChildToken_Validate now cfg = None" and made: "collect (policy_args listed a) (enumerate 0 (cc_policies cfg)) = Inr policies"
    and reg: "registered (NewChildToken now listed name (Some a) cfg) = [(name,
       \<lparr>at_account_id = a, at_name = token_name cfg, at_policies = policies,
        at_expires_on = (if cc_expires_on cfg = [] then None else Some (cc_expires_on cfg)), at_replace_on = [''name'']\<rparr>)]"
  have "policy_of named a p q" if "policy_args listed a (i, p) = Inr q" "p \<in> set (cc_policies cfg)" for i p q
  proof -
    from ChildToken_Validate_policies [OF valid that(2)] obtain s where s: "tp_scope p = Some s" unfolding validate_policy_None by blast
    from collect_named [OF policy_args_Inr(1) [OF that(1)] assms(3)] policy_args_Inr(2) [OF that(1)] policy_args_Inr(3) [OF that(1) s] s
    show ?thesis by (simp add: policy_of_def)
  qed
  moreover have "length policies = length (cc_policies cfg)" using collect_Inr_length [OF made] by simp
  moreover have "policy_args listed a (i, cc_policies cfg ! i) = Inr (policies ! i)" if "i < length (cc_policies cfg)" for i
    using made [unfolded collect_Inr, THEN arg_cong, of "\<lambda>l. l ! i"] that \<open>length policies = length (cc_policies cfg)\<close>
    by (simp add: nth_enumerate_eq)
  ultimately have "list_all2 (policy_of named a) (cc_policies cfg) policies" unfolding list_all2_conv_all_nth by (metis nth_mem)
  then show ?thesis using assms(2) reg by auto
qed

section \<open>Properties\<close>

definition sample_inputs :: split_inputs where
  "sample_inputs = \<lparr>si_root_token = ''root-token'', si_account_id = ''acc'',
     si_zones = [\<lparr>sz_name = ''a.example'', sz_id = sample_zone_id, sz_account_id = ''acc'', sz_security_txt_only = False\<rparr>,
                 \<lparr>sz_name = ''b.example'', sz_id = ''00000000000000000000000000000000'', sz_account_id = ''other'', sz_security_txt_only = False\<rparr>],
     si_buckets = [\<lparr>sb_name = ''logs'', sb_bucket = ''edge-logs'', sb_jurisdiction = ''eu''\<rparr>],
     si_rotation = \<lparr>ro_edge = ''r1'', ro_status = [], ro_r2_admin = [], ro_r2_parent = []\<rparr>,
     si_waf_zone = ''a.example'', si_without_r2_admin = True, si_namespace = ''cloudflare'', si_key_prefix = ''account''\<rparr>"

text \<open>C29 (safety): each child of a split that ends well has least privilege. A minted token is of the split's account, and every policy of it
  is one of those of its child, as \<open>child_grants\<close> lists them for the edge, the status and the admin child and for the parent of each
  bucket, with exactly the groups listed there; and when no two zones and no two buckets have one name, it has each of them.\<close>

theorem split_least_privilege:
  assumes "refused (split_Deploy now listed inp) = []"
    and "(child, SToken tok) \<in> set (registered (split_Deploy now listed inp))"
    and "\<forall>g rs. listed (si_account_id inp) g = Some rs \<longrightarrow> (\<forall>(n, i)\<in>set rs. named i = n)"
  shows "at_account_id tok = si_account_id inp \<and>
    (\<forall>q\<in>set (at_policies tok). \<exists>p. child_grants inp child p \<and> policy_of named (si_account_id inp) p q) \<and>
    (distinct (map sz_name (si_zones inp)) \<and> distinct (map sb_name (si_buckets inp)) \<longrightarrow>
       (\<forall>p. child_grants inp child p \<longrightarrow> (\<exists>q\<in>set (at_policies tok). policy_of named (si_account_id inp) p q)))"
proof (rule minted_child [OF assms(1,2)])
  fix cfg
  assume cfg: "mget (split_configs inp) child = Some cfg"
    and ok: "refused (NewChildToken now listed child (Some (si_account_id inp)) cfg) = []"
    and reg: "(child, tok) \<in> set (registered (NewChildToken now listed child (Some (si_account_id inp)) cfg))"
  note minted = minted_policies [OF ok reg assms(3)]
  have "at_account_id tok = si_account_id inp"
    by (rule NewChildToken_accepted [OF ok]) (use reg in simp)
  moreover have "\<exists>p. child_grants inp child p \<and> policy_of named (si_account_id inp) p q" if "q \<in> set (at_policies tok)" for q
    using minted that split_configs_grants [OF cfg] unfolding list_all2_conv_all_nth in_set_conv_nth by metis
  moreover have "\<exists>q\<in>set (at_policies tok). policy_of named (si_account_id inp) p q"
    if "distinct (map sz_name (si_zones inp))" "distinct (map sb_name (si_buckets inp))" "child_grants inp child p" for p
    using minted split_configs_complete [OF cfg that] unfolding list_all2_conv_all_nth in_set_conv_nth by (metis nth_mem)
  ultimately show ?thesis by blast
qed

theorem split_least_privilege_witness:
  "\<exists>q :: account_policy. ap_resources q = json_resources (resourceKey (ZoneScope sample_zone_id) ''acc'') \<and> map (drop 6) (ap_group_ids q) = [''DNS Write'']"
proof -
  let ?out = "registered (split_Deploy 0 sample_groups sample_inputs)"
  let ?tok = "case snd (?out ! 3) of SToken t \<Rightarrow> t"
  have ok: "refused (split_Deploy 0 sample_groups sample_inputs) = []" by code_simp
  have "?out ! 3 = (''status'', SToken ?tok)" by code_simp
  moreover have "?out ! 3 \<in> set ?out" by (rule nth_mem) code_simp
  ultimately have member: "(''status'', SToken ?tok) \<in> set ?out" by (rule subst)
  have named: "\<forall>g rs. sample_groups (si_account_id sample_inputs) g = Some rs \<longrightarrow> (\<forall>(n, i)\<in>set rs. drop 6 i = n)" by (auto simp: sample_groups_def)
  have distinct: "distinct (map sz_name (si_zones sample_inputs))" "distinct (map sb_name (si_buckets sample_inputs))" by code_simp+
  have "child_grants sample_inputs ''status'' (on_zone [''DNS Write''] sample_zone_id)" by code_simp
  with split_least_privilege [OF ok member named] distinct obtain q where "policy_of (drop 6) (si_account_id sample_inputs) (on_zone [''DNS Write''] sample_zone_id) q"
    by blast
  then show ?thesis by (intro exI [of _ q]) (simp add: policy_of_def on_zone_def sample_inputs_def)
qed

text \<open>C30 What the split writes, the read side reads: every secret a split registers is under its child's
  name, and once the tokens have values its parse for the same account gives that child's token, for another account
  the mismatch.\<close>

theorem split_read_back:
  assumes "(n, SPut ns ps) \<in> set (registered (split_Deploy now listed inp))"
    and "\<forall>c. val c \<noteq> [] \<and> \<not> list_ex is_space (val c)"
    and "si_account_id inp \<noteq> [] \<and> \<not> list_ex is_space (si_account_id inp)"
  shows "\<exists>child. n = si_key_prefix inp @ ''/'' @ child \<and> ns = si_namespace inp \<and>
    ParseChild (Some (secret_data val idt ps)) a =
      (if a = si_account_id inp then Inr (val child) else Inl (ESEAccount (si_account_id inp)))"
proof -
  from written_children [OF assms(1)] obtain child rest where "n = si_key_prefix inp @ ''/'' @ child" "ns = si_namespace inp"
    "ps = account_properties inp child @ rest" by blast
  with assms(2,3) account_data_read [of val idt inp child rest] show ?thesis by (auto simp: ParseChild_def)
qed

definition sample_value :: "string \<Rightarrow> string" where
  "sample_value c = (if c = ''r2-parent-logs'' then ''token-logs'' else ''token'')"

theorem split_read_back_witness:
  "\<exists>child. ''account/r2-parent-logs'' = si_key_prefix sample_inputs @ ''/'' @ child \<and> ''cloudflare'' = si_namespace sample_inputs \<and>
    ParseChild (Some (secret_data sample_value (\<lambda>c. ''id'')
       (account_properties sample_inputs ''r2-parent-logs'' @ [(''token-id'', IdOf ''r2-parent-logs'')]))) ''acc'' =
      (if ''acc'' = si_account_id sample_inputs then Inr (sample_value child) else Inl (ESEAccount (si_account_id sample_inputs)))"
proof (rule split_read_back [where now = 0 and listed = sample_groups])
  show "(''account/r2-parent-logs'', SPut ''cloudflare'' (account_properties sample_inputs ''r2-parent-logs'' @ [(''token-id'', IdOf ''r2-parent-logs'')]))
      \<in> set (registered (split_Deploy 0 sample_groups sample_inputs))"
    unfolding registered_split_Deploy by (simp add: sample_inputs_def ChildR2Parent_def)
  have "\<not> list_ex is_space ''token-logs''" "\<not> list_ex is_space ''token''" by code_simp+
  then show "\<forall>c. sample_value c \<noteq> [] \<and> \<not> list_ex is_space (sample_value c)" unfolding sample_value_def by simp
  show "si_account_id sample_inputs \<noteq> [] \<and> \<not> list_ex is_space (si_account_id sample_inputs)" by code_simp
qed

end
