(* ===== verification/Preset_Table.thy ===== *)
theory Preset_Table imports Config_Validate Token_Split begin

text \<open>
  \<open>cloudflare/presets/presets.go\<close>: the table of credential presets. A row states a preset's kind,
  account and zones; the permission groups and their scopes follow from the kind. Here the data, the
  checks of a registry and its rows, which collect every problem, and the building of presets, with
  the name patterns of \<open>cloudflare/presettoken\<close> that the checks use. A duration is an integer of
  nanoseconds; a zero duration or an empty store is the zero value of the source.
\<close>

section \<open>Names\<close>

definition accountIDPattern :: rx where
  "accountIDPattern = rx_times 32 (Cls hex_char)"

definition presetPattern :: rx where
  "presetPattern = Cat (Cls slug_char) (rx_upto 62 (Cls lower_alnum_dash))"

definition ValidAccountID :: "string \<Rightarrow> bool" where
  "ValidAccountID s = rx_match accountIDPattern s"

definition ValidPresetName :: "string \<Rightarrow> bool" where
  "ValidPresetName s = rx_match presetPattern s"

definition grant_first :: "char \<Rightarrow> bool" where
  "grant_first c \<longleftrightarrow> is_upper_letter c \<or> is_lower_letter c \<or> is_digit c"

definition grant_char :: "char \<Rightarrow> bool" where
  "grant_char c \<longleftrightarrow> grant_first c \<or> c \<in> set '':._-''"

definition grantPattern :: rx where
  "grantPattern = Cat (Cls grant_first) (Star (Cls grant_char))"

section \<open>Kinds and permission groups\<close>

definition KindZone :: string where
  "KindZone = ''zone''"

definition KindServices :: string where
  "KindServices = ''services''"

definition KindStatus :: string where
  "KindStatus = ''status''"

definition KindDNS :: string where
  "KindDNS = ''dns''"

definition KindInsights :: string where
  "KindInsights = ''insights''"

definition KindInsightsAdmin :: string where
  "KindInsightsAdmin = ''insights-admin''"

definition KindR2Admin :: string where
  "KindR2Admin = ''r2-admin''"

definition KindBucketRW :: string where
  "KindBucketRW = ''bucket-rw''"

definition KindBucketWrite :: string where
  "KindBucketWrite = ''bucket-write''"

definition preset_kinds :: "string list" where
  "preset_kinds = [KindZone, KindServices, KindStatus, KindDNS, KindInsights, KindInsightsAdmin, KindR2Admin, KindBucketRW, KindBucketWrite]"

definition permCloudConnectorWrite :: string where
  "permCloudConnectorWrite = ''Cloud Connector Write''"

definition permAccountSecurityInsights :: string where
  "permAccountSecurityInsights = ''Account Security Center Insights Read''"

definition permZoneSecurityInsights :: string where
  "permZoneSecurityInsights = ''Zone Security Center Insights Read''"

definition permBotManagementRead :: string where
  "permBotManagementRead = ''Bot Management Read''"

definition permAnalyticsRead :: string where
  "permAnalyticsRead = ''Analytics Read''"

definition permZoneWAFRead :: string where
  "permZoneWAFRead = ''Zone WAF Read''"

definition permAccountSecurityInsightsWrite :: string where
  "permAccountSecurityInsightsWrite = ''Account Security Center Insights Write''"

definition permZoneSecurityInsightsWrite :: string where
  "permZoneSecurityInsightsWrite = ''Zone Security Center Insights Write''"

definition permBucketItemRead :: string where
  "permBucketItemRead = ''Workers R2 Storage Bucket Item Read''"

definition permBucketItemWrite :: string where
  "permBucketItemWrite = ''Workers R2 Storage Bucket Item Write''"

definition StoreNone :: string where
  "StoreNone = ''none''"

definition StoreExternal :: string where
  "StoreExternal = ''external''"

definition presets_DefaultLifetime :: int where
  "presets_DefaultLifetime = 3600 * second"

section \<open>Data\<close>

record preset_account =
  pa_name :: string
  pa_id :: string

record preset_zone =
  pz_name :: string
  pz_id :: string
  pz_account :: string
  pz_security_txt_only :: bool

record preset_registry =
  pr_accounts :: "preset_account list"
  pr_zones :: "preset_zone list"

record preset_row =
  prw_name :: string
  prw_kind :: string
  prw_account :: string
  prw_description :: string
  prw_zones :: "string list"
  prw_waf_zones :: "string list"
  prw_bot_management_zones :: "string list"
  prw_cloud_connector_zones :: "string list"
  prw_dns_only_zones :: "string list"
  prw_bucket :: string
  prw_jurisdiction :: string
  prw_grants :: "string list"
  prw_lifetime :: int
  prw_rotation :: int
  prw_store :: string

record preset =
  ps_name :: string
  ps_kind :: string
  ps_account :: string
  ps_account_id :: string
  ps_description :: string
  ps_policies :: "token_policy list"
  ps_r2 :: bool
  ps_lifetime :: int
  ps_rotation :: int
  ps_store :: string
  ps_grants :: "string list"

definition PresetName :: "string \<Rightarrow> string \<Rightarrow> string" where
  "PresetName accountName kind = accountName @ ''-'' @ kind"

definition Description :: "string \<Rightarrow> string \<Rightarrow> string" where
  "Description accountName kind =
     (if kind = KindZone then ''Pulumi: zone settings, SSL, cache, WAF, bot management and zone records of the '' @ accountName @ '' account; no tunnels, no R2''
      else if kind = KindServices then ''Pulumi: tunnels and their DNS records of the '' @ accountName @ '' account''
      else if kind = KindStatus then ''Pulumi: tunnel and DNS of the '' @ accountName @ '' account'' @ [CHR 0x27] @ ''s status service''
      else if kind = KindDNS then ''Pulumi: DNS records in the '' @ accountName @ '' account''
      else if kind = KindInsights then ''Read-only security insights, bot management, analytics and WAF settings of the '' @ accountName @ '' account''
      else if kind = KindInsightsAdmin then ''Security insights of the '' @ accountName @ '' account, read and dismiss; nothing else''
      else if kind = KindR2Admin then ''Pulumi: R2 buckets of the '' @ accountName @ '' account''
      else if kind = KindBucketRW then ''R2 objects of one bucket in the '' @ accountName @ '' account, read and write''
      else if kind = KindBucketWrite then ''R2 objects of one bucket in the '' @ accountName @ '' account, write''
      else [])"

definition plain_row :: "string \<Rightarrow> string \<Rightarrow> string list \<Rightarrow> preset_row" where
  "plain_row accountName kind grants =
     \<lparr>prw_name = PresetName accountName kind, prw_kind = kind, prw_account = accountName, prw_description = [], prw_zones = [],
      prw_waf_zones = [], prw_bot_management_zones = [], prw_cloud_connector_zones = [], prw_dns_only_zones = [],
      prw_bucket = [], prw_jurisdiction = [], prw_grants = grants, prw_lifetime = 0, prw_rotation = 0, prw_store = []\<rparr>"

definition StandardRows :: "string \<Rightarrow> string list \<Rightarrow> string list \<Rightarrow> string list \<Rightarrow> preset_row list" where
  "StandardRows accountName grants wafZones botZones = [
     plain_row accountName KindStatus grants,
     plain_row accountName KindR2Admin grants,
     (plain_row accountName KindZone grants)\<lparr>prw_waf_zones := wafZones, prw_bot_management_zones := botZones\<rparr>,
     plain_row accountName KindServices grants]"

section \<open>Lookups\<close>

text \<open>\<open>slices.SortFunc\<close> may reorder zones of one name; the model keeps their order. A checked registry
  has no two such zones.\<close>

definition zonesOf :: "preset_registry \<Rightarrow> string \<Rightarrow> preset_zone list" where
  "zonesOf r accountName = sort_key pz_name (filter (\<lambda>z. pz_account z = accountName) (pr_zones r))"

definition reg_account :: "preset_registry \<Rightarrow> string \<Rightarrow> preset_account option" where
  "reg_account r name = find (\<lambda>a. pa_name a = name) (pr_accounts r)"

definition zero_zone :: preset_zone where
  "zero_zone = \<lparr>pz_name = [], pz_id = [], pz_account = [], pz_security_txt_only = False\<rparr>"

definition zoneNamed :: "preset_registry \<Rightarrow> string \<Rightarrow> preset_zone" where
  "zoneNamed r name = (case find (\<lambda>z. pz_name z = name) (pr_zones r) of None \<Rightarrow> zero_zone | Some z \<Rightarrow> z)"

definition idsOf :: "preset_zone list \<Rightarrow> string list" where
  "idsOf zones = map pz_id zones"

datatype pending_error = PendingOf (pending_zone: string) (pending_account: string)

definition PendingZone :: "preset_registry \<Rightarrow> string \<Rightarrow> pending_error option" where
  "PendingZone r accountName = first_err (\<lambda>z. fail_if (pz_id z = []) (PendingOf (pz_name z) accountName)) (zonesOf r accountName)"

definition Row_lifetime :: "preset_row \<Rightarrow> int" where
  "Row_lifetime row = (if 0 < prw_lifetime row then prw_lifetime row else presets_DefaultLifetime)"

section \<open>The checks of a row\<close>

datatype row_problem =
    RPName
  | RPKind string
  | RPAccount string
  | RPForeign string string
  | RPTwice string string
  | RPNotAllowed string string
  | RPZonesKind
  | RPNoZone
  | RPTxtDNS string
  | RPNoManaged
  | RPZoneLists
  | RPTxtOnly string string
  | RPBucket string
  | RPJurisdiction string
  | RPBucketKind
  | RPGrant string
  | RPLifetime int
  | RPRotationNone
  | RPRotation int
  | RPStore string

definition problem_if :: "bool \<Rightarrow> 'e \<Rightarrow> 'e list" where
  "problem_if b e = (if b then [e] else [])"

text \<open>\<open>checkList\<close>: one pass over the names, each at most one problem.\<close>

fun check_list :: "string list \<Rightarrow> (string \<Rightarrow> bool) \<Rightarrow> string \<Rightarrow> string list \<Rightarrow> string list \<Rightarrow> row_problem list" where
  "check_list inAccount allowed field seen [] = []"
| "check_list inAccount allowed field seen (n # ns) =
     (if n \<notin> set inAccount then [RPForeign field n]
      else if n \<in> set seen then [RPTwice field n]
      else if \<not> allowed n then [RPNotAllowed field n]
      else []) @ check_list inAccount allowed field (n # seen) ns"

definition zone_kinds :: "string list" where
  "zone_kinds = [KindZone, KindServices, KindStatus, KindDNS, KindInsights, KindInsightsAdmin]"

definition managed_only :: "preset_registry \<Rightarrow> string \<Rightarrow> string list \<Rightarrow> row_problem list" where
  "managed_only reg field names =
     concat (map (\<lambda>n. problem_if (pz_security_txt_only (zoneNamed reg n)) (RPTxtOnly field n)) names)"

definition zoned_problems :: "preset_registry \<Rightarrow> preset_row \<Rightarrow> row_problem list" where
  "zoned_problems reg row =
     (let inAccount = map pz_name (zonesOf reg (prw_account row)); zoned = prw_kind row \<in> set zone_kinds in
      problem_if (\<not> zoned \<and> prw_zones row \<noteq> []) RPZonesKind @
      (if zoned then check_list inAccount (\<lambda>_. True) ''Zones'' [] (prw_zones row) @ problem_if (prw_zones row = [] \<and> inAccount = []) RPNoZone
       else []) @
      (if prw_kind row \<in> {KindDNS, KindStatus, KindServices}
       then concat (map (\<lambda>n. problem_if (pz_security_txt_only (zoneNamed reg n)) (RPTxtDNS n)) (prw_zones row)) @
         problem_if (prw_zones row = [] \<and> length (filter (\<lambda>z. \<not> pz_security_txt_only z) (zonesOf reg (prw_account row))) = 0) RPNoManaged
       else []))"

definition zone_list_problems :: "preset_registry \<Rightarrow> preset_row \<Rightarrow> row_problem list" where
  "zone_list_problems reg row =
     (let inAccount = map pz_name (zonesOf reg (prw_account row));
          covered = (\<lambda>n. prw_zones row = [] \<or> n \<in> set (prw_zones row)) in
      if prw_kind row \<noteq> KindZone
      then problem_if (prw_waf_zones row \<noteq> [] \<or> prw_bot_management_zones row \<noteq> [] \<or> prw_cloud_connector_zones row \<noteq> [] \<or> prw_dns_only_zones row \<noteq> [])
        RPZoneLists
      else check_list inAccount covered ''WAFZones'' [] (prw_waf_zones row) @
        check_list inAccount covered ''BotManagementZones'' [] (prw_bot_management_zones row) @
        check_list inAccount (\<lambda>_. True) ''CloudConnectorZones'' [] (prw_cloud_connector_zones row) @
        check_list inAccount (\<lambda>n. \<not> covered n) ''DNSOnlyZones'' [] (prw_dns_only_zones row) @
        managed_only reg ''WAFZones'' (prw_waf_zones row) @
        managed_only reg ''BotManagementZones'' (prw_bot_management_zones row) @
        managed_only reg ''CloudConnectorZones'' (prw_cloud_connector_zones row) @
        managed_only reg ''DNSOnlyZones'' (prw_dns_only_zones row))"

definition bucket_problems :: "preset_row \<Rightarrow> row_problem list" where
  "bucket_problems row =
     (let bucketed = prw_kind row = KindBucketRW \<or> prw_kind row = KindBucketWrite in
      if bucketed \<and> \<not> ValidBucketName (prw_bucket row) then [RPBucket (prw_bucket row)]
      else if bucketed \<and> \<not> ValidJurisdiction (prw_jurisdiction row) then [RPJurisdiction (prw_jurisdiction row)]
      else if \<not> bucketed \<and> (prw_bucket row \<noteq> [] \<or> prw_jurisdiction row \<noteq> []) then [RPBucketKind]
      else [])"

definition store_problems :: "preset_row \<Rightarrow> row_problem list" where
  "store_problems row =
     (if prw_store row = [] \<or> prw_store row = StoreNone then problem_if (prw_rotation row \<noteq> 0) RPRotationNone
      else if prw_store row = StoreExternal
      then problem_if (prw_rotation row \<le> 0 \<or> Row_lifetime row \<le> prw_rotation row) (RPRotation (prw_rotation row))
      else [RPStore (prw_store row)])"

definition validateRow :: "preset_registry \<Rightarrow> preset_row \<Rightarrow> row_problem list" where
  "validateRow reg row =
     problem_if (\<not> ValidPresetName (prw_name row)) RPName @
     problem_if (prw_kind row \<notin> set preset_kinds) (RPKind (prw_kind row)) @
     (if reg_account reg (prw_account row) = None then [RPAccount (prw_account row)]
      else zoned_problems reg row @ zone_list_problems reg row @ bucket_problems row @
        concat (map (\<lambda>g. problem_if (\<not> rx_match grantPattern g) (RPGrant g)) (prw_grants row)) @
        problem_if (prw_lifetime row < 0) (RPLifetime (prw_lifetime row)) @
        store_problems row)"

section \<open>The checks of a registry\<close>

datatype preset_problem =
    PPAccountNoName
  | PPAccountTwice string
  | PPAccountID string string
  | PPZoneNoName
  | PPZoneTwice string
  | PPZoneAccount string string
  | PPRowTwice nat
  | PPRow nat row_problem

fun account_problems :: "string list \<Rightarrow> preset_account list \<Rightarrow> preset_problem list" where
  "account_problems seen [] = []"
| "account_problems seen (a # as) =
     (if pa_name a = [] then [PPAccountNoName]
      else if pa_name a \<in> set seen then [PPAccountTwice (pa_name a)]
      else if \<not> ValidAccountID (pa_id a) then [PPAccountID (pa_name a) (pa_id a)]
      else []) @ account_problems (pa_name a # seen) as"

fun zone_problems :: "string list \<Rightarrow> string list \<Rightarrow> preset_zone list \<Rightarrow> preset_problem list" where
  "zone_problems accounts seen [] = []"
| "zone_problems accounts seen (z # zs) =
     (if pz_name z = [] then [PPZoneNoName]
      else if pz_name z \<in> set seen then [PPZoneTwice (pz_name z)]
      else if pz_account z \<notin> set accounts then [PPZoneAccount (pz_name z) (pz_account z)]
      else []) @ zone_problems accounts (pz_name z # seen) zs"

fun row_problems :: "preset_registry \<Rightarrow> string list \<Rightarrow> nat \<Rightarrow> preset_row list \<Rightarrow> preset_problem list" where
  "row_problems reg seen i [] = []"
| "row_problems reg seen i (row # rows) =
     problem_if (prw_name row \<in> set seen) (PPRowTwice i) @ map (PPRow i) (validateRow reg row) @
     row_problems reg (prw_name row # seen) (Suc i) rows"

definition Presets_Validate :: "preset_registry \<Rightarrow> preset_row list \<Rightarrow> preset_problem list" where
  "Presets_Validate reg rows =
     account_problems [] (pr_accounts reg) @
     zone_problems (map pa_name (pr_accounts reg)) [] (pr_zones reg) @
     row_problems reg [] 0 rows"

section \<open>Building\<close>

datatype build_error =
    BEProblems "preset_problem list"
  | BEPending pending_error
  | BEPolicies string token_error
  | BENoAccount string

definition row_zones :: "preset_registry \<Rightarrow> preset_row \<Rightarrow> preset_zone list" where
  "row_zones reg row = (if prw_zones row \<noteq> [] then map (zoneNamed reg) (prw_zones row) else zonesOf reg (prw_account row))"

definition zone_id_named :: "preset_registry \<Rightarrow> string \<Rightarrow> string" where
  "zone_id_named reg n = pz_id (zoneNamed reg n)"

definition kind_policies :: "preset_registry \<Rightarrow> preset_row \<Rightarrow> token_policy list" where
  "kind_policies reg row =
     (let kind = prw_kind row; zones = row_zones reg row;
          managedIDs = idsOf (filter (\<lambda>z. \<not> pz_security_txt_only z) zones);
          txtIDs = idsOf (filter pz_security_txt_only zones); ids = idsOf zones in
      if kind = KindZone then
        ZonePolicies managedIDs @
        map (\<lambda>n. on_zone [''Zone WAF Write''] (zone_id_named reg n)) (prw_waf_zones row) @
        BotManagementPolicies (map (zone_id_named reg) (prw_bot_management_zones row)) @
        map (\<lambda>n. on_zone [permCloudConnectorWrite] (zone_id_named reg n)) (prw_cloud_connector_zones row) @
        map (\<lambda>n. on_zone [PermDNSWrite] (zone_id_named reg n)) (prw_dns_only_zones row) @
        SecurityTxtPolicies txtIDs
      else if kind = KindStatus \<or> kind = KindServices then StatusPolicies managedIDs
      else if kind = KindDNS then map (on_zone [PermDNSWrite]) managedIDs
      else if kind = KindInsights then
        whole_account [permAccountSecurityInsights] #
        map (on_zone [permZoneSecurityInsights, permBotManagementRead, permAnalyticsRead, permZoneWAFRead]) ids
      else if kind = KindInsightsAdmin then
        whole_account [permAccountSecurityInsightsWrite, permAccountSecurityInsights] #
        map (on_zone [permZoneSecurityInsightsWrite, permZoneSecurityInsights]) ids
      else if kind = KindR2Admin then R2AdminPolicies
      else if kind = KindBucketRW then
        [\<lparr>tp_groups = [permBucketItemRead, permBucketItemWrite], tp_scope = Some (R2BucketScope (prw_jurisdiction row) (prw_bucket row))\<rparr>]
      else if kind = KindBucketWrite then
        [\<lparr>tp_groups = [permBucketItemWrite], tp_scope = Some (R2BucketScope (prw_jurisdiction row) (prw_bucket row))\<rparr>]
      else [])"

definition row_preset :: "preset_registry \<Rightarrow> preset_row \<Rightarrow> preset" where
  "row_preset reg row =
     \<lparr>ps_name = prw_name row, ps_kind = prw_kind row, ps_account = prw_account row,
      ps_account_id = (case reg_account reg (prw_account row) of None \<Rightarrow> [] | Some a \<Rightarrow> pa_id a),
      ps_description = (if prw_description row = [] then Description (prw_account row) (prw_kind row) else prw_description row),
      ps_policies = kind_policies reg row,
      ps_r2 = (prw_kind row = KindBucketRW \<or> prw_kind row = KindBucketWrite),
      ps_lifetime = Row_lifetime row, ps_rotation = prw_rotation row,
      ps_store = (if prw_store row = [] then StoreNone else prw_store row), ps_grants = prw_grants row\<rparr>"

definition check_config :: "preset \<Rightarrow> child_config" where
  "check_config p = \<lparr>cc_name = ''prototype-'' @ ps_name p, cc_rotation = [], cc_expires_on = [], cc_policies = ps_policies p\<rparr>"

definition build :: "int \<Rightarrow> preset_registry \<Rightarrow> preset_row \<Rightarrow> build_error + preset" where
  "build now reg row =
     unless (map_option BEPending (PendingZone reg (prw_account row)))
       (let p = row_preset reg row in
        unless (map_option (BEPolicies (ps_name p)) (ChildToken_Validate now (check_config p))) (Inr p))"

definition refuse_problems :: "preset_problem list \<Rightarrow> build_error option" where
  "refuse_problems errs = fail_if (errs \<noteq> []) (BEProblems errs)"

definition Presets_Build :: "int \<Rightarrow> preset_registry \<Rightarrow> preset_row list \<Rightarrow> build_error + preset list" where
  "Presets_Build now reg rows = unless (refuse_problems (Presets_Validate reg rows)) (collect (build now reg) rows)"

definition BuildReady :: "int \<Rightarrow> preset_registry \<Rightarrow> preset_row list \<Rightarrow> build_error + preset list" where
  "BuildReady now reg rows =
     unless (refuse_problems (Presets_Validate reg rows))
       (collect (build now reg) (filter (\<lambda>row. PendingZone reg (prw_account row) = None) rows))"

definition Presets_ForAccount :: "int \<Rightarrow> preset_registry \<Rightarrow> preset_row list \<Rightarrow> string \<Rightarrow> build_error + preset list" where
  "Presets_ForAccount now reg rows accountName =
     unless (fail_if (reg_account reg accountName = None) (BENoAccount accountName))
       (unless (map_option BEPending (PendingZone reg accountName))
         (Presets_Build now reg (filter (\<lambda>row. prw_account row = accountName) rows)))"

definition Named :: "preset list \<Rightarrow> string \<Rightarrow> preset option" where
  "Named table name = find (\<lambda>p. ps_name p = name) table"

definition AccountOf :: "preset_registry \<Rightarrow> string \<Rightarrow> string" where
  "AccountOf reg preset_name = foldl (\<lambda>best a.
     if has_prefix preset_name (pa_name a @ ''-'') \<and> length best < length (pa_name a) then pa_name a else best) [] (pr_accounts reg)"

section \<open>What a preset is written with\<close>

record policy_document =
  pd_groups :: "string list"
  pd_resources :: "string gomap"

definition preset_document :: "preset \<Rightarrow> nat \<times> token_policy \<Rightarrow> (nat \<times> key_error) + policy_document" where
  "preset_document p = (\<lambda>(i, pol). case ResourceKey (tp_scope pol) (ps_account_id p) of
      Inl e \<Rightarrow> Inl (i, e)
    | Inr key \<Rightarrow> Inr \<lparr>pd_groups = tp_groups pol, pd_resources = [(key, ''*'')]\<rparr>)"

definition Documents :: "preset \<Rightarrow> (nat \<times> key_error) + policy_document list" where
  "Documents p = collect (preset_document p) (enumerate 0 (ps_policies p))"

record preset_request =
  rq_preset :: string
  rq_r2 :: bool
  rq_account_id :: string
  rq_policies :: "token_policy list"

definition Request :: "preset \<Rightarrow> preset_request" where
  "Request p = \<lparr>rq_preset = ps_name p, rq_r2 = ps_r2 p, rq_account_id = ps_account_id p, rq_policies = ps_policies p\<rparr>"

end
