(* ===== verification/Preset_Rights.thy ===== *)
theory Preset_Rights imports Preset_Table begin

text \<open>
  What the table of presets grants: the exact set of rights of each preset by its kind, when the
  table can be built, and how the presets of one account relate to the whole table.
\<close>

section \<open>What the checks accept\<close>

lemma problem_if_Nil [simp]: "problem_if b e = [] \<longleftrightarrow> \<not> b"
  by (simp add: problem_if_def)

lemma check_list_Nil:
  "check_list inAccount allowed field seen ns = [] \<longleftrightarrow>
     distinct ns \<and> set ns \<inter> set seen = {} \<and> set ns \<subseteq> set inAccount \<and> (\<forall>n\<in>set ns. allowed n)"
  by (induction inAccount allowed field seen ns rule: check_list.induct) auto

lemma account_problems_Nil:
  "account_problems seen as = [] \<longleftrightarrow>
     [] \<notin> set (map pa_name as) \<and> distinct (map pa_name as) \<and> set (map pa_name as) \<inter> set seen = {} \<and> list_all (\<lambda>a. ValidAccountID (pa_id a)) as"
  by (induction seen as rule: account_problems.induct) auto

lemma zone_problems_Nil:
  "zone_problems accounts seen zs = [] \<longleftrightarrow>
     [] \<notin> set (map pz_name zs) \<and> distinct (map pz_name zs) \<and> set (map pz_name zs) \<inter> set seen = {} \<and> list_all (\<lambda>z. pz_account z \<in> set accounts) zs"
  by (induction accounts seen zs rule: zone_problems.induct) auto

lemma row_problems_Nil:
  "row_problems reg seen i rows = [] \<longleftrightarrow>
     distinct (map prw_name rows) \<and> set (map prw_name rows) \<inter> set seen = {} \<and> (\<forall>row\<in>set rows. validateRow reg row = [])"
  by (induction reg seen i rows rule: row_problems.induct) auto

lemma Presets_Validate_Nil:
  "Presets_Validate reg rows = [] \<longleftrightarrow>
     account_problems [] (pr_accounts reg) = [] \<and> zone_problems (map pa_name (pr_accounts reg)) [] (pr_zones reg) = [] \<and>
     distinct (map prw_name rows) \<and> (\<forall>row\<in>set rows. validateRow reg row = [])"
  by (simp add: Presets_Validate_def row_problems_Nil)

lemma zones_distinct: "Presets_Validate reg rows = [] \<Longrightarrow> distinct (map pz_name (pr_zones reg))"
  by (simp add: Presets_Validate_Nil zone_problems_Nil)

lemma set_zonesOf [simp]: "set (zonesOf reg a) = {z \<in> set (pr_zones reg). pz_account z = a}"
  by (simp add: zonesOf_def)

lemma find_distinct_key: "distinct (map f xs) \<Longrightarrow> x \<in> set xs \<Longrightarrow> find (\<lambda>y. f y = f x) xs = Some x"
  by (induction xs) (auto simp: image_iff)

lemma zoneNamed_eq: "distinct (map pz_name (pr_zones reg)) \<Longrightarrow> z \<in> set (pr_zones reg) \<Longrightarrow> zoneNamed reg (pz_name z) = z"
  by (simp add: zoneNamed_def find_distinct_key)

section \<open>The rights of a preset\<close>

definition granted :: "token_policy list \<Rightarrow> token_scope \<Rightarrow> string \<Rightarrow> bool" where
  "granted ps scope g \<longleftrightarrow> (\<exists>p\<in>set ps. tp_scope p = Some scope \<and> g \<in> set (tp_groups p))"

lemma granted_simps [simp]:
  "\<not> granted [] scope g"
  "granted (ps @ qs) scope g \<longleftrightarrow> granted ps scope g \<or> granted qs scope g"
  "granted (whole_account gs # ps) scope g \<longleftrightarrow> scope = WholeAccountScope \<and> g \<in> set gs \<or> granted ps scope g"
  "granted (map (on_zone gs) ids) scope g \<longleftrightarrow> g \<in> set gs \<and> (\<exists>i\<in>set ids. scope = ZoneScope i)"
  by (auto simp: granted_def whole_account_def on_zone_def)

lemma granted_zones [simp]:
  "granted (map (\<lambda>n. on_zone gs (f n)) ns) scope g \<longleftrightarrow> g \<in> set gs \<and> (\<exists>n\<in>set ns. scope = ZoneScope (f n))"
  by (auto simp: granted_def on_zone_def)

text \<open>The specification: the groups of each kind on the account, on a zone, on a bucket.\<close>

definition account_rights :: "string \<Rightarrow> string list" where
  "account_rights kind =
     (if kind = ''status'' \<or> kind = ''services'' then [''Cloudflare Tunnel Write'']
      else if kind = ''insights'' then [''Account Security Center Insights Read'']
      else if kind = ''insights-admin'' then [''Account Security Center Insights Write'', ''Account Security Center Insights Read'']
      else if kind = ''r2-admin'' then [''Workers R2 Storage Write'']
      else [])"

definition row_covers :: "preset_row \<Rightarrow> preset_zone \<Rightarrow> bool" where
  "row_covers row z \<longleftrightarrow> prw_zones row = [] \<or> pz_name z \<in> set (prw_zones row)"

definition zone_rights :: "preset_row \<Rightarrow> preset_zone \<Rightarrow> string list" where
  "zone_rights row z =
     (let kind = prw_kind row; managed = \<not> pz_security_txt_only z; n = pz_name z in
      if kind = ''zone'' then
        (if row_covers row z
         then if managed then [''DNS Write'', ''SSL and Certificates Write'', ''Zone Settings Write'', ''Cache Settings Write'', ''Config Settings Write'']
           else [''Zone Settings Write'']
         else []) @
        (if n \<in> set (prw_waf_zones row) then [''Zone WAF Write''] else []) @
        (if n \<in> set (prw_bot_management_zones row) then [''Bot Management Write''] else []) @
        (if n \<in> set (prw_cloud_connector_zones row) then [''Cloud Connector Write''] else []) @
        (if n \<in> set (prw_dns_only_zones row) then [''DNS Write''] else [])
      else if \<not> row_covers row z then []
      else if kind \<in> {''status'', ''services'', ''dns''} then (if managed then [''DNS Write''] else [])
      else if kind = ''insights'' then [''Zone Security Center Insights Read'', ''Bot Management Read'', ''Analytics Read'', ''Zone WAF Read'']
      else if kind = ''insights-admin'' then [''Zone Security Center Insights Write'', ''Zone Security Center Insights Read'']
      else [])"

definition bucket_rights :: "string \<Rightarrow> string list" where
  "bucket_rights kind =
     (if kind = ''bucket-rw'' then [''Workers R2 Storage Bucket Item Read'', ''Workers R2 Storage Bucket Item Write'']
      else if kind = ''bucket-write'' then [''Workers R2 Storage Bucket Item Write''] else [])"

definition preset_rights :: "preset_registry \<Rightarrow> preset_row \<Rightarrow> token_scope \<Rightarrow> string \<Rightarrow> bool" where
  "preset_rights reg row scope g = (case scope of
      WholeAccountScope \<Rightarrow> g \<in> set (account_rights (prw_kind row))
    | ZoneScope i \<Rightarrow> list_ex (\<lambda>z. pz_account z = prw_account row \<and> pz_id z = i \<and> g \<in> set (zone_rights row z)) (pr_zones reg)
    | R2BucketScope j b \<Rightarrow> j = prw_jurisdiction row \<and> b = prw_bucket row \<and> g \<in> set (bucket_rights (prw_kind row)))"

section \<open>Building grants exactly the rights\<close>

lemmas preset_kind_defs = KindZone_def KindServices_def KindStatus_def KindDNS_def KindInsights_def KindInsightsAdmin_def
  KindR2Admin_def KindBucketRW_def KindBucketWrite_def

lemmas preset_perm_defs = permCloudConnectorWrite_def permAccountSecurityInsights_def permZoneSecurityInsights_def
  permBotManagementRead_def permAnalyticsRead_def permZoneWAFRead_def permAccountSecurityInsightsWrite_def
  permZoneSecurityInsightsWrite_def permBucketItemRead_def permBucketItemWrite_def PermDNSWrite_def PermCloudflareTunnelWrite_def
  PermBotManagementWrite_def PermZoneSettingsWrite_def

lemmas preset_policy_defs = ZonePolicies_def StatusPolicies_def BotManagementPolicies_def SecurityTxtPolicies_def R2AdminPolicies_def

definition zones_in :: "preset_registry \<Rightarrow> preset_row \<Rightarrow> string list \<Rightarrow> bool" where
  "zones_in reg row ns \<longleftrightarrow> set ns \<subseteq> pz_name ` set (zonesOf reg (prw_account row))"

lemma named_zones:
  assumes "distinct (map pz_name (pr_zones reg))" and "zones_in reg row ns"
  shows "zoneNamed reg ` set ns = {z \<in> set (pr_zones reg). pz_account z = prw_account row \<and> pz_name z \<in> set ns}"
proof (intro subset_antisym subsetI)
  fix z assume "z \<in> zoneNamed reg ` set ns"
  then obtain n where n: "n \<in> set ns" "z = zoneNamed reg n" by blast
  with assms(2) obtain z' where "z' \<in> set (pr_zones reg)" "pz_account z' = prw_account row" "pz_name z' = n"
    unfolding zones_in_def by auto
  with zoneNamed_eq [OF assms(1) this(1)] n show "z \<in> {z \<in> set (pr_zones reg). pz_account z = prw_account row \<and> pz_name z \<in> set ns}" by simp
next
  fix z assume "z \<in> {z \<in> set (pr_zones reg). pz_account z = prw_account row \<and> pz_name z \<in> set ns}"
  with zoneNamed_eq [OF assms(1), of z] show "z \<in> zoneNamed reg ` set ns" by (metis (no_types, lifting) imageI mem_Collect_eq)
qed

lemma row_zones_set:
  assumes "distinct (map pz_name (pr_zones reg))" and "zones_in reg row (prw_zones row)"
  shows "set (row_zones reg row) = {z \<in> set (pr_zones reg). pz_account z = prw_account row \<and> row_covers row z}"
  using named_zones [OF assms] by (auto simp: row_zones_def row_covers_def)

lemma ex_named_id:
  assumes "distinct (map pz_name (pr_zones reg))" and "zones_in reg row ns"
  shows "(\<exists>n\<in>set ns. scope = ZoneScope (zone_id_named reg n)) \<longleftrightarrow>
    (\<exists>z\<in>set (pr_zones reg). pz_account z = prw_account row \<and> pz_name z \<in> set ns \<and> scope = ZoneScope (pz_id z))"
proof -
  have "(\<exists>n\<in>set ns. scope = ZoneScope (zone_id_named reg n)) \<longleftrightarrow> (\<exists>z\<in>zoneNamed reg ` set ns. scope = ZoneScope (pz_id z))"
    by (simp add: zone_id_named_def)
  then show ?thesis unfolding named_zones [OF assms] by blast
qed

text \<open>What a checked row satisfies.\<close>

lemma validateRow_facts:
  assumes "validateRow reg row = []"
  shows "prw_kind row \<in> set preset_kinds" and "reg_account reg (prw_account row) \<noteq> None"
    and "zoned_problems reg row = []" and "zone_list_problems reg row = []" and "bucket_problems row = []"
  using assms by (auto simp: validateRow_def split: if_splits)

lemma checked_zones:
  assumes "validateRow reg row = []"
  shows "zones_in reg row (prw_zones row)"
proof (cases "prw_kind row \<in> set zone_kinds")
  case True
  from validateRow_facts(3) [OF assms] have "check_list (map pz_name (zonesOf reg (prw_account row))) (\<lambda>_. True) ''Zones'' [] (prw_zones row) = []"
    unfolding zoned_problems_def Let_def append_is_Nil_conv by (simp only: True if_True append_is_Nil_conv)
  then show ?thesis unfolding check_list_Nil zones_in_def by simp
next
  case False
  with validateRow_facts(3) [OF assms] have "prw_zones row = []"
    unfolding zoned_problems_def Let_def append_is_Nil_conv problem_if_Nil by blast
  then show ?thesis by (simp add: zones_in_def)
qed

lemma checked_zone_lists:
  assumes "validateRow reg row = []" and "prw_kind row = KindZone"
    and "ns \<in> {prw_waf_zones row, prw_bot_management_zones row, prw_cloud_connector_zones row, prw_dns_only_zones row}"
  shows "zones_in reg row ns"
proof -
  from validateRow_facts(4) [OF assms(1)] obtain allowed field where
    "check_list (map pz_name (zonesOf reg (prw_account row))) allowed field [] ns = []"
    unfolding zone_list_problems_def Let_def assms(2) append_is_Nil_conv not_not simp_thms if_False using assms(3) by blast
  then show ?thesis unfolding check_list_Nil zones_in_def by simp
qed

lemma ex_row_ids:
  assumes "distinct (map pz_name (pr_zones reg))" and "validateRow reg row = []"
  shows "(\<exists>i\<in>set (idsOf (filter P (row_zones reg row))). scope = ZoneScope i) \<longleftrightarrow>
    (\<exists>z\<in>set (pr_zones reg). pz_account z = prw_account row \<and> row_covers row z \<and> P z \<and> scope = ZoneScope (pz_id z))"
  using row_zones_set [OF assms(1) checked_zones(1) [OF assms(2)]] by (auto simp: idsOf_def)

lemma in_if_list: "g \<in> set (if b then xs else ys) \<longleftrightarrow> (if b then g \<in> set xs else g \<in> set ys)" "(if b then P else g \<in> set []) \<longleftrightarrow> b \<and> P"
  by simp_all

lemma zone_rights_zone:
  assumes "prw_kind row = ''zone''"
  shows "g \<in> set (zone_rights row z) \<longleftrightarrow>
    row_covers row z \<and> \<not> pz_security_txt_only z \<and> g \<in> set [''DNS Write'', ''SSL and Certificates Write'', ''Zone Settings Write'', ''Cache Settings Write'', ''Config Settings Write''] \<or>
    pz_name z \<in> set (prw_waf_zones row) \<and> g \<in> set [''Zone WAF Write''] \<or>
    pz_name z \<in> set (prw_bot_management_zones row) \<and> g \<in> set [''Bot Management Write''] \<or>
    pz_name z \<in> set (prw_cloud_connector_zones row) \<and> g \<in> set [''Cloud Connector Write''] \<or>
    pz_name z \<in> set (prw_dns_only_zones row) \<and> g \<in> set [''DNS Write''] \<or>
    row_covers row z \<and> pz_security_txt_only z \<and> g \<in> set [''Zone Settings Write'']"
  unfolding zone_rights_def Let_def assms simp_thms if_True set_append Un_iff in_if_list by (cases "pz_security_txt_only z") (simp_all only: simp_thms if_True if_False, blast+)

lemma zone_rights_dns:
  assumes "prw_kind row \<in> {''status'', ''services'', ''dns''}"
  shows "g \<in> set (zone_rights row z) \<longleftrightarrow> row_covers row z \<and> \<not> pz_security_txt_only z \<and> g = ''DNS Write''"
  using assms by (cases "row_covers row z"; cases "pz_security_txt_only z") (auto simp: zone_rights_def)

lemma zone_rights_insights:
  assumes "prw_kind row = ''insights''"
  shows "zone_rights row z = (if row_covers row z
    then [''Zone Security Center Insights Read'', ''Bot Management Read'', ''Analytics Read'', ''Zone WAF Read''] else [])"
  using assms by (simp add: zone_rights_def)

lemma zone_rights_insights_admin:
  assumes "prw_kind row = ''insights-admin''"
  shows "zone_rights row z = (if row_covers row z
    then [''Zone Security Center Insights Write'', ''Zone Security Center Insights Read''] else [])"
  using assms by (simp add: zone_rights_def)

lemma zone_rights_none:
  assumes "prw_kind row \<in> {''r2-admin'', ''bucket-rw'', ''bucket-write''}"
  shows "zone_rights row z = []"
proof -
  from assms have "prw_kind row \<noteq> ''zone''" "prw_kind row \<notin> {''status'', ''services'', ''dns''}" "prw_kind row \<noteq> ''insights''" "prw_kind row \<noteq> ''insights-admin''"
    by auto
  then show ?thesis unfolding zone_rights_def Let_def by (simp only: if_False if_cancel)
qed

lemma zone_kind_rights:
  assumes "distinct (map pz_name (pr_zones reg))" and "validateRow reg row = []" and "prw_kind row = KindZone"
  shows "granted (kind_policies reg row) scope g \<longleftrightarrow>
    (\<exists>z\<in>set (pr_zones reg). pz_account z = prw_account row \<and> g \<in> set (zone_rights row z) \<and> scope = ZoneScope (pz_id z))"
proof -
  note ids = ex_row_ids [OF assms(1,2)]
  note named = ex_named_id [OF assms(1) checked_zone_lists [OF assms(2,3)]]
  have named_ids: "(\<exists>i\<in>set (map (zone_id_named reg) ns). scope = ZoneScope i) \<longleftrightarrow> (\<exists>n\<in>set ns. scope = ZoneScope (zone_id_named reg n))" for ns
    by simp
  have "prw_kind row = ''zone''" using assms(3) by (simp add: KindZone_def)
  note spec = zone_rights_zone [OF this]
  show ?thesis
    unfolding kind_policies_def Let_def assms(3) preset_policy_defs simp_thms if_True granted_simps granted_zones named_ids ids spec preset_perm_defs
      named [of "prw_waf_zones row", simplified] named [of "prw_bot_management_zones row", simplified]
      named [of "prw_cloud_connector_zones row", simplified] named [of "prw_dns_only_zones row", simplified]
    by blast
qed

text \<open>The policies of each kind, and the rights they grant.\<close>

lemma preset_rights_cases:
  "preset_rights reg row scope g \<longleftrightarrow>
     scope = WholeAccountScope \<and> g \<in> set (account_rights (prw_kind row)) \<or>
     (\<exists>z\<in>set (pr_zones reg). pz_account z = prw_account row \<and> g \<in> set (zone_rights row z) \<and> scope = ZoneScope (pz_id z)) \<or>
     scope = R2BucketScope (prw_jurisdiction row) (prw_bucket row) \<and> g \<in> set (bucket_rights (prw_kind row))"
  unfolding preset_rights_def list_ex_iff by (cases scope) auto

lemma kind_policies_cases:
  "prw_kind row = ''status'' \<or> prw_kind row = ''services'' \<Longrightarrow>
     kind_policies reg row = StatusPolicies (idsOf (filter (\<lambda>z. \<not> pz_security_txt_only z) (row_zones reg row)))"
  "prw_kind row = ''dns'' \<Longrightarrow> kind_policies reg row = map (on_zone [''DNS Write'']) (idsOf (filter (\<lambda>z. \<not> pz_security_txt_only z) (row_zones reg row)))"
  "prw_kind row = ''insights'' \<Longrightarrow> kind_policies reg row = whole_account [''Account Security Center Insights Read''] #
     map (on_zone [''Zone Security Center Insights Read'', ''Bot Management Read'', ''Analytics Read'', ''Zone WAF Read'']) (idsOf (row_zones reg row))"
  "prw_kind row = ''insights-admin'' \<Longrightarrow> kind_policies reg row = whole_account [''Account Security Center Insights Write'', ''Account Security Center Insights Read''] #
     map (on_zone [''Zone Security Center Insights Write'', ''Zone Security Center Insights Read'']) (idsOf (row_zones reg row))"
  "prw_kind row = ''r2-admin'' \<Longrightarrow> kind_policies reg row = [whole_account [''Workers R2 Storage Write'']]"
  "prw_kind row = ''bucket-rw'' \<Longrightarrow> kind_policies reg row =
     [\<lparr>tp_groups = [''Workers R2 Storage Bucket Item Read'', ''Workers R2 Storage Bucket Item Write''], tp_scope = Some (R2BucketScope (prw_jurisdiction row) (prw_bucket row))\<rparr>]"
  "prw_kind row = ''bucket-write'' \<Longrightarrow> kind_policies reg row =
     [\<lparr>tp_groups = [''Workers R2 Storage Bucket Item Write''], tp_scope = Some (R2BucketScope (prw_jurisdiction row) (prw_bucket row))\<rparr>]"
  by (auto simp: kind_policies_def Let_def preset_policy_defs preset_kind_defs preset_perm_defs)

lemma account_bucket_rights:
  "prw_kind row \<in> {''status'', ''services''} \<Longrightarrow> account_rights (prw_kind row) = [''Cloudflare Tunnel Write''] \<and> bucket_rights (prw_kind row) = []"
  "prw_kind row \<in> {''zone'', ''dns''} \<Longrightarrow> account_rights (prw_kind row) = [] \<and> bucket_rights (prw_kind row) = []"
  by (auto simp: account_rights_def bucket_rights_def)

text \<open>On zones: \<open>picked\<close> is what \<open>ex_row_ids\<close> says the ids of a part of the row's zones are.\<close>

definition on_zones :: "preset_registry \<Rightarrow> preset_row \<Rightarrow> (preset_zone \<Rightarrow> bool) \<Rightarrow> token_scope \<Rightarrow> bool" where
  "on_zones reg row P scope \<longleftrightarrow> (\<exists>z\<in>set (pr_zones reg). pz_account z = prw_account row \<and> P z \<and> scope = ZoneScope (pz_id z))"

lemma on_zones_const: "on_zones reg row (\<lambda>z. P z \<and> b) scope \<longleftrightarrow> b \<and> on_zones reg row P scope"
  by (auto simp: on_zones_def)

lemma preset_rights_split:
  assumes "account_rights (prw_kind row) = as" and "bucket_rights (prw_kind row) = bs" and "\<And>z. g \<in> set (zone_rights row z) \<longleftrightarrow> P z \<and> g \<in> set zs"
  shows "preset_rights reg row scope g \<longleftrightarrow>
     scope = WholeAccountScope \<and> g \<in> set as \<or> g \<in> set zs \<and> on_zones reg row P scope \<or>
     scope = R2BucketScope (prw_jurisdiction row) (prw_bucket row) \<and> g \<in> set bs"
  unfolding preset_rights_cases assms on_zones_def by blast

lemma granted_row_zones:
  assumes "distinct (map pz_name (pr_zones reg))" and "validateRow reg row = []"
  shows "granted (map (on_zone gs) (idsOf (filter P (row_zones reg row)))) scope g \<longleftrightarrow> g \<in> set gs \<and> on_zones reg row (\<lambda>z. row_covers row z \<and> P z) scope"
    and "granted (map (on_zone gs) (idsOf (row_zones reg row))) scope g \<longleftrightarrow> g \<in> set gs \<and> on_zones reg row (row_covers row) scope"
  using ex_row_ids [OF assms, of P] ex_row_ids [OF assms, of "\<lambda>_. True"] by (simp_all add: on_zones_def)

lemma kind_policies_rights:
  assumes "distinct (map pz_name (pr_zones reg))" and "validateRow reg row = []"
  shows "granted (kind_policies reg row) scope g \<longleftrightarrow> preset_rights reg row scope g"
proof -
  note zones = granted_row_zones [OF assms]
  note lists = account_rights_def bucket_rights_def
  from validateRow_facts(1) [OF assms(2)] consider
    "prw_kind row = ''zone''" | "prw_kind row = ''status'' \<or> prw_kind row = ''services''" | "prw_kind row = ''dns''" | "prw_kind row = ''insights''"
    | "prw_kind row = ''insights-admin''" | "prw_kind row = ''r2-admin''" | "prw_kind row = ''bucket-rw''" | "prw_kind row = ''bucket-write''"
    unfolding preset_kinds_def preset_kind_defs list.set insert_iff empty_iff by blast
  then show ?thesis
  proof cases
    case 1
    then have "prw_kind row = KindZone" by (simp only: KindZone_def)
    moreover have "account_rights (prw_kind row) = []" "bucket_rights (prw_kind row) = []" using 1 by (simp_all add: lists)
    ultimately show ?thesis using zone_kind_rights [OF assms] unfolding preset_rights_cases by simp
  next
    case 2
    then have "account_rights (prw_kind row) = [''Cloudflare Tunnel Write'']" "bucket_rights (prw_kind row) = []" by (elim disjE; simp add: lists)+
    moreover from 2 have "prw_kind row \<in> {''status'', ''services'', ''dns''}" by blast
    then have "g \<in> set (zone_rights row z) \<longleftrightarrow> (row_covers row z \<and> \<not> pz_security_txt_only z) \<and> g \<in> set [''DNS Write'']" for z
      using zone_rights_dns by simp
    ultimately have "preset_rights reg row scope g \<longleftrightarrow> scope = WholeAccountScope \<and> g \<in> set [''Cloudflare Tunnel Write''] \<or>
        g \<in> set [''DNS Write''] \<and> on_zones reg row (\<lambda>z. row_covers row z \<and> \<not> pz_security_txt_only z) scope \<or>
        scope = R2BucketScope (prw_jurisdiction row) (prw_bucket row) \<and> g \<in> set []" by (rule preset_rights_split)
    then show ?thesis unfolding kind_policies_cases(1) [OF 2] StatusPolicies_def PermCloudflareTunnelWrite_def PermDNSWrite_def granted_simps(3) zones(1)
      by simp
  next
    case 3
    then have "account_rights (prw_kind row) = []" "bucket_rights (prw_kind row) = []" by (simp_all add: lists)
    moreover from 3 have "prw_kind row \<in> {''status'', ''services'', ''dns''}" by blast
    then have "g \<in> set (zone_rights row z) \<longleftrightarrow> (row_covers row z \<and> \<not> pz_security_txt_only z) \<and> g \<in> set [''DNS Write'']" for z
      using zone_rights_dns by simp
    ultimately have "preset_rights reg row scope g \<longleftrightarrow> scope = WholeAccountScope \<and> g \<in> set [] \<or>
        g \<in> set [''DNS Write''] \<and> on_zones reg row (\<lambda>z. row_covers row z \<and> \<not> pz_security_txt_only z) scope \<or>
        scope = R2BucketScope (prw_jurisdiction row) (prw_bucket row) \<and> g \<in> set []" by (rule preset_rights_split)
    then show ?thesis unfolding kind_policies_cases(2) [OF 3] zones(1) by simp
  next
    case 4
    then have "account_rights (prw_kind row) = [''Account Security Center Insights Read'']" "bucket_rights (prw_kind row) = []" by (simp_all add: lists)
    moreover have "g \<in> set (zone_rights row z) \<longleftrightarrow> row_covers row z \<and>
        g \<in> set [''Zone Security Center Insights Read'', ''Bot Management Read'', ''Analytics Read'', ''Zone WAF Read'']" for z
      unfolding zone_rights_insights [OF 4] in_if_list by simp
    ultimately show ?thesis unfolding kind_policies_cases(3) [OF 4] granted_simps(3) zones(2) by (subst preset_rights_split [where as = "[''Account Security Center Insights Read'']" and bs = "[]" and P = "row_covers row" and
        zs = "[''Zone Security Center Insights Read'', ''Bot Management Read'', ''Analytics Read'', ''Zone WAF Read'']"]) simp_all
  next
    case 5
    then have "account_rights (prw_kind row) = [''Account Security Center Insights Write'', ''Account Security Center Insights Read'']" "bucket_rights (prw_kind row) = []"
      by (simp_all add: lists)
    moreover have "g \<in> set (zone_rights row z) \<longleftrightarrow> row_covers row z \<and> g \<in> set [''Zone Security Center Insights Write'', ''Zone Security Center Insights Read'']" for z
      unfolding zone_rights_insights_admin [OF 5] in_if_list by simp
    ultimately show ?thesis unfolding kind_policies_cases(4) [OF 5] granted_simps(3) zones(2) by (subst preset_rights_split [where as = "[''Account Security Center Insights Write'', ''Account Security Center Insights Read'']" and bs = "[]" and P = "row_covers row" and
        zs = "[''Zone Security Center Insights Write'', ''Zone Security Center Insights Read'']"]) simp_all
  next
    case 6
    then have "prw_kind row \<in> {''r2-admin'', ''bucket-rw'', ''bucket-write''}" by blast
    note none = zone_rights_none [OF this]
    show ?thesis unfolding kind_policies_cases(5) [OF 6] preset_rights_cases none by (simp add: lists 6)
  next
    case 7
    then have "prw_kind row \<in> {''r2-admin'', ''bucket-rw'', ''bucket-write''}" by blast
    note none = zone_rights_none [OF this]
    show ?thesis unfolding kind_policies_cases(6) [OF 7] preset_rights_cases none by (auto simp: lists 7 granted_def)
  next
    case 8
    then have "prw_kind row \<in> {''r2-admin'', ''bucket-rw'', ''bucket-write''}" by blast
    note none = zone_rights_none [OF this]
    show ?thesis unfolding kind_policies_cases(7) [OF 8] preset_rights_cases none by (auto simp: lists 8 granted_def)
  qed
qed

section \<open>When a preset can be built\<close>

definition grantable :: "string \<Rightarrow> bool" where
  "grantable g \<longleftrightarrow> g \<noteq> [] \<and> g \<noteq> permissionAccountAPITokensRead \<and> g \<noteq> permissionAccountAPITokensWrite"

lemma account_rights_grantable: "list_all grantable (account_rights kind)"
  by (simp add: account_rights_def grantable_def permissionAccountAPITokensRead_def permissionAccountAPITokensWrite_def)

lemma bucket_rights_grantable: "list_all grantable (bucket_rights kind)"
  by (simp add: bucket_rights_def grantable_def permissionAccountAPITokensRead_def permissionAccountAPITokensWrite_def)

lemma zone_rights_grantable: "list_all grantable (zone_rights row z)"
  by (simp add: zone_rights_def Let_def grantable_def permissionAccountAPITokensRead_def permissionAccountAPITokensWrite_def)

lemma preset_rights_grantable: "preset_rights reg row scope g \<Longrightarrow> grantable g"
  using account_rights_grantable bucket_rights_grantable zone_rights_grantable
  unfolding preset_rights_cases list_all_iff by blast

text \<open>Every policy of a preset has groups and a scope.\<close>

definition formed :: "token_policy \<Rightarrow> bool" where
  "formed p \<longleftrightarrow> tp_groups p \<noteq> [] \<and> tp_scope p \<noteq> None"

lemma formed_simps [simp]:
  "list_all formed (map (on_zone gs) ids) \<longleftrightarrow> gs \<noteq> [] \<or> ids = []"
  "list_all formed (map (\<lambda>n. on_zone gs (f n)) ns) \<longleftrightarrow> gs \<noteq> [] \<or> ns = []"
  "list_all formed (map (on_zone gs \<circ> f) ns) \<longleftrightarrow> gs \<noteq> [] \<or> ns = []"
  "formed (whole_account gs) \<longleftrightarrow> gs \<noteq> []"
  "formed \<lparr>tp_groups = gs, tp_scope = sc\<rparr> \<longleftrightarrow> gs \<noteq> [] \<and> sc \<noteq> None"
  by (auto simp: list_all_iff formed_def whole_account_def on_zone_def)

lemma kind_policies_formed: "list_all formed (kind_policies reg row)"
  unfolding kind_policies_def Let_def preset_policy_defs by simp

lemma first_err_enumerate_all:
  "first_err validate_policy (enumerate n ps) = None \<longleftrightarrow> (\<forall>p\<in>set ps. validate_policy (0, p) = None)"
  unfolding first_err_enumerate_None validate_policy_None by (rule all_set_conv_all_nth [symmetric])

lemma formed_policies_valid:
  assumes "list_all formed ps" and "\<And>scope g. granted ps scope g \<Longrightarrow> grantable g"
  shows "(\<forall>p\<in>set ps. validate_policy (0, p) = None) \<longleftrightarrow> (\<forall>scope g. granted ps scope g \<longrightarrow> scope_validate scope = None)"
proof (intro iffI ballI allI impI)
  fix scope g assume "\<forall>p\<in>set ps. validate_policy (0, p) = None" "granted ps scope g"
  then show "scope_validate scope = None" unfolding granted_def validate_policy_None by fastforce
next
  fix p assume ok: "\<forall>scope g. granted ps scope g \<longrightarrow> scope_validate scope = None" and p: "p \<in> set ps"
  with assms(1) obtain s where s: "tp_scope p = Some s" and ne: "tp_groups p \<noteq> []" unfolding list_all_iff formed_def by blast
  with p have all: "granted ps s g" if "g \<in> set (tp_groups p)" for g using that unfolding granted_def by blast
  then have "scope_validate s = None" using ok ne by (meson last_in_set)
  moreover have "\<forall>g\<in>set (tp_groups p). grantable g" using all assms(2) by blast
  ultimately show "validate_policy (0, p) = None" using s ne unfolding validate_policy_None grantable_def by blast
qed

lemma bucket_scope_valid:
  assumes "validateRow reg row = []" and "bucket_rights (prw_kind row) \<noteq> []"
  shows "scope_validate (R2BucketScope (prw_jurisdiction row) (prw_bucket row)) = None"
proof -
  have "prw_kind row = KindBucketRW \<or> prw_kind row = KindBucketWrite"
    using assms(2) by (auto simp: bucket_rights_def preset_kind_defs split: if_splits)
  with validateRow_facts(5) [OF assms(1)] show ?thesis by (simp add: bucket_problems_def scope_validate_def Let_def split: if_splits)
qed

lemma row_has_zones:
  assumes "validateRow reg row = []" and "prw_kind row \<in> set zone_kinds"
  shows "row_zones reg row \<noteq> []"
proof (cases "prw_zones row = []")
  case True
  from validateRow_facts(3) [OF assms(1)] have "map pz_name (zonesOf reg (prw_account row)) \<noteq> []"
    unfolding zoned_problems_def Let_def append_is_Nil_conv by (simp only: assms(2) if_True append_is_Nil_conv problem_if_Nil True) simp
  with True show ?thesis by (simp add: row_zones_def)
qed (simp add: row_zones_def)

lemma row_has_managed:
  assumes "validateRow reg row = []" and kind: "prw_kind row \<in> {KindDNS, KindStatus, KindServices}"
  shows "filter (\<lambda>z. \<not> pz_security_txt_only z) (row_zones reg row) \<noteq> []"
proof -
  from validateRow_facts(3) [OF assms(1)] have facts:
    "concat (map (\<lambda>n. problem_if (pz_security_txt_only (zoneNamed reg n)) (RPTxtDNS n)) (prw_zones row)) = []"
    "\<not> (prw_zones row = [] \<and> length (filter (\<lambda>z. \<not> pz_security_txt_only z) (zonesOf reg (prw_account row))) = 0)"
    unfolding zoned_problems_def Let_def append_is_Nil_conv by (simp_all only: kind if_True append_is_Nil_conv problem_if_Nil simp_thms)
  show ?thesis
  proof (cases "prw_zones row")
    case Nil
    with facts(2) show ?thesis by (simp add: row_zones_def)
  next
    case (Cons n ns)
    with facts(1) show ?thesis by (simp add: row_zones_def)
  qed
qed

lemma kind_policies_not_Nil:
  assumes "validateRow reg row = []"
  shows "kind_policies reg row \<noteq> []"
proof -
  from validateRow_facts(1) [OF assms] consider "prw_kind row = KindZone" | "prw_kind row = KindDNS"
    | "prw_kind row \<in> {KindStatus, KindServices, KindInsights, KindInsightsAdmin, KindR2Admin, KindBucketRW, KindBucketWrite}"
    unfolding preset_kinds_def list.set by blast
  then show ?thesis
  proof cases
    case 1
    then have "row_zones reg row \<noteq> []" by (intro row_has_zones [OF assms]) (simp add: zone_kinds_def)
    then have "filter (\<lambda>z. \<not> pz_security_txt_only z) (row_zones reg row) \<noteq> [] \<or> filter pz_security_txt_only (row_zones reg row) \<noteq> []"
      by (cases "row_zones reg row") auto
    with 1 show ?thesis by (auto simp: kind_policies_def Let_def ZonePolicies_def SecurityTxtPolicies_def idsOf_def)
  next
    case 2
    then have "filter (\<lambda>z. \<not> pz_security_txt_only z) (row_zones reg row) \<noteq> []" by (intro row_has_managed [OF assms]) simp
    moreover from 2 have "prw_kind row = ''dns''" by (simp only: KindDNS_def)
    ultimately show ?thesis unfolding kind_policies_cases(2) [OF \<open>prw_kind row = ''dns''\<close>] by (simp add: idsOf_def)
  next
    case 3
    then show ?thesis by (auto simp: kind_policies_def Let_def preset_kind_defs StatusPolicies_def R2AdminPolicies_def)
  qed
qed

definition zone_ids_ok :: "preset_registry \<Rightarrow> preset_row \<Rightarrow> bool" where
  "zone_ids_ok reg row \<longleftrightarrow>
     list_all (\<lambda>z. pz_account z = prw_account row \<and> zone_rights row z \<noteq> [] \<longrightarrow> zoneIDValid (pz_id z)) (pr_zones reg)"

lemma check_config_valid:
  assumes "distinct (map pz_name (pr_zones reg))" and "validateRow reg row = []"
  shows "ChildToken_Validate now (check_config (row_preset reg row)) = None \<longleftrightarrow> zone_ids_ok reg row"
proof -
  note rights = kind_policies_rights [OF assms]
  have "ChildToken_Validate now (check_config (row_preset reg row)) = None \<longleftrightarrow> (\<forall>p\<in>set (kind_policies reg row). validate_policy (0, p) = None)"
    unfolding ChildToken_Validate_def check_config_def row_preset_def using kind_policies_not_Nil [OF assms(2)]
    by (simp add: first_err_enumerate_all rotationValid_def)
  also have "\<dots> \<longleftrightarrow> (\<forall>scope g. preset_rights reg row scope g \<longrightarrow> scope_validate scope = None)"
    using formed_policies_valid [OF kind_policies_formed, of reg row] preset_rights_grantable unfolding rights by blast
  also have "\<dots> \<longleftrightarrow> zone_ids_ok reg row"
  proof
    assume valid: "\<forall>scope g. preset_rights reg row scope g \<longrightarrow> scope_validate scope = None"
    have "zoneIDValid (pz_id z)" if "z \<in> set (pr_zones reg)" "pz_account z = prw_account row" "zone_rights row z \<noteq> []" for z
    proof -
      from that have "preset_rights reg row (ZoneScope (pz_id z)) (hd (zone_rights row z))"
        unfolding preset_rights_cases using hd_in_set [of "zone_rights row z"] by blast
      with valid have "scope_validate (ZoneScope (pz_id z)) = None" by blast
      then show ?thesis by (simp add: scope_validate_def)
    qed
    then show "zone_ids_ok reg row" by (simp add: zone_ids_ok_def list_all_iff)
  next
    assume ok: "zone_ids_ok reg row"
    show "\<forall>scope g. preset_rights reg row scope g \<longrightarrow> scope_validate scope = None"
    proof (intro allI impI)
      fix scope g assume "preset_rights reg row scope g"
      then consider "scope = WholeAccountScope"
        | z where "z \<in> set (pr_zones reg)" "pz_account z = prw_account row" "zone_rights row z \<noteq> []" "scope = ZoneScope (pz_id z)"
        | "scope = R2BucketScope (prw_jurisdiction row) (prw_bucket row)" "bucket_rights (prw_kind row) \<noteq> []"
        unfolding preset_rights_cases by (metis empty_iff empty_set)
      then show "scope_validate scope = None"
      proof cases
        case 2
        with ok have "zoneIDValid (pz_id z)" by (simp add: zone_ids_ok_def list_all_iff)
        with 2 show ?thesis by (simp add: scope_validate_def)
      next
        case 3
        with bucket_scope_valid [OF assms(2)] show ?thesis by simp
      qed (simp add: scope_validate_def)
    qed
  qed
  finally show ?thesis .
qed

lemma build_Inr:
  assumes "distinct (map pz_name (pr_zones reg))" and "validateRow reg row = []"
  shows "build now reg row = Inr p \<longleftrightarrow> PendingZone reg (prw_account row) = None \<and> zone_ids_ok reg row \<and> p = row_preset reg row"
  unfolding build_def using check_config_valid [OF assms] by (auto simp: Let_def)

lemma Presets_Build_Inr:
  "Presets_Build now reg rows = Inr ps \<longleftrightarrow> Presets_Validate reg rows = [] \<and>
     (\<forall>row\<in>set rows. PendingZone reg (prw_account row) = None \<and> zone_ids_ok reg row) \<and> ps = map (row_preset reg) rows"
proof (cases "Presets_Validate reg rows = []")
  case True
  then have rows: "\<forall>row\<in>set rows. validateRow reg row = []" by (simp add: Presets_Validate_Nil)
  note each = build_Inr [OF zones_distinct [OF True]]
  have "collect (build now reg) rows = Inr ps \<longleftrightarrow>
      (\<forall>row\<in>set rows. PendingZone reg (prw_account row) = None \<and> zone_ids_ok reg row) \<and> ps = map (row_preset reg) rows"
    using rows
  proof (induction rows arbitrary: ps)
    case (Cons row rows)
    from Cons.prems have "validateRow reg row = []" "\<forall>row\<in>set rows. validateRow reg row = []" by simp_all
    with Cons.IH each [OF this(1)] show ?case by (auto split: sum.splits)
  qed auto
  with True show ?thesis by (simp add: Presets_Build_def refuse_problems_def fail_if_def)
qed (simp add: Presets_Build_def refuse_problems_def fail_if_def)

text \<open>A checked registry with one account more or less: whether a row builds depends on its account alone.\<close>

lemma BuildReady_Inr:
  "BuildReady now reg rows = Inr ps \<longleftrightarrow> Presets_Validate reg rows = [] \<and>
     (\<forall>row\<in>set rows. PendingZone reg (prw_account row) = None \<longrightarrow> zone_ids_ok reg row) \<and>
     ps = map (row_preset reg) (filter (\<lambda>row. PendingZone reg (prw_account row) = None) rows)"
proof (cases "Presets_Validate reg rows = []")
  case True
  define ready where "ready = filter (\<lambda>row. PendingZone reg (prw_account row) = None) rows"
  have "Presets_Validate reg ready = []"
    using True distinct_map_filter [of prw_name rows "\<lambda>row. PendingZone reg (prw_account row) = None"]
    by (simp add: Presets_Validate_Nil ready_def)
  then have "Presets_Build now reg ready = collect (build now reg) ready" by (simp add: Presets_Build_def refuse_problems_def fail_if_def)
  moreover have "BuildReady now reg rows = collect (build now reg) ready" using True by (simp add: BuildReady_def refuse_problems_def ready_def fail_if_def)
  ultimately have "BuildReady now reg rows = Inr ps \<longleftrightarrow> Presets_Build now reg ready = Inr ps" by simp
  with True \<open>Presets_Validate reg ready = []\<close> show ?thesis unfolding Presets_Build_Inr by (auto simp: ready_def)
qed (simp add: BuildReady_def refuse_problems_def fail_if_def)

lemma ForAccount_ready:
  assumes "BuildReady now reg rows = Inr ps" and "reg_account reg a \<noteq> None" and "PendingZone reg a = None"
  shows "Presets_ForAccount now reg rows a = Inr (filter (\<lambda>p. ps_account p = a) ps)"
proof -
  from assms(1) have ok: "Presets_Validate reg rows = []" and ids: "\<forall>row\<in>set rows. PendingZone reg (prw_account row) = None \<longrightarrow> zone_ids_ok reg row"
    and ps: "ps = map (row_preset reg) (filter (\<lambda>row. PendingZone reg (prw_account row) = None) rows)" unfolding BuildReady_Inr by blast+
  have account: "ps_account (row_preset reg row) = prw_account row" for row by (simp add: row_preset_def)
  define mine where "mine = filter (\<lambda>row. prw_account row = a) rows"
  have "Presets_Validate reg mine = []" using ok distinct_map_filter [of prw_name rows "\<lambda>row. prw_account row = a"]
    by (simp add: Presets_Validate_Nil mine_def)
  with ids assms(3) have "Presets_Build now reg mine = Inr (map (row_preset reg) mine)" unfolding Presets_Build_Inr by (simp add: mine_def)
  moreover have "map (row_preset reg) mine = filter (\<lambda>p. ps_account p = a) ps"
    unfolding ps mine_def filter_map o_def account filter_filter
    by (rule arg_cong [where f = "map (row_preset reg)"], rule filter_cong) (use assms(3) in auto)
  ultimately show ?thesis using assms(2,3) by (simp add: Presets_ForAccount_def mine_def)
qed

section \<open>The account in a preset's name\<close>

text \<open>\<open>AccountOf\<close> takes the longest account name before a hyphen, so a kind with a hyphen in its name can
  be read as part of a longer account name.\<close>

lemma AccountOf_ambiguous:
  "AccountOf \<lparr>pr_accounts = [\<lparr>pa_name = ''acme'', pa_id = []\<rparr>, \<lparr>pa_name = ''acme-r2'', pa_id = []\<rparr>], pr_zones = []\<rparr>
     (PresetName ''acme'' KindR2Admin) = ''acme-r2''"
  by code_simp

text \<open>One account's malformed id refuses the presets of every other account.\<close>

lemma ForAccount_other_account:
  "Presets_ForAccount 0 \<lparr>pr_accounts = [\<lparr>pa_name = ''acme'', pa_id = replicate 32 CHR ''0''\<rparr>, \<lparr>pa_name = ''other'', pa_id = ''x''\<rparr>], pr_zones = []\<rparr>
     [plain_row ''acme'' KindR2Admin []] ''acme'' = Inl (BEProblems [PPAccountID ''other'' ''x''])"
  by code_simp

section \<open>Properties\<close>

definition sample_preset_registry :: preset_registry where
  "sample_preset_registry =
     \<lparr>pr_accounts = [\<lparr>pa_name = ''acme'', pa_id = replicate 32 CHR ''a''\<rparr>],
      pr_zones = [\<lparr>pz_name = ''acme.dev'', pz_id = replicate 32 CHR ''1'', pz_account = ''acme'', pz_security_txt_only = False\<rparr>,
        \<lparr>pz_name = ''acme.org'', pz_id = replicate 32 CHR ''2'', pz_account = ''acme'', pz_security_txt_only = True\<rparr>]\<rparr>"

definition sample_preset_rows :: "preset_row list" where
  "sample_preset_rows = StandardRows ''acme'' [] [''acme.dev''] []"

lemma sample_presets_build:
  "Presets_Build 0 sample_preset_registry sample_preset_rows = Inr (map (row_preset sample_preset_registry) sample_preset_rows)"
proof -
  have "Presets_Validate sample_preset_registry sample_preset_rows = []" by code_simp
  moreover have "list_all (\<lambda>row. PendingZone sample_preset_registry (prw_account row) = None \<and> zone_ids_ok sample_preset_registry row) sample_preset_rows"
    by code_simp
  ultimately show ?thesis unfolding Presets_Build_Inr list_all_iff by blast
qed

text \<open>C26 A preset grants exactly the rights of its kind: nothing on the account but its kind's group, on a
  zone of its account exactly the groups the row and the zone's management call for (a zone managed for
  its security.txt alone gets no DNS and no settings but that one group), on its bucket its kind's, and
  on nothing else anything.\<close>

theorem Presets_rights_exact:
  assumes "Presets_Build now reg rows = Inr ps" and "i < length rows"
  shows "i < length ps \<and> ps_name (ps ! i) = prw_name (rows ! i) \<and>
    (granted (ps_policies (ps ! i)) scope g \<longleftrightarrow> preset_rights reg (rows ! i) scope g)"
proof -
  from assms(1) have ok: "Presets_Validate reg rows = []" and ps: "ps = map (row_preset reg) rows" unfolding Presets_Build_Inr by blast+
  from ok assms(2) have "validateRow reg (rows ! i) = []" by (simp add: Presets_Validate_Nil)
  from kind_policies_rights [OF zones_distinct [OF ok] this] assms(2) show ?thesis by (simp add: ps row_preset_def)
qed

theorem Presets_rights_exact_witness:
  "\<not> granted (ps_policies (row_preset sample_preset_registry (sample_preset_rows ! 2))) (ZoneScope (replicate 32 CHR ''2'')) ''DNS Write''"
proof -
  have "2 < length sample_preset_rows" by code_simp
  from Presets_rights_exact [OF sample_presets_build this, of "ZoneScope (replicate 32 CHR ''2'')" "''DNS Write''"]
  have "granted (ps_policies (row_preset sample_preset_registry (sample_preset_rows ! 2))) (ZoneScope (replicate 32 CHR ''2'')) ''DNS Write'' \<longleftrightarrow>
      preset_rights sample_preset_registry (sample_preset_rows ! 2) (ZoneScope (replicate 32 CHR ''2'')) ''DNS Write''"
    using \<open>2 < length sample_preset_rows\<close> by simp
  moreover have "\<not> preset_rights sample_preset_registry (sample_preset_rows ! 2) (ZoneScope (replicate 32 CHR ''2'')) ''DNS Write''" by code_simp
  ultimately show ?thesis by simp
qed

text \<open>C35 The table builds exactly when the registry and the rows have no problem, no account with a row has
  a zone without an id, and every zone a row grants anything on has an id of Cloudflare's shape: the
  check of the built policies refuses nothing else.\<close>

theorem Presets_Build_accepts:
  "(\<exists>ps. Presets_Build now reg rows = Inr ps) \<longleftrightarrow> Presets_Validate reg rows = [] \<and>
     list_all (\<lambda>row. PendingZone reg (prw_account row) = None \<and> zone_ids_ok reg row) rows"
  unfolding Presets_Build_Inr list_all_iff by blast

text \<open>The presets of one account, asked for alone, are the part of the table of all ready accounts that
  is that account's.\<close>

theorem Presets_ForAccount_part:
  assumes "BuildReady now reg rows = Inr ps" and "reg_account reg a \<noteq> None" and "PendingZone reg a = None"
  shows "Presets_ForAccount now reg rows a = Inr (filter (\<lambda>p. ps_account p = a) ps)"
  using assms by (rule ForAccount_ready)

theorem Presets_ForAccount_part_witness:
  "\<exists>ps. Presets_ForAccount 0 sample_preset_registry sample_preset_rows ''acme'' = Inr (filter (\<lambda>p. ps_account p = ''acme'') ps)"
proof -
  have "PendingZone sample_preset_registry ''acme'' = None" "reg_account sample_preset_registry ''acme'' \<noteq> None" by code_simp+
  moreover have "BuildReady 0 sample_preset_registry sample_preset_rows =
      Inr (map (row_preset sample_preset_registry) (filter (\<lambda>row. PendingZone sample_preset_registry (prw_account row) = None) sample_preset_rows))"
    using sample_presets_build unfolding BuildReady_Inr Presets_Build_Inr by blast
  ultimately show ?thesis using Presets_ForAccount_part by blast
qed

end
