(* ===== verification/Go_Path.thy ===== *)
theory Go_Path imports Go_Regexp begin

text \<open>
  The part of \<open>path\<close> and \<open>path/filepath\<close> (on Unix) and of \<open>strconv\<close> that the sources use: the cleaned form of
  a path and \<open>Atoi\<close>.
\<close>

section \<open>Clean paths\<close>

text \<open>The loop of \<open>Clean\<close> over the elements of a path; the stack is what is written, the last element first.\<close>

fun clean_parts :: "bool \<Rightarrow> string list \<Rightarrow> string list \<Rightarrow> string list" where
  "clean_parts rooted stack [] = rev stack"
| "clean_parts rooted stack (c # cs) =
     (if c = [] \<or> c = ''.'' then clean_parts rooted stack cs
      else if c = ''..'' then
        (case stack of
           [] \<Rightarrow> clean_parts rooted (if rooted then [] else [c]) cs
         | d # ds \<Rightarrow> clean_parts rooted (if d = ''..'' then c # stack else ds) cs)
      else clean_parts rooted (c # stack) cs)"

definition IsAbs :: "string \<Rightarrow> bool" where
  "IsAbs p \<longleftrightarrow> has_prefix p ''/''"

definition path_Clean :: "string \<Rightarrow> string" where
  "path_Clean p =
     (if p = [] then ''.''
      else let s = str_join ''/'' (clean_parts (IsAbs p) [] (split_on CHR ''/'' p)) in
        if IsAbs p then CHR ''/'' # s else if s = [] then ''.'' else s)"

text \<open>The elements of a cleaned absolute path are plain names.\<close>

definition plain_name :: "string \<Rightarrow> bool" where
  "plain_name c \<longleftrightarrow> c \<noteq> [] \<and> c \<noteq> ''.'' \<and> c \<noteq> ''..'' \<and> CHR ''/'' \<notin> set c"

lemma clean_parts_plain:
  assumes "list_all (\<lambda>c. CHR ''/'' \<notin> set c) cs" and "list_all plain_name stack"
  shows "list_all plain_name (clean_parts True stack cs)"
  using assms
proof (induction cs arbitrary: stack)
  case Nil
  then show ?case by simp
next
  case (Cons c cs)
  note hyps = Cons
  consider "c = [] \<or> c = ''.''" | "c = ''..''" | "plain_name c" using Cons.prems(1) by (auto simp: plain_name_def)
  then show ?case
  proof cases
    case 2
    show ?thesis
    proof (cases stack)
      case (Cons d ds)
      then have "plain_name d" "list_all plain_name ds" using hyps(3) by simp_all
      moreover have "d \<noteq> ''..''" using \<open>plain_name d\<close> by (simp add: plain_name_def)
      ultimately show ?thesis using hyps(1) [of ds] hyps(2) 2 by (simp add: Cons)
    qed (use hyps 2 in simp)
  next
    case 3
    then have "\<not> (c = [] \<or> c = ''.'')" "c \<noteq> ''..''" by (simp_all add: plain_name_def)
    then have step: "clean_parts True stack (c # cs) = clean_parts True (c # stack) cs" by (simp only: clean_parts.simps if_False)
    show ?thesis unfolding step using Cons.IH [of "c # stack"] Cons.prems 3 by simp
  qed (use Cons.IH Cons.prems in auto)
qed

lemma clean_parts_fixed:
  assumes "list_all plain_name cs"
  shows "clean_parts rooted stack cs = rev stack @ cs"
  using assms
proof (induction cs arbitrary: stack)
  case (Cons c cs)
  then have c: "\<not> (c = [] \<or> c = ''.'')" "c \<noteq> ''..''" by (simp_all add: plain_name_def)
  show ?case unfolding clean_parts.simps if_False if_not_P [OF c(1)] if_not_P [OF c(2)] using Cons.IH [of "c # stack"] Cons.prems by simp
qed simp

lemma split_join_plain:
  assumes "cs \<noteq> []" and "list_all (\<lambda>c. CHR ''/'' \<notin> set c) cs"
  shows "split_on CHR ''/'' (str_join ''/'' cs) = cs"
  using assms
proof (induction cs rule: induct_list012)
  case (2 w)
  then show ?case by (simp add: split_on_free)
next
  case (3 w v vs)
  then show ?case by (simp add: split_on_append_sep)
qed simp

lemma clean_absolute:
  assumes "IsAbs p" and "path_Clean p = p"
  obtains cs where "p = CHR ''/'' # str_join ''/'' cs" and "list_all plain_name cs"
proof -
  let ?cs = "clean_parts True [] (split_on CHR ''/'' p)"
  have "p \<noteq> []" using assms(1) by (auto simp: IsAbs_def has_prefix_def)
  with assms have "p = CHR ''/'' # str_join ''/'' ?cs" by (simp add: path_Clean_def Let_def)
  moreover have "list_all plain_name ?cs"
    by (rule clean_parts_plain) (auto simp: list_all_iff dest: split_on_sep_free)
  ultimately show thesis by (rule that)
qed

section \<open>\<open>Atoi\<close>\<close>

definition int64_max :: int where
  "int64_max = 2 ^ 63 - 1"

definition Atoi :: "string \<Rightarrow> int option" where
  "Atoi s =
     (let neg = has_prefix s ''-''; ds = (if neg \<or> has_prefix s ''+'' then tl s else s);
          n = foldl (\<lambda>x c. 10 * x + (int (char_code c) - 48)) 0 ds; v = (if neg then - n else n) in
      if ds = [] \<or> \<not> list_all is_digit ds \<or> v < - int64_max - 1 \<or> int64_max < v then None else Some v)"

end
