(* ===== verification/Preset_Config.thy ===== *)
theory Preset_Config imports Preset_Table Go_Path begin

text \<open>
  \<open>cloudflare/presettoken\<close>: what an estate decides about its preset credentials (\<open>presettoken.go\<close>: \<open>Config\<close>,
  \<open>BreakGlass\<close> and their checks; \<open>estate.go\<close>; \<open>version.go\<close>). The environment of the process is the list
  that \<open>os.Environ\<close> returns and does not change. \<open>url.Parse\<close> is a parameter, as the parts of a URL the
  check reads. \<open>BreakGlass.Validate\<close> ranges over map literals, in an order that is Go's choice; here in the
  order they are written, so of two bad fields another one may be named.
\<close>

section \<open>Versions\<close>

text \<open>The loop over the parts of a version; what follows a part that is no number stays zero.\<close>

fun version_parts :: "string list \<Rightarrow> int list \<times> bool" where
  "version_parts [] = ([], True)"
| "version_parts (p # ps) = (case Atoi p of
      None \<Rightarrow> (replicate (Suc (length ps)) 0, False)
    | Some n \<Rightarrow>
        if n < 0 then (replicate (Suc (length ps)) 0, False)
        else case version_parts ps of (ns, ok) \<Rightarrow> (n # ns, ok))"

definition str_cut :: "char \<Rightarrow> string \<Rightarrow> string \<times> string" where
  "str_cut c s = (takeWhile (\<lambda>d. d \<noteq> c) s, tl (dropWhile (\<lambda>d. d \<noteq> c) s))"

definition parseVersion :: "string \<Rightarrow> int list \<times> bool" where
  "parseVersion v =
     (let (core, pre) = str_cut CHR ''-'' (trim_prefix (trim_space v) ''v''); parts = split_on CHR ''.'' core in
      if length parts \<noteq> 3 then ([0, 0, 0], False)
      else case version_parts parts of (out, ok) \<Rightarrow> (out, ok \<and> pre = []))"

fun version_compare :: "int list \<Rightarrow> int list \<Rightarrow> bool option" where
  "version_compare (h # hs) (w # ws) = (if h \<noteq> w then Some (w < h) else version_compare hs ws)"
| "version_compare _ _ = None"

definition versionAtLeast :: "string \<Rightarrow> string \<Rightarrow> bool" where
  "versionAtLeast have_v want =
     (let (h, hRelease) = parseVersion have_v; w = fst (parseVersion want) in
      if h = [0, 0, 0] \<and> \<not> hRelease then False
      else case version_compare h w of Some b \<Rightarrow> b | None \<Rightarrow> hRelease)"

section \<open>Break-glass\<close>

record breakglass =
  bg_env :: string
  bg_account :: string
  bg_vault :: string
  bg_item :: string
  bg_field :: string
  bg_child_prefix :: string

definition no_breakglass :: breakglass where
  "no_breakglass = \<lparr>bg_env = [], bg_account = [], bg_vault = [], bg_item = [], bg_field = [], bg_child_prefix = []\<rparr>"

definition getenv :: "string list \<Rightarrow> string \<Rightarrow> string" where
  "getenv env name = (case find (\<lambda>kv. has_prefix kv (name @ ''='')) env of None \<Rightarrow> [] | Some kv \<Rightarrow> trim_prefix kv (name @ ''=''))"

definition BreakGlass_Enabled :: "string list \<Rightarrow> breakglass \<Rightarrow> bool" where
  "BreakGlass_Enabled env b \<longleftrightarrow> bg_env b \<noteq> [] \<and> getenv env (bg_env b) = ''1''"

definition BreakGlass_Ref :: "breakglass \<Rightarrow> string" where
  "BreakGlass_Ref b = ''op://'' @ bg_vault b @ ''/'' @ bg_item b @ ''/'' @ bg_field b"

definition BreakGlass_configured :: "breakglass \<Rightarrow> bool" where
  "BreakGlass_configured b \<longleftrightarrow> b \<noteq> no_breakglass"

datatype preset_config_error =
    PCBreakGlassEmpty string
  | PCBreakGlassSpace string
  | PCBreakGlassEnv string
  | PCBreakGlassHyphen string
  | PCBreakGlassSlash string
  | PCBreakGlassQuery string
  | PCVersion string
  | PCNoPrefix
  | PCPrefixUnclean string
  | PCPrefixBroad string
  | PCIssuer string
  | PCIssuerFlag string
  | PCLifetime int
  | PCMinRemaining int
  | PCRemainingOver int int
  | PCNoItem string

definition env_char :: "char \<Rightarrow> bool" where
  "env_char c \<longleftrightarrow> is_upper_letter c \<or> is_digit c \<or> c = CHR ''_''"

definition envNamePattern :: rx where
  "envNamePattern = Cat (Cls is_upper_letter) (Cat (Star (Cls env_char)) (Cat (rx_word ''BREAKGLASS'') (Star (Cls env_char))))"

definition space_or_control :: "char \<Rightarrow> bool" where
  "space_or_control c \<longleftrightarrow> char_code c \<le> 0x20 \<or> char_code c = 0x7F"

definition bg_fields :: "breakglass \<Rightarrow> (string \<times> string) list" where
  "bg_fields b = [(''Env'', bg_env b), (''Account'', bg_account b), (''Vault'', bg_vault b), (''Item'', bg_item b), (''Field'', bg_field b),
     (''ChildPrefix'', bg_child_prefix b)]"

definition BreakGlass_Validate :: "breakglass \<Rightarrow> preset_config_error option" where
  "BreakGlass_Validate b =
     (if \<not> BreakGlass_configured b then None
      else first_of [
        first_err (\<lambda>(name, v). first_of [fail_if (v = []) (PCBreakGlassEmpty name),
          fail_if (list_ex space_or_control v) (PCBreakGlassSpace name)]) (bg_fields b),
        fail_if (\<not> rx_match envNamePattern (bg_env b)) (PCBreakGlassEnv (bg_env b)),
        first_err (\<lambda>(name, v). fail_if (has_prefix v ''-'') (PCBreakGlassHyphen name))
          [(''Account'', bg_account b), (''Vault'', bg_vault b), (''Item'', bg_item b), (''Field'', bg_field b)],
        first_err (\<lambda>(name, v). fail_if (CHR ''/'' \<in> set v) (PCBreakGlassSlash name))
          [(''Vault'', bg_vault b), (''Item'', bg_item b), (''Field'', bg_field b)],
        first_err (\<lambda>(name, v). fail_if (contains_any v ''?#'') (PCBreakGlassQuery name)) [(''Item'', bg_item b), (''Field'', bg_field b)]])"

section \<open>The configuration\<close>

definition pt_DefaultLifetime :: int where
  "pt_DefaultLifetime = 3600 * second"

definition MaxLifetime :: int where
  "MaxLifetime = 3600 * second"

definition MinMinRemaining :: int where
  "MinMinRemaining = 60 * second"

definition DefaultMinRemaining :: int where
  "DefaultMinRemaining = 15 * 60 * second"

definition deniedPrefixes :: "string list" where
  "deniedPrefixes = [''/usr'', ''/bin'', ''/sbin'', ''/home'', ''/tmp'', ''/var'', ''/opt'', ''/etc'', ''/root'']"

record pt_config =
  pt_issuer :: string
  pt_sluisctl_min :: string
  pt_binary_prefixes :: "string list"
  pt_lifetime :: int
  pt_min_remaining :: int
  pt_breakglass :: breakglass
  pt_grant_hint :: string
  pt_runbook :: string

definition cfg_lifetime :: "pt_config \<Rightarrow> int" where
  "cfg_lifetime c = (if 0 < pt_lifetime c then min (pt_lifetime c) MaxLifetime else min pt_DefaultLifetime MaxLifetime)"

definition cfg_minRemaining :: "pt_config \<Rightarrow> int" where
  "cfg_minRemaining c = (if 0 < pt_min_remaining c then pt_min_remaining c else DefaultMinRemaining)"

definition validPrefix :: "string \<Rightarrow> preset_config_error option" where
  "validPrefix p = first_of [
     fail_if (\<not> IsAbs p \<or> path_Clean p \<noteq> p) (PCPrefixUnclean p),
     fail_if (length (split_on CHR ''/'' (trim_chars (\<lambda>c. c = CHR ''/'') p)) < 2 \<or> p \<in> set deniedPrefixes) (PCPrefixBroad p)]"

record url_parts =
  url_scheme :: string
  url_host :: string
  url_user :: bool
  url_raw_query :: string
  url_fragment :: string

definition plain_https :: "url_parts option \<Rightarrow> bool" where
  "plain_https u \<longleftrightarrow> (case u of None \<Rightarrow> False
    | Some u \<Rightarrow> url_scheme u = ''https'' \<and> url_host u \<noteq> [] \<and> \<not> url_user u \<and> url_raw_query u = [] \<and> url_fragment u = [])"

definition TokenConfig_Validate :: "(string \<Rightarrow> url_parts option) \<Rightarrow> pt_config \<Rightarrow> preset_config_error option" where
  "TokenConfig_Validate parse_url c = first_of [
     fail_if (\<not> snd (parseVersion (pt_sluisctl_min c))) (PCVersion (pt_sluisctl_min c)),
     fail_if (pt_binary_prefixes c = []) PCNoPrefix,
     first_err validPrefix (pt_binary_prefixes c),
     (if pt_issuer c = [] then None
      else first_of [
        fail_if (\<not> plain_https (parse_url (pt_issuer c))) (PCIssuer (pt_issuer c)),
        fail_if (has_prefix (pt_issuer c) ''-'') (PCIssuerFlag (pt_issuer c))]),
     fail_if (pt_lifetime c < 0 \<or> MaxLifetime < pt_lifetime c) (PCLifetime (pt_lifetime c)),
     fail_if (pt_min_remaining c < 0 \<or> 0 < pt_min_remaining c \<and> pt_min_remaining c < MinMinRemaining) (PCMinRemaining (pt_min_remaining c)),
     fail_if (cfg_lifetime c \<le> cfg_minRemaining c) (PCRemainingOver (cfg_minRemaining c) (cfg_lifetime c)),
     BreakGlass_Validate (pt_breakglass c)]"

section \<open>An estate\<close>

record estate_breakglass =
  eb_env :: string
  eb_item_env :: string
  eb_account :: string
  eb_vault :: string
  eb_field :: string
  eb_child_prefix :: string
  eb_item_hint :: string

record estate =
  es_sluisctl_min :: string
  es_binary_prefixes :: "string list"
  es_lifetime :: int
  es_grant_hint :: string
  es_runbook :: string
  es_breakglass :: estate_breakglass

definition estate_item :: "string list \<Rightarrow> estate_breakglass \<Rightarrow> string \<Rightarrow> string" where
  "estate_item env bg item = (if eb_item_env bg \<noteq> [] \<and> getenv env (eb_item_env bg) \<noteq> [] then getenv env (eb_item_env bg) else item)"

definition Estate_Config :: "string list \<Rightarrow> estate \<Rightarrow> string \<Rightarrow> string \<Rightarrow> string \<Rightarrow> preset_config_error + pt_config" where
  "Estate_Config env e accountName item issuer =
     (let out = \<lparr>pt_issuer = issuer, pt_sluisctl_min = es_sluisctl_min e, pt_binary_prefixes = es_binary_prefixes e,
            pt_lifetime = es_lifetime e, pt_min_remaining = 0, pt_breakglass = no_breakglass,
            pt_grant_hint = es_grant_hint e, pt_runbook = es_runbook e\<rparr>;
          bg = es_breakglass e; item = estate_item env bg item in
      if item \<noteq> [] then Inr (out\<lparr>pt_breakglass := \<lparr>bg_env = eb_env bg, bg_account = eb_account bg, bg_vault = eb_vault bg,
         bg_item = item, bg_field = eb_field bg, bg_child_prefix = eb_child_prefix bg\<rparr>\<rparr>)
      else if eb_env bg \<noteq> [] \<and> getenv env (eb_env bg) = ''1'' then Inl (PCNoItem accountName)
      else Inr out)"

section \<open>Samples\<close>

lemma parseVersion_samples:
  "parseVersion ''v1.12.3'' = ([1, 12, 3], True)" "parseVersion '' 2.0.0-rc.1'' = ([2, 0, 0], False)" "parseVersion ''1.x.3'' = ([1, 0, 0], False)"
  by code_simp+

text \<open>A version that does not parse is older than anything only when its first parts are zero.\<close>

lemma versionAtLeast_unparsable: "versionAtLeast ''9.9.x'' ''1.0.0''" "\<not> versionAtLeast ''x.9.9'' ''1.0.0''"
  by code_simp+

lemma validPrefix_samples: "validPrefix ''/nix/store'' = None" "validPrefix ''/nix/store/'' \<noteq> None" "validPrefix ''/opt'' \<noteq> None" "validPrefix ''/a/../b'' \<noteq> None"
  by code_simp+

end
