(* ===== verification/Preset_Program.thy ===== *)
theory Preset_Program imports Preset_Config begin

text \<open>
  Programs that ask the world. A function of \<open>cloudflare/presettoken\<close> runs command lines, reads the clock,
  looks up binaries, sleeps and calls Cloudflare; what it does next depends on the answer. It is modelled
  by a tree: a question, and a continuation for each answer. The tree is a datatype, so every program ends
  whatever the answers are. A run is a path of it, the list of its questions with their answers.

  The questions are the seams of \<open>Source\<close> and the calls of \<open>cfClient\<close>; the HTTP client, the process
  runner and the decoding of JSON answer them. A call of the API that fails, in whatever way, answers
  \<open>None\<close>. What is printed for a person is an event too.
\<close>

section \<open>Questions\<close>

record cli_call =
  cl_path :: string
  cl_args :: "string list"
  cl_env :: "string list"

record cli_reply =
  re_stdout :: string
  re_code :: int
  re_failed :: bool

record api_client =
  api_account :: string
  api_token :: string

record api_policy =
  ap_groups :: "string list"
  ap_resources :: "string gomap"

record api_create =
  cr_name :: string
  cr_policies :: "api_policy list"
  cr_expires :: int

datatype announcement =
    NotPinned string string
  | TokenAccepted string nat
  | TokenNotYet string
  | RootRead string
  | ChildMinted string string string int

datatype 'a io =
    Done 'a
  | Look string "string option \<Rightarrow> 'a io"
  | Run cli_call "cli_reply \<Rightarrow> 'a io"
  | Clock "int \<Rightarrow> 'a io"
  | Roots "bool \<Rightarrow> 'a io"
  | FindGroups api_client string "(string \<times> string) list option \<Rightarrow> 'a io"
  | CreateToken api_client api_create "(string \<times> string) option \<Rightarrow> 'a io"
  | VerifyToken api_client "string option \<Rightarrow> 'a io"
  | Pause int "bool \<Rightarrow> 'a io"
  | Announce announcement "'a io"

datatype event =
    ELook string "string option"
  | ERun cli_call cli_reply
  | EClock int
  | ERoots bool
  | EFindGroups api_client string "(string \<times> string) list option"
  | ECreate api_client api_create "(string \<times> string) option"
  | EVerify api_client "string option"
  | EPause int bool
  | EAnnounce announcement

primrec io_bind :: "'a io \<Rightarrow> ('a \<Rightarrow> 'b io) \<Rightarrow> 'b io" where
  "io_bind (Done x) f = f x"
| "io_bind (Look n k) f = Look n (\<lambda>a. io_bind (k a) f)"
| "io_bind (Run c k) f = Run c (\<lambda>a. io_bind (k a) f)"
| "io_bind (Clock k) f = Clock (\<lambda>a. io_bind (k a) f)"
| "io_bind (Roots k) f = Roots (\<lambda>a. io_bind (k a) f)"
| "io_bind (FindGroups c n k) f = FindGroups c n (\<lambda>a. io_bind (k a) f)"
| "io_bind (CreateToken c r k) f = CreateToken c r (\<lambda>a. io_bind (k a) f)"
| "io_bind (VerifyToken c k) f = VerifyToken c (\<lambda>a. io_bind (k a) f)"
| "io_bind (Pause d k) f = Pause d (\<lambda>a. io_bind (k a) f)"
| "io_bind (Announce n k) f = Announce n (io_bind k f)"

text \<open>A step that may fail, and what follows when it does not.\<close>

definition io_try :: "('e + 'a) io \<Rightarrow> ('a \<Rightarrow> ('e + 'b) io) \<Rightarrow> ('e + 'b) io" where
  "io_try p f = io_bind p (\<lambda>r. case r of Inl e \<Rightarrow> Done (Inl e) | Inr x \<Rightarrow> f x)"

definition io_check :: "'e option \<Rightarrow> ('e + 'a) io \<Rightarrow> ('e + 'a) io" where
  "io_check err k = (case err of Some e \<Rightarrow> Done (Inl e) | None \<Rightarrow> k)"

section \<open>Runs\<close>

inductive run :: "'a io \<Rightarrow> event list \<Rightarrow> 'a \<Rightarrow> bool" where
  run_Done: "run (Done x) [] x"
| run_Look: "run (k a) evs x \<Longrightarrow> run (Look n k) (ELook n a # evs) x"
| run_Run: "run (k a) evs x \<Longrightarrow> run (Run c k) (ERun c a # evs) x"
| run_Clock: "run (k t) evs x \<Longrightarrow> run (Clock k) (EClock t # evs) x"
| run_Roots: "run (k a) evs x \<Longrightarrow> run (Roots k) (ERoots a # evs) x"
| run_FindGroups: "run (k a) evs x \<Longrightarrow> run (FindGroups c n k) (EFindGroups c n a # evs) x"
| run_CreateToken: "run (k a) evs x \<Longrightarrow> run (CreateToken c r k) (ECreate c r a # evs) x"
| run_VerifyToken: "run (k a) evs x \<Longrightarrow> run (VerifyToken c k) (EVerify c a # evs) x"
| run_Pause: "run (k a) evs x \<Longrightarrow> run (Pause d k) (EPause d a # evs) x"
| run_Announce: "run k evs x \<Longrightarrow> run (Announce n k) (EAnnounce n # evs) x"

inductive_simps run_simps [simp]:
  "run (Done x) evs y"
  "run (Look n k) evs y"
  "run (Run c k) evs y"
  "run (Clock k) evs y"
  "run (Roots k) evs y"
  "run (FindGroups c n k) evs y"
  "run (CreateToken c r k) evs y"
  "run (VerifyToken c k) evs y"
  "run (Pause d k) evs y"
  "run (Announce n k) evs y"

lemma run_bind: "run (io_bind p f) evs y \<longleftrightarrow> (\<exists>evs1 x evs2. evs = evs1 @ evs2 \<and> run p evs1 x \<and> run (f x) evs2 y)"
proof (induction p arbitrary: evs)
  case (Done x)
  show ?case by simp
qed (auto simp: Cons_eq_append_conv; blast)+

lemma run_try:
  "run (io_try p f) evs (Inr y) \<longleftrightarrow> (\<exists>evs1 x evs2. evs = evs1 @ evs2 \<and> run p evs1 (Inr x) \<and> run (f x) evs2 (Inr y))"
proof
  assume "run (io_try p f) evs (Inr y)"
  then obtain evs1 r evs2 where "evs = evs1 @ evs2" "run p evs1 r" and next_run: "run (case r of Inl e \<Rightarrow> Done (Inl e) | Inr x \<Rightarrow> f x) evs2 (Inr y)"
    unfolding io_try_def run_bind by blast
  then show "\<exists>evs1 x evs2. evs = evs1 @ evs2 \<and> run p evs1 (Inr x) \<and> run (f x) evs2 (Inr y)" by (cases r) auto
qed (fastforce simp: io_try_def run_bind)

lemma run_try_any:
  "run (io_try p f) evs r \<longleftrightarrow> (\<exists>e. r = Inl e \<and> run p evs (Inl e)) \<or>
     (\<exists>evs1 x evs2. evs = evs1 @ evs2 \<and> run p evs1 (Inr x) \<and> run (f x) evs2 r)"
proof
  assume "run (io_try p f) evs r"
  then obtain evs1 q evs2 where "evs = evs1 @ evs2" "run p evs1 q" "run (case q of Inl e \<Rightarrow> Done (Inl e) | Inr x \<Rightarrow> f x) evs2 r"
    unfolding io_try_def run_bind by blast
  then show "(\<exists>e. r = Inl e \<and> run p evs (Inl e)) \<or> (\<exists>evs1 x evs2. evs = evs1 @ evs2 \<and> run p evs1 (Inr x) \<and> run (f x) evs2 r)"
    by (cases q) auto
next
  assume "(\<exists>e. r = Inl e \<and> run p evs (Inl e)) \<or> (\<exists>evs1 x evs2. evs = evs1 @ evs2 \<and> run p evs1 (Inr x) \<and> run (f x) evs2 r)"
  then show "run (io_try p f) evs r"
  proof (elim disjE exE conjE)
    fix e assume "r = Inl e" "run p evs (Inl e)"
    then show ?thesis unfolding io_try_def run_bind by (intro exI [of _ evs] exI [of _ "Inl e"] exI [of _ "[]"]) simp
  next
    fix evs1 x evs2 assume "evs = evs1 @ evs2" "run p evs1 (Inr x)" "run (f x) evs2 r"
    then show ?thesis unfolding io_try_def run_bind by (intro exI [of _ evs1] exI [of _ "Inr x"] exI [of _ evs2]) simp
  qed
qed

lemma run_check_Inr [simp]: "run (io_check err k) evs (Inr y) \<longleftrightarrow> err = None \<and> run k evs (Inr y)"
  by (cases err) (auto simp: io_check_def)

text \<open>Each answer leads on: a program has a run for every way the world answers.\<close>

lemma run_total: "\<exists>evs x. run p evs x"
  by (induction p) (metis rangeI run.intros)+

text \<open>Whether given events are a run, computed.\<close>

primrec replay :: "'a io \<Rightarrow> event list \<Rightarrow> 'a option" where
  "replay (Done x) evs = (if evs = [] then Some x else None)"
| "replay (Look n k) evs = (case evs of ELook m a # rest \<Rightarrow> if m = n then replay (k a) rest else None | _ \<Rightarrow> None)"
| "replay (Run c k) evs = (case evs of ERun d a # rest \<Rightarrow> if d = c then replay (k a) rest else None | _ \<Rightarrow> None)"
| "replay (Clock k) evs = (case evs of EClock t # rest \<Rightarrow> replay (k t) rest | _ \<Rightarrow> None)"
| "replay (Roots k) evs = (case evs of ERoots a # rest \<Rightarrow> replay (k a) rest | _ \<Rightarrow> None)"
| "replay (FindGroups c n k) evs = (case evs of EFindGroups d m a # rest \<Rightarrow> if d = c \<and> m = n then replay (k a) rest else None | _ \<Rightarrow> None)"
| "replay (CreateToken c r k) evs = (case evs of ECreate d q a # rest \<Rightarrow> if d = c \<and> q = r then replay (k a) rest else None | _ \<Rightarrow> None)"
| "replay (VerifyToken c k) evs = (case evs of EVerify d a # rest \<Rightarrow> if d = c then replay (k a) rest else None | _ \<Rightarrow> None)"
| "replay (Pause d k) evs = (case evs of EPause e a # rest \<Rightarrow> if e = d then replay (k a) rest else None | _ \<Rightarrow> None)"
| "replay (Announce n k) evs = (case evs of EAnnounce m # rest \<Rightarrow> if m = n then replay k rest else None | _ \<Rightarrow> None)"

lemma replay_run: "replay p evs = Some x \<longleftrightarrow> run p evs x"
  by (induction p arbitrary: evs) (auto split: list.splits event.splits)

text \<open>What holds of every event of a program's runs.\<close>

primrec asks :: "(event \<Rightarrow> bool) \<Rightarrow> 'a io \<Rightarrow> bool" where
  "asks P (Done x) = True"
| "asks P (Look n k) = (\<forall>a. P (ELook n a) \<and> asks P (k a))"
| "asks P (Run c k) = (\<forall>a. P (ERun c a) \<and> asks P (k a))"
| "asks P (Clock k) = (\<forall>a. P (EClock a) \<and> asks P (k a))"
| "asks P (Roots k) = (\<forall>a. P (ERoots a) \<and> asks P (k a))"
| "asks P (FindGroups c n k) = (\<forall>a. P (EFindGroups c n a) \<and> asks P (k a))"
| "asks P (CreateToken c r k) = (\<forall>a. P (ECreate c r a) \<and> asks P (k a))"
| "asks P (VerifyToken c k) = (\<forall>a. P (EVerify c a) \<and> asks P (k a))"
| "asks P (Pause d k) = (\<forall>a. P (EPause d a) \<and> asks P (k a))"
| "asks P (Announce n k) = (P (EAnnounce n) \<and> asks P k)"

lemma asks_run: "run p evs x \<Longrightarrow> asks P p \<Longrightarrow> list_all P evs"
  by (induction rule: run.induct) auto

text \<open>What holds of every result of a program.\<close>

primrec yields :: "('a \<Rightarrow> bool) \<Rightarrow> 'a io \<Rightarrow> bool" where
  "yields Q (Done x) = Q x"
| "yields Q (Look n k) = (\<forall>a. yields Q (k a))"
| "yields Q (Run c k) = (\<forall>a. yields Q (k a))"
| "yields Q (Clock k) = (\<forall>a. yields Q (k a))"
| "yields Q (Roots k) = (\<forall>a. yields Q (k a))"
| "yields Q (FindGroups c n k) = (\<forall>a. yields Q (k a))"
| "yields Q (CreateToken c r k) = (\<forall>a. yields Q (k a))"
| "yields Q (VerifyToken c k) = (\<forall>a. yields Q (k a))"
| "yields Q (Pause d k) = (\<forall>a. yields Q (k a))"
| "yields Q (Announce n k) = yields Q k"

lemma asks_bind: "asks P p \<Longrightarrow> yields Q p \<Longrightarrow> (\<And>x. Q x \<Longrightarrow> asks P (f x)) \<Longrightarrow> asks P (io_bind p f)"
  by (induction p) auto

lemma yields_True: "yields (\<lambda>_. True) p"
  by (induction p) auto

lemma asks_try:
  assumes "asks P p" and "yields (\<lambda>r. case r of Inl e \<Rightarrow> True | Inr x \<Rightarrow> Q x) p" and "\<And>x. Q x \<Longrightarrow> asks P (f x)"
  shows "asks P (io_try p f)"
  unfolding io_try_def using assms(1,2) by (rule asks_bind) (auto simp: assms(3) split: sum.splits)

lemma asks_check: "(err = None \<Longrightarrow> asks P k) \<Longrightarrow> asks P (io_check err k)"
  by (simp add: io_check_def split: option.split)

end
