(* ===== verification/Preset_Token.thy ===== *)
theory Preset_Token imports Preset_Program Rule_Builders begin

text \<open>
  \<open>cloudflare/presettoken\<close>: how a credential is had. \<open>presettoken.go\<close> asks sluis for it (\<open>fromSluis\<close>),
  \<open>breakglass.go\<close> mints it with the account's root, \<open>verify.go\<close> waits until Cloudflare accepts it, and
  \<open>Token\<close> checks what came back. An instant is an integer of nanoseconds since 1970. The decoding of JSON,
  \<open>url.Parse\<close> and SHA-256 are parameters. The time limits of the contexts are in the answers: a command line
  that ran out of time failed. The binaries whose version was found good are a state that \<open>Token\<close> takes and
  returns; the lock around it makes a check of it one step.
\<close>

section \<open>Texts\<close>

definition fraction_text :: "nat \<Rightarrow> int \<Rightarrow> string" where
  "fraction_text prec f =
     (let ds = go_decimal f; padded = replicate (prec - length ds) CHR ''0'' @ ds in
      if f = 0 then [] else CHR ''.'' # rev (dropWhile (\<lambda>c. c = CHR ''0'') (rev padded)))"

definition Duration_String :: "int \<Rightarrow> string" where
  "Duration_String d =
     (let u = \<bar>d\<bar>; s = u div second; m = s div 60; h = m div 60 in
      if d = 0 then ''0s''
      else (if d < 0 then ''-'' else []) @
        (if u < 1000 then go_decimal u @ ''ns''
         else if u < 1000000 then go_decimal (u div 1000) @ fraction_text 3 (u mod 1000) @ [CHR 0xC2, CHR 0xB5] @ ''s''
         else if u < second then go_decimal (u div 1000000) @ fraction_text 6 (u mod 1000000) @ ''ms''
         else (if h > 0 then go_decimal h @ ''h'' else []) @ (if m > 0 then go_decimal (m mod 60) @ ''m'' else []) @
           go_decimal (s mod 60) @ fraction_text 9 (u mod second) @ ''s''))"

text \<open>The date of a day counted from 1970-01-01, by years that begin in March.\<close>

definition civil_date :: "int \<Rightarrow> int \<times> int \<times> int" where
  "civil_date days =
     (let z = days + 719468; doe = z mod 146097; yoe = (doe - doe div 1460 + doe div 36524 - doe div 146096) div 365;
          doy = doe - (365 * yoe + yoe div 4 - yoe div 100); mp = (5 * doy + 2) div 153;
          m = (if mp < 10 then mp + 3 else mp - 9) in
      (yoe + 400 * (z div 146097) + (if m \<le> 2 then 1 else 0), m, doy - (153 * mp + 2) div 5 + 1))"

definition pad_decimal :: "nat \<Rightarrow> int \<Rightarrow> string" where
  "pad_decimal n i = (let ds = go_decimal i in replicate (n - length ds) CHR ''0'' @ ds)"

definition utc_stamp :: "int \<Rightarrow> string" where
  "utc_stamp t =
     (let secs = t div second; days = secs div 86400; s = secs mod 86400; (y, m, d) = civil_date days in
      pad_decimal 4 y @ pad_decimal 2 m @ pad_decimal 2 d @ ''T'' @ pad_decimal 2 (s div 3600) @ pad_decimal 2 (s div 60 mod 60) @
      pad_decimal 2 (s mod 60) @ ''Z'')"

lemma Duration_String_samples: "Duration_String (3600 * second) = ''1h0m0s''" "Duration_String (90 * second + 500) = ''1m30.0000005s''"
  by code_simp+

lemma utc_stamp_samples: "utc_stamp 0 = ''19700101T000000Z''" "utc_stamp 1709251198000000000 = ''20240229T235958Z''"
  by code_simp+

section \<open>Requests and errors\<close>

record credential =
  cred_token :: string
  cred_access_key_id :: string
  cred_secret_access_key :: string
  cred_expires :: int

record token_library =
  lib_parse_url :: "string \<Rightarrow> url_parts option"
  lib_version :: "string \<Rightarrow> string option"
  lib_token :: "string \<Rightarrow> (string \<times> string) option"
  lib_r2 :: "string \<Rightarrow> (int \<times> string \<times> string \<times> string) option"
  lib_sha256_hex :: "string \<Rightarrow> string"

datatype sluis_refusal =
    NotSignedIn
  | NotGranted
  | Unreachable
  | BadUsage
  | DidNotRun
  | OtherCode int

datatype client_error =
    CLEnv string
  | CLRoots

datatype preset_token_error =
    PTConfig preset_config_error
  | PTPresetName string
  | PTNoAccount
  | PTAccountID string
  | PTNotOnPath string
  | PTNotPinned string
  | PTVersionRun
  | PTVersionOld string
  | PTSluis sluis_refusal
  | PTAnswer
  | PTExpiration
  | PTTooLong int
  | PTTooShort int
  | PTWrongKind
  | PTR2Wait
  | PTClient client_error
  | PTNotAccepted "string option"
  | PTBreakGlassOff
  | PTOp int
  | PTRootEmpty
  | PTRootSpace
  | PTNothingToMint
  | PTChild token_error
  | PTGroups string
  | PTGroupMatches string nat
  | PTKey nat key_error
  | PTCreate
  | PTCreatedEmpty
  | PTEstate preset_config_error
  | PTNoToken

section \<open>Binaries and their environment\<close>

definition pinned :: "pt_config \<Rightarrow> string \<Rightarrow> bool" where
  "pinned cfg path \<longleftrightarrow> list_ex (\<lambda>p. has_prefix path (path_Clean p @ ''/'')) (pt_binary_prefixes cfg)"

definition resolve :: "pt_config \<Rightarrow> string \<Rightarrow> (preset_token_error + string) io" where
  "resolve cfg name = Look name (\<lambda>found. case found of
      None \<Rightarrow> Done (Inl (PTNotOnPath name))
    | Some path \<Rightarrow>
        if name = ''sluisctl'' \<and> \<not> pinned cfg path then Done (Inl (PTNotPinned path))
        else if \<not> pinned cfg path then Announce (NotPinned name path) (Done (Inr path))
        else Done (Inr path))"

definition strippedEnv :: "string list" where
  "strippedEnv = [''HTTP_PROXY'', ''HTTPS_PROXY'', ''ALL_PROXY'', ''NO_PROXY'', ''SSL_CERT_FILE'', ''SSL_CERT_DIR'', ''CURL_CA_BUNDLE'']"

definition env_stripped :: "string \<Rightarrow> bool" where
  "env_stripped kv \<longleftrightarrow> (let upper = to_upper (fst (str_cut CHR ''='' kv)) in
     upper \<in> set strippedEnv \<or> has_prefix upper ''SLUISCTL_'' \<or> has_prefix upper ''OP_'' \<and> \<not> has_prefix upper ''OP_SESSION_'')"

definition cleanEnv :: "string list \<Rightarrow> string list \<Rightarrow> string list" where
  "cleanEnv env extra = filter (\<lambda>kv. \<not> env_stripped kv) env @ extra"

definition noCacheEnv :: string where
  "noCacheEnv = ''SLUISCTL_CLOUDFLARE_NO_CACHE''"

definition requireSluisctl :: "token_library \<Rightarrow> string list \<Rightarrow> pt_config \<Rightarrow> string list \<Rightarrow> string \<Rightarrow> (preset_token_error option \<times> string list) io" where
  "requireSluisctl lib env cfg known path =
     (let key = path @ ''@'' @ pt_sluisctl_min cfg in
      if key \<in> set known then Done (None, known)
      else Run \<lparr>cl_path = path, cl_args = [''version'', ''--json''], cl_env = cleanEnv env []\<rparr> (\<lambda>reply.
        if re_failed reply then Done (Some PTVersionRun, known)
        else case lib_version lib (re_stdout reply) of
            None \<Rightarrow> Done (Some (PTVersionOld []), known)
          | Some v \<Rightarrow>
              if \<not> versionAtLeast v (pt_sluisctl_min cfg) then Done (Some (PTVersionOld v), known)
              else Done (None, key # known)))"

section \<open>From sluis\<close>

definition sluisArgs :: "pt_config \<Rightarrow> preset_request \<Rightarrow> string list" where
  "sluisArgs cfg req =
     (if rq_r2 req then [''cloudflare'', ''r2'', rq_preset req] else [''cloudflare'', ''token'', rq_preset req, ''--format'', ''json'']) @
     [''--lifetime'', Duration_String (cfg_lifetime cfg), ''--no-cache''] @
     (if pt_issuer cfg \<noteq> [] then [''--issuer'', pt_issuer cfg] else [])"

definition sluis_refused :: "int \<Rightarrow> sluis_refusal" where
  "sluis_refused code =
     (if code = 3 then NotSignedIn else if code = 4 then NotGranted else if code = 5 then Unreachable
      else if code = 2 then BadUsage else if code = - 1 then DidNotRun else OtherCode code)"

definition parseSluisAnswer :: "token_library \<Rightarrow> preset_request \<Rightarrow> string \<Rightarrow> preset_token_error + credential" where
  "parseSluisAnswer lib req stdout =
     (if rq_r2 req then
        (case lib_r2 lib stdout of
           None \<Rightarrow> Inl PTAnswer
         | Some (version, access, secret, expiration) \<Rightarrow>
             if version \<noteq> 1 then Inl PTAnswer
             else case parse_RFC3339 expiration of
                 None \<Rightarrow> Inl PTExpiration
               | Some t \<Rightarrow> Inr \<lparr>cred_token = [], cred_access_key_id = access, cred_secret_access_key = secret, cred_expires = t\<rparr>)
      else
        (case lib_token lib stdout of
           None \<Rightarrow> Inl PTAnswer
         | Some (token, expires) \<Rightarrow> (case parse_RFC3339 expires of
             None \<Rightarrow> Inl PTExpiration
           | Some t \<Rightarrow> Inr \<lparr>cred_token = token, cred_access_key_id = [], cred_secret_access_key = [], cred_expires = t\<rparr>)))"

definition fromSluis :: "token_library \<Rightarrow> string list \<Rightarrow> pt_config \<Rightarrow> preset_request \<Rightarrow> string list \<Rightarrow>
    ((preset_token_error + credential) \<times> string list) io" where
  "fromSluis lib env cfg req known =
     io_bind (resolve cfg ''sluisctl'') (\<lambda>r. case r of
        Inl e \<Rightarrow> Done (Inl e, known)
      | Inr path \<Rightarrow> io_bind (requireSluisctl lib env cfg known path) (\<lambda>(err, known). case err of
          Some e \<Rightarrow> Done (Inl e, known)
        | None \<Rightarrow> Run \<lparr>cl_path = path, cl_args = sluisArgs cfg req, cl_env = cleanEnv env [noCacheEnv @ ''=1'']\<rparr> (\<lambda>reply.
            Done (if re_failed reply then Inl (PTSluis (sluis_refused (re_code reply))) else parseSluisAnswer lib req (re_stdout reply), known))))"

section \<open>Break-glass\<close>

definition newCFClient :: "string list \<Rightarrow> string \<Rightarrow> string \<Rightarrow> (preset_token_error + api_client) io" where
  "newCFClient env accountID token =
     io_check (map_option PTClient (first_err (\<lambda>v. fail_if (getenv env v \<noteq> []) (CLEnv v)) [''SSL_CERT_FILE'', ''SSL_CERT_DIR'']))
       (Roots (\<lambda>ok. Done (if ok then Inr \<lparr>api_account = accountID, api_token = token\<rparr> else Inl (PTClient CLRoots))))"

text \<open>\<open>unicode.IsSpace\<close> on the runes of a text, by their UTF-8 bytes: a lead byte is never part of another rune.\<close>

definition wide_spaces :: "string list" where
  "wide_spaces = [[CHR 0xC2, CHR 0x85], [CHR 0xC2, CHR 0xA0], [CHR 0xE1, CHR 0x9A, CHR 0x80],
     [CHR 0xE2, CHR 0x80, CHR 0x80], [CHR 0xE2, CHR 0x80, CHR 0x81], [CHR 0xE2, CHR 0x80, CHR 0x82], [CHR 0xE2, CHR 0x80, CHR 0x83],
     [CHR 0xE2, CHR 0x80, CHR 0x84], [CHR 0xE2, CHR 0x80, CHR 0x85], [CHR 0xE2, CHR 0x80, CHR 0x86], [CHR 0xE2, CHR 0x80, CHR 0x87],
     [CHR 0xE2, CHR 0x80, CHR 0x88], [CHR 0xE2, CHR 0x80, CHR 0x89], [CHR 0xE2, CHR 0x80, CHR 0x8A], [CHR 0xE2, CHR 0x80, CHR 0xA8],
     [CHR 0xE2, CHR 0x80, CHR 0xA9], [CHR 0xE2, CHR 0x80, CHR 0xAF], [CHR 0xE2, CHR 0x81, CHR 0x9F], [CHR 0xE3, CHR 0x80, CHR 0x80]]"

definition has_space :: "string \<Rightarrow> bool" where
  "has_space s \<longleftrightarrow> list_ex is_space s \<or> list_ex (str_contains s) wide_spaces"

definition RootToken :: "token_library \<Rightarrow> string list \<Rightarrow> pt_config \<Rightarrow> (preset_token_error + string) io" where
  "RootToken lib env cfg =
     (let bg = pt_breakglass cfg in
      io_check (map_option PTConfig (TokenConfig_Validate (lib_parse_url lib) cfg))
      (io_check (fail_if (\<not> BreakGlass_Enabled env bg) PTBreakGlassOff)
      (Announce (RootRead (BreakGlass_Ref bg))
      (io_try (resolve cfg ''op'') (\<lambda>path.
        Run \<lparr>cl_path = path, cl_args = [''read'', ''--account'', bg_account bg, ''--no-newline'', BreakGlass_Ref bg], cl_env = cleanEnv env []\<rparr> (\<lambda>reply.
          if re_failed reply then Done (Inl (PTOp (re_code reply)))
          else let token = re_stdout reply in
            Done (unless (first_of [fail_if (token = []) PTRootEmpty, fail_if (has_space token) PTRootSpace]) (Inr token))))))))"

definition permissionGroupID :: "api_client \<Rightarrow> string \<Rightarrow> (preset_token_error + string) io" where
  "permissionGroupID client name = FindGroups client name (\<lambda>answer. case answer of
      None \<Rightarrow> Done (Inl (PTGroups name))
    | Some groups \<Rightarrow>
        let ids = map fst (filter (\<lambda>(gid, n). n = name) groups) in
        Done (if length ids \<noteq> 1 then Inl (PTGroupMatches name (length ids)) else Inr (hd ids)))"

primrec group_ids :: "api_client \<Rightarrow> string list \<Rightarrow> (preset_token_error + string list) io" where
  "group_ids client [] = Done (Inr [])"
| "group_ids client (n # ns) = io_try (permissionGroupID client n) (\<lambda>gid. io_try (group_ids client ns) (\<lambda>ids. Done (Inr (gid # ids))))"

primrec mint_policies :: "api_client \<Rightarrow> string \<Rightarrow> nat \<Rightarrow> token_policy list \<Rightarrow> (preset_token_error + api_policy list) io" where
  "mint_policies client accountID i [] = Done (Inr [])"
| "mint_policies client accountID i (p # ps) = io_try (group_ids client (tp_groups p)) (\<lambda>ids.
     case ResourceKey (tp_scope p) accountID of
       Inl e \<Rightarrow> Done (Inl (PTKey i e))
     | Inr key \<Rightarrow> io_try (mint_policies client accountID (Suc i) ps) (\<lambda>rest. Done (Inr (\<lparr>ap_groups = ids, ap_resources = [(key, ''*'')]\<rparr> # rest))))"

definition createToken :: "api_client \<Rightarrow> api_create \<Rightarrow> (preset_token_error + string \<times> string) io" where
  "createToken client req = CreateToken client req (\<lambda>answer. Done (case answer of
      None \<Rightarrow> Inl PTCreate
    | Some (tid, token) \<Rightarrow> if tid = [] \<or> token = [] then Inl PTCreatedEmpty else Inr (tid, token)))"

text \<open>The check of the policies reads the clock only where an expiry is given; here none is.\<close>

definition child_check :: "pt_config \<Rightarrow> preset_request \<Rightarrow> child_config" where
  "child_check cfg req = \<lparr>cc_name = bg_child_prefix (pt_breakglass cfg) @ ''-'' @ rq_preset req, cc_rotation = [], cc_expires_on = [],
     cc_policies = rq_policies req\<rparr>"

definition createChild :: "token_library \<Rightarrow> pt_config \<Rightarrow> preset_request \<Rightarrow> api_client \<Rightarrow> api_policy list \<Rightarrow> int \<Rightarrow> int \<Rightarrow>
    (preset_token_error + credential) io" where
  "createChild lib cfg req client policies now now' =
     (let t = now + min (cfg_lifetime cfg) MaxLifetime; expires = t - t mod second;
          name = bg_child_prefix (pt_breakglass cfg) @ ''-'' @ rq_preset req @ ''-'' @ utc_stamp now' in
      io_try (createToken client \<lparr>cr_name = name, cr_policies = policies, cr_expires = expires\<rparr>) (\<lambda>(tid, token).
        Announce (ChildMinted name tid (rq_preset req) expires)
        (Done (Inr (if rq_r2 req
           then \<lparr>cred_token = [], cred_access_key_id = tid, cred_secret_access_key = lib_sha256_hex lib token, cred_expires = expires\<rparr>
           else \<lparr>cred_token = token, cred_access_key_id = [], cred_secret_access_key = [], cred_expires = expires\<rparr>)))))"

definition mintChild :: "token_library \<Rightarrow> string list \<Rightarrow> pt_config \<Rightarrow> preset_request \<Rightarrow> string \<Rightarrow> (preset_token_error + credential) io" where
  "mintChild lib env cfg req root =
     io_try (newCFClient env (rq_account_id req) root) (\<lambda>client.
     io_try (mint_policies client (rq_account_id req) 0 (rq_policies req)) (\<lambda>policies.
     Clock (\<lambda>now. Clock (\<lambda>now'. createChild lib cfg req client policies now now'))))"

definition breakGlass :: "token_library \<Rightarrow> string list \<Rightarrow> pt_config \<Rightarrow> preset_request \<Rightarrow> (preset_token_error + credential) io" where
  "breakGlass lib env cfg req =
     io_check (fail_if (rq_account_id req = [] \<or> rq_policies req = []) PTNothingToMint)
     (io_check (map_option PTChild (ChildToken_Validate 0 (child_check cfg req)))
     (io_try (RootToken lib env cfg) (mintChild lib env cfg req)))"

section \<open>Waiting until the credential is accepted\<close>

definition verifyWindow :: int where
  "verifyWindow = 20 * second"

definition verifyEvery :: int where
  "verifyEvery = second"

definition verifyAttempts :: nat where
  "verifyAttempts = nat (verifyWindow div verifyEvery) + 1"

definition r2Settle :: int where
  "r2Settle = 5 * second"

text \<open>\<open>left\<close> attempts may still follow this one. The answer to \<open>VerifyToken\<close> is the token's status.\<close>

primrec verify_loop :: "api_client \<Rightarrow> string \<Rightarrow> nat \<Rightarrow> nat \<Rightarrow> preset_token_error option io" where
  "verify_loop client preset_name attempt 0 = VerifyToken client (\<lambda>status.
     if status = Some ''active'' then (if attempt > 1 then Announce (TokenAccepted preset_name attempt) (Done None) else Done None)
     else if attempt = 1 then Announce (TokenNotYet preset_name) (Done (Some (PTNotAccepted status)))
     else Done (Some (PTNotAccepted status)))"
| "verify_loop client preset_name attempt (Suc left) = VerifyToken client (\<lambda>status.
     if status = Some ''active'' then (if attempt > 1 then Announce (TokenAccepted preset_name attempt) (Done None) else Done None)
     else
       let again = Pause verifyEvery (\<lambda>slept. if slept then verify_loop client preset_name (Suc attempt) left else Done (Some (PTNotAccepted status))) in
       if attempt = 1 then Announce (TokenNotYet preset_name) again else again)"

definition settle :: "string list \<Rightarrow> preset_request \<Rightarrow> credential \<Rightarrow> preset_token_error option io" where
  "settle env req cred =
     (if rq_r2 req then Pause r2Settle (\<lambda>slept. Done (fail_if (\<not> slept) PTR2Wait))
      else if rq_account_id req = [] then Done (Some PTNoAccount)
      else io_bind (newCFClient env (rq_account_id req) (cred_token cred)) (\<lambda>c. case c of
          Inl e \<Rightarrow> Done (Some e)
        | Inr client \<Rightarrow> verify_loop client (rq_preset req) 1 (verifyAttempts - 1)))"

section \<open>One credential\<close>

definition expirySlack :: int where
  "expirySlack = 2 * 60 * second"

definition request_check :: "string list \<Rightarrow> pt_config \<Rightarrow> preset_request \<Rightarrow> preset_token_error option" where
  "request_check env cfg req = first_of [
     fail_if (\<not> ValidPresetName (rq_preset req)) (PTPresetName (rq_preset req)),
     fail_if (rq_account_id req = [] \<and> (\<not> rq_r2 req \<or> BreakGlass_Enabled env (pt_breakglass cfg))) PTNoAccount,
     fail_if (rq_account_id req \<noteq> [] \<and> \<not> ValidAccountID (rq_account_id req)) (PTAccountID (rq_account_id req))]"

definition wrong_kind :: "preset_request \<Rightarrow> credential \<Rightarrow> bool" where
  "wrong_kind req cred \<longleftrightarrow>
     rq_r2 req \<and> (cred_access_key_id cred = [] \<or> cred_secret_access_key cred = []) \<or> \<not> rq_r2 req \<and> cred_token cred = []"

definition accept_credential :: "string list \<Rightarrow> pt_config \<Rightarrow> preset_request \<Rightarrow> credential \<Rightarrow> (preset_token_error + credential) io" where
  "accept_credential env cfg req cred =
     Clock (\<lambda>now. if now + (cfg_lifetime cfg + expirySlack) < cred_expires cred then Done (Inl (PTTooLong (cred_expires cred)))
       else Clock (\<lambda>now. let left = cred_expires cred - now in
         if left < cfg_minRemaining cfg then Done (Inl (PTTooShort left))
         else if wrong_kind req cred then Done (Inl PTWrongKind)
         else io_bind (settle env req cred) (\<lambda>err. Done (case err of Some e \<Rightarrow> Inl e | None \<Rightarrow> Inr cred))))"

definition Token :: "token_library \<Rightarrow> string list \<Rightarrow> pt_config \<Rightarrow> preset_request \<Rightarrow> string list \<Rightarrow>
    ((preset_token_error + credential) \<times> string list) io" where
  "Token lib env cfg req known =
     (case first_of [map_option PTConfig (TokenConfig_Validate (lib_parse_url lib) cfg), request_check env cfg req] of
        Some e \<Rightarrow> Done (Inl e, known)
      | None \<Rightarrow>
          io_bind (if BreakGlass_Enabled env (pt_breakglass cfg) then io_bind (breakGlass lib env cfg req) (\<lambda>r. Done (r, known))
            else fromSluis lib env cfg req known) (\<lambda>(r, known).
          io_bind (io_try (Done r) (accept_credential env cfg req)) (\<lambda>r. Done (r, known))))"

text \<open>\<open>Estate.Credential\<close>.\<close>

definition Estate_Credential :: "token_library \<Rightarrow> string list \<Rightarrow> estate \<Rightarrow> string \<Rightarrow> preset_request \<Rightarrow> string \<Rightarrow> string \<Rightarrow> string list \<Rightarrow>
    ((preset_token_error + credential) \<times> string list) io" where
  "Estate_Credential lib env e accountName req item issuer known = (case Estate_Config env e accountName item issuer of
      Inl err \<Rightarrow> Done (Inl (PTEstate err), known)
    | Inr conf \<Rightarrow> io_bind (Token lib env conf req known) (\<lambda>(r, known). Done (case r of
        Inl err \<Rightarrow> Inl err
      | Inr cred \<Rightarrow> if \<not> rq_r2 req \<and> cred_token cred = [] then Inl PTNoToken else Inr cred, known)))"

end
