(* ===== verification/Preset_Credential.thy ===== *)
theory Preset_Credential imports Preset_Token begin

text \<open>
  What \<open>cloudflare/presettoken\<close> guarantees of the credentials it hands out: when the wait for a new token
  ends and how, what a credential is when it is handed out, which binaries run in which environment, when
  the root is read, and what break-glass mints.
\<close>

section \<open>The wait\<close>

text \<open>The statuses Cloudflare answered with, in order, and the time spent between the calls.\<close>

fun statuses :: "event list \<Rightarrow> string option list" where
  "statuses [] = []"
| "statuses (EVerify c s # evs) = s # statuses evs"
| "statuses (e # evs) = statuses evs"

fun paused :: "event list \<Rightarrow> int" where
  "paused [] = 0"
| "paused (EPause d b # evs) = d + paused evs"
| "paused (e # evs) = paused evs"

lemma verify_loop_run:
  assumes "run (verify_loop client name attempt left) evs r"
  shows "statuses evs \<noteq> [] \<and> length (statuses evs) \<le> Suc left \<and> paused evs \<le> int left * verifyEvery \<and>
     (r = None \<longleftrightarrow> last (statuses evs) = Some ''active'') \<and> Some ''active'' \<notin> set (butlast (statuses evs)) \<and>
     (r \<noteq> None \<longrightarrow> length (statuses evs) = Suc left \<or> EPause verifyEvery False \<in> set evs)"
  using assms
proof (induction left arbitrary: attempt evs)
  case 0
  then show ?case by (auto split: if_splits)
next
  case (Suc left)
  have every: "0 \<le> verifyEvery" by (simp add: verifyEvery_def second_def)
  from Suc.prems obtain status rest where evs: "evs = EVerify client status # rest"
    and rest: "run (if status = Some ''active'' then (if attempt > 1 then Announce (TokenAccepted name attempt) (Done None) else Done None)
       else let again = Pause verifyEvery (\<lambda>slept. if slept then verify_loop client name (Suc attempt) left else Done (Some (PTNotAccepted status))) in
         if attempt = 1 then Announce (TokenNotYet name) again else again) rest r" by auto
  show ?case
  proof (cases "status = Some ''active''")
    case True
    with rest have "statuses rest = [] \<and> paused rest = 0 \<and> r = None" by (auto split: if_splits)
    then show ?thesis using True every by (simp add: evs)
  next
    case False
    let ?again = "Pause verifyEvery (\<lambda>slept. if slept then verify_loop client name (Suc attempt) left else Done (Some (PTNotAccepted status)))"
    from rest False obtain quiet where quiet: "rest = quiet \<or> rest = EAnnounce (TokenNotYet name) # quiet" and again: "run ?again quiet r"
      by (cases "attempt = 1") (auto simp: Let_def)
    from again obtain slept rest' where "quiet = EPause verifyEvery slept # rest'"
      and more: "run (if slept then verify_loop client name (Suc attempt) left else Done (Some (PTNotAccepted status))) rest' r"
      by (simp only: run_simps) blast
    with quiet have pause: "statuses rest = statuses rest'" "paused rest = verifyEvery + paused rest'"
      "EPause verifyEvery slept \<in> set rest" "set rest' \<subseteq> set rest" by auto
    show ?thesis
    proof (cases slept)
      case True
      with more have "run (verify_loop client name (Suc attempt) left) rest' r" by simp
      from Suc.IH [OF this] show ?thesis using False pause by (auto simp: evs algebra_simps)
    next
      case stopped: False
      with more have "rest' = []" "r = Some (PTNotAccepted status)" by simp_all
      then show ?thesis using False pause stopped mult_nonneg_nonneg [OF _ every, of "int left"] by (simp add: evs algebra_simps)
    qed
  qed
qed

lemma settle_run:
  assumes "run (settle env req cred) evs r" and "\<not> rq_r2 req"
  shows "(statuses evs = [] \<and> paused evs = 0 \<and> r \<noteq> None) \<or>
    (\<exists>client evs'. client = \<lparr>api_account = rq_account_id req, api_token = cred_token cred\<rparr> \<and> evs = ERoots True # evs' \<and>
       run (verify_loop client (rq_preset req) 1 (verifyAttempts - 1)) evs' r)"
proof (cases "rq_account_id req = []")
  case True
  then show ?thesis using assms by (simp add: settle_def)
next
  case False
  let ?err = "first_err (\<lambda>v. fail_if (getenv env v \<noteq> []) (CLEnv v)) [''SSL_CERT_FILE'', ''SSL_CERT_DIR'']"
  have "run (io_bind (io_check (map_option PTClient ?err)
      (Roots (\<lambda>ok. Done (if ok then Inr \<lparr>api_account = rq_account_id req, api_token = cred_token cred\<rparr> else Inl (PTClient CLRoots)))))
      (\<lambda>c. case c of Inl e \<Rightarrow> Done (Some e) | Inr client \<Rightarrow> verify_loop client (rq_preset req) 1 (verifyAttempts - 1))) evs r"
    using assms False unfolding settle_def newCFClient_def by (simp del: One_nat_def)
  then show ?thesis by (cases ?err) (auto simp: io_check_def simp del: One_nat_def split: if_splits)
qed


text \<open>C18 (termination): settling a new credential ends on every run, and soon. Whatever Cloudflare answers, there are at
  most 21 verify calls and 20 seconds of pauses; an API token settles exactly when the last answer was that it is active, and
  an R2 pair is never verified.\<close>

theorem settle_bounded:
  "(\<exists>evs r. run (settle env req cred) evs r) \<and>
   (\<forall>evs r. run (settle env req cred) evs r \<longrightarrow>
      length (statuses evs) \<le> 21 \<and> paused evs \<le> 20 * second \<and>
      (if rq_r2 req then statuses evs = [] else r = None \<longleftrightarrow> statuses evs \<noteq> [] \<and> last (statuses evs) = Some ''active''))"
proof (intro conjI allI impI)
  show "\<exists>evs r. run (settle env req cred) evs r" by (rule run_total)
next
  fix evs r assume run: "run (settle env req cred) evs r"
  have all: "length (statuses evs) \<le> 21 \<and> paused evs \<le> 20 * second \<and>
      (if rq_r2 req then statuses evs = [] else r = None \<longleftrightarrow> statuses evs \<noteq> [] \<and> last (statuses evs) = Some ''active'')"
  proof (cases "rq_r2 req")
    case True
    then show ?thesis using run by (auto simp: settle_def r2Settle_def second_def)
  next
    case False
    from settle_run [OF run False] show ?thesis
    proof (elim disjE exE conjE)
      assume "statuses evs = []" "paused evs = 0" "r \<noteq> None"
      then show ?thesis using False by (simp add: second_def)
    next
      fix client evs' assume evs: "evs = ERoots True # evs'" and loop: "run (verify_loop client (rq_preset req) 1 (verifyAttempts - 1)) evs' r"
      from verify_loop_run [OF loop] show ?thesis using False
        by (auto simp: evs verifyAttempts_def verifyWindow_def verifyEvery_def second_def)
    qed
  qed
  then show "length (statuses evs) \<le> 21" and "paused evs \<le> 20 * second"
    and "if rq_r2 req then statuses evs = [] else r = None \<longleftrightarrow> statuses evs \<noteq> [] \<and> last (statuses evs) = Some ''active''" by blast+
qed

text \<open>C19 (liveness): a token that Cloudflare comes to accept is settled. If Cloudflare would answer the calls with \<open>f 0\<close>,
  \<open>f 1\<close> and so on, and one of the first 21 answers is that the token is active, and no pause is interrupted, then settling it
  succeeds.\<close>

theorem settle_accepts:
  assumes "run (settle env req cred) evs r" and "\<not> rq_r2 req" and "rq_account_id req \<noteq> []"
    and "getenv env ''SSL_CERT_FILE'' = []" and "getenv env ''SSL_CERT_DIR'' = []" and "ERoots False \<notin> set evs"
    and "EPause verifyEvery False \<notin> set evs"
    and "statuses evs = map f [0..<length (statuses evs)]" and "f k = Some ''active''" and "k < 21"
  shows "r = None"
proof -
  have plain: "first_err (\<lambda>v. fail_if (getenv env v \<noteq> []) (CLEnv v)) [''SSL_CERT_FILE'', ''SSL_CERT_DIR''] = None"
    using assms(4,5) by simp
  have "\<not> (\<exists>evs' e. evs = ERoots False # evs')" using assms(6) by auto
  then obtain client evs' where evs: "evs = ERoots True # evs'"
    and loop: "run (verify_loop client (rq_preset req) 1 (verifyAttempts - 1)) evs' r"
    using assms(1-3) plain unfolding settle_def newCFClient_def by (auto simp: io_check_def simp del: One_nat_def split: if_splits)
  note wait = verify_loop_run [OF loop]
  show ?thesis
  proof (rule ccontr)
    assume "r \<noteq> None"
    with wait assms(7) have len: "length (statuses evs) = 21" and quiet: "Some ''active'' \<notin> set (butlast (statuses evs))"
      "last (statuses evs) \<noteq> Some ''active''" "statuses evs \<noteq> []"
      by (auto simp: evs verifyAttempts_def verifyWindow_def verifyEvery_def second_def)
    have "statuses evs ! k = Some ''active''" using assms(8-10) len by (metis nth_map_upt add_0 diff_zero)
    then have "Some ''active'' \<in> set (statuses evs)" using assms(10) len by (metis nth_mem)
    then show False using quiet by (metis append_butlast_last_id Un_iff set_append empty_iff set_ConsD empty_set)
  qed
qed


section \<open>What is handed out\<close>

lemma accept_run:
  assumes "run (accept_credential env cfg req cred) evs (Inr out)"
  obtains t1 t2 wait where "out = cred" "evs = EClock t1 # EClock t2 # wait" "run (settle env req cred) wait None"
    "cred_expires cred \<le> t1 + (cfg_lifetime cfg + expirySlack)" "cfg_minRemaining cfg \<le> cred_expires cred - t2" "\<not> wrong_kind req cred"
  using assms by (auto simp: accept_credential_def Let_def run_bind split: if_splits option.splits)

lemma Token_run:
  assumes "run (Token lib env cfg req known) evs (Inr cred, known')"
  obtains made waited where "evs = made @ waited" "run (accept_credential env cfg req cred) waited (Inr cred)"
    "TokenConfig_Validate (lib_parse_url lib) cfg = None" "request_check env cfg req = None"
    "if BreakGlass_Enabled env (pt_breakglass cfg) then run (breakGlass lib env cfg req) made (Inr cred) \<and> known' = known
     else run (fromSluis lib env cfg req known) made (Inr cred, known')"
proof -
  let ?get = "if BreakGlass_Enabled env (pt_breakglass cfg) then io_bind (breakGlass lib env cfg req) (\<lambda>r. Done (r, known))
     else fromSluis lib env cfg req known"
  have ok: "first_of [map_option PTConfig (TokenConfig_Validate (lib_parse_url lib) cfg), request_check env cfg req] = None"
    using assms unfolding Token_def by (auto split: option.splits)
  with assms have "run (io_bind ?get (\<lambda>(r, known). io_bind (io_try (Done r) (accept_credential env cfg req)) (\<lambda>r. Done (r, known)))) evs (Inr cred, known')"
    unfolding Token_def by simp
  from iffD1 [OF run_bind this] obtain made rk waited where evs: "evs = made @ waited" and "run ?get made rk"
    and "run (case rk of (r, known) \<Rightarrow> io_bind (io_try (Done r) (accept_credential env cfg req)) (\<lambda>r. Done (r, known))) waited (Inr cred, known')"
    by blast
  moreover obtain r k where "rk = (r, k)" by fastforce
  ultimately have get: "run ?get made (r, k)"
    and "run (io_bind (io_try (Done r) (accept_credential env cfg req)) (\<lambda>r. Done (r, k))) waited (Inr cred, known')" by simp_all
  from iffD1 [OF run_bind this(2)] have "k = known'" and "run (io_try (Done r) (accept_credential env cfg req)) waited (Inr cred)" by auto
  from this(1) and iffD1 [OF run_try this(2)] obtain c where "r = Inr c" and accepted: "run (accept_credential env cfg req c) waited (Inr cred)"
    by auto
  from accept_run [OF accepted] have "c = cred" by blast
  show thesis
  proof (rule that [OF evs])
    show "run (accept_credential env cfg req cred) waited (Inr cred)" using accepted \<open>c = cred\<close> by simp
    show "if BreakGlass_Enabled env (pt_breakglass cfg) then run (breakGlass lib env cfg req) made (Inr cred) \<and> known' = known
      else run (fromSluis lib env cfg req known) made (Inr cred, known')"
      using get \<open>r = Inr c\<close> \<open>c = cred\<close> \<open>k = known'\<close> run_bind [of "breakGlass lib env cfg req" "\<lambda>r. Done (r, known)" made "(Inr cred, known')"]
      by (cases "BreakGlass_Enabled env (pt_breakglass cfg)") simp_all
  qed (use ok in simp_all)
qed

text \<open>C15 (bounds): what a credential is when a stack gets it. Whatever sluis, 1Password and Cloudflare answered: the
  configuration is valid, the preset has a preset's name, the credential is of the kind the preset hands out, it lives at most the
  lifetime asked for (at most an hour) and two minutes more, counted from the check, and at least the shortest life accepted (at
  least a minute), and it was not handed out before Cloudflare accepted it: an API token's last verify answered that it is active, an
  R2 pair was left alone for five seconds.\<close>

theorem Token_credential:
  assumes "run (Token lib env cfg req known) evs (Inr cred, known')"
  shows "\<exists>made t1 t2 wait. evs = made @ EClock t1 # EClock t2 # wait \<and>
     TokenConfig_Validate (lib_parse_url lib) cfg = None \<and> ValidPresetName (rq_preset req) \<and>
     (if rq_r2 req then cred_access_key_id cred \<noteq> [] \<and> cred_secret_access_key cred \<noteq> [] else cred_token cred \<noteq> []) \<and>
     cred_expires cred \<le> t1 + cfg_lifetime cfg + 120 * second \<and> cfg_lifetime cfg \<le> 3600 * second \<and>
     t2 + cfg_minRemaining cfg \<le> cred_expires cred \<and> 60 * second \<le> cfg_minRemaining cfg \<and>
     (if rq_r2 req then wait = [EPause (5 * second) True]
      else ValidAccountID (rq_account_id req) \<and> statuses wait \<noteq> [] \<and> last (statuses wait) = Some ''active'')"
proof -
  from Token_run [OF assms] obtain made waited where evs: "evs = made @ waited"
    and accepted: "run (accept_credential env cfg req cred) waited (Inr cred)"
    and valid: "TokenConfig_Validate (lib_parse_url lib) cfg = None" and asked: "request_check env cfg req = None" by metis
  from accept_run [OF accepted] obtain t1 t2 wait where waited: "waited = EClock t1 # EClock t2 # wait"
    and settled: "run (settle env req cred) wait None" and times: "cred_expires cred \<le> t1 + (cfg_lifetime cfg + expirySlack)"
      "cfg_minRemaining cfg \<le> cred_expires cred - t2" and kind: "\<not> wrong_kind req cred" by metis
  have life: "cfg_lifetime cfg \<le> 3600 * second" by (simp add: cfg_lifetime_def MaxLifetime_def pt_DefaultLifetime_def)
  have least: "60 * second \<le> cfg_minRemaining cfg"
    using valid by (auto simp: TokenConfig_Validate_def cfg_minRemaining_def MinMinRemaining_def DefaultMinRemaining_def second_def)
  have accepted_by: "if rq_r2 req then wait = [EPause (5 * second) True] else statuses wait \<noteq> [] \<and> last (statuses wait) = Some ''active''"
  proof (cases "rq_r2 req")
    case True
    then show ?thesis using settled by (auto simp: settle_def r2Settle_def fail_if_def split: if_splits)
  next
    case False
    from settle_run [OF settled False] obtain client evs' where "wait = ERoots True # evs'"
      and loop: "run (verify_loop client (rq_preset req) 1 (verifyAttempts - 1)) evs' None" by blast
    then show ?thesis using verify_loop_run [OF loop] False by simp
  qed
  show ?thesis
    by (intro exI [of _ made] exI [of _ t1] exI [of _ t2] exI [of _ wait])
      (use evs waited valid asked kind times life least accepted_by in
        \<open>auto simp: wrong_kind_def request_check_def expirySlack_def\<close>)
qed


section \<open>What is run\<close>

text \<open>The tokens Cloudflare was asked to create, with its answers.\<close>

fun creations :: "event list \<Rightarrow> (api_client \<times> api_create \<times> (string \<times> string) option) list" where
  "creations [] = []"
| "creations (ECreate c r a # evs) = (c, r, a) # creations evs"
| "creations (e # evs) = creations evs"

lemma creations_append [simp]: "creations (a @ b) = creations a @ creations b"
  by (induction a rule: creations.induct) auto

lemma cleanEnv_members: "kv \<in> set (cleanEnv env extra) \<Longrightarrow> kv \<in> set extra \<or> kv \<in> set env \<and> \<not> env_stripped kv"
  by (auto simp: cleanEnv_def)

text \<open>The events of the wait and of the check of what came back: no command, no lookup, no creation.\<close>

definition waiting :: "event \<Rightarrow> bool" where
  "waiting e = (case e of EClock _ \<Rightarrow> True | EPause _ _ \<Rightarrow> True | ERoots _ \<Rightarrow> True | EVerify _ _ \<Rightarrow> True
     | EAnnounce (TokenAccepted _ _) \<Rightarrow> True | EAnnounce (TokenNotYet _) \<Rightarrow> True | _ \<Rightarrow> False)"

lemma verify_loop_waits: "asks waiting (verify_loop client name attempt left)"
  by (induction left arbitrary: attempt) (simp_all add: waiting_def Let_def)

lemma client_waits: "asks waiting (newCFClient env account token)"
  unfolding newCFClient_def by (intro asks_check) (simp add: waiting_def)

lemma settle_waits: "asks waiting (settle env req cred)"
proof -
  have "asks waiting (io_bind (newCFClient env (rq_account_id req) (cred_token cred)) (\<lambda>c. case c of
      Inl e \<Rightarrow> Done (Some e) | Inr client \<Rightarrow> verify_loop client (rq_preset req) 1 (verifyAttempts - 1)))"
    using client_waits yields_True by (rule asks_bind) (auto simp: verify_loop_waits split: sum.split)
  then show ?thesis by (simp add: settle_def waiting_def del: One_nat_def)
qed

lemma accept_waits: "asks waiting (accept_credential env cfg req cred)"
proof -
  have "asks waiting (io_bind (settle env req cred) (\<lambda>err. Done (case err of Some e \<Rightarrow> Inl e | None \<Rightarrow> Inr cred)))"
    using settle_waits yields_True by (rule asks_bind) simp
  then show ?thesis by (simp add: accept_credential_def waiting_def Let_def)
qed

lemma waiting_simps [simp]:
  "\<not> waiting (ERun c a)" "\<not> waiting (ELook n p)" "\<not> waiting (ECreate cl r b)" "\<not> waiting (EAnnounce (RootRead ref))"
  by (simp_all add: waiting_def)

lemma waiting_only:
  assumes "list_all waiting evs"
  shows "creations evs = []" "ERun c a \<notin> set evs" "ELook n p \<notin> set evs" "EAnnounce (RootRead ref) \<notin> set evs"
proof -
  show "creations evs = []" using assms by (induction evs rule: creations.induct) simp_all
  have "waiting e" if "e \<in> set evs" for e using assms that by (simp add: list_all_iff)
  then show "ERun c a \<notin> set evs" "ELook n p \<notin> set evs" "EAnnounce (RootRead ref) \<notin> set evs" using waiting_simps by blast+
qed

lemma resolve_run:
  assumes "run (resolve cfg name) evs r"
  shows "creations evs = [] \<and> ERun c a \<notin> set evs \<and> EAnnounce (RootRead ref) \<notin> set evs \<and> (\<forall>n p. ELook n p \<in> set evs \<longrightarrow> n = name) \<and>
     (case r of Inl e \<Rightarrow> True | Inr path \<Rightarrow> ELook name (Some path) \<in> set evs \<and> (name = ''sluisctl'' \<longrightarrow> pinned cfg path))"
proof -
  from assms obtain found rest where evs: "evs = ELook name found # rest"
    and more: "run (case found of None \<Rightarrow> Done (Inl (PTNotOnPath name)) | Some path \<Rightarrow>
        if name = ''sluisctl'' \<and> \<not> pinned cfg path then Done (Inl (PTNotPinned path))
        else if \<not> pinned cfg path then Announce (NotPinned name path) (Done (Inr path)) else Done (Inr path)) rest r"
    unfolding resolve_def run_simps by blast
  show ?thesis
  proof (cases found)
    case None
    then show ?thesis using more by (simp add: evs)
  next
    case (Some path)
    then have "rest = [] \<or> rest = [EAnnounce (NotPinned name path)]" using more by (simp split: if_split_asm)
    moreover have "r = Inr path \<and> (name = ''sluisctl'' \<longrightarrow> pinned cfg path) \<or> (\<exists>e. r = Inl e)"
      using more Some by (simp split: if_split_asm)
    ultimately show ?thesis using Some by (auto simp: evs)
  qed
qed

lemma requireSluisctl_run:
  assumes "run (requireSluisctl lib env cfg known path) evs r"
  shows "evs = [] \<or> (\<exists>a. evs = [ERun \<lparr>cl_path = path, cl_args = [''version'', ''--json''], cl_env = cleanEnv env []\<rparr> a])"
  using assms by (auto simp: requireSluisctl_def Let_def split: option.splits if_splits)

lemma fromSluis_run:
  assumes "run (fromSluis lib env cfg req known) evs r"
  shows "creations evs = [] \<and> EAnnounce (RootRead ref) \<notin> set evs \<and> (\<forall>n p. ELook n p \<in> set evs \<longrightarrow> n = ''sluisctl'') \<and>
     (\<forall>c a. ERun c a \<in> set evs \<longrightarrow> ELook ''sluisctl'' (Some (cl_path c)) \<in> set evs \<and> pinned cfg (cl_path c) \<and>
       (cl_env c = cleanEnv env [] \<or> cl_env c = cleanEnv env [noCacheEnv @ ''=1'']))"
proof -
  from iffD1 [OF run_bind assms [unfolded fromSluis_def]] obtain evs1 p evs2 where evs: "evs = evs1 @ evs2"
    and found: "run (resolve cfg ''sluisctl'') evs1 p"
    and more: "run (case p of Inl e \<Rightarrow> Done (Inl e, known)
      | Inr path \<Rightarrow> io_bind (requireSluisctl lib env cfg known path) (\<lambda>(err, known). case err of
          Some e \<Rightarrow> Done (Inl e, known)
        | None \<Rightarrow> Run \<lparr>cl_path = path, cl_args = sluisArgs cfg req, cl_env = cleanEnv env [noCacheEnv @ ''=1'']\<rparr> (\<lambda>reply.
            Done (if re_failed reply then Inl (PTSluis (sluis_refused (re_code reply))) else parseSluisAnswer lib req (re_stdout reply), known)))) evs2 r"
    by blast
  show ?thesis
  proof (cases p)
    case (Inl e)
    then show ?thesis using more resolve_run [OF found] by (auto simp: evs)
  next
    case (Inr path)
    from iffD1 [OF run_bind more [unfolded Inr sum.case]] obtain evs3 q evs4 where evs2: "evs2 = evs3 @ evs4"
      and floor: "run (requireSluisctl lib env cfg known path) evs3 q"
      and last: "run (case q of (err, known) \<Rightarrow> (case err of
          Some e \<Rightarrow> Done (Inl e, known)
        | None \<Rightarrow> Run \<lparr>cl_path = path, cl_args = sluisArgs cfg req, cl_env = cleanEnv env [noCacheEnv @ ''=1'']\<rparr> (\<lambda>reply.
            Done (if re_failed reply then Inl (PTSluis (sluis_refused (re_code reply))) else parseSluisAnswer lib req (re_stdout reply), known)))) evs4 r"
      by blast
    have "evs4 = [] \<or> (\<exists>a. evs4 = [ERun \<lparr>cl_path = path, cl_args = sluisArgs cfg req, cl_env = cleanEnv env [noCacheEnv @ ''=1'']\<rparr> a])"
      using last by (auto split: prod.splits option.splits)
    then show ?thesis using resolve_run [OF found, of _ _ ref] requireSluisctl_run [OF floor] Inr by (auto simp: evs evs2)
  qed
qed


lemma RootToken_run:
  assumes "run (RootToken lib env cfg) evs r"
  shows "evs = [] \<and> (\<exists>e. r = Inl e) \<or>
     BreakGlass_Enabled env (pt_breakglass cfg) \<and> hd evs = EAnnounce (RootRead (BreakGlass_Ref (pt_breakglass cfg))) \<and> evs \<noteq> [] \<and>
     creations evs = [] \<and> (\<forall>n p. ELook n p \<in> set evs \<longrightarrow> n = ''op'') \<and>
     (\<forall>c a. ERun c a \<in> set evs \<longrightarrow> ELook ''op'' (Some (cl_path c)) \<in> set evs \<and> cl_env c = cleanEnv env [] \<and>
        cl_args c = [''read'', ''--account'', bg_account (pt_breakglass cfg), ''--no-newline'', BreakGlass_Ref (pt_breakglass cfg)]) \<and>
     (\<forall>root. r = Inr root \<longrightarrow> root \<noteq> [] \<and> \<not> has_space root \<and> (\<exists>c a. ERun c a \<in> set evs \<and> \<not> re_failed a \<and> re_stdout a = root))"
proof (cases "TokenConfig_Validate (lib_parse_url lib) cfg = None \<and> BreakGlass_Enabled env (pt_breakglass cfg)")
  case False
  then show ?thesis using assms by (auto simp: RootToken_def io_check_def Let_def fail_if_def split: option.splits if_splits)
next
  case True
  let ?bg = "pt_breakglass cfg"
  let ?read = "\<lambda>path. \<lparr>cl_path = path, cl_args = [''read'', ''--account'', bg_account ?bg, ''--no-newline'', BreakGlass_Ref ?bg], cl_env = cleanEnv env []\<rparr>"
  let ?take = "\<lambda>path. Run (?read path) (\<lambda>reply. if re_failed reply then Done (Inl (PTOp (re_code reply)))
     else let token = re_stdout reply in
       Done (unless (first_of [fail_if (token = []) PTRootEmpty, fail_if (has_space token) PTRootSpace]) (Inr token)))"
  from assms True obtain rest where evs: "evs = EAnnounce (RootRead (BreakGlass_Ref ?bg)) # rest" and more: "run (io_try (resolve cfg ''op'') ?take) rest r"
    unfolding RootToken_def Let_def by (auto simp: io_check_def fail_if_def)
  from iffD1 [OF run_try_any more] consider (failed) e where "r = Inl e" "run (resolve cfg ''op'') rest (Inl e)"
    | (found) evs1 path evs2 where "rest = evs1 @ evs2" "run (resolve cfg ''op'') evs1 (Inr path)" "run (?take path) evs2 r"
    by blast
  then show ?thesis
  proof cases
    case failed
    then show ?thesis using resolve_run [OF failed(2)] True by (auto simp: evs)
  next
    case found
    from found(3) obtain a where evs2: "evs2 = [ERun (?read path) a]"
      and answer: "r = (if re_failed a then Inl (PTOp (re_code a)) else unless (first_of [fail_if (re_stdout a = []) PTRootEmpty,
        fail_if (has_space (re_stdout a)) PTRootSpace]) (Inr (re_stdout a)))"
      by (auto simp: Let_def split: if_splits)
    have "r = Inr root \<Longrightarrow> root \<noteq> [] \<and> \<not> has_space root \<and> \<not> re_failed a \<and> re_stdout a = root" for root
      using answer by (auto simp: unless_def split: if_splits option.splits)
    then show ?thesis using resolve_run [OF found(2)] True by (auto simp: evs evs2 found(1))
  qed
qed

section \<open>What break-glass mints\<close>

definition exact_group :: "event list \<Rightarrow> api_client \<Rightarrow> string \<Rightarrow> string \<Rightarrow> bool" where
  "exact_group evs client name gid \<longleftrightarrow>
     (\<exists>groups. EFindGroups client name (Some groups) \<in> set evs \<and> map fst (filter (\<lambda>(g, n). n = name) groups) = [gid])"

definition minted_policy :: "event list \<Rightarrow> api_client \<Rightarrow> string \<Rightarrow> token_policy \<Rightarrow> api_policy \<Rightarrow> bool" where
  "minted_policy evs client account p ap \<longleftrightarrow>
     list_all2 (exact_group evs client) (tp_groups p) (ap_groups ap) \<and>
     (\<exists>key. ResourceKey (tp_scope p) account = Inr key \<and> ap_resources ap = [(key, ''*'')])"

lemma exact_group_mono: "exact_group evs client name gid \<Longrightarrow> set evs \<subseteq> set evs' \<Longrightarrow> exact_group evs' client name gid"
proof -
  assume "exact_group evs client name gid" and sub: "set evs \<subseteq> set evs'"
  then obtain groups where "EFindGroups client name (Some groups) \<in> set evs" "map fst (filter (\<lambda>(g, n). n = name) groups) = [gid]"
    unfolding exact_group_def by metis
  then show "exact_group evs' client name gid" unfolding exact_group_def using subsetD [OF sub] by metis
qed

lemma minted_policy_mono: "minted_policy evs client account p ap \<Longrightarrow> set evs \<subseteq> set evs' \<Longrightarrow> minted_policy evs' client account p ap"
  unfolding minted_policy_def using list_all2_mono [of "exact_group evs client" _ _ "exact_group evs' client"] exact_group_mono by metis

definition searching :: "event \<Rightarrow> bool" where
  "searching e = (case e of EFindGroups _ _ _ \<Rightarrow> True | _ \<Rightarrow> False)"

lemma group_searches: "asks searching (permissionGroupID client name)"
  by (simp add: permissionGroupID_def searching_def Let_def split: option.split)

lemma yields_any: "yields (\<lambda>r. case r of Inl e \<Rightarrow> True | Inr x \<Rightarrow> True) p"
  by (induction p) (auto split: sum.split)

lemma groups_search: "asks searching (group_ids client ns)"
  by (induction ns) (auto intro!: asks_try [OF _ yields_any] group_searches)

lemma policies_search: "asks searching (mint_policies client account i ps)"
  by (induction ps arbitrary: i) (auto intro!: asks_try [OF _ yields_any] groups_search split: sum.split)

lemma searching_only:
  assumes "list_all searching evs"
  shows "creations evs = []" "ERun c a \<notin> set evs" "ELook n p \<notin> set evs"
proof -
  show "creations evs = []" using assms by (induction evs rule: creations.induct) (simp_all add: searching_def)
  have "searching e" if "e \<in> set evs" for e using assms that by (simp add: list_all_iff)
  moreover have "\<not> searching (ERun c a)" "\<not> searching (ELook n p)" by (simp_all add: searching_def)
  ultimately show "ERun c a \<notin> set evs" "ELook n p \<notin> set evs" by blast+
qed


lemma group_ids_run:
  assumes "run (group_ids client ns) evs (Inr ids)"
  shows "list_all2 (exact_group evs client) ns ids"
  using assms
proof (induction ns arbitrary: evs ids)
  case Nil
  then show ?case by simp
next
  case (Cons n ns)
  from iffD1 [OF run_try Cons.prems [unfolded group_ids.simps]] obtain evs1 gid evs2 where evs: "evs = evs1 @ evs2"
    and one: "run (permissionGroupID client n) evs1 (Inr gid)"
    and more: "run (io_try (group_ids client ns) (\<lambda>ids. Done (Inr (gid # ids)))) evs2 (Inr ids)" by blast
  from iffD1 [OF run_try more] obtain rest where ids: "ids = gid # rest" and tail: "run (group_ids client ns) evs2 (Inr rest)" by auto
  from one obtain groups where "evs1 = [EFindGroups client n (Some groups)]"
    and "length (map fst (filter (\<lambda>(g, m). m = n) groups)) = 1" "gid = hd (map fst (filter (\<lambda>(g, m). m = n) groups))"
    by (auto simp: permissionGroupID_def Let_def split: option.splits if_splits)
  then have "exact_group evs client n gid" unfolding exact_group_def evs
    by (intro exI [of _ groups]) (cases "map fst (filter (\<lambda>(g, m). m = n) groups)"; simp)
  moreover have "list_all2 (exact_group evs client) ns rest"
    using Cons.IH [OF tail] by (rule list_all2_mono) (auto intro: exact_group_mono simp: evs)
  ultimately show ?case by (simp add: ids)
qed

lemma mint_policies_run:
  assumes "run (mint_policies client account i ps) evs (Inr minted)"
  shows "list_all2 (minted_policy evs client account) ps minted"
  using assms
proof (induction ps arbitrary: i evs minted)
  case Nil
  then show ?case by simp
next
  case (Cons p ps)
  from iffD1 [OF run_try Cons.prems [unfolded mint_policies.simps]] obtain evs1 ids evs2 where evs: "evs = evs1 @ evs2"
    and groups: "run (group_ids client (tp_groups p)) evs1 (Inr ids)"
    and more: "run (case ResourceKey (tp_scope p) account of Inl e \<Rightarrow> Done (Inl (PTKey i e))
      | Inr key \<Rightarrow> io_try (mint_policies client account (Suc i) ps) (\<lambda>rest. Done (Inr (\<lparr>ap_groups = ids, ap_resources = [(key, ''*'')]\<rparr> # rest))))
      evs2 (Inr minted)" by blast
  from more obtain key where key: "ResourceKey (tp_scope p) account = Inr key"
    and tail: "run (io_try (mint_policies client account (Suc i) ps) (\<lambda>rest. Done (Inr (\<lparr>ap_groups = ids, ap_resources = [(key, ''*'')]\<rparr> # rest)))) evs2 (Inr minted)"
    by (cases "ResourceKey (tp_scope p) account") auto
  from iffD1 [OF run_try tail] obtain rest where minted: "minted = \<lparr>ap_groups = ids, ap_resources = [(key, ''*'')]\<rparr> # rest"
    and others: "run (mint_policies client account (Suc i) ps) evs2 (Inr rest)" by auto
  have "list_all2 (exact_group evs client) (tp_groups p) ids"
    using group_ids_run [OF groups] by (rule list_all2_mono) (auto intro: exact_group_mono simp: evs)
  then have "minted_policy evs client account p \<lparr>ap_groups = ids, ap_resources = [(key, ''*'')]\<rparr>" by (simp add: minted_policy_def key)
  moreover have "list_all2 (minted_policy evs client account) ps rest"
    using Cons.IH [OF others] by (rule list_all2_mono) (auto intro: minted_policy_mono simp: evs)
  ultimately show ?case by (simp add: minted)
qed


lemma asks_mono: "asks P p \<Longrightarrow> (\<And>e. P e \<Longrightarrow> Q e) \<Longrightarrow> asks Q p"
  by (induction p) auto

text \<open>After the root is read no command runs.\<close>

definition calling :: "event \<Rightarrow> bool" where
  "calling e = (case e of ERun _ _ \<Rightarrow> False | ELook _ _ \<Rightarrow> False | _ \<Rightarrow> True)"

lemma calls: "waiting e \<Longrightarrow> calling e" "searching e \<Longrightarrow> calling e"
  by (cases e; simp add: waiting_def searching_def calling_def)+

lemma mintChild_calls: "asks calling (mintChild lib env cfg req root)"
proof -
  have create: "asks calling (createChild lib cfg req client policies now now')" for client policies now now'
    unfolding createChild_def Let_def
    by (rule asks_try [OF _ yields_any]) (auto simp: createToken_def calling_def)
  show ?thesis unfolding mintChild_def
    by (intro asks_try [OF _ yields_any])
      (auto intro: asks_mono [OF client_waits] asks_mono [OF policies_search] calls create simp: calling_def)
qed

lemma calling_only:
  assumes "list_all calling evs"
  shows "ERun c a \<notin> set evs" "ELook n p \<notin> set evs"
  using assms by (auto simp: list_all_iff calling_def)

lemma breakGlass_run:
  assumes "run (breakGlass lib env cfg req) evs r"
  shows "evs = [] \<and> (\<exists>e. r = Inl e) \<or>
     hd evs = EAnnounce (RootRead (BreakGlass_Ref (pt_breakglass cfg))) \<and> evs \<noteq> [] \<and>
     (\<forall>n p. ELook n p \<in> set evs \<longrightarrow> n = ''op'') \<and>
     (\<forall>c a. ERun c a \<in> set evs \<longrightarrow> ELook ''op'' (Some (cl_path c)) \<in> set evs \<and> cl_env c = cleanEnv env [] \<and>
        cl_args c = [''read'', ''--account'', bg_account (pt_breakglass cfg), ''--no-newline'', BreakGlass_Ref (pt_breakglass cfg)])"
proof -
  have "(evs = [] \<and> (\<exists>e. r = Inl e)) \<or> run (io_try (RootToken lib env cfg) (mintChild lib env cfg req)) evs r"
    using assms by (auto simp: breakGlass_def io_check_def split: option.splits)
  then show ?thesis unfolding run_try_any
  proof (elim disjE exE conjE)
    fix e assume "r = Inl e" "run (RootToken lib env cfg) evs (Inl e)"
    then show ?thesis using RootToken_run by blast
  next
    fix evs1 root evs2 assume evs: "evs = evs1 @ evs2" and read: "run (RootToken lib env cfg) evs1 (Inr root)"
      and mint: "run (mintChild lib env cfg req root) evs2 r"
    show ?thesis using RootToken_run [OF read] calling_only [OF asks_run [OF mint mintChild_calls]] by (auto simp: evs)
  qed simp
qed


lemma Token_events:
  assumes "run (Token lib env cfg req known) evs r"
  obtains (nothing) "evs = []"
  | (root) made waited c where "BreakGlass_Enabled env (pt_breakglass cfg)" "TokenConfig_Validate (lib_parse_url lib) cfg = None"
      "evs = made @ waited" "list_all waiting waited" "run (breakGlass lib env cfg req) made c" "(\<exists>e. c = Inl e) \<Longrightarrow> waited = []"
  | (sluis) made waited q where "\<not> BreakGlass_Enabled env (pt_breakglass cfg)" "TokenConfig_Validate (lib_parse_url lib) cfg = None"
      "evs = made @ waited" "list_all waiting waited" "run (fromSluis lib env cfg req known) made q"
proof (cases "first_of [map_option PTConfig (TokenConfig_Validate (lib_parse_url lib) cfg), request_check env cfg req]")
  case (Some e)
  then have "evs = []" using assms by (simp add: Token_def)
  then show ?thesis by (rule nothing)
next
  case None
  let ?get = "if BreakGlass_Enabled env (pt_breakglass cfg) then io_bind (breakGlass lib env cfg req) (\<lambda>r. Done (r, known))
     else fromSluis lib env cfg req known"
  let ?check = "\<lambda>r. io_try (Done r) (accept_credential env cfg req)"
  from assms None have "run (io_bind ?get (\<lambda>(r, known). io_bind (?check r) (\<lambda>r. Done (r, known)))) evs r"
    unfolding Token_def by simp
  from iffD1 [OF run_bind this] obtain made rk waited where evs: "evs = made @ waited" and get: "run ?get made rk"
    and more: "run (case rk of (r, known) \<Rightarrow> io_bind (?check r) (\<lambda>r. Done (r, known))) waited r"
    by blast
  obtain c k where rk: "rk = (c, k)" by fastforce
  have "asks waiting (?check c)" by (cases c) (simp_all add: io_try_def accept_waits)
  then have "asks waiting (io_bind (?check c) (\<lambda>r. Done (r, k)))" using yields_True by (rule asks_bind) simp
  with more have waits: "list_all waiting waited" unfolding rk by (auto intro: asks_run)
  have quiet: "waited = []" if "c = Inl e" for e using more that by (simp add: rk io_try_def)
  show thesis
  proof (cases "BreakGlass_Enabled env (pt_breakglass cfg)")
    case True
    then have "run (breakGlass lib env cfg req) made c"
      using get run_bind [of "breakGlass lib env cfg req" "\<lambda>r. Done (r, known)" made rk] by (auto simp: rk)
    then show thesis using root [OF True _ evs waits] None quiet by auto
  next
    case False
    then show thesis using sluis [OF False _ evs waits] None get by simp
  qed
qed

text \<open>C16 (safety): what getting a credential runs. Every command's environment is the process environment without the variables
  that could redirect it, and at most the variable that turns sluisctl's cache off. Without break-glass the only
  binary run is the one \<open>sluisctl\<close> resolves to, and it lies below one of the configured directories; the root is not read and no
  token is created. With break-glass the first thing that happens is the announcement that the root is read, and the only command
  is 1Password's read of the reference configured, from the account configured.\<close>

theorem Token_commands:
  assumes "run (Token lib env cfg req known) evs r"
  shows "(\<forall>c a kv. ERun c a \<in> set evs \<longrightarrow> kv \<in> set (cl_env c) \<longrightarrow> kv = noCacheEnv @ ''=1'' \<or> kv \<in> set env \<and> \<not> env_stripped kv) \<and>
    (if BreakGlass_Enabled env (pt_breakglass cfg)
     then (evs \<noteq> [] \<longrightarrow> hd evs = EAnnounce (RootRead (BreakGlass_Ref (pt_breakglass cfg)))) \<and>
       (\<forall>c a. ERun c a \<in> set evs \<longrightarrow> ELook ''op'' (Some (cl_path c)) \<in> set evs \<and>
          cl_args c = [''read'', ''--account'', bg_account (pt_breakglass cfg), ''--no-newline'', BreakGlass_Ref (pt_breakglass cfg)])
     else (\<forall>c a. ERun c a \<in> set evs \<longrightarrow> ELook ''sluisctl'' (Some (cl_path c)) \<in> set evs \<and>
          (\<exists>p \<in> set (pt_binary_prefixes cfg). has_prefix (cl_path c) (p @ ''/''))) \<and>
       creations evs = [] \<and> (\<forall>ref. EAnnounce (RootRead ref) \<notin> set evs))"
  using assms
proof (cases rule: Token_events)
  case nothing
  then show ?thesis by simp
next
  case (root made waited c)
  note quiet = waiting_only [OF root(4)]
  let ?bg = "pt_breakglass cfg"
  have glass: "made = [] \<and> waited = [] \<or> made \<noteq> [] \<and> hd made = EAnnounce (RootRead (BreakGlass_Ref ?bg))"
    and commands: "\<forall>c a. ERun c a \<in> set made \<longrightarrow> ELook ''op'' (Some (cl_path c)) \<in> set made \<and> cl_env c = cleanEnv env [] \<and>
      cl_args c = [''read'', ''--account'', bg_account ?bg, ''--no-newline'', BreakGlass_Ref ?bg]"
    using breakGlass_run [OF root(5)] root(6) by auto
  have "kv \<in> set env \<and> \<not> env_stripped kv" if "ERun c a \<in> set evs" "kv \<in> set (cl_env c)" for c a kv
    using that commands quiet cleanEnv_members [of kv env "[]"] by (auto simp: root(3))
  then show ?thesis using root(1) glass commands quiet by (auto simp: root(3))
next
  case (sluis made waited q)
  note quiet = waiting_only [OF sluis(4)]
  from sluis(2) have prefixes: "path_Clean p = p" if "p \<in> set (pt_binary_prefixes cfg)" for p
    using that by (auto simp: TokenConfig_Validate_def validPrefix_def first_err_None)
  from fromSluis_run [OF sluis(5)] have commands: "creations made = []" "\<forall>ref. EAnnounce (RootRead ref) \<notin> set made"
    "\<forall>c a. ERun c a \<in> set made \<longrightarrow> ELook ''sluisctl'' (Some (cl_path c)) \<in> set made \<and> pinned cfg (cl_path c) \<and>
      (cl_env c = cleanEnv env [] \<or> cl_env c = cleanEnv env [noCacheEnv @ ''=1''])" by blast+
  have "kv = noCacheEnv @ ''=1'' \<or> kv \<in> set env \<and> \<not> env_stripped kv" if "ERun c a \<in> set evs" "kv \<in> set (cl_env c)" for c a kv
    using that commands(3) quiet cleanEnv_members [of kv env] by (fastforce simp: sluis(3))
  moreover have "\<exists>p \<in> set (pt_binary_prefixes cfg). has_prefix (cl_path c) (p @ ''/'')" if "pinned cfg (cl_path c)" for c :: cli_call
    using that prefixes by (auto simp: pinned_def list_ex_iff)
  ultimately show ?thesis using sluis(1) commands quiet by (auto simp: sluis(3))
qed


text \<open>C17 (safety): what break-glass mints. A credential it hands out is the one token created, in the request's account, as the
  root that 1Password answered with: each policy of the request becomes one policy whose groups are the request's, each by
  the id of the one group with exactly that name, over the resource that the policy's scope names in that account; it expires
  within the hour, its name says which preset it is for, and it is announced with its id.\<close>

theorem breakglass_child:
  assumes "run (breakGlass lib env cfg req) evs (Inr cred)"
  shows "\<exists>client create tid token now c a.
     creations evs = [(client, create, Some (tid, token))] \<and> api_account client = rq_account_id req \<and>
     ERun c a \<in> set evs \<and> re_stdout a = api_token client \<and> api_token client \<noteq> [] \<and> \<not> has_space (api_token client) \<and>
     list_all2 (minted_policy evs client (rq_account_id req)) (rq_policies req) (cr_policies create) \<and>
     EClock now \<in> set evs \<and> cr_expires create \<le> now + 3600 * second \<and> cred_expires cred = cr_expires create \<and>
     has_prefix (cr_name create) (bg_child_prefix (pt_breakglass cfg) @ ''-'' @ rq_preset req @ ''-'') \<and>
     (if rq_r2 req then cred_access_key_id cred = tid \<and> cred_secret_access_key cred = lib_sha256_hex lib token else cred_token cred = token) \<and>
     last evs = EAnnounce (ChildMinted (cr_name create) tid (rq_preset req) (cr_expires create))"
proof -
  from assms have "run (io_try (RootToken lib env cfg) (mintChild lib env cfg req)) evs (Inr cred)" by (simp add: breakGlass_def)
  from iffD1 [OF run_try this] obtain evs1 root evs2 where evs: "evs = evs1 @ evs2" and read: "run (RootToken lib env cfg) evs1 (Inr root)"
    and mint: "run (mintChild lib env cfg req root) evs2 (Inr cred)" by blast
  from iffD1 [OF run_try mint [unfolded mintChild_def]] obtain evs3 client evs4 where evs2: "evs2 = evs3 @ evs4"
    and conn: "run (newCFClient env (rq_account_id req) root) evs3 (Inr client)"
    and more: "run (io_try (mint_policies client (rq_account_id req) 0 (rq_policies req)) (\<lambda>policies.
      Clock (\<lambda>now. Clock (\<lambda>now'. createChild lib cfg req client policies now now')))) evs4 (Inr cred)" by blast
  from conn have client: "client = \<lparr>api_account = rq_account_id req, api_token = root\<rparr>" and "creations evs3 = []"
    by (auto simp: newCFClient_def split: if_splits)
  from iffD1 [OF run_try more] obtain evs5 policies now now' evs6 where evs4: "evs4 = evs5 @ EClock now # EClock now' # evs6"
    and minted: "run (mint_policies client (rq_account_id req) 0 (rq_policies req)) evs5 (Inr policies)"
    and create: "run (createChild lib cfg req client policies now now') evs6 (Inr cred)" by auto
  have "creations evs5 = []" by (rule searching_only [OF asks_run [OF minted policies_search]])
  let ?t = "now + min (cfg_lifetime cfg) MaxLifetime"
  let ?create = "\<lparr>cr_name = bg_child_prefix (pt_breakglass cfg) @ ''-'' @ rq_preset req @ ''-'' @ utc_stamp now', cr_policies = policies,
    cr_expires = ?t - ?t mod second\<rparr>"
  from create obtain tid token where evs6: "evs6 = [ECreate client ?create (Some (tid, token)),
      EAnnounce (ChildMinted (cr_name ?create) tid (rq_preset req) (cr_expires ?create))]"
    and cred: "cred = (if rq_r2 req
      then \<lparr>cred_token = [], cred_access_key_id = tid, cred_secret_access_key = lib_sha256_hex lib token, cred_expires = cr_expires ?create\<rparr>
      else \<lparr>cred_token = token, cred_access_key_id = [], cred_secret_access_key = [], cred_expires = cr_expires ?create\<rparr>)"
    by (auto simp: createChild_def createToken_def Let_def run_try split: option.splits if_splits)
  have hour: "cr_expires ?create \<le> now + 3600 * second"
    using pos_mod_sign [of second ?t] by (simp add: MaxLifetime_def second_def)
  from RootToken_run [OF read] obtain c a where "creations evs1 = []" "root \<noteq> []" "\<not> has_space root" "ERun c a \<in> set evs1" "re_stdout a = root"
    by blast
  moreover have "list_all2 (minted_policy evs client (rq_account_id req)) (rq_policies req) policies"
    using mint_policies_run [OF minted] by (rule list_all2_mono) (auto intro: minted_policy_mono simp: evs evs2 evs4)
  ultimately show ?thesis
    using \<open>creations evs3 = []\<close> \<open>creations evs5 = []\<close> hour
    by - (rule exI [of _ client], rule exI [of _ ?create], rule exI [of _ tid], rule exI [of _ token], rule exI [of _ now],
        rule exI [of _ c], rule exI [of _ a], simp add: evs evs2 evs4 evs6 cred client has_prefix_iff)
qed


text \<open>(error): the switch of an estate's break-glass. Whether an account's configuration takes the root is decided by the
  estate's variable alone: with the variable on, the configuration built has break-glass enabled, or, when no item is
  known for the account, is refused with the account's name; with it off the configuration is built and has it disabled.\<close>

theorem Estate_switch:
  "case Estate_Config env e accountName item issuer of
     Inl err \<Rightarrow> err = PCNoItem accountName \<and> eb_env (es_breakglass e) \<noteq> [] \<and> getenv env (eb_env (es_breakglass e)) = ''1'' \<and>
       estate_item env (es_breakglass e) item = []
   | Inr c \<Rightarrow> BreakGlass_Enabled env (pt_breakglass c) \<longleftrightarrow>
       eb_env (es_breakglass e) \<noteq> [] \<and> getenv env (eb_env (es_breakglass e)) = ''1''"
  by (auto simp: Estate_Config_def BreakGlass_Enabled_def no_breakglass_def Let_def)

section \<open>Runs to which the properties apply\<close>

definition sample_glass :: breakglass where
  "sample_glass = \<lparr>bg_env = ''ACME_BREAKGLASS'', bg_account = ''acme'', bg_vault = ''Roots'', bg_item = ''main'', bg_field = ''token'',
     bg_child_prefix = ''glass''\<rparr>"

definition sample_token_config :: pt_config where
  "sample_token_config = \<lparr>pt_issuer = [], pt_sluisctl_min = ''1.2.3'', pt_binary_prefixes = [''/nix/store''], pt_lifetime = 0,
     pt_min_remaining = 0, pt_breakglass = sample_glass, pt_grant_hint = [], pt_runbook = []\<rparr>"

definition sample_account_id :: string where
  "sample_account_id = ''0123456789abcdef0123456789abcdef''"

definition sample_token_request :: preset_request where
  "sample_token_request = \<lparr>rq_preset = ''dns'', rq_r2 = False, rq_account_id = sample_account_id,
     rq_policies = [\<lparr>tp_groups = [''Zone Read''], tp_scope = Some WholeAccountScope\<rparr>]\<rparr>"

definition sample_token_library :: token_library where
  "sample_token_library = \<lparr>lib_parse_url = (\<lambda>_. None), lib_version = (\<lambda>_. Some ''1.3.0''),
     lib_token = (\<lambda>_. Some (''tok'', ''2024-01-01T01:00:00Z'')), lib_r2 = (\<lambda>_. None), lib_sha256_hex = (\<lambda>s. s)\<rparr>"

definition sample_credential :: credential where
  "sample_credential = \<lparr>cred_token = ''tok'', cred_access_key_id = [], cred_secret_access_key = [], cred_expires = 1704070800000000000\<rparr>"

definition sample_client :: api_client where
  "sample_client = \<lparr>api_account = sample_account_id, api_token = ''tok''\<rparr>"

definition sample_wait :: "event list" where
  "sample_wait = [ERoots True, EVerify sample_client None, EAnnounce (TokenNotYet ''dns''), EPause 1000000000 True,
     EVerify sample_client (Some ''active''), EAnnounce (TokenAccepted ''dns'' 2)]"

definition sample_sluis :: "event list" where
  "sample_sluis = [ELook ''sluisctl'' (Some ''/nix/store/sluis/bin/sluisctl''),
     ERun \<lparr>cl_path = ''/nix/store/sluis/bin/sluisctl'', cl_args = [''version'', ''--json''], cl_env = [''PATH=/bin'']\<rparr>
       \<lparr>re_stdout = [], re_code = 0, re_failed = False\<rparr>,
     ERun \<lparr>cl_path = ''/nix/store/sluis/bin/sluisctl'',
         cl_args = [''cloudflare'', ''token'', ''dns'', ''--format'', ''json'', ''--lifetime'', ''1h0m0s'', ''--no-cache''],
         cl_env = [''PATH=/bin'', ''SLUISCTL_CLOUDFLARE_NO_CACHE=1'']\<rparr>
       \<lparr>re_stdout = [], re_code = 0, re_failed = False\<rparr>,
     EClock 1704067200000000000, EClock 1704067201000000000] @ sample_wait"

definition sample_env :: "string list" where
  "sample_env = [''PATH=/bin'', ''https_proxy=http://127.0.0.1:9'', ''OP_CONNECT_HOST=x'']"

lemma sample_sluis_run:
  "run (Token sample_token_library sample_env sample_token_config sample_token_request []) sample_sluis
     (Inr sample_credential, [''/nix/store/sluis/bin/sluisctl@1.2.3''])"
  by (rule iffD1 [OF replay_run]) code_simp

lemma sample_wait_run: "run (settle sample_env sample_token_request sample_credential) sample_wait None"
  by (rule iffD1 [OF replay_run]) code_simp

lemma settle_bounded_witness: "length (statuses sample_wait) \<le> 21 \<and> paused sample_wait \<le> 20 * second"
  using settle_bounded [of sample_env sample_token_request sample_credential] sample_wait_run by blast

lemma settle_accepts_witness: "\<exists>r. run (settle sample_env sample_token_request sample_credential) sample_wait r \<and> r = None"
proof -
  let ?f = "\<lambda>i :: nat. if i = 0 then None else Some ''active''"
  have "statuses sample_wait = map ?f [0..<length (statuses sample_wait)]" by code_simp
  moreover have "\<not> rq_r2 sample_token_request" "rq_account_id sample_token_request \<noteq> []" "ERoots False \<notin> set sample_wait"
    "EPause verifyEvery False \<notin> set sample_wait" "getenv sample_env ''SSL_CERT_FILE'' = []" "getenv sample_env ''SSL_CERT_DIR'' = []"
    by code_simp+
  ultimately show ?thesis using settle_accepts [OF sample_wait_run, of ?f 1] sample_wait_run by simp
qed

lemma Token_credential_witness: "60 * second \<le> cfg_minRemaining sample_token_config"
  using Token_credential [OF sample_sluis_run] by blast

lemma Token_commands_witness: "creations sample_sluis = []"
proof -
  have "\<not> BreakGlass_Enabled sample_env (pt_breakglass sample_token_config)" by code_simp
  then show ?thesis using Token_commands [OF sample_sluis_run] by simp
qed

definition sample_minting :: "event list" where
  "sample_minting = (let bg = sample_glass; client = \<lparr>api_account = sample_account_id, api_token = ''root''\<rparr> in
     [EAnnounce (RootRead ''op://Roots/main/token''), ELook ''op'' (Some ''/usr/bin/op''), EAnnounce (NotPinned ''op'' ''/usr/bin/op''),
      ERun \<lparr>cl_path = ''/usr/bin/op'', cl_args = [''read'', ''--account'', ''acme'', ''--no-newline'', ''op://Roots/main/token''],
          cl_env = [''ACME_BREAKGLASS=1'']\<rparr> \<lparr>re_stdout = ''root'', re_code = 0, re_failed = False\<rparr>,
      ERoots True, EFindGroups client ''Zone Read'' (Some [(''g0'', ''Zone Read All''), (''g1'', ''Zone Read'')]),
      EClock 0, EClock 0,
      ECreate client \<lparr>cr_name = ''glass-dns-19700101T000000Z'',
          cr_policies = [\<lparr>ap_groups = [''g1''], ap_resources = [(''com.cloudflare.api.account.0123456789abcdef0123456789abcdef'', ''*'')]\<rparr>],
          cr_expires = 3600000000000\<rparr> (Some (''id'', ''secret'')),
      EAnnounce (ChildMinted ''glass-dns-19700101T000000Z'' ''id'' ''dns'' 3600000000000)])"

lemma sample_minting_run:
  "run (breakGlass sample_token_library [''ACME_BREAKGLASS=1''] sample_token_config sample_token_request) sample_minting
     (Inr \<lparr>cred_token = ''secret'', cred_access_key_id = [], cred_secret_access_key = [], cred_expires = 3600000000000\<rparr>)"
  by (rule iffD1 [OF replay_run]) code_simp

lemma breakglass_child_witness: "length (creations sample_minting) = 1"
  using breakglass_child [OF sample_minting_run] by force

end
