(* ===== verification/Stack_Prototypes.thy ===== *)
theory Stack_Prototypes imports Preset_Rights Preset_Config Pulumi_Program begin

text \<open>
  \<open>cloudflare/prototypes\<close>: the disabled tokens a preset's credentials are cloned from. \<open>Deploy\<close> is the
  list of its actions (\<open>Pulumi_Program\<close>); the exports are actions too. The list of permission groups, the stack's
  configuration and the process environment are parameters; the resource options a caller adds are left out.
\<close>

section \<open>The declaration\<close>

record prototype =
  pto_name :: string
  pto_policies :: "token_policy list"

record prototypes_args =
  pta_account_id :: string
  pta_presets :: "prototype list"
  pta_name_prefix :: string
  pta_breakglass :: breakglass
  pta_moved :: "string list"
  pta_moved_key :: string

datatype prototypes_error =
    PEAccountID string
  | PENamePrefix
  | PENoGlass
  | PEBreakGlass preset_config_error
  | PENoPresets
  | PEName string
  | PETwice string
  | PEPolicies string token_error
  | PEKey string nat key_error
  | PEMoved string
  | PENotMoved "string list"
  | PEGlassOff
  | PENoRoot
  | PEConflict string
  | PEConfig string
  | PELookup string token_error
  | PENoGetenv
  | PEEstate preset_config_error
  | PENoItem string
  | PENoPreset string

definition prototype_config :: "prototype \<Rightarrow> child_config" where
  "prototype_config p = \<lparr>cc_name = pto_name p, cc_rotation = [], cc_expires_on = [], cc_policies = pto_policies p\<rparr>"

definition prototype_keys :: "string \<Rightarrow> prototype \<Rightarrow> prototypes_error option" where
  "prototype_keys accountID p = first_err (\<lambda>(i, pol). case ResourceKey (tp_scope pol) accountID of
      Inl e \<Rightarrow> Some (PEKey (pto_name p) i e)
    | Inr key \<Rightarrow> None) (enumerate 0 (pto_policies p))"

fun prototypes_loop :: "int \<Rightarrow> string \<Rightarrow> string list \<Rightarrow> prototype list \<Rightarrow> prototypes_error option" where
  "prototypes_loop now accountID seen [] = None"
| "prototypes_loop now accountID seen (p # ps) = first_of [
     fail_if (\<not> ValidPresetName (pto_name p)) (PEName (pto_name p)),
     fail_if (pto_name p \<in> set seen) (PETwice (pto_name p)),
     map_option (PEPolicies (pto_name p)) (ChildToken_Validate now (prototype_config p)),
     prototype_keys accountID p,
     prototypes_loop now accountID (pto_name p # seen) ps]"

definition Prototypes_Validate :: "int \<Rightarrow> prototypes_args \<Rightarrow> prototypes_error option" where
  "Prototypes_Validate now a = first_of [
     fail_if (\<not> ValidAccountID (pta_account_id a)) (PEAccountID (pta_account_id a)),
     fail_if (pta_name_prefix a = []) PENamePrefix,
     fail_if (bg_env (pta_breakglass a) = []) PENoGlass,
     map_option PEBreakGlass (BreakGlass_Validate (pta_breakglass a)),
     fail_if (pta_presets a = []) PENoPresets,
     prototypes_loop now (pta_account_id a) [] (pta_presets a),
     first_err (\<lambda>m. fail_if (m \<notin> pto_name ` set (pta_presets a)) (PEMoved m)) (pta_moved a)]"

section \<open>Running as the root\<close>

definition RootEnv :: string where
  "RootEnv = ''CLOUDFLARE_API_TOKEN''"

definition conflictingEnv :: "string list" where
  "conflictingEnv = [''CLOUDFLARE_API_KEY'', ''CLOUDFLARE_EMAIL'', ''CLOUDFLARE_API_USER_SERVICE_KEY'', ''CLOUDFLARE_BASE_URL'', ''CLOUDFLARE_API_BASE_URL'']"

definition rootConfig :: "string list" where
  "rootConfig = [''cloudflare:apiToken'', ''cloudflare:apiKey'', ''cloudflare:apiUserServiceKey'', ''cloudflare:baseUrl'']"

type_synonym stack_config = "string \<Rightarrow> string option"

definition checkRootEnvironment :: "string list \<Rightarrow> stack_config \<Rightarrow> prototypes_error option" where
  "checkRootEnvironment env config = first_of [
     fail_if (getenv env RootEnv = []) PENoRoot,
     first_err (\<lambda>n. fail_if (getenv env n \<noteq> []) (PEConflict n)) conflictingEnv,
     first_err (\<lambda>k. case config k of None \<Rightarrow> None | Some v \<Rightarrow> fail_if (v \<noteq> []) (PEConfig k)) rootConfig]"

definition requireRoot :: "string list \<Rightarrow> stack_config \<Rightarrow> breakglass \<Rightarrow> prototypes_error option" where
  "requireRoot env config bg = first_of [fail_if (\<not> BreakGlass_Enabled env bg) PEGlassOff, checkRootEnvironment env config]"

section \<open>Deploying\<close>

record prototype_token =
  ptk_account_id :: string
  ptk_name :: string
  ptk_status :: string
  ptk_policies :: "account_policy list"
  ptk_protect :: bool

datatype prototypes_resource =
    PrototypeToken string prototype_token
  | PrototypeStatus string
  | PrototypeIDs "string list"

definition prototype_policy :: "group_list \<Rightarrow> string \<Rightarrow> string \<Rightarrow> nat \<times> token_policy \<Rightarrow> prototypes_error + account_policy" where
  "prototype_policy listed accountID n = (\<lambda>(i, pol). case collect (lookupPermissionGroupID listed i accountID) (tp_groups pol) of
      Inl e \<Rightarrow> Inl (PELookup n e)
    | Inr ids \<Rightarrow> (case ResourceKey (tp_scope pol) accountID of
        Inl e \<Rightarrow> Inl (PEKey n i e)
      | Inr key \<Rightarrow> Inr \<lparr>ap_effect = ''allow'', ap_group_ids = ids, ap_resources = json_resources key\<rparr>))"

definition declare_prototype :: "group_list \<Rightarrow> prototypes_args \<Rightarrow> prototype \<Rightarrow> (prototypes_error, prototypes_resource) action list" where
  "declare_prototype listed a p =
     (case collect (prototype_policy listed (pta_account_id a) (pto_name p)) (enumerate 0 (pto_policies p)) of
        Inl e \<Rightarrow> [Refuse e]
      | Inr policies \<Rightarrow> [Register (PrototypeToken (''prototype-'' @ pto_name p)
          \<lparr>ptk_account_id = pta_account_id a, ptk_name = pta_name_prefix a @ pto_name p, ptk_status = ''disabled'',
           ptk_policies = policies, ptk_protect = True\<rparr>)])"

definition moved_gate :: "string \<Rightarrow> stack_config \<Rightarrow> prototypes_args \<Rightarrow> prototypes_error option" where
  "moved_gate project config a =
     (let key = (if pta_moved_key a = [] then ''stateMoved'' else pta_moved_key a) in
      fail_if (pta_moved a \<noteq> [] \<and> config (project @ '':'' @ key) \<noteq> Some ''true'') (PENotMoved (pta_moved a)))"

definition by_prototype_name :: "prototype \<Rightarrow> prototype \<Rightarrow> int" where
  "by_prototype_name a b = str_compare (pto_name a) (pto_name b)"

definition Prototypes_Deploy :: "int \<Rightarrow> group_list \<Rightarrow> string list \<Rightarrow> string \<Rightarrow> stack_config \<Rightarrow> prototypes_args \<Rightarrow>
    (prototypes_error, prototypes_resource) action list" where
  "Prototypes_Deploy now listed env project config a =
     (case first_of [Prototypes_Validate now a, moved_gate project config a, requireRoot env config (pta_breakglass a)] of
        Some e \<Rightarrow> [Refuse e]
      | None \<Rightarrow>
          (let presets = sort_cmp by_prototype_name (pta_presets a) in
           concat (map (\<lambda>p. declare_prototype listed a p @ [Register (PrototypeStatus (pto_name p))]) presets) @
           [Register (PrototypeIDs (map pto_name presets))]))"

section \<open>An account's stack\<close>

record prototypes_table =
  ptt_account :: string
  ptt_presets :: "preset list"
  ptt_estate :: estate
  ptt_item :: string
  ptt_getenv :: "string list option"
  ptt_name_prefix :: string
  ptt_moved :: "string list"
  ptt_moved_key :: string

definition FromPresets :: "preset list \<Rightarrow> string \<Rightarrow> prototypes_error + string \<times> prototype list" where
  "FromPresets table accountName =
     (let mine = filter (\<lambda>p. ps_account p = accountName) table in
      if mine = [] then Inl (PENoPreset accountName)
      else Inr (ps_account_id (last mine), map (\<lambda>p. \<lparr>pto_name = ps_name p, pto_policies = ps_policies p\<rparr>) mine))"

definition table_args :: "prototypes_table \<Rightarrow> prototypes_error + prototypes_args" where
  "table_args t = (case ptt_getenv t of
      None \<Rightarrow> Inl PENoGetenv
    | Some env \<Rightarrow> (case Estate_Config env (ptt_estate t) (ptt_account t) (ptt_item t) [] of
        Inl e \<Rightarrow> Inl (PEEstate e)
      | Inr conf \<Rightarrow>
          if bg_env (pt_breakglass conf) = [] then Inl (PENoItem (ptt_account t))
          else sum_bind (FromPresets (ptt_presets t) (ptt_account t)) (\<lambda>(accountID, ps).
            Inr \<lparr>pta_account_id = accountID, pta_presets = ps, pta_name_prefix = ptt_name_prefix t,
              pta_breakglass = pt_breakglass conf, pta_moved = ptt_moved t, pta_moved_key = ptt_moved_key t\<rparr>)))"

definition DeployTable :: "int \<Rightarrow> group_list \<Rightarrow> string list \<Rightarrow> string \<Rightarrow> stack_config \<Rightarrow> prototypes_table \<Rightarrow>
    (prototypes_error, prototypes_resource) action list" where
  "DeployTable now listed env project config t = (case table_args t of
      Inl e \<Rightarrow> [Refuse e]
    | Inr a \<Rightarrow> Prototypes_Deploy now listed env project config a)"

section \<open>What is accepted\<close>

lemma prototypes_loop_None:
  "prototypes_loop now accountID seen ps = None \<longleftrightarrow>
     distinct (map pto_name ps) \<and> pto_name ` set ps \<inter> set seen = {} \<and>
     (\<forall>p\<in>set ps. ValidPresetName (pto_name p) \<and> ChildToken_Validate now (prototype_config p) = None \<and> prototype_keys accountID p = None)"
proof (induction now accountID seen ps rule: prototypes_loop.induct)
  case (2 now accountID seen p ps)
  then show ?case by (simp, blast)
qed simp

definition policy_key :: "string \<Rightarrow> token_policy \<Rightarrow> string option" where
  "policy_key accountID pol = (case ResourceKey (tp_scope pol) accountID of Inl e \<Rightarrow> None | Inr key \<Rightarrow> Some key)"

lemma prototype_keys_None:
  "prototype_keys accountID p = None \<longleftrightarrow> (\<forall>pol\<in>set (pto_policies p). policy_key accountID pol \<noteq> None)"
proof -
  have key: "policy_key accountID pol \<noteq> None \<longleftrightarrow> (\<exists>key. ResourceKey (tp_scope pol) accountID = Inr key)" for pol
    by (cases "ResourceKey (tp_scope pol) accountID") (simp_all add: policy_key_def)
  have "prototype_keys accountID p = None \<longleftrightarrow>
      (\<forall>x\<in>set (enumerate 0 (pto_policies p)). \<exists>key. ResourceKey (tp_scope (snd x)) accountID = Inr key)"
    by (auto simp: prototype_keys_def first_err_None split: sum.splits)
  also have "\<dots> \<longleftrightarrow> (\<forall>pol\<in>set (map snd (enumerate 0 (pto_policies p))). \<exists>key. ResourceKey (tp_scope pol) accountID = Inr key)"
    unfolding set_map by blast
  also have "map snd (enumerate 0 (pto_policies p)) = pto_policies p" by simp
  finally show ?thesis unfolding key .
qed


interpretation prototype_order: go_keyed by_prototype_name pto_name
  by unfold_locales (auto simp: by_prototype_name_def str_compare_def)

text \<open>The groups a policy's names stand for: each the one group with exactly that name.\<close>

definition listed_group :: "group_list \<Rightarrow> string \<Rightarrow> string \<Rightarrow> string \<Rightarrow> bool" where
  "listed_group listed accountID name gid \<longleftrightarrow>
     (\<exists>rs. listed accountID name = Some rs \<and> map snd (filter (\<lambda>r. fst r = name) rs) = [gid])"

lemma collect_groups: "collect (lookupPermissionGroupID listed i a) ns = Inr ids \<longleftrightarrow> list_all2 (listed_group listed a) ns ids"
proof (induction ns arbitrary: ids)
  case (Cons n ns)
  have "collect (lookupPermissionGroupID listed i a) (n # ns) = Inr ids \<longleftrightarrow>
      (\<exists>gid rest. lookupPermissionGroupID listed i a n = Inr gid \<and> collect (lookupPermissionGroupID listed i a) ns = Inr rest \<and> ids = gid # rest)"
    by (auto simp: sum_bind_def split: sum.splits)
  then show ?case unfolding Cons.IH lookup_Inr listed_group_def [symmetric] list_all2_Cons1 by blast
qed auto

text \<open>A document of a preset (\<open>Preset_Table\<close>) and the policy a prototype is declared with.\<close>

definition written_policy :: "group_list \<Rightarrow> string \<Rightarrow> policy_document \<Rightarrow> account_policy \<Rightarrow> bool" where
  "written_policy listed accountID d pol \<longleftrightarrow>
     ap_effect pol = ''allow'' \<and> list_all2 (listed_group listed accountID) (pd_groups d) (ap_group_ids pol) \<and>
     (\<exists>key. pd_resources d = [(key, ''*'')] \<and> ap_resources pol = json_resources key)"

lemma prototype_policy_Inr:
  "prototype_policy listed a n (i, pol) = Inr q \<longleftrightarrow>
     (\<exists>key. ResourceKey (tp_scope pol) a = Inr key \<and> list_all2 (listed_group listed a) (tp_groups pol) (ap_group_ids q) \<and>
        ap_effect q = ''allow'' \<and> ap_resources q = json_resources key)"
  unfolding collect_groups [of listed i a, symmetric]
  by (cases q; cases "ResourceKey (tp_scope pol) a"; cases "collect (lookupPermissionGroupID listed i a) (tp_groups pol)")
    (auto simp: prototype_policy_def)

lemma documents_written:
  assumes "collect (prototype_policy listed (ps_account_id p) n) (enumerate k pols) = Inr out"
  shows "\<exists>docs. collect (preset_document p) (enumerate k pols) = Inr docs \<and> list_all2 (written_policy listed (ps_account_id p)) docs out"
  using assms
proof (induction pols arbitrary: k out)
  case (Cons pol pols)
  from Cons.prems obtain q rest where q: "prototype_policy listed (ps_account_id p) n (k, pol) = Inr q"
    and rest: "collect (prototype_policy listed (ps_account_id p) n) (enumerate (Suc k) pols) = Inr rest" and out: "out = q # rest"
    by (auto simp: sum_bind_def split: sum.splits)
  from q obtain key where "ResourceKey (tp_scope pol) (ps_account_id p) = Inr key"
    and "written_policy listed (ps_account_id p) \<lparr>pd_groups = tp_groups pol, pd_resources = [(key, ''*'')]\<rparr> q"
    unfolding prototype_policy_Inr by (auto simp: written_policy_def)
  then show ?case using Cons.IH [OF rest] by (auto simp: preset_document_def sum_bind_def out)
qed simp

section \<open>The stack of a built table\<close>

lemma ChildToken_Validate_name:
  assumes "cc_name c = [] \<longleftrightarrow> cc_name d = []" and "cc_expires_on c = []" "cc_expires_on d = []"
    and "cc_rotation c = cc_rotation d" "cc_policies c = cc_policies d"
  shows "ChildToken_Validate now c = None \<longleftrightarrow> ChildToken_Validate now' d = None"
  using assms by (simp add: ChildToken_Validate_def)

lemma preset_name_not_Nil: "\<not> ValidPresetName []"
  by code_simp

lemma ResourceKey_account_Inr:
  assumes "validate_policy (0, pol) = None" and "accountID \<noteq> []"
  shows "\<exists>key. ResourceKey (tp_scope pol) accountID = Inr key"
  using assms by (auto simp: validate_policy_None ResourceKey_def unless_def)


text \<open>What a built table gives to an account's stack passes every check of the presets.\<close>

lemma built_presets:
  assumes "Presets_Build now reg rows = Inr table" and "FromPresets table a = Inr (accountID, ps)"
  shows "ValidAccountID accountID" and "accountID \<noteq> []" and "ps \<noteq> []" and "prototypes_loop now' accountID [] ps = None"
    and "\<forall>p\<in>set table. ps_account p = a \<longrightarrow> ps_account_id p = accountID"
    and "ps = map (\<lambda>p. \<lparr>pto_name = ps_name p, pto_policies = ps_policies p\<rparr>) (filter (\<lambda>p. ps_account p = a) table)"
proof -
  from assms(1) have ok: "Presets_Validate reg rows = []" and ids: "\<forall>row\<in>set rows. zone_ids_ok reg row" and table: "table = map (row_preset reg) rows"
    unfolding Presets_Build_Inr by blast+
  from ok have rows: "\<forall>row\<in>set rows. validateRow reg row = []" and names: "distinct (map prw_name rows)"
    and accounts: "account_problems [] (pr_accounts reg) = []" by (simp_all add: Presets_Validate_Nil)
  let ?mine = "filter (\<lambda>p. ps_account p = a) table"
  let ?of = "\<lambda>p. \<lparr>pto_name = ps_name p, pto_policies = ps_policies p\<rparr>"
  from assms(2) have some: "?mine \<noteq> []" and accountID: "accountID = ps_account_id (last ?mine)" and ps: "ps = map ?of ?mine"
    by (auto simp: FromPresets_def Let_def split: if_splits)
  then show "ps = map ?of ?mine" and "ps \<noteq> []" by simp_all
  have account: "ps_account (row_preset reg row) = prw_account row" "ps_name (row_preset reg row) = prw_name row"
    "ps_policies (row_preset reg row) = kind_policies reg row" for row
    by (simp_all add: row_preset_def)
  have all: "ps_account_id p = (case reg_account reg a of None \<Rightarrow> [] | Some acc \<Rightarrow> pa_id acc)" if "p \<in> set ?mine" for p
    using that by (auto simp: table row_preset_def)
  then show same: "\<forall>p\<in>set table. ps_account p = a \<longrightarrow> ps_account_id p = accountID"
    using last_in_set [OF some] by (simp add: accountID)
  obtain row where row: "row \<in> set rows" "prw_account row = a" using some by (auto simp: table account filter_empty_conv)
  with rows validateRow_facts(2) obtain acc where acc: "reg_account reg a = Some acc" by blast
  then have "acc \<in> set (pr_accounts reg)" unfolding reg_account_def by (auto simp: find_Some_iff)
  with accounts have "ValidAccountID (pa_id acc)" by (simp add: account_problems_Nil list_all_iff)
  with all [OF last_in_set [OF some]] acc show valid: "ValidAccountID accountID" by (simp add: accountID)
  have "\<not> ValidAccountID []" by code_simp
  with valid show some_id: "accountID \<noteq> []" by metis
  have "distinct (map pto_name ps)"
    unfolding ps table using names by (simp add: o_def account distinct_map_filter filter_map)
  moreover have "ValidPresetName (pto_name p) \<and> ChildToken_Validate now' (prototype_config p) = None \<and> prototype_keys accountID p = None"
    if "p \<in> set ps" for p
  proof -
    from that obtain row where row: "row \<in> set rows" "p = ?of (row_preset reg row)" by (auto simp: ps table)
    with rows have checked: "validateRow reg row = []" by blast
    then have name: "ValidPresetName (prw_name row)" by (simp add: validateRow_def split: if_splits)
    with preset_name_not_Nil have "prw_name row \<noteq> []" by metis
    have child: "ChildToken_Validate now (check_config (row_preset reg row)) = None"
      using check_config_valid [OF zones_distinct [OF ok] checked] ids row(1) by blast
    moreover have "ChildToken_Validate now' (prototype_config p) = None \<longleftrightarrow> ChildToken_Validate now (check_config (row_preset reg row)) = None"
      by (rule ChildToken_Validate_name) (simp_all add: prototype_config_def check_config_def row(2) account \<open>prw_name row \<noteq> []\<close>)
    moreover have "policy_key accountID pol \<noteq> None" if "pol \<in> set (kind_policies reg row)" for pol
    proof -
      have "validate_policy (0, pol) = None"
        using child that by (simp add: ChildToken_Validate_def check_config_def account first_err_enumerate_all)
      from ResourceKey_account_Inr [OF this some_id] show ?thesis by (auto simp: policy_key_def)
    qed
    then have "prototype_keys accountID p = None" by (simp add: prototype_keys_None row(2) account)
    ultimately show ?thesis using name by (simp add: row(2) account)
  qed
  ultimately show "prototypes_loop now' accountID [] ps = None" by (simp add: prototypes_loop_None)
qed


lemma list_all2_choice: "(\<exists>ys. list_all2 P xs ys) \<longleftrightarrow> (\<forall>x\<in>set xs. \<exists>y. P x y)"
  by (induction xs) (auto simp: list_all2_Cons1)

lemma collect_Inr_each: "(\<exists>out. collect f xs = Inr out) \<longleftrightarrow> (\<forall>x\<in>set xs. \<exists>y. f x = Inr y)"
  by (induction xs) (auto simp: sum_bind_def split: sum.splits)

lemma prototype_policy_known:
  assumes "policy_key a pol \<noteq> None"
  shows "(\<exists>q. prototype_policy listed a n (i, pol) = Inr q) \<longleftrightarrow> (\<forall>g\<in>set (tp_groups pol). \<exists>gid. listed_group listed a g gid)"
proof -
  from assms obtain key where key: "ResourceKey (tp_scope pol) a = Inr key" unfolding policy_key_def by (auto split: sum.splits)
  have "(\<exists>q. prototype_policy listed a n (i, pol) = Inr q) \<longleftrightarrow> (\<exists>ids. list_all2 (listed_group listed a) (tp_groups pol) ids)"
  proof
    assume "\<exists>q. prototype_policy listed a n (i, pol) = Inr q"
    then show "\<exists>ids. list_all2 (listed_group listed a) (tp_groups pol) ids" unfolding prototype_policy_Inr by blast
  next
    assume "\<exists>ids. list_all2 (listed_group listed a) (tp_groups pol) ids"
    then obtain ids where "list_all2 (listed_group listed a) (tp_groups pol) ids" by blast
    then have "prototype_policy listed a n (i, pol) = Inr \<lparr>ap_effect = ''allow'', ap_group_ids = ids, ap_resources = json_resources key\<rparr>"
      by (simp add: prototype_policy_Inr key)
    then show "\<exists>q. prototype_policy listed a n (i, pol) = Inr q" by blast
  qed
  then show ?thesis unfolding list_all2_choice .
qed

lemma declare_refused:
  assumes "prototype_keys (pta_account_id a) p = None"
  shows "refused (declare_prototype listed a p) = [] \<longleftrightarrow>
     (\<forall>pol\<in>set (pto_policies p). \<forall>g\<in>set (tp_groups pol). \<exists>gid. listed_group listed (pta_account_id a) g gid)"
proof -
  let ?ok = "\<lambda>pol. \<forall>g\<in>set (tp_groups pol). \<exists>gid. listed_group listed (pta_account_id a) g gid"
  have "refused (declare_prototype listed a p) = [] \<longleftrightarrow>
      (\<exists>out. collect (prototype_policy listed (pta_account_id a) (pto_name p)) (enumerate 0 (pto_policies p)) = Inr out)"
    by (simp add: declare_prototype_def split: sum.split)
  also have "\<dots> \<longleftrightarrow> (\<forall>x\<in>set (enumerate 0 (pto_policies p)). ?ok (snd x))"
    unfolding collect_Inr_each
  proof (rule ball_cong [OF refl])
    fix x assume "x \<in> set (enumerate 0 (pto_policies p))"
    then have "snd x \<in> set (map snd (enumerate 0 (pto_policies p)))" unfolding set_map by (rule imageI)
    then have "policy_key (pta_account_id a) (snd x) \<noteq> None" using assms by (simp add: prototype_keys_None)
    from prototype_policy_known [OF this, of listed "pto_name p" "fst x"]
    show "(\<exists>y. prototype_policy listed (pta_account_id a) (pto_name p) x = Inr y) \<longleftrightarrow> ?ok (snd x)" by simp
  qed
  also have "\<dots> \<longleftrightarrow> (\<forall>pol\<in>set (map snd (enumerate 0 (pto_policies p))). ?ok pol)" unfolding set_map by blast
  finally show ?thesis by simp
qed

lemma Deploy_refused:
  "refused (Prototypes_Deploy now listed env project config a) = [] \<longleftrightarrow>
     Prototypes_Validate now a = None \<and> moved_gate project config a = None \<and> requireRoot env config (pta_breakglass a) = None \<and>
     (\<forall>p\<in>set (pta_presets a). refused (declare_prototype listed a p) = [])"
  by (auto simp: Prototypes_Deploy_def Let_def refused_concat first_of.simps split: option.split)

text \<open>C37 (error): what an account's prototypes stack refuses of a built table, exactly. The presets themselves never: their names,
  policies and resources pass every check. It deploys to the end exactly when break-glass is configured with a root item, is
  on and is the one credential in the environment and the configuration, the token prefix is set, the account has a preset, what
  is listed as moved is declared and confirmed, and every permission group has one exact match in the account.\<close>

theorem DeployTable_accepts:
  assumes "Presets_Build now reg rows = Inr (ptt_presets t)"
  shows "refused (DeployTable now' listed env project config t) = [] \<longleftrightarrow>
    (\<exists>genv conf. ptt_getenv t = Some genv \<and> Estate_Config genv (ptt_estate t) (ptt_account t) (ptt_item t) [] = Inr conf \<and>
       bg_env (pt_breakglass conf) \<noteq> [] \<and> BreakGlass_Validate (pt_breakglass conf) = None \<and> requireRoot env config (pt_breakglass conf) = None) \<and>
    ptt_name_prefix t \<noteq> [] \<and>
    (\<exists>p\<in>set (ptt_presets t). ps_account p = ptt_account t) \<and>
    (\<forall>m\<in>set (ptt_moved t). \<exists>p\<in>set (ptt_presets t). ps_account p = ptt_account t \<and> ps_name p = m) \<and>
    (ptt_moved t \<noteq> [] \<longrightarrow> config (project @ '':'' @ (if ptt_moved_key t = [] then ''stateMoved'' else ptt_moved_key t)) = Some ''true'') \<and>
    (\<forall>p\<in>set (ptt_presets t). ps_account p = ptt_account t \<longrightarrow>
       (\<forall>pol\<in>set (ps_policies p). \<forall>g\<in>set (tp_groups pol). \<exists>gid. listed_group listed (ps_account_id p) g gid))"
    (is "_ \<longleftrightarrow> ?glass \<and> ?rest")
proof (cases "table_args t")
  case (Inl e)
  then have "\<not> (?glass \<and> (\<exists>p\<in>set (ptt_presets t). ps_account p = ptt_account t))"
    by (auto simp: table_args_def FromPresets_def Let_def filter_empty_conv sum_bind_def split: option.splits sum.splits if_splits)
  then show ?thesis using Inl by (auto simp: DeployTable_def)
next
  case (Inr a)
  then obtain genv conf ps where env: "ptt_getenv t = Some genv" "Estate_Config genv (ptt_estate t) (ptt_account t) (ptt_item t) [] = Inr conf"
      "bg_env (pt_breakglass conf) \<noteq> []"
    and from_table: "FromPresets (ptt_presets t) (ptt_account t) = Inr (pta_account_id a, ps)"
    and a: "pta_presets a = ps" "pta_name_prefix a = ptt_name_prefix t" "pta_breakglass a = pt_breakglass conf" "pta_moved a = ptt_moved t"
      "pta_moved_key a = ptt_moved_key t"
    by (auto simp: table_args_def sum_bind_def split: option.splits sum.splits if_splits)
  note built = built_presets [OF assms from_table]
  have keys: "\<forall>p\<in>set ps. prototype_keys (pta_account_id a) p = None"
    using built(4) [of now'] by (simp add: prototypes_loop_None)
  have some: "\<exists>p\<in>set (ptt_presets t). ps_account p = ptt_account t" using built(3,6) by (auto simp: filter_empty_conv)
  have moved: "first_err (\<lambda>m. fail_if (m \<notin> pto_name ` set ps) (PEMoved m)) (ptt_moved t) = None \<longleftrightarrow>
      (\<forall>m\<in>set (ptt_moved t). \<exists>p\<in>set (ptt_presets t). ps_account p = ptt_account t \<and> ps_name p = m)"
    by (auto simp: first_err_None built(6) image_iff)
  have valid: "Prototypes_Validate now' a = None \<longleftrightarrow> ptt_name_prefix t \<noteq> [] \<and> BreakGlass_Validate (pt_breakglass conf) = None \<and>
      (\<forall>m\<in>set (ptt_moved t). \<exists>p\<in>set (ptt_presets t). ps_account p = ptt_account t \<and> ps_name p = m)"
    using built(1,3,4) env(3) by (simp add: Prototypes_Validate_def a moved)
  have groups: "(\<forall>p\<in>set ps. refused (declare_prototype listed a p) = []) \<longleftrightarrow>
      (\<forall>p\<in>set (ptt_presets t). ps_account p = ptt_account t \<longrightarrow>
        (\<forall>pol\<in>set (ps_policies p). \<forall>g\<in>set (tp_groups pol). \<exists>gid. listed_group listed (ps_account_id p) g gid))"
    using built(5) keys by (auto simp: declare_refused built(6))
  have gate: "moved_gate project config a = None \<longleftrightarrow>
      (ptt_moved t \<noteq> [] \<longrightarrow> config (project @ '':'' @ (if ptt_moved_key t = [] then ''stateMoved'' else ptt_moved_key t)) = Some ''true'')"
    by (simp add: moved_gate_def a Let_def disj_commute imp_conv_disj)
  have "refused (DeployTable now' listed env project config t) = [] \<longleftrightarrow> refused (Prototypes_Deploy now' listed env project config a) = []"
    using Inr by (simp add: DeployTable_def)
  then show ?thesis unfolding Deploy_refused a(1,3) valid gate groups using env some by auto
qed


section \<open>What is declared\<close>

fun prototype_tokens :: "prototypes_resource list \<Rightarrow> (string \<times> prototype_token) list" where
  "prototype_tokens [] = []"
| "prototype_tokens (PrototypeToken n t # rs) = (n, t) # prototype_tokens rs"
| "prototype_tokens (r # rs) = prototype_tokens rs"

lemma prototype_tokens_append [simp]: "prototype_tokens (as @ bs) = prototype_tokens as @ prototype_tokens bs"
  by (induction as rule: prototype_tokens.induct) simp_all

definition declared_as :: "group_list \<Rightarrow> string \<Rightarrow> preset \<Rightarrow> string \<times> prototype_token \<Rightarrow> bool" where
  "declared_as listed start p = (\<lambda>(n, tok). n = ''prototype-'' @ ps_name p \<and> ptk_name tok = start @ ps_name p \<and>
     ptk_account_id tok = ps_account_id p \<and> ptk_status tok = ''disabled'' \<and> ptk_protect tok \<and>
     (\<exists>docs. Documents p = Inr docs \<and> list_all2 (written_policy listed (ps_account_id p)) docs (ptk_policies tok)))"

lemma declare_declared:
  assumes "refused (declare_prototype listed a \<lparr>pto_name = ps_name p, pto_policies = ps_policies p\<rparr>) = []" and "pta_account_id a = ps_account_id p"
  shows "\<exists>tok. registered (declare_prototype listed a \<lparr>pto_name = ps_name p, pto_policies = ps_policies p\<rparr>) = [PrototypeToken (''prototype-'' @ ps_name p) tok]
     \<and> declared_as listed (pta_name_prefix a) p (''prototype-'' @ ps_name p, tok)"
proof -
  let ?p = "\<lparr>pto_name = ps_name p, pto_policies = ps_policies p\<rparr>"
  from assms obtain out where out: "collect (prototype_policy listed (ps_account_id p) (ps_name p)) (enumerate 0 (ps_policies p)) = Inr out"
    by (auto simp: declare_prototype_def split: sum.splits)
  let ?tok = "\<lparr>ptk_account_id = ps_account_id p, ptk_name = pta_name_prefix a @ ps_name p, ptk_status = ''disabled'', ptk_policies = out, ptk_protect = True\<rparr>"
  from out have "registered (declare_prototype listed a ?p) = [PrototypeToken (''prototype-'' @ ps_name p) ?tok]"
    by (simp add: declare_prototype_def assms(2))
  moreover from documents_written [OF out] have "declared_as listed (pta_name_prefix a) p (''prototype-'' @ ps_name p, ?tok)"
    by (simp add: declared_as_def Documents_def)
  ultimately show ?thesis by blast
qed

lemma sort_cmp_map: "sort_cmp cmp (map f xs) = map f (sort_cmp (\<lambda>x y. cmp (f x) (f y)) xs)"
proof -
  have insert: "insert_cmp cmp (f x) (map f ys) = map f (insert_cmp (\<lambda>x y. cmp (f x) (f y)) x ys)" for x ys
    by (induction ys) auto
  show ?thesis by (induction xs) (simp_all add: insert)
qed

definition by_preset_name :: "preset \<Rightarrow> preset \<Rightarrow> int" where
  "by_preset_name p q = str_compare (ps_name p) (ps_name q)"

text \<open>C20 (equivalence): what an account's prototypes are. When the stack deploys, it declares exactly one token for each preset of the
  account in the table, in the order of their names and in the account's id: disabled, protected, named after the preset, and
  with the very policies that the table writes into the preset's documents (\<open>Documents\<close>), each group by the id of the one
  group of that name.\<close>

theorem DeployTable_declares:
  assumes "Presets_Build now reg rows = Inr (ptt_presets t)" and "refused (DeployTable now' listed env project config t) = []"
  shows "list_all2 (declared_as listed (ptt_name_prefix t))
     (sort_cmp by_preset_name (filter (\<lambda>p. ps_account p = ptt_account t) (ptt_presets t)))
     (prototype_tokens (registered (DeployTable now' listed env project config t)))"
proof -
  from assms(2) obtain a where a: "table_args t = Inr a" by (auto simp: DeployTable_def split: sum.splits)
  then obtain ps where from_table: "FromPresets (ptt_presets t) (ptt_account t) = Inr (pta_account_id a, ps)"
    and args: "pta_presets a = ps" "pta_name_prefix a = ptt_name_prefix t"
    by (auto simp: table_args_def sum_bind_def split: option.splits sum.splits if_splits)
  note built = built_presets [OF assms(1) from_table]
  let ?of = "\<lambda>p. \<lparr>pto_name = ps_name p, pto_policies = ps_policies p\<rparr>"
  let ?mine = "filter (\<lambda>p. ps_account p = ptt_account t) (ptt_presets t)"
  from assms(2) a have deploy: "DeployTable now' listed env project config t = Prototypes_Deploy now' listed env project config a"
    and none: "refused (Prototypes_Deploy now' listed env project config a) = []" by (simp_all add: DeployTable_def)
  note accepted = none [unfolded Deploy_refused]
  have sorted: "sort_cmp by_prototype_name ps = map ?of (sort_cmp by_preset_name ?mine)"
    unfolding built(6) sort_cmp_map by (simp add: by_prototype_name_def by_preset_name_def [abs_def])
  have "list_all2 (declared_as listed (ptt_name_prefix t)) qs
      (prototype_tokens (registered (concat (map (\<lambda>p. declare_prototype listed a p @ [Register (PrototypeStatus (pto_name p))]) (map ?of qs)))))"
    if "set qs \<subseteq> set ?mine" for qs
    using that
  proof (induction qs)
    case (Cons q qs)
    then have "refused (declare_prototype listed a (?of q)) = []" and "pta_account_id a = ps_account_id q"
      using accepted built(5,6) by (auto simp: args)
    from declare_declared [OF this] Cons show ?case by (auto simp: args)
  qed simp
  from this [of "sort_cmp by_preset_name ?mine"] show ?thesis
    using accepted by (simp add: deploy Prototypes_Deploy_def Let_def args sorted first_of.simps)
qed


section \<open>A stack to which the properties apply\<close>

definition sample_estate :: estate where
  "sample_estate = \<lparr>es_sluisctl_min = ''1.2.3'', es_binary_prefixes = [''/nix/store''], es_lifetime = 0, es_grant_hint = [], es_runbook = [],
     es_breakglass = \<lparr>eb_env = ''ACME_BREAKGLASS'', eb_item_env = [], eb_account = ''acme'', eb_vault = ''Roots'', eb_field = ''token'',
       eb_child_prefix = ''glass'', eb_item_hint = []\<rparr>\<rparr>"

definition sample_prototypes :: prototypes_table where
  "sample_prototypes = \<lparr>ptt_account = ''acme'', ptt_presets = [row_preset sample_preset_registry (plain_row ''acme'' KindR2Admin [])],
     ptt_estate = sample_estate, ptt_item = ''main'', ptt_getenv = Some [''ACME_BREAKGLASS=1''], ptt_name_prefix = ''acme-prototype-'',
     ptt_moved = [], ptt_moved_key = []\<rparr>"

abbreviation sample_deploy :: "(prototypes_error, prototypes_resource) action list" where
  "sample_deploy \<equiv> DeployTable 0 (\<lambda>account name. Some [(name, ''g1''), (name @ '' All'', ''g2'')]) [''ACME_BREAKGLASS=1'', ''CLOUDFLARE_API_TOKEN=root'']
     ''edge'' (\<lambda>key. None) sample_prototypes"

lemma sample_prototypes_build: "Presets_Build 0 sample_preset_registry [plain_row ''acme'' KindR2Admin []] = Inr (ptt_presets sample_prototypes)"
proof -
  let ?row = "plain_row ''acme'' KindR2Admin []"
  have "Presets_Validate sample_preset_registry [?row] = []" by code_simp
  moreover have "PendingZone sample_preset_registry (prw_account ?row) = None" "zone_ids_ok sample_preset_registry ?row" by code_simp+
  ultimately show ?thesis unfolding Presets_Build_Inr by (simp add: sample_prototypes_def)
qed

lemma sample_deploy_refused: "refused sample_deploy = []"
  by code_simp

lemma DeployTable_accepts_witness: "\<exists>p\<in>set (ptt_presets sample_prototypes). ps_account p = ''acme''"
proof -
  have "ptt_account sample_prototypes = ''acme''" by (simp add: sample_prototypes_def)
  with iffD1 [OF DeployTable_accepts [OF sample_prototypes_build] sample_deploy_refused] show ?thesis by (elim conjE) simp
qed

lemma DeployTable_declares_witness: "length (prototype_tokens (registered sample_deploy)) = 1"
proof -
  have "length (sort_cmp by_preset_name (filter (\<lambda>p. ps_account p = ptt_account sample_prototypes) (ptt_presets sample_prototypes))) = 1"
    by code_simp
  with list_all2_lengthD [OF DeployTable_declares [OF sample_prototypes_build sample_deploy_refused]] show ?thesis by (rule trans [OF sym])
qed

end
