(* ===== verification/Site_Config.thy ===== *)
theory Site_Config imports Go_Path Config_Validate Go_Duration begin

text \<open>
  \<open>internal/staticsite/config.go\<close>: the configuration of the static site server, read from environment
  variables, and its checks. Errors are joined, so a check is the list of its errors. Reading files,
  decoding JSON objects and compiling patterns are parameters. A Go map can be nil, and a write to a nil map
  panics; \<open>FromEnv\<close> is \<open>None\<close> where it does.
\<close>

section \<open>The configuration\<close>

record site_config =
  sc_addr :: string
  sc_ops_addr :: string
  sc_dir :: string
  sc_content_dir :: string
  sc_artifact_ref :: string
  sc_artifact_digest :: string
  sc_plain_http :: bool
  sc_registry_auth :: string
  sc_docker_config_dir :: string
  sc_pull_timeout :: int
  sc_max_bytes :: int
  sc_max_files :: int
  sc_hashed_pattern :: "string \<Rightarrow> bool"
  sc_html_max_age :: int
  sc_stale_while_revalidate :: int
  sc_spa_fallback :: bool
  sc_not_found_page :: string
  sc_headers :: "string gomap"
  sc_placeholders :: "string gomap"
  sc_placeholder_keys :: "string list"
  sc_placeholder_strict :: bool
  sc_shutdown_delay :: int

definition hex_any :: "char \<Rightarrow> bool" where
  "hex_any c \<longleftrightarrow> is_digit c \<or> c \<in> set ''abcdefABCDEF''"

definition ascii_alnum :: "char \<Rightarrow> bool" where
  "ascii_alnum c \<longleftrightarrow> is_digit c \<or> is_lower_letter c \<or> is_upper_letter c"

text \<open>The pattern is not anchored in front.\<close>

definition DefaultHashedPattern :: rx where
  "DefaultHashedPattern = Cat (Star (Cls (\<lambda>_. True))) (Cat (Cls (\<lambda>c. c \<in> set ''.-_''))
     (Cat (rx_times 8 (Cls hex_any)) (Cat (Star (Cls hex_any)) (rx_plus (Cat (rx_lit CHR ''.'') (rx_plus (Cls ascii_alnum)))))))"

definition DefaultHeaders :: "string gomap" where
  "DefaultHeaders = [(''X-Content-Type-Options'', ''nosniff''), (''X-Frame-Options'', ''DENY''),
     (''Referrer-Policy'', ''strict-origin-when-cross-origin'')]"

definition go_second :: int where
  "go_second = 1000000000"

definition site_Defaults :: site_config where
  "site_Defaults = \<lparr>sc_addr = '':8080'', sc_ops_addr = '':8081'', sc_dir = [], sc_content_dir = ''/var/run/site'',
     sc_artifact_ref = [], sc_artifact_digest = [], sc_plain_http = False, sc_registry_auth = [], sc_docker_config_dir = [],
     sc_pull_timeout = 120 * go_second, sc_max_bytes = 512 * 2 ^ 20, sc_max_files = 50000,
     sc_hashed_pattern = rx_match DefaultHashedPattern, sc_html_max_age = 60 * go_second,
     sc_stale_while_revalidate = 300 * go_second, sc_spa_fallback = False, sc_not_found_page = ''404.html'',
     sc_headers = DefaultHeaders, sc_placeholders = [], sc_placeholder_keys = [], sc_placeholder_strict = False,
     sc_shutdown_delay = 5 * go_second\<rparr>"

section \<open>The checks\<close>

datatype site_error =
    SENoSource
  | SETwoSources
  | SEDigest string
  | SERegistryAuth string
  | SEPlaceholderName string
  | SEPlaceholderValue string
  | SEHeader string
  | SEDuration string string
  | SEBool string string
  | SENumber string string
  | SEPattern string
  | SEJSON string
  | SEFile string
  | SEUnset string string

definition placeholder_char :: "char \<Rightarrow> bool" where
  "placeholder_char c \<longleftrightarrow> ascii_alnum c \<or> c = CHR ''_'' \<or> c = CHR ''-''"

definition letter :: "char \<Rightarrow> bool" where
  "letter c \<longleftrightarrow> is_lower_letter c \<or> is_upper_letter c"

definition placeholderName :: rx where
  "placeholderName = Cat (Cls letter) (rx_upto 63 (Cls placeholder_char))"

definition safe_char :: "char \<Rightarrow> bool" where
  "safe_char c \<longleftrightarrow> ascii_alnum c \<or> c \<in> set '' ._:/@#+=,~-''"

definition safeValue :: rx where
  "safeValue = rx_upto 512 (Cls safe_char)"

definition digestPattern :: rx where
  "digestPattern = Cat (rx_word ''sha256:'') (rx_times 64 (Cls (\<lambda>c. is_digit c \<or> c \<in> set ''abcdef'')))"

definition err_if :: "bool \<Rightarrow> 'e \<Rightarrow> 'e list" where
  "err_if b e = (if b then [e] else [])"

definition Site_Validate :: "site_config \<Rightarrow> site_error list" where
  "Site_Validate c =
     err_if (sc_dir c = [] \<and> sc_artifact_ref c = []) SENoSource @
     err_if (sc_dir c \<noteq> [] \<and> sc_artifact_ref c \<noteq> []) SETwoSources @
     err_if (sc_artifact_digest c \<noteq> [] \<and> \<not> rx_match digestPattern (sc_artifact_digest c)) (SEDigest (sc_artifact_digest c)) @
     err_if (sc_registry_auth c \<notin> set [[], ''auto'', ''dockerconfig'', ''ecr'', ''none'']) (SERegistryAuth (sc_registry_auth c)) @
     concat (map (\<lambda>(n, v). err_if (\<not> rx_match placeholderName n) (SEPlaceholderName n) @
       err_if (\<not> rx_match safeValue v) (SEPlaceholderValue n)) (sc_placeholders c)) @
     concat (map (\<lambda>(k, v). err_if (k = [] \<or> contains_any k [CHR '' '', CHR 0x09, CHR 0x0D, CHR 0x0A, CHR '':'']) (SEHeader k)) (sc_headers c))"

section \<open>From the environment\<close>

datatype file_answer =
    FileMissing
  | FileFailed
  | FileText string

text \<open>\<open>json.Unmarshal\<close> into an empty map of strings: whether it succeeded, and what the map is then, nil for a JSON \<open>null\<close>. The
  headers are decoded into a nil map, which ranges like an empty one.\<close>

record site_library =
  sl_json :: "string \<Rightarrow> bool \<times> string gomap option"
  sl_compile :: "string \<Rightarrow> (string \<Rightarrow> bool) option"
  sl_read :: "string \<Rightarrow> file_answer"

definition ParseBool :: "string \<Rightarrow> bool option" where
  "ParseBool s =
     (if s \<in> set [''1'', ''t'', ''T'', ''true'', ''TRUE'', ''True''] then Some True
      else if s \<in> set [''0'', ''f'', ''F'', ''false'', ''FALSE'', ''False''] then Some False
      else None)"

definition env_str :: "(string \<Rightarrow> string) \<Rightarrow> string \<Rightarrow> string \<Rightarrow> string" where
  "env_str getenv key def = (let v = getenv (''STATIC_SITE_'' @ key) in if v \<noteq> [] then v else def)"

definition env_parsed :: "(string \<Rightarrow> string) \<Rightarrow> (string \<Rightarrow> 'a option) \<Rightarrow> (string \<Rightarrow> string \<Rightarrow> site_error) \<Rightarrow> string \<Rightarrow> 'a \<Rightarrow> 'a \<times> site_error list" where
  "env_parsed getenv parse err key def =
     (let v = getenv (''STATIC_SITE_'' @ key) in
      if v = [] then (def, [])
      else case parse v of None \<Rightarrow> (def, [err key v]) | Some x \<Rightarrow> (x, []))"

definition nonneg_duration :: "string \<Rightarrow> int option" where
  "nonneg_duration v = (case ParseDuration v of None \<Rightarrow> None | Some d \<Rightarrow> if d < 0 then None else Some d)"

definition positive_int :: "string \<Rightarrow> int option" where
  "positive_int v = (case Atoi v of None \<Rightarrow> None | Some n \<Rightarrow> if n \<le> 0 then None else Some n)"

definition splitList :: "string \<Rightarrow> string list" where
  "splitList s = filter (\<lambda>n. n \<noteq> []) (map trim_space (split_on CHR '','' s))"

definition path_Join :: "string \<Rightarrow> string \<Rightarrow> string" where
  "path_Join a b = (if a = [] then (if b = [] then [] else path_Clean b) else path_Clean (a @ ''/'' @ b))"

definition trim_suffix :: "string \<Rightarrow> string \<Rightarrow> string" where
  "trim_suffix s p = (if has_suffix s p then take (length s - length p) s else s)"

definition trim_line_end :: "string \<Rightarrow> string" where
  "trim_line_end s = trim_suffix (trim_suffix s [CHR 0x0A]) [CHR 0x0D]"

fun readPlaceholderDir :: "site_library \<Rightarrow> string \<Rightarrow> string list \<Rightarrow> string gomap \<times> site_error list" where
  "readPlaceholderDir lib dir [] = ([], [])"
| "readPlaceholderDir lib dir (n # ns) =
     (let (vals, errs) = readPlaceholderDir lib dir ns in
      if \<not> rx_match placeholderName n then (vals, SEPlaceholderName n # errs)
      else case sl_read lib (path_Join dir n) of
          FileMissing \<Rightarrow> (vals, errs)
        | FileFailed \<Rightarrow> (vals, SEFile n # errs)
        | FileText t \<Rightarrow> (mput n (trim_line_end t) vals, errs))"

text \<open>Writes to a map that may be nil.\<close>

definition nil_put :: "string \<times> string \<Rightarrow> string gomap option \<Rightarrow> string gomap option option" where
  "nil_put kv m = (case m of None \<Rightarrow> None | Some m \<Rightarrow> Some (Some (mput (fst kv) (snd kv) m)))"

fun nil_puts :: "(string \<times> string) list \<Rightarrow> string gomap option \<Rightarrow> string gomap option option" where
  "nil_puts [] m = Some m"
| "nil_puts (kv # kvs) m = (case nil_put kv m of None \<Rightarrow> None | Some m' \<Rightarrow> nil_puts kvs m')"

definition placeholder_variable :: "string \<Rightarrow> string" where
  "placeholder_variable n = ''STATIC_SITE_PLACEHOLDER_'' @ to_upper (map (\<lambda>c. if c = CHR ''-'' then CHR ''_'' else c) n)"

definition listed_placeholders :: "(string \<Rightarrow> string) \<Rightarrow> string list \<Rightarrow> (string \<times> string) list \<times> site_error list" where
  "listed_placeholders getenv names =
     (map (\<lambda>n. (n, getenv (placeholder_variable n))) (filter (\<lambda>n. getenv (placeholder_variable n) \<noteq> []) names),
      map (\<lambda>n. SEUnset n (placeholder_variable n)) (filter (\<lambda>n. getenv (placeholder_variable n) = []) names))"

definition mget_list :: "string gomap option \<Rightarrow> string \<Rightarrow> string option" where
  "mget_list m k = (case m of None \<Rightarrow> None | Some m \<Rightarrow> mget m k)"

text \<open>The map of the placeholders: the file, the directory, the empty optional ones, the listed ones. The errors of the
  file are apart.\<close>

definition env_placeholders :: "site_library \<Rightarrow> (string \<Rightarrow> string) \<Rightarrow> (string gomap option \<times> site_error list \<times> site_error list) option" where
  "env_placeholders lib getenv =
     (let f = getenv ''STATIC_SITE_PLACEHOLDERS_FILE'';
          (from_file, errs1) =
            (if f = [] then (Some [], [])
             else case sl_read lib f of
                 FileText t \<Rightarrow> (let (ok, m) = sl_json lib t in (m, err_if (\<not> ok) (SEJSON ''PLACEHOLDERS_FILE'')))
               | _ \<Rightarrow> (Some [], [SEFile f]));
          keys = splitList (getenv ''STATIC_SITE_PLACEHOLDERS_KEYS'');
          optional = splitList (getenv ''STATIC_SITE_PLACEHOLDERS_OPTIONAL_KEYS'');
          dir = getenv ''STATIC_SITE_PLACEHOLDERS_DIR'';
          (vals, errs2) = (if dir = [] then ([], []) else readPlaceholderDir lib dir (keys @ optional));
          (given, errs3) = listed_placeholders getenv (splitList (getenv ''STATIC_SITE_PLACEHOLDER_NAMES'')) in
      case nil_puts vals from_file of
        None \<Rightarrow> None
      | Some m1 \<Rightarrow> (case nil_puts (map (\<lambda>n. (n, [])) (filter (\<lambda>n. mget_list m1 n = None) optional)) m1 of
          None \<Rightarrow> None
        | Some m2 \<Rightarrow> (case nil_puts given m2 of
            None \<Rightarrow> None
          | Some m3 \<Rightarrow> Some (m3, errs1, errs2 @ errs3))))"

definition env_headers :: "site_library \<Rightarrow> (string \<Rightarrow> string) \<Rightarrow> string gomap \<times> site_error list" where
  "env_headers lib getenv =
     (let v = getenv ''STATIC_SITE_HEADERS'' in
      if v = [] then (DefaultHeaders, [])
      else let (ok, h) = sl_json lib v in
        (fold (\<lambda>(k, x). mput k x) (case h of None \<Rightarrow> [] | Some h \<Rightarrow> h) DefaultHeaders, err_if (\<not> ok) (SEJSON ''HEADERS'')))"

definition FromEnv :: "site_library \<Rightarrow> (string \<Rightarrow> string) \<Rightarrow> (site_config \<times> site_error list) option" where
  "FromEnv lib getenv =
     (let d = site_Defaults; dur = env_parsed getenv nonneg_duration SEDuration; bool = env_parsed getenv ParseBool SEBool;
          (plain, e1) = bool ''PLAIN_HTTP'' (sc_plain_http d);
          (spa, e2) = bool ''SPA_FALLBACK'' (sc_spa_fallback d);
          (pull, e3) = dur ''PULL_TIMEOUT'' (sc_pull_timeout d);
          (age, e4) = dur ''HTML_MAX_AGE'' (sc_html_max_age d);
          (stale, e5) = dur ''STALE_WHILE_REVALIDATE'' (sc_stale_while_revalidate d);
          (delay, e6) = dur ''SHUTDOWN_DELAY'' (sc_shutdown_delay d);
          (bytes, e7) = env_parsed getenv positive_int SENumber ''MAX_BYTES'' (sc_max_bytes d);
          (files, e8) = env_parsed getenv positive_int SENumber ''MAX_FILES'' (sc_max_files d);
          (pattern, e9) = env_parsed getenv (sl_compile lib) (\<lambda>k v. SEPattern v) ''HASHED_PATTERN'' (sc_hashed_pattern d);
          (headers, e10) = env_headers lib getenv;
          (strict, e12) = bool ''PLACEHOLDERS_STRICT'' (sc_placeholder_strict d) in
      case env_placeholders lib getenv of
        None \<Rightarrow> None
      | Some (placeholders, e11, e13) \<Rightarrow>
          let c = \<lparr>sc_addr = env_str getenv ''ADDR'' (sc_addr d), sc_ops_addr = env_str getenv ''OPS_ADDR'' (sc_ops_addr d),
                sc_dir = env_str getenv ''DIR'' [], sc_content_dir = env_str getenv ''CONTENT_DIR'' (sc_content_dir d),
                sc_artifact_ref = env_str getenv ''ARTIFACT_REF'' [], sc_artifact_digest = env_str getenv ''ARTIFACT_DIGEST'' [],
                sc_plain_http = plain, sc_registry_auth = env_str getenv ''REGISTRY_AUTH'' [], sc_docker_config_dir = getenv ''DOCKER_CONFIG'',
                sc_pull_timeout = pull, sc_max_bytes = bytes, sc_max_files = files, sc_hashed_pattern = pattern, sc_html_max_age = age,
                sc_stale_while_revalidate = stale, sc_spa_fallback = spa, sc_not_found_page = env_str getenv ''NOT_FOUND_PAGE'' (sc_not_found_page d),
                sc_headers = headers, sc_placeholders = (case placeholders of None \<Rightarrow> [] | Some m \<Rightarrow> m),
                sc_placeholder_keys = splitList (getenv ''STATIC_SITE_PLACEHOLDERS_KEYS'') @ splitList (getenv ''STATIC_SITE_PLACEHOLDERS_OPTIONAL_KEYS''),
                sc_placeholder_strict = strict, sc_shutdown_delay = delay\<rparr> in
          Some (c, concat [e1, e2, e3, e4, e5, e6, e7, e8, e9, e10, e11, e12, e13] @ Site_Validate c))"

definition PlaceholderNames :: "site_config \<Rightarrow> string list" where
  "PlaceholderNames c = sorted_keys (sc_placeholders c)"

section \<open>What a configuration read from the environment is\<close>

lemma err_if_Nil [simp]: "err_if b e = [] \<longleftrightarrow> \<not> b"
  by (simp add: err_if_def)

lemma env_parsed_value:
  assumes "P def" and "\<And>v x. parse v = Some x \<Longrightarrow> P x"
  shows "P (fst (env_parsed getenv parse err key def))"
  using assms by (auto simp: env_parsed_def Let_def split: option.split)

lemma nonneg_duration_value: "nonneg_duration v = Some d \<Longrightarrow> 0 \<le> d"
  by (auto simp: nonneg_duration_def split: option.splits if_splits)

lemma positive_int_value: "positive_int v = Some n \<Longrightarrow> 0 < n \<and> n \<le> int64_max"
  by (auto simp: positive_int_def Atoi_def Let_def split: option.splits if_splits)

lemma safeValue_iff: "rx_match safeValue v \<longleftrightarrow> length v \<le> 512 \<and> list_all safe_char v"
  unfolding rx_match_correct safeValue_def matches_upto_cls ..

lemma placeholderName_iff: "rx_match placeholderName n \<longleftrightarrow> (\<exists>c r. n = c # r \<and> letter c \<and> length r \<le> 63 \<and> list_all placeholder_char r)"
  unfolding rx_match_correct placeholderName_def matches_cls_cat matches_upto_cls by blast

lemma Site_Validate_Nil:
  assumes "Site_Validate c = []"
  shows "(sc_dir c = []) \<noteq> (sc_artifact_ref c = [])"
    and "\<forall>(n, v)\<in>set (sc_placeholders c). rx_match placeholderName n \<and> rx_match safeValue v"
    and "\<forall>(k, v)\<in>set (sc_headers c). k \<noteq> [] \<and> \<not> contains_any k [CHR '' '', CHR 0x09, CHR 0x0D, CHR 0x0A, CHR '':'']"
  using assms by (auto simp: Site_Validate_def)

lemma FromEnv_fields:
  assumes "FromEnv lib getenv = Some (c, errs)"
  shows "sc_max_bytes c = fst (env_parsed getenv positive_int SENumber ''MAX_BYTES'' (sc_max_bytes site_Defaults))"
    and "sc_max_files c = fst (env_parsed getenv positive_int SENumber ''MAX_FILES'' (sc_max_files site_Defaults))"
    and "sc_pull_timeout c = fst (env_parsed getenv nonneg_duration SEDuration ''PULL_TIMEOUT'' (sc_pull_timeout site_Defaults))"
    and "sc_html_max_age c = fst (env_parsed getenv nonneg_duration SEDuration ''HTML_MAX_AGE'' (sc_html_max_age site_Defaults))"
    and "sc_stale_while_revalidate c =
      fst (env_parsed getenv nonneg_duration SEDuration ''STALE_WHILE_REVALIDATE'' (sc_stale_while_revalidate site_Defaults))"
    and "sc_shutdown_delay c = fst (env_parsed getenv nonneg_duration SEDuration ''SHUTDOWN_DELAY'' (sc_shutdown_delay site_Defaults))"
    and "errs = [] \<Longrightarrow> Site_Validate c = []"
proof -
  obtain p e1 e2 where "env_placeholders lib getenv = Some (p, e1, e2)"
    using assms by (cases "env_placeholders lib getenv") (auto simp: FromEnv_def Let_def case_prod_beta)
  note built = assms [unfolded FromEnv_def Let_def case_prod_beta this option.case fst_conv snd_conv option.inject prod.inject]
  show "sc_max_bytes c = fst (env_parsed getenv positive_int SENumber ''MAX_BYTES'' (sc_max_bytes site_Defaults))"
    and "sc_max_files c = fst (env_parsed getenv positive_int SENumber ''MAX_FILES'' (sc_max_files site_Defaults))"
    and "sc_pull_timeout c = fst (env_parsed getenv nonneg_duration SEDuration ''PULL_TIMEOUT'' (sc_pull_timeout site_Defaults))"
    and "sc_html_max_age c = fst (env_parsed getenv nonneg_duration SEDuration ''HTML_MAX_AGE'' (sc_html_max_age site_Defaults))"
    and "sc_stale_while_revalidate c =
      fst (env_parsed getenv nonneg_duration SEDuration ''STALE_WHILE_REVALIDATE'' (sc_stale_while_revalidate site_Defaults))"
    and "sc_shutdown_delay c = fst (env_parsed getenv nonneg_duration SEDuration ''SHUTDOWN_DELAY'' (sc_shutdown_delay site_Defaults))"
    by (simp_all only: built [THEN conjunct1, symmetric] site_config.simps)
  show "errs = [] \<Longrightarrow> Site_Validate c = []" using built by (metis append_is_Nil_conv)
qed

lemma placeholder_name_shape:
  assumes "rx_match placeholderName n"
  shows "n \<noteq> [] \<and> letter (hd n) \<and> length n \<le> 64 \<and> list_all placeholder_char n"
proof -
  have "letter x \<Longrightarrow> placeholder_char x" for x by (simp add: letter_def placeholder_char_def ascii_alnum_def)
  then show ?thesis using assms by (auto simp: placeholderName_iff)
qed

lemma Defaults_in_range:
  shows "0 < sc_max_bytes site_Defaults \<and> sc_max_bytes site_Defaults \<le> int64_max" "0 < sc_max_files site_Defaults \<and> sc_max_files site_Defaults \<le> int64_max" "0 \<le> sc_pull_timeout site_Defaults"
    "0 \<le> sc_html_max_age site_Defaults" "0 \<le> sc_stale_while_revalidate site_Defaults" "0 \<le> sc_shutdown_delay site_Defaults"
    by (simp_all add: site_Defaults_def go_second_def int64_max_def)

lemma Site_Validate_safe:
  assumes "errs = [] \<Longrightarrow> Site_Validate c = []"
  shows "errs = [] \<longrightarrow> (sc_dir c = []) \<noteq> (sc_artifact_ref c = []) \<and>
    (\<forall>(n, v)\<in>set (sc_placeholders c). n \<noteq> [] \<and> letter (hd n) \<and> length n \<le> 64 \<and> list_all placeholder_char n \<and> length v \<le> 512 \<and> list_all safe_char v) \<and>
    (\<forall>(k, v)\<in>set (sc_headers c). k \<noteq> [] \<and> set k \<inter> set [CHR '' '', CHR 0x09, CHR 0x0D, CHR 0x0A, CHR '':''] = {})"
proof (intro impI conjI)
  assume "errs = []"
  note facts = Site_Validate_Nil [OF assms [OF this]]
  show "(sc_dir c = []) \<noteq> (sc_artifact_ref c = [])" by (rule facts(1))
  show "\<forall>(n, v)\<in>set (sc_placeholders c). n \<noteq> [] \<and> letter (hd n) \<and> length n \<le> 64 \<and> list_all placeholder_char n \<and> length v \<le> 512 \<and> list_all safe_char v"
    using facts(2) placeholder_name_shape by (simp add: safeValue_iff split_beta)
  have free: "\<not> contains_any k cs \<Longrightarrow> set k \<inter> set cs = {}" for k cs by (auto simp: contains_any_def list_ex_iff)
  show "\<forall>(k, v)\<in>set (sc_headers c). k \<noteq> [] \<and> set k \<inter> set [CHR '' '', CHR 0x09, CHR 0x0D, CHR 0x0A, CHR '':''] = {}"
    using facts(3) free unfolding split_beta by blast
qed

text \<open>C39 (type): what the server starts with. Whatever the environment, the limits that \<open>FromEnv\<close> reads are positive and within
  \<open>int64\<close>, the times are not negative; and when it reports no error the server has one source, the placeholders are identifiers with
  short values of safe characters alone, and no header name holds a space, a line break or a colon.\<close>

theorem FromEnv_valid:
  assumes "FromEnv lib getenv = Some (c, errs)"
  shows "0 < sc_max_bytes c \<and> sc_max_bytes c \<le> int64_max \<and> 0 < sc_max_files c \<and>
    0 \<le> sc_pull_timeout c \<and> 0 \<le> sc_html_max_age c \<and> 0 \<le> sc_stale_while_revalidate c \<and> 0 \<le> sc_shutdown_delay c \<and>
    (errs = [] \<longrightarrow> (sc_dir c = []) \<noteq> (sc_artifact_ref c = []) \<and>
       (\<forall>(n, v)\<in>set (sc_placeholders c). n \<noteq> [] \<and> letter (hd n) \<and> length n \<le> 64 \<and> list_all placeholder_char n \<and> length v \<le> 512 \<and> list_all safe_char v) \<and>
       (\<forall>(k, v)\<in>set (sc_headers c). k \<noteq> [] \<and> set k \<inter> set [CHR '' '', CHR 0x09, CHR 0x0D, CHR 0x0A, CHR '':''] = {}))"
proof -
  let ?dur = "env_parsed getenv nonneg_duration SEDuration"
  let ?num = "env_parsed getenv positive_int SENumber"
  let ?d = site_Defaults
  note fields = FromEnv_fields [OF assms]
  have dur: "0 \<le> fst (?dur key def)" if "0 \<le> def" for key def
    by (rule env_parsed_value [where P = "\<lambda>x. 0 \<le> x", OF that]) (rule nonneg_duration_value)
  have num: "0 < fst (?num key def) \<and> fst (?num key def) \<le> int64_max" if "0 < def \<and> def \<le> int64_max" for key def
    by (rule env_parsed_value [where P = "\<lambda>x. 0 < x \<and> x \<le> int64_max", OF that]) (rule positive_int_value)
  note defaults = Defaults_in_range
  have "0 < sc_max_bytes c \<and> sc_max_bytes c \<le> int64_max" unfolding fields(1) by (rule num [OF defaults(1)])
  moreover have "0 < sc_max_files c \<and> sc_max_files c \<le> int64_max" unfolding fields(2) by (rule num [OF defaults(2)])
  moreover have "0 \<le> sc_pull_timeout c" unfolding fields(3) by (rule dur [OF defaults(3)])
  moreover have "0 \<le> sc_html_max_age c" unfolding fields(4) by (rule dur [OF defaults(4)])
  moreover have "0 \<le> sc_stale_while_revalidate c" unfolding fields(5) by (rule dur [OF defaults(5)])
  moreover have "0 \<le> sc_shutdown_delay c" unfolding fields(6) by (rule dur [OF defaults(6)])
  ultimately show ?thesis using Site_Validate_safe [OF fields(7)] by (simp only: simp_thms)
qed

definition sample_site_env :: "string \<Rightarrow> string" where
  "sample_site_env key = (case mget [(''STATIC_SITE_DIR'', ''/srv''), (''STATIC_SITE_MAX_BYTES'', ''1000''),
     (''STATIC_SITE_PLACEHOLDER_NAMES'', ''api-url, version''), (''STATIC_SITE_PLACEHOLDER_API_URL'', ''https://api.example.com''),
     (''STATIC_SITE_PLACEHOLDER_VERSION'', ''1.2.3'')] key of None \<Rightarrow> [] | Some v \<Rightarrow> v)"

definition no_site_library :: site_library where
  "no_site_library = \<lparr>sl_json = (\<lambda>_. (True, None)), sl_compile = (\<lambda>_. None), sl_read = (\<lambda>_. FileText ''null'')\<rparr>"

lemma FromEnv_valid_witness: "\<exists>c. FromEnv no_site_library sample_site_env = Some (c, []) \<and> (sc_dir c = []) \<noteq> (sc_artifact_ref c = [])"
proof -
  have "(case FromEnv no_site_library sample_site_env of None \<Rightarrow> False | Some (c, errs) \<Rightarrow> errs = [])" by code_simp
  then obtain c where read: "FromEnv no_site_library sample_site_env = Some (c, [])" by (auto split: option.splits)
  from FromEnv_valid [OF read] show ?thesis using read by blast
qed

text \<open>A placeholder file that holds the JSON \<open>null\<close> leaves the map nil, and the first placeholder given beside it is a write to it: a panic.\<close>

lemma FromEnv_null_panics:
  "FromEnv no_site_library (\<lambda>key. if key = ''STATIC_SITE_PLACEHOLDERS_FILE'' then ''/etc/placeholders.json'' else sample_site_env key) = None"
proof -
  have "(case FromEnv no_site_library (\<lambda>key. if key = ''STATIC_SITE_PLACEHOLDERS_FILE'' then ''/etc/placeholders.json'' else sample_site_env key) of
      None \<Rightarrow> True | Some x \<Rightarrow> False)" by code_simp
  then show ?thesis by (simp split: option.splits)
qed

end
