(* ===== verification/Site_Text.thy ===== *)
theory Site_Text imports Site_Config Account_Tokens begin

text \<open>
  \<open>internal/staticsite/placeholders.go\<close> and the content types of \<open>site.go\<close>: the placeholders of a text file
  and how their values are escaped for it. The escapes are modelled on ASCII; a configuration that passes
  its checks has no other value (\<open>safeValue\<close>).
\<close>

section \<open>Kinds of files\<close>

definition path_Base :: "string \<Rightarrow> string" where
  "path_Base p =
     (let s = rev (dropWhile (\<lambda>c. c = CHR ''/'') (rev p)) in
      if p = [] then ''.'' else if s = [] then ''/'' else last (split_on CHR ''/'' s))"

text \<open>From the last dot of the last element on.\<close>

definition path_Ext :: "string \<Rightarrow> string" where
  "path_Ext p =
     (let b = last (split_on CHR ''/'' p) in
      if CHR ''.'' \<in> set b then CHR ''.'' # last (split_on CHR ''.'' b) else [])"

datatype text_kind =
    KindNone
  | KindHTML
  | KindJS
  | KindCSS
  | KindJSON

definition kindOf :: "string \<Rightarrow> text_kind" where
  "kindOf n =
     (let ext = to_lower (path_Ext n) in
      if ext \<in> set [''.html'', ''.htm''] then KindHTML
      else if ext \<in> set [''.js'', ''.mjs''] then KindJS
      else if ext = ''.css'' then KindCSS
      else if ext \<in> set [''.json'', ''.webmanifest''] then KindJSON
      else KindNone)"

definition builtinTypes :: "string gomap" where
  "builtinTypes = [
     (''.html'', ''text/html; charset=utf-8''), (''.htm'', ''text/html; charset=utf-8''), (''.css'', ''text/css; charset=utf-8''),
     (''.js'', ''text/javascript; charset=utf-8''), (''.mjs'', ''text/javascript; charset=utf-8''), (''.json'', ''application/json''),
     (''.webmanifest'', ''application/manifest+json''), (''.map'', ''application/json''), (''.txt'', ''text/plain; charset=utf-8''),
     (''.xml'', ''application/xml''), (''.svg'', ''image/svg+xml''), (''.png'', ''image/png''), (''.jpg'', ''image/jpeg''),
     (''.jpeg'', ''image/jpeg''), (''.gif'', ''image/gif''), (''.webp'', ''image/webp''), (''.avif'', ''image/avif''),
     (''.ico'', ''image/x-icon''), (''.woff'', ''font/woff''), (''.woff2'', ''font/woff2''), (''.ttf'', ''font/ttf''),
     (''.otf'', ''font/otf''), (''.wasm'', ''application/wasm''), (''.pdf'', ''application/pdf''), (''.mp4'', ''video/mp4''),
     (''.webm'', ''video/webm'')]"

definition contentType :: "(string \<Rightarrow> string) \<Rightarrow> string \<Rightarrow> string" where
  "contentType by_extension n =
     (let ext = to_lower (path_Ext n) in
      case mget builtinTypes ext of
        Some t \<Rightarrow> t
      | None \<Rightarrow> if by_extension ext \<noteq> [] then by_extension ext else ''application/octet-stream'')"

section \<open>Tokens\<close>

definition rx_space :: "char \<Rightarrow> bool" where
  "rx_space c \<longleftrightarrow> c \<in> {CHR '' '', CHR 0x09, CHR 0x0A, CHR 0x0C, CHR 0x0D}"

text \<open>The token that a text begins with: its name, and what follows it.\<close>

definition match_token :: "string \<Rightarrow> (string \<times> string) option" where
  "match_token s = (case cut_prefix s ''{{'' of
      None \<Rightarrow> None
    | Some r \<Rightarrow>
        let r1 = dropWhile rx_space r; n = takeWhile placeholder_char r1; r2 = dropWhile rx_space (dropWhile placeholder_char r1) in
        if n = [] \<or> \<not> letter (hd n) \<or> 64 < length n then None
        else case cut_prefix r2 ''}}'' of None \<Rightarrow> None | Some rest \<Rightarrow> Some (n, rest))"

lemma cut_prefix_shorter: "cut_prefix s p = Some r \<Longrightarrow> length r + length p = length s"
  by (auto simp: cut_prefix_def has_prefix_iff split: if_splits)

lemma match_token_shorter: "match_token s = Some (n, rest) \<Longrightarrow> length rest < length s"
proof -
  assume "match_token s = Some (n, rest)"
  then obtain r where r: "cut_prefix s ''{{'' = Some r"
    and rest: "cut_prefix (dropWhile rx_space (dropWhile placeholder_char (dropWhile rx_space r))) ''}}'' = Some rest"
    by (auto simp: match_token_def Let_def split: option.splits if_splits)
  have "length (dropWhile rx_space (dropWhile placeholder_char (dropWhile rx_space r))) \<le> length r"
    by (meson dual_order.trans length_dropWhile_le)
  then show ?thesis using cut_prefix_shorter [OF r] cut_prefix_shorter [OF rest] by simp
qed

datatype piece =
    Plain char
  | Token_piece string string

function pieces :: "string \<Rightarrow> piece list" where
  "pieces s = (case match_token s of
      Some (n, rest) \<Rightarrow> Token_piece n (take (length s - length rest) s) # pieces rest
    | None \<Rightarrow> (case s of [] \<Rightarrow> [] | c # cs \<Rightarrow> Plain c # pieces cs))"
  by pat_completeness auto
termination by (relation "measure length") (auto dest: match_token_shorter)

declare pieces.simps [simp del]

section \<open>Escapes\<close>

definition hex2 :: "nat \<Rightarrow> string" where
  "hex2 n = [hex_digit (n div 16), hex_digit (n mod 16)]"

definition html_char :: "char \<Rightarrow> string" where
  "html_char c =
     (if c = CHR ''&'' then ''&amp;'' else if c = CHR 0x27 then ''&#39;'' else if c = CHR ''<'' then ''&lt;''
      else if c = CHR ''>'' then ''&gt;'' else if c = CHR 0x22 then ''&#34;'' else [c])"

definition js_char :: "char \<Rightarrow> string" where
  "js_char c =
     (if c \<in> {CHR 0x5C, CHR 0x27, CHR 0x22, CHR 0x60, CHR ''<'', CHR ''>'', CHR ''&'', CHR ''$'', CHR ''=''} then CHR 0x5C # ''x'' @ hex2 (char_code c)
      else if char_code c < 0x20 \<or> char_code c = 0x7F then CHR 0x5C # ''u00'' @ hex2 (char_code c)
      else [c])"

definition css_char :: "char \<Rightarrow> string" where
  "css_char c =
     (if ascii_alnum c \<or> c = CHR ''-'' \<or> c = CHR ''_'' then [c]
      else CHR 0x5C # (if char_code c < 16 then [hex_digit (char_code c)] else hex2 (char_code c)) @ '' '')"

definition escape :: "text_kind \<Rightarrow> string \<Rightarrow> string" where
  "escape kind v = (case kind of
      KindHTML \<Rightarrow> concat (map html_char v)
    | KindJS \<Rightarrow> concat (map js_char v)
    | KindCSS \<Rightarrow> concat (map css_char v)
    | KindJSON \<Rightarrow> concat (map json_char v)
    | KindNone \<Rightarrow> v)"

section \<open>Substitution\<close>

definition piece_out :: "text_kind \<Rightarrow> string gomap \<Rightarrow> piece \<Rightarrow> string" where
  "piece_out kind values p = (case p of
      Plain c \<Rightarrow> [c]
    | Token_piece n raw \<Rightarrow> (case mget values n of None \<Rightarrow> raw | Some v \<Rightarrow> escape kind v))"

definition substitute :: "text_kind \<Rightarrow> string \<Rightarrow> string gomap \<Rightarrow> string" where
  "substitute kind data values =
     (if kind = KindNone \<or> values = [] \<or> \<not> str_contains data ''{{'' then data
      else concat (map (piece_out kind values) (pieces data)))"

fun token_names :: "piece list \<Rightarrow> string list" where
  "token_names [] = []"
| "token_names (Plain c # ps) = token_names ps"
| "token_names (Token_piece n raw # ps) = n # token_names ps"

datatype token_problem =
    NoValue string
  | UnknownName string

fun token_problems :: "string list \<Rightarrow> string gomap \<Rightarrow> string list \<Rightarrow> string list \<Rightarrow> token_problem list" where
  "token_problems declared values seen [] = []"
| "token_problems declared values seen (n # ns) =
     (if has_key values n \<or> n \<in> set seen then token_problems declared values seen ns
      else (if n \<in> set declared then NoValue n else UnknownName n) # token_problems declared values (n # seen) ns)"

definition checkTokens :: "text_kind \<Rightarrow> string \<Rightarrow> site_config \<Rightarrow> token_problem list" where
  "checkTokens kind data cfg =
     (if \<not> sc_placeholder_strict cfg \<or> kind = KindNone \<or> \<not> str_contains data ''{{'' then []
      else token_problems (sc_placeholder_keys cfg) (sc_placeholders cfg) [] (token_names (pieces data)))"

section \<open>Reading an escaped value\<close>

text \<open>What the file's language reads the text as: a JavaScript or JSON string literal, HTML text, a CSS identifier. A reader
  takes one character and what follows it; it refuses what would end the literal or the text.\<close>

definition unhex :: "char \<Rightarrow> nat option" where
  "unhex c = (if is_digit c then Some (char_code c - 48) else if 97 \<le> char_code c \<and> char_code c \<le> 102 then Some (char_code c - 87) else None)"

definition unhex2 :: "char \<Rightarrow> char \<Rightarrow> char option" where
  "unhex2 a b = (case (unhex a, unhex b) of (Some x, Some y) \<Rightarrow> Some (char_of (16 * x + y)) | _ \<Rightarrow> None)"

type_synonym reader = "string \<Rightarrow> (char \<times> string) option"

definition js_step :: reader where
  "js_step s = (case s of
      [] \<Rightarrow> None
    | c # r \<Rightarrow>
        if c = CHR 0x5C then
          (case cut_prefix r ''x'' of
             Some (a # b # r') \<Rightarrow> map_option (\<lambda>d. (d, r')) (unhex2 a b)
           | _ \<Rightarrow> (case cut_prefix r ''u00'' of Some (a # b # r') \<Rightarrow> map_option (\<lambda>d. (d, r')) (unhex2 a b) | _ \<Rightarrow> None))
        else if c \<in> {CHR 0x27, CHR 0x22, CHR 0x60, CHR ''<'', CHR ''>'', CHR ''&''} \<or> char_code c < 0x20 then None
        else Some (c, r))"

definition json_short :: "char \<Rightarrow> char option" where
  "json_short c = map_of [(CHR 0x22, CHR 0x22), (CHR 0x5C, CHR 0x5C), (CHR ''b'', CHR 0x08), (CHR ''f'', CHR 0x0C), (CHR ''n'', CHR 0x0A),
     (CHR ''r'', CHR 0x0D), (CHR ''t'', CHR 0x09)] c"

definition json_step :: reader where
  "json_step s = (case s of
      [] \<Rightarrow> None
    | c # r \<Rightarrow>
        if c = CHR 0x5C then
          (case cut_prefix r ''u00'' of
             Some (a # b # r') \<Rightarrow> map_option (\<lambda>d. (d, r')) (unhex2 a b)
           | _ \<Rightarrow> (case r of [] \<Rightarrow> None | e # r' \<Rightarrow> map_option (\<lambda>d. (d, r')) (json_short e)))
        else if c \<in> {CHR 0x22, CHR ''<'', CHR ''>'', CHR ''&''} \<or> char_code c < 0x20 then None
        else Some (c, r))"

definition html_entities :: "(string \<times> char) list" where
  "html_entities = [(''&amp;'', CHR ''&''), (''&#39;'', CHR 0x27), (''&lt;'', CHR ''<''), (''&gt;'', CHR ''>''), (''&#34;'', CHR 0x22)]"

definition html_step :: reader where
  "html_step s = (case s of
      [] \<Rightarrow> None
    | c # r \<Rightarrow>
        if c = CHR ''&'' then
          (case find (\<lambda>(e, d). has_prefix s e) html_entities of None \<Rightarrow> None | Some (e, d) \<Rightarrow> Some (d, drop (length e) s))
        else if c \<in> {CHR ''<'', CHR ''>'', CHR 0x22, CHR 0x27} then None
        else Some (c, r))"

definition css_step :: reader where
  "css_step s = (case s of
      [] \<Rightarrow> None
    | c # r \<Rightarrow>
        if c = CHR 0x5C then
          (case r of
             a # b # r' \<Rightarrow>
               if b = CHR '' '' then map_option (\<lambda>x. (char_of x, r')) (unhex a)
               else (case cut_prefix r' '' '' of Some r'' \<Rightarrow> map_option (\<lambda>d. (d, r'')) (unhex2 a b) | None \<Rightarrow> None)
           | _ \<Rightarrow> None)
        else if ascii_alnum c \<or> c = CHR ''-'' \<or> c = CHR ''_'' then Some (c, r) else None)"

definition kind_step :: "text_kind \<Rightarrow> reader" where
  "kind_step kind = (case kind of KindHTML \<Rightarrow> html_step | KindJS \<Rightarrow> js_step | KindCSS \<Rightarrow> css_step | KindJSON \<Rightarrow> json_step
     | KindNone \<Rightarrow> (\<lambda>s. case s of [] \<Rightarrow> None | c # r \<Rightarrow> Some (c, r)))"

function read_steps :: "reader \<Rightarrow> string \<Rightarrow> string option" where
  "read_steps step s =
     (if s = [] then Some []
      else case step s of
          None \<Rightarrow> None
        | Some (c, r) \<Rightarrow> if length r < length s then map_option ((#) c) (read_steps step r) else None)"
  by pat_completeness auto
termination by (relation "measure (\<lambda>(step, s). length s)") auto

declare read_steps.simps [simp del]

lemma read_steps_concat:
  assumes "\<And>c r. P c \<Longrightarrow> step (enc c @ r) = Some (c, r)" and "\<And>c. enc c \<noteq> []" and "list_all P v"
  shows "read_steps step (concat (map enc v)) = Some v"
  using assms(3)
proof (induction v)
  case (Cons c v)
  have "length (concat (map enc v)) < length (enc c @ concat (map enc v))" using assms(2) [of c] by simp
  then show ?case using Cons assms(1) [of c "concat (map enc v)"] assms(2) [of c]
    by (simp add: read_steps.simps [of step "enc c @ concat (map enc v)"])
qed (simp add: read_steps.simps)

definition ascii :: "char \<Rightarrow> bool" where
  "ascii c \<longleftrightarrow> char_code c < 128"

lemma unhex_digit: "n < 16 \<Longrightarrow> unhex (hex_digit n) = Some n"
proof -
  have "list_all (\<lambda>n. unhex (hex_digit n) = Some n) [0..<16]" by code_simp
  then show "n < 16 \<Longrightarrow> unhex (hex_digit n) = Some n" by (simp add: list_all_iff)
qed

lemma unhex2_code: "ascii c \<Longrightarrow> unhex2 (hex_digit (char_code c div 16)) (hex_digit (char_code c mod 16)) = Some c"
  by (simp add: unhex2_def unhex_digit ascii_def char_code_def)

lemma cut_prefix_simps [simp]: "cut_prefix s [] = Some s" "cut_prefix (c # s) (d # p) = (if c = d then cut_prefix s p else None)"
  "cut_prefix [] (d # p) = None"
  by (auto simp: cut_prefix_def has_prefix_def)

lemma js_step_char: "ascii c \<Longrightarrow> js_step (js_char c @ r) = Some (c, r)"
  by (auto simp: js_char_def js_step_def hex2_def unhex2_code)

lemma json_step_char: "ascii c \<Longrightarrow> json_step (json_char c @ r) = Some (c, r)"
  by (auto simp: json_char_def json_step_def json_short_def unhex2_code)

lemma html_step_char: "html_step (html_char c @ r) = Some (c, r)"
  by (auto simp: html_char_def html_step_def html_entities_def)

lemma css_plain: "ascii_alnum c \<Longrightarrow> c \<noteq> CHR 0x5C"
proof -
  have "\<not> ascii_alnum CHR 0x5C" by code_simp
  then show "ascii_alnum c \<Longrightarrow> c \<noteq> CHR 0x5C" by metis
qed

lemma hex_digit_not_space: "n < 16 \<Longrightarrow> hex_digit n \<noteq> CHR '' ''"
proof -
  have "list_all (\<lambda>n. hex_digit n \<noteq> CHR '' '') [0..<16]" by code_simp
  then show "n < 16 \<Longrightarrow> hex_digit n \<noteq> CHR '' ''" by (simp add: list_all_iff)
qed

lemma css_step_char:
  assumes "ascii c"
  shows "css_step (css_char c @ r) = Some (c, r)"
proof (cases "ascii_alnum c \<or> c = CHR ''-'' \<or> c = CHR ''_''")
  case True
  then have "c \<noteq> CHR 0x5C" using css_plain by auto
  then show ?thesis using True by (auto simp: css_char_def css_step_def)
next
  case False
  show ?thesis
  proof (cases "char_code c < 16")
    case True
    then have "unhex (hex_digit (char_code c)) = Some (char_code c)" by (rule unhex_digit)
    then show ?thesis using False True by (simp add: css_char_def css_step_def char_code_def)
  next
    case long: False
    have "hex_digit (char_code c mod 16) \<noteq> CHR '' ''" by (rule hex_digit_not_space) simp
    then show ?thesis using False long unhex2_code [OF assms] by (simp add: css_char_def css_step_def hex2_def)
  qed
qed

lemma kind_enc_not_Nil: "html_char c \<noteq> []" "js_char c \<noteq> []" "css_char c \<noteq> []" "json_char c \<noteq> []"
  by (auto simp: html_char_def js_char_def css_char_def json_char_def)

text \<open>C23 (roundtrip): an escaped value cannot leave its place and means itself. Read as the file's language reads it (a JavaScript or
  JSON string literal, HTML text, a CSS identifier), with a reader that refuses every character that would end the literal or the text,
  the escaped form of an ASCII value is accepted whole and is that value.\<close>

theorem escape_roundtrip:
  assumes "list_all ascii v"
  shows "read_steps (kind_step kind) (escape kind v) = Some v"
proof (cases kind)
  case KindNone
  have "read_steps (kind_step KindNone) (concat (map (\<lambda>c. [c]) v)) = Some v"
    by (rule read_steps_concat [where P = "\<lambda>_. True"]) (simp_all add: kind_step_def list_all_iff)
  then show ?thesis by (simp add: KindNone escape_def)
next
  case KindHTML
  then show ?thesis using read_steps_concat [of "\<lambda>_. True" html_step html_char v] html_step_char kind_enc_not_Nil
    by (simp add: escape_def kind_step_def list_all_iff)
next
  case KindJS
  then show ?thesis using read_steps_concat [of ascii js_step js_char v] js_step_char kind_enc_not_Nil assms
    by (simp add: escape_def kind_step_def)
next
  case KindCSS
  then show ?thesis using read_steps_concat [of ascii css_step css_char v] css_step_char kind_enc_not_Nil assms
    by (simp add: escape_def kind_step_def)
next
  case KindJSON
  then show ?thesis using read_steps_concat [of ascii json_step json_char v] json_step_char kind_enc_not_Nil assms
    by (simp add: escape_def kind_step_def)
qed

lemma escape_roundtrip_witness: "read_steps (kind_step KindJS) (escape KindJS ''</a>=1'') = Some ''</a>=1''"
proof -
  have "list_all ascii ''</a>=1''" by code_simp
  then show ?thesis by (rule escape_roundtrip)
qed

end
