(* ===== verification/Site_Serve.thy ===== *)
theory Site_Serve imports Site_Text begin

text \<open>
  \<open>internal/staticsite/handler.go\<close> and the entries of \<open>site.go\<close>: a request's path and what is answered, with the
  bytes and the headers. \<open>http.ServeContent\<close> is modelled by what it does with the headers and the bytes;
  what a request's conditional headers and ranges come to is a part of the request here. The content of the disk at the
  time of a request is a parameter.
\<close>

section \<open>A loaded site\<close>

record site_entry =
  se_disk :: string
  se_body :: "string option"
  se_size :: int
  se_ctype :: string
  se_etag :: string
  se_hashed :: bool
  se_html :: bool

record site =
  st_files :: "site_entry gomap"
  st_dirs :: "string list"

text \<open>What \<open>WalkDir\<close> visits: a path below the root with what it is.\<close>

datatype walked =
    WalkedDir
  | WalkedFile string
  | WalkedOther

datatype build_site_error =
    SiteTokens string "token_problem list"
  | SiteEmpty

text \<open>\<open>ReplaceAllFunc\<close> answers a nil slice when nothing is left of the text, and a nil body stands for the file on disk.\<close>

definition buildEntry :: "(string \<Rightarrow> string) \<Rightarrow> (string \<Rightarrow> string) \<Rightarrow> site_config \<Rightarrow> string \<Rightarrow> string \<Rightarrow> string \<Rightarrow> build_site_error + site_entry" where
  "buildEntry digest by_extension cfg root key data =
     (let kind = kindOf key; html = (kind = KindHTML);
          entry = (\<lambda>body served. \<lparr>se_disk = root @ key, se_body = body, se_size = int (length served), se_ctype = contentType by_extension key,
            se_etag = [CHR 0x22] @ take 32 (digest served) @ [CHR 0x22], se_hashed = (\<not> html \<and> sc_hashed_pattern cfg (path_Base key)), se_html = html\<rparr>) in
      if kind \<noteq> KindNone \<and> sc_placeholders cfg \<noteq> [] then
        (let problems = checkTokens kind data cfg; out = substitute kind data (sc_placeholders cfg) in
         if problems \<noteq> [] then Inl (SiteTokens key problems)
         else Inr (entry (if out = [] \<and> data \<noteq> [] then None else Some out) out))
      else Inr (entry None data))"

fun walk_site :: "(string \<Rightarrow> string) \<Rightarrow> (string \<Rightarrow> string) \<Rightarrow> site_config \<Rightarrow> string \<Rightarrow> (string \<times> walked) list \<Rightarrow> site \<Rightarrow> build_site_error + site" where
  "walk_site digest by_extension cfg root [] s = Inr s"
| "walk_site digest by_extension cfg root ((rel, w) # ws) s =
     (let key = ''/'' @ rel in
      case w of
        WalkedDir \<Rightarrow> walk_site digest by_extension cfg root ws (s\<lparr>st_dirs := key # st_dirs s\<rparr>)
      | WalkedOther \<Rightarrow> walk_site digest by_extension cfg root ws s
      | WalkedFile data \<Rightarrow> sum_bind (buildEntry digest by_extension cfg root key data) (\<lambda>e.
          walk_site digest by_extension cfg root ws (s\<lparr>st_files := mput key e (st_files s)\<rparr>)))"

definition Build_site :: "(string \<Rightarrow> string) \<Rightarrow> (string \<Rightarrow> string) \<Rightarrow> site_config \<Rightarrow> string \<Rightarrow> (string \<times> walked) list \<Rightarrow> build_site_error + site" where
  "Build_site digest by_extension cfg root ws =
     sum_bind (walk_site digest by_extension cfg root ws \<lparr>st_files = [], st_dirs = []\<rparr>) (\<lambda>s.
       if st_files s = [] then Inl SiteEmpty else Inr s)"

section \<open>Answers\<close>

datatype answer_body =
    NoBody
  | Written string

record answer =
  an_status :: int
  an_headers :: "string gomap"
  an_body :: answer_body

text \<open>What \<open>checkPreconditions\<close> and \<open>parseRange\<close> of \<open>net/http\<close> make of a request, for the tag of what is served and for its size.\<close>

datatype condition =
    Proceed
  | Unmodified
  | ConditionFailed

datatype byte_ranges =
    BadRange
  | NoOverlap
  | Ranges "(int \<times> int) list"

record site_request =
  sr_method :: string
  sr_path :: string
  sr_condition :: "string \<Rightarrow> condition"
  sr_ranges :: "string \<Rightarrow> int \<Rightarrow> byte_ranges"
  sr_multipart :: "(int \<times> int) list \<Rightarrow> string \<Rightarrow> string \<times> string"

text \<open>\<open>textproto.CanonicalMIMEHeaderKey\<close>, which \<open>Header.Set\<close> applies: a key with a byte that no header name has is kept.\<close>

definition token_char :: "char \<Rightarrow> bool" where
  "token_char c \<longleftrightarrow> ascii_alnum c \<or> c \<in> set [CHR ''!'', CHR ''#'', CHR ''$'', CHR ''%'', CHR ''&'', CHR 0x27, CHR ''*'', CHR ''+'', CHR ''-'', CHR ''.'', CHR ''^'',
     CHR ''_'', CHR 0x60, CHR ''|'', CHR ''~'']"

fun canonical_from :: "bool \<Rightarrow> string \<Rightarrow> string" where
  "canonical_from upper [] = []"
| "canonical_from upper (c # s) = (if upper then upper_char c else lower_char c) # canonical_from (c = CHR ''-'') s"

definition canonical_key :: "string \<Rightarrow> string" where
  "canonical_key k = (if k = [] \<or> \<not> list_all token_char k then k else canonical_from True k)"

definition header_set :: "string \<Rightarrow> string \<Rightarrow> string gomap \<Rightarrow> string gomap" where
  "header_set k v h = mput (canonical_key k) v h"

definition header_del :: "string list \<Rightarrow> string gomap \<Rightarrow> string gomap" where
  "header_del ks h = filter (\<lambda>(k, v). k \<notin> set ks) h"

definition header_get :: "string gomap \<Rightarrow> string \<Rightarrow> string" where
  "header_get h k = (case mget h k of None \<Rightarrow> [] | Some v \<Rightarrow> v)"

definition setHeaders :: "site_config \<Rightarrow> string gomap \<Rightarrow> string gomap" where
  "setHeaders cfg h = fold (\<lambda>(k, v) h. if v \<noteq> [] then header_set k v h else h) (sc_headers cfg) h"

definition site_fail :: "site_config \<Rightarrow> string gomap \<Rightarrow> int \<Rightarrow> string \<Rightarrow> answer" where
  "site_fail cfg h code msg =
     \<lparr>an_status = code,
      an_headers = header_set ''Cache-Control'' ''no-store'' (header_set ''Content-Type'' ''text/plain; charset=utf-8'' (setHeaders cfg h)),
      an_body = Written (msg @ [CHR 0x0A])\<rparr>"

section \<open>Paths\<close>

definition cleanPath :: "string \<Rightarrow> string option" where
  "cleanPath p =
     (if p = [] \<or> hd p \<noteq> CHR ''/'' \<or> contains_any p [CHR 0x00, CHR 0x5C] then None
      else if ''..'' \<in> set (split_on CHR ''/'' p) then None
      else let c = path_Clean p in Some (if has_suffix p ''/'' \<and> c \<noteq> ''/'' then c @ ''/'' else c))"

section \<open>Serving\<close>

definition whole_seconds :: "int \<Rightarrow> int" where
  "whole_seconds d = (if d < 0 then - (- d div go_second) else d div go_second)"

definition cacheControl :: "site_config \<Rightarrow> site_entry \<Rightarrow> int \<Rightarrow> string" where
  "cacheControl cfg e status =
     (if status \<noteq> 200 then ''no-store''
      else if se_hashed e then ''public, max-age=31536000, immutable''
      else let swr = whole_seconds (sc_stale_while_revalidate cfg) in
        ''public, max-age='' @ go_decimal (whole_seconds (sc_html_max_age cfg)) @
        (if swr > 0 then '', stale-while-revalidate='' @ go_decimal swr else []))"

text \<open>\<open>http.ServeContent\<close> with no modification time: the headers it deletes and sets, and the bytes it sends. An error clears what was set for a
  content.\<close>

definition range_error :: "string gomap \<Rightarrow> string \<Rightarrow> answer" where
  "range_error h msg =
     \<lparr>an_status = 416,
      an_headers = header_set ''X-Content-Type-Options'' ''nosniff'' (header_set ''Content-Type'' ''text/plain; charset=utf-8''
        (header_del [''Cache-Control'', ''Content-Encoding'', ''Etag'', ''Last-Modified'', ''Content-Length''] h)),
      an_body = Written (msg @ [CHR 0x0A])\<rparr>"

definition slash_size :: "int \<Rightarrow> string" where
  "slash_size n = ''/'' @ go_decimal n"

definition whole_content :: "string gomap \<Rightarrow> (string \<Rightarrow> answer_body) \<Rightarrow> string \<Rightarrow> answer" where
  "whole_content h body content =
     (let h = header_set ''Accept-Ranges'' ''bytes'' h in
      \<lparr>an_status = 200,
       an_headers = (if header_get h ''Content-Encoding'' = [] then header_set ''Content-Length'' (go_decimal (int (length content))) h else h),
       an_body = body content\<rparr>)"

definition not_modified :: "string gomap \<Rightarrow> answer" where
  "not_modified h =
     \<lparr>an_status = 304,
      an_headers = header_del ([''Content-Type'', ''Content-Length'', ''Content-Encoding''] @ (if header_get h ''Etag'' \<noteq> [] then [''Last-Modified''] else [])) h,
      an_body = NoBody\<rparr>"

definition partial_content :: "string gomap \<Rightarrow> string \<Rightarrow> string \<Rightarrow> int \<Rightarrow> answer_body \<Rightarrow> answer" where
  "partial_content h key value len body =
     \<lparr>an_status = 206,
      an_headers = header_set ''Content-Length'' (go_decimal len) (header_set ''Accept-Ranges'' ''bytes'' (header_set key value h)),
      an_body = body\<rparr>"

definition ServeContent :: "site_request \<Rightarrow> string gomap \<Rightarrow> string \<Rightarrow> answer" where
  "ServeContent req h content =
     (let etag = header_get h ''Etag''; size = int (length content);
          body = (\<lambda>b. if sr_method req = ''HEAD'' then NoBody else Written b) in
      case sr_condition req etag of
        ConditionFailed \<Rightarrow> \<lparr>an_status = 412, an_headers = h, an_body = NoBody\<rparr>
      | Unmodified \<Rightarrow> not_modified h
      | Proceed \<Rightarrow>
          (case sr_ranges req etag size of
             BadRange \<Rightarrow> range_error h ''invalid range''
           | NoOverlap \<Rightarrow>
               if size = 0 then whole_content h body content
               else range_error (header_set ''Content-Range'' (''bytes *'' @ slash_size size) h) ''invalid range: failed to overlap''
           | Ranges rs \<Rightarrow>
               if rs = [] \<or> sum_list (map snd rs) > size then whole_content h body content
               else if length rs = 1 then
                 (let (start, len) = hd rs in
                  partial_content h ''Content-Range'' (''bytes '' @ go_decimal start @ ''-'' @ go_decimal (start + len - 1) @ slash_size size) len
                    (body (take (nat len) (drop (nat start) content))))
               else
                 (let (boundary, parts) = sr_multipart req rs content in
                  partial_content h ''Content-Type'' (''multipart/byteranges; boundary='' @ boundary) (int (length parts)) (body parts))))"

definition serve :: "site_config \<Rightarrow> (string \<Rightarrow> string option) \<Rightarrow> site_request \<Rightarrow> site_entry \<Rightarrow> int \<Rightarrow> answer" where
  "serve cfg disk req e status =
     (let h = header_set ''Cache-Control'' (cacheControl cfg e status) (header_set ''Content-Type'' (se_ctype e) (setHeaders cfg [])) in
      if status \<noteq> 200 then
        \<lparr>an_status = status, an_headers = header_set ''Content-Length'' (go_decimal (se_size e)) h,
         an_body = (if sr_method req = ''HEAD'' then NoBody
           else case se_body e of Some b \<Rightarrow> Written b | None \<Rightarrow> (case disk (se_disk e) of None \<Rightarrow> NoBody | Some d \<Rightarrow> Written d))\<rparr>
      else
        (let h = header_set ''ETag'' (se_etag e) h in
         case se_body e of
           Some b \<Rightarrow> ServeContent req h b
         | None \<Rightarrow> (case disk (se_disk e) of
             None \<Rightarrow> site_fail cfg h 500 ''content unavailable''
           | Some d \<Rightarrow> ServeContent req h d)))"

definition site_notFound :: "site_config \<Rightarrow> (string \<Rightarrow> string option) \<Rightarrow> site_request \<Rightarrow> site \<Rightarrow> answer" where
  "site_notFound cfg disk req s =
     (case (if sc_not_found_page cfg = [] then None else mget (st_files s) (''/'' @ trim_prefix (sc_not_found_page cfg) ''/'')) of
        Some e \<Rightarrow> serve cfg disk req e 404
      | None \<Rightarrow> site_fail cfg [] 404 ''not found'')"

definition page_key :: "string \<Rightarrow> string" where
  "page_key p = (let k = trim_suffix p ''/'' in if k = [] then ''/'' else k)"

definition asks_index :: "string \<Rightarrow> bool" where
  "asks_index p \<longleftrightarrow> has_suffix p ''/'' \<or> page_key p = ''/''"

definition redirects :: "site \<Rightarrow> string \<Rightarrow> bool" where
  "redirects s p \<longleftrightarrow> \<not> asks_index p \<and> \<not> has_key (st_files s) (page_key p) \<and> page_key p \<in> set (st_dirs s) \<and>
     has_key (st_files s) (page_key p @ ''/index.html'')"

definition site_redirect :: "site_config \<Rightarrow> string \<Rightarrow> answer" where
  "site_redirect cfg key =
     \<lparr>an_status = 301, an_headers = header_set ''Cache-Control'' ''public, max-age=3600'' (header_set ''Location'' (key @ ''/'') (setHeaders cfg [])),
      an_body = NoBody\<rparr>"

definition site_lookup :: "site_config \<Rightarrow> site \<Rightarrow> string \<Rightarrow> site_entry option" where
  "site_lookup cfg s p =
     (let key = page_key p;
          e = (if asks_index p then mget (st_files s) (trim_suffix key ''/'' @ ''/index.html'') else mget (st_files s) key) in
      if e = None \<and> sc_spa_fallback cfg \<and> CHR ''.'' \<notin> set (path_Base key) then mget (st_files s) ''/index.html'' else e)"

definition ServeHTTP :: "site_config \<Rightarrow> site option \<Rightarrow> (string \<Rightarrow> string option) \<Rightarrow> site_request \<Rightarrow> answer" where
  "ServeHTTP cfg loaded disk req =
     (if sr_method req \<noteq> ''GET'' \<and> sr_method req \<noteq> ''HEAD'' then site_fail cfg (header_set ''Allow'' ''GET, HEAD'' []) 405 ''method not allowed''
      else case loaded of
          None \<Rightarrow> site_fail cfg [] 503 ''content not loaded''
        | Some s \<Rightarrow> (case cleanPath (sr_path req) of
            None \<Rightarrow> site_fail cfg [] 400 ''bad path''
          | Some p \<Rightarrow>
              if redirects s p then site_redirect cfg (page_key p)
              else case site_lookup cfg s p of None \<Rightarrow> site_notFound cfg disk req s | Some e \<Rightarrow> serve cfg disk req e 200))"

section \<open>Cleaned paths\<close>

definition rooted_path :: "string list \<Rightarrow> string" where
  "rooted_path cs = CHR ''/'' # str_join ''/'' cs"

lemma clean_parts_set: "set (clean_parts True stack cs) \<subseteq> set stack \<union> set cs"
  by (induction "True" stack cs rule: clean_parts.induct) (auto split: list.splits if_splits)

lemma str_join_last:
  assumes "cs \<noteq> []" and "list_all plain_name cs"
  shows "str_join ''/'' cs \<noteq> [] \<and> last (str_join ''/'' cs) \<noteq> CHR ''/'' \<and> hd (str_join ''/'' cs) \<noteq> CHR ''/''"
  using assms
proof (induction cs rule: induct_list012)
  case (2 w)
  then have "w \<noteq> []" "CHR ''/'' \<notin> set w" by (simp_all add: plain_name_def)
  then have "last w \<noteq> CHR ''/'' \<and> hd w \<noteq> CHR ''/''" using last_in_set hd_in_set by metis
  then show ?case using \<open>w \<noteq> []\<close> by simp
next
  case (3 w v vs)
  then have "w \<noteq> []" "CHR ''/'' \<notin> set w" by (simp_all add: plain_name_def)
  then have "hd w \<noteq> CHR ''/''" using hd_in_set by metis
  then show ?case using 3 \<open>w \<noteq> []\<close> by simp
qed simp

lemma set_str_join: "set (str_join sep cs) \<subseteq> set sep \<union> (\<Union>c\<in>set cs. set c)"
  by (induction sep cs rule: str_join.induct) auto

lemma split_on_chars: "w \<in> set (split_on sep s) \<Longrightarrow> set w \<subseteq> set s"
proof (induction s arbitrary: w)
  case (Cons c s)
  obtain a ws where split: "split_on sep s = a # ws" by (cases "split_on sep s") simp_all
  then have "set a \<subseteq> set s" "\<And>w. w \<in> set ws \<Longrightarrow> set w \<subseteq> set s" using Cons.IH by simp_all
  then show ?case using Cons.prems split by (fastforce split: if_splits)
qed simp

lemma has_suffix_slash: "has_suffix s ''/'' \<longleftrightarrow> s \<noteq> [] \<and> last s = CHR ''/''"
  by (cases s rule: rev_cases) (auto simp: has_suffix_iff)

lemma trim_suffix_slash: "trim_suffix s ''/'' = (if s \<noteq> [] \<and> last s = CHR ''/'' then butlast s else s)"
  by (simp add: trim_suffix_def has_suffix_slash butlast_conv_take)

lemma clean_parts_last_empty: "clean_parts rooted stack (cs @ [[]]) = clean_parts rooted stack cs"
  by (induction rooted stack cs rule: clean_parts.induct) (auto split: list.splits)

lemma clean_rooted:
  assumes "list_all plain_name cs"
  shows "path_Clean (rooted_path cs) = rooted_path cs" and "cs \<noteq> [] \<Longrightarrow> path_Clean (rooted_path cs @ ''/'') = rooted_path cs"
proof -
  have free: "list_all (\<lambda>c. CHR ''/'' \<notin> set c) cs" using assms by (auto simp: list_all_iff plain_name_def)
  have parts: "clean_parts True [] cs = cs" using clean_parts_fixed [OF assms, of True "[]"] by simp
  show "path_Clean (rooted_path cs) = rooted_path cs"
    using parts split_join_plain [OF _ free] by (cases "cs = []") (simp_all add: path_Clean_def rooted_path_def IsAbs_def)
  assume "cs \<noteq> []"
  have "split_on CHR ''/'' (str_join ''/'' cs @ ''/'') = cs @ [[]]"
    using \<open>cs \<noteq> []\<close> free by (induction cs rule: induct_list012) (simp_all add: split_on_append_sep)
  then show "path_Clean (rooted_path cs @ ''/'') = rooted_path cs"
    using parts by (simp add: path_Clean_def rooted_path_def IsAbs_def clean_parts_last_empty)
qed

text \<open>What a path is cleaned to: plain names, and a slash at the end when one was there.\<close>

definition safe_names :: "string list \<Rightarrow> bool" where
  "safe_names cs \<longleftrightarrow> list_all (\<lambda>c. plain_name c \<and> \<not> contains_any c [CHR 0x00, CHR 0x5C]) cs"

lemma cleanPath_shape:
  assumes "cleanPath p = Some c"
  obtains cs where "safe_names cs" "c = rooted_path cs"
  | cs where "safe_names cs" "cs \<noteq> []" "c = rooted_path cs @ ''/''"
proof -
  let ?cs = "clean_parts True [] (split_on CHR ''/'' p)"
  from assms have p: "p \<noteq> []" "hd p = CHR ''/''" "\<not> contains_any p [CHR 0x00, CHR 0x5C]"
    and c: "c = (if has_suffix p ''/'' \<and> path_Clean p \<noteq> ''/'' then path_Clean p @ ''/'' else path_Clean p)"
    by (auto simp: cleanPath_def Let_def split: if_splits)
  from p(1,2) have "IsAbs p" by (cases p) (simp_all add: IsAbs_def)
  with p(1) have clean: "path_Clean p = rooted_path ?cs" by (simp add: path_Clean_def rooted_path_def)
  have "list_all plain_name ?cs" by (rule clean_parts_plain) (auto simp: list_all_iff dest: split_on_sep_free)
  moreover have "\<not> contains_any w [CHR 0x00, CHR 0x5C]" if "w \<in> set ?cs" for w
  proof -
    from that clean_parts_set have "w \<in> set (split_on CHR ''/'' p)" by fastforce
    then have "set w \<subseteq> set p" by (rule split_on_chars)
    then show ?thesis using p(3) by (auto simp: contains_any_def list_ex_iff)
  qed
  ultimately have safe: "safe_names ?cs" by (simp add: safe_names_def list_all_iff)
  show thesis
  proof (cases "has_suffix p ''/'' \<and> path_Clean p \<noteq> ''/''")
    case True
    then have "?cs \<noteq> []" using clean by (auto simp: rooted_path_def)
    then show thesis using that(2) [OF safe] True c clean by simp
  next
    case False
    then show thesis using that(1) [OF safe] c clean by auto
  qed
qed

lemma safe_names_plain: "safe_names cs \<Longrightarrow> list_all plain_name cs"
  by (simp add: safe_names_def list_all_iff)

lemma cleanPath_slash:
  assumes "safe_names cs" and "cs \<noteq> []"
  shows "cleanPath (rooted_path cs @ ''/'') = Some (rooted_path cs @ ''/'')"
proof -
  note plain = safe_names_plain [OF assms(1)]
  have free: "list_all (\<lambda>c. CHR ''/'' \<notin> set c) cs" using plain by (auto simp: list_all_iff plain_name_def)
  have "split_on CHR ''/'' (str_join ''/'' cs @ ''/'') = cs @ [[]]"
    using assms(2) free by (induction cs rule: induct_list012) (simp_all add: split_on_append_sep)
  then have "''..'' \<notin> set (split_on CHR ''/'' (rooted_path cs @ ''/''))"
    using plain by (auto simp: rooted_path_def list_all_iff plain_name_def)
  moreover have "\<not> contains_any (rooted_path cs @ ''/'') [CHR 0x00, CHR 0x5C]"
    using set_str_join [of "''/''" cs] assms(1) by (fastforce simp: contains_any_def list_ex_iff rooted_path_def safe_names_def list_all_iff)
  moreover have "rooted_path cs \<noteq> ''/''" using str_join_last [OF assms(2) plain] by (simp add: rooted_path_def)
  ultimately show ?thesis using clean_rooted(2) [OF plain assms(2)] by (simp add: cleanPath_def Let_def) (simp add: rooted_path_def)
qed

section \<open>What is answered\<close>

lemma header_set_get [simp]: "mget (header_set k v h) k' = (if k' = canonical_key k then Some v else mget h k')"
  by (simp add: header_set_def)

lemma header_del_get [simp]: "mget (header_del ks h) k = (if k \<in> set ks then None else mget h k)"
proof -
  have "map_of (filter (\<lambda>(k, v). k \<notin> set ks) h) k = (if k \<in> set ks then None else map_of h k)" by (induction h) auto
  then show ?thesis by (simp add: header_del_def mget_def)
qed

lemma canonical_names [simp]:
  "canonical_key ''Cache-Control'' = ''Cache-Control''" "canonical_key ''Content-Type'' = ''Content-Type''"
  "canonical_key ''Content-Length'' = ''Content-Length''" "canonical_key ''Location'' = ''Location''" "canonical_key ''ETag'' = ''Etag''"
  "canonical_key ''Allow'' = ''Allow''" "canonical_key ''Accept-Ranges'' = ''Accept-Ranges''" "canonical_key ''Content-Range'' = ''Content-Range''"
  "canonical_key ''X-Content-Type-Options'' = ''X-Content-Type-Options''"
  by code_simp+

text \<open>What comes of a content that is served.\<close>

lemma ServeContent_cases:
  obtains (failed) "ServeContent req h c = \<lparr>an_status = 412, an_headers = h, an_body = NoBody\<rparr>"
  | (unmodified) "ServeContent req h c = not_modified h"
  | (bad) msg where "ServeContent req h c = range_error h msg"
  | (unsatisfied) v msg where "ServeContent req h c = range_error (header_set ''Content-Range'' v h) msg"
  | (whole) "ServeContent req h c = whole_content h (\<lambda>b. if sr_method req = ''HEAD'' then NoBody else Written b) c"
  | (part) k v n b where "k = ''Content-Range'' \<or> k = ''Content-Type''" "ServeContent req h c = partial_content h k v n b"
proof (cases "sr_condition req (header_get h ''Etag'')")
  case Proceed
  note served = ServeContent_def [of req h c, unfolded Let_def Proceed condition.case]
  show thesis
  proof (cases "sr_ranges req (header_get h ''Etag'') (int (length c))")
    case BadRange
    show thesis by (rule bad) (simp only: served BadRange byte_ranges.case)
  next
    case NoOverlap
    note served = served [unfolded NoOverlap byte_ranges.case]
    show thesis
    proof (cases "int (length c) = 0")
      case True
      show thesis by (rule whole) (simp only: served True simp_thms if_True)
    next
      case False
      show thesis by (rule unsatisfied) (simp only: served False if_False)
    qed
  next
    case (Ranges rs)
    note served = served [unfolded Ranges byte_ranges.case]
    consider "rs = [] \<or> sum_list (map snd rs) > int (length c)" | "\<not> (rs = [] \<or> sum_list (map snd rs) > int (length c))" "length rs = 1"
      | "\<not> (rs = [] \<or> sum_list (map snd rs) > int (length c))" "length rs \<noteq> 1" by blast
    then show thesis
    proof cases
      case 1
      show thesis by (rule whole) (simp only: served 1 if_True)
    next
      case 2
      show thesis by (rule part [OF disjI1 [OF refl]]) (simp only: served 2 simp_thms if_False if_True case_prod_beta)
    next
      case 3
      show thesis by (rule part [OF disjI2 [OF refl]]) (simp only: served 3 if_False case_prod_beta)
    qed
  qed
next
  case Unmodified
  show thesis by (rule unmodified) (simp only: ServeContent_def Let_def Unmodified condition.case)
next
  case ConditionFailed
  show thesis by (rule failed) (simp only: ServeContent_def Let_def ConditionFailed condition.case)
qed

lemma content_status [simp]:
  "an_status (not_modified h) = 304" "an_status (range_error h msg) = 416" "an_status (whole_content h body c) = 200"
  "an_status (partial_content h k v n b) = 206"
  by (simp_all add: not_modified_def range_error_def whole_content_def partial_content_def Let_def)

lemma ServeContent_status: "an_status (ServeContent req h c) \<in> {200, 206, 304, 412, 416}"
  by (cases rule: ServeContent_cases [of req h c]) simp_all

lemma ServeContent_ok:
  assumes "an_status (ServeContent req h c) = 200"
  shows "ServeContent req h c = whole_content h (\<lambda>b. if sr_method req = ''HEAD'' then NoBody else Written b) c"
  using assms by (cases rule: ServeContent_cases [of req h c]) simp_all

lemma site_fail_status [simp]: "an_status (site_fail cfg h code msg) = code"
  by (simp add: site_fail_def)

lemma serve_status: "an_status (serve cfg disk req e 200) \<in> {200, 206, 304, 412, 416, 500}" "an_status (serve cfg disk req e 404) = 404"
  using ServeContent_status by (auto simp: serve_def Let_def split: option.split)

lemma notFound_status [simp]: "an_status (site_notFound cfg disk req s) = 404"
  by (simp add: site_notFound_def serve_status split: option.split)

lemma serve_not_redirect: "an_status (serve cfg disk req e 200) \<noteq> 301"
  using serve_status(1) [of cfg disk req e] by auto

lemma rooted_not_slash:
  assumes "safe_names cs" and "cs \<noteq> []"
  shows "last (rooted_path cs) \<noteq> CHR ''/''" and "rooted_path cs \<noteq> ''/''" and "trim_suffix (rooted_path cs) ''/'' = rooted_path cs"
    and "\<not> has_suffix (rooted_path cs) ''/''"
  using str_join_last [OF assms(2) safe_names_plain [OF assms(1)]]
  by (simp_all add: rooted_path_def trim_suffix_slash has_suffix_slash)

text \<open>A path with a slash at its end, or the root, is answered with the index page of its directory.\<close>

lemma page_key_rooted:
  assumes "safe_names cs" and "cs \<noteq> []"
  shows "page_key (rooted_path cs) = rooted_path cs" and "page_key (rooted_path cs @ ''/'') = rooted_path cs"
    and "\<not> asks_index (rooted_path cs)" and "asks_index (rooted_path cs @ ''/'')"
proof -
  have "rooted_path cs \<noteq> []" by (simp add: rooted_path_def)
  then show keys: "page_key (rooted_path cs) = rooted_path cs" "page_key (rooted_path cs @ ''/'') = rooted_path cs"
    using rooted_not_slash [OF assms] by (simp_all add: page_key_def trim_suffix_slash)
  show "\<not> asks_index (rooted_path cs)" using rooted_not_slash [OF assms] by (simp add: asks_index_def keys)
  show "asks_index (rooted_path cs @ ''/'')" by (simp add: asks_index_def)
qed

lemma ServeHTTP_slash:
  assumes "safe_names cs" and "cs \<noteq> []" and "sr_method req = ''GET'' \<or> sr_method req = ''HEAD''" and "sr_path req = rooted_path cs @ ''/''"
    and "mget (st_files s) (rooted_path cs @ ''/index.html'') = Some e"
  shows "ServeHTTP cfg (Some s) disk req = serve cfg disk req e 200"
proof -
  note key = page_key_rooted [OF assms(1,2)]
  have "site_lookup cfg s (rooted_path cs @ ''/'') = Some e"
    using assms(5) rooted_not_slash(3) [OF assms(1,2)] by (simp add: site_lookup_def key)
  moreover have "\<not> redirects s (rooted_path cs @ ''/'')" by (simp add: redirects_def key)
  ultimately show ?thesis using assms(3,4) cleanPath_slash [OF assms(1,2)] by (auto simp: ServeHTTP_def)
qed

section \<open>Following a redirect\<close>

text \<open>What a client asks for when it follows a reference that is a path of the same server (RFC 3986): the part before a query or a fragment,
  which the server decodes. Another host, a relative path, dot segments and what no URL path may hold unescaped give nothing.\<close>

definition hex_value :: "char \<Rightarrow> nat option" where
  "hex_value c = unhex (lower_char c)"

fun percent_decode :: "string \<Rightarrow> string option" where
  "percent_decode [] = Some []"
| "percent_decode (c # s) =
     (if c = CHR ''%'' then
        (case s of
           a # b # r \<Rightarrow>
             (case (hex_value a, hex_value b, percent_decode r) of
                (Some x, Some y, Some d) \<Rightarrow> Some (char_of (16 * x + y) # d)
              | _ \<Rightarrow> None)
         | _ \<Rightarrow> None)
      else map_option ((#) c) (percent_decode s))"

definition url_char :: "char \<Rightarrow> bool" where
  "url_char c \<longleftrightarrow> ascii_alnum c \<or> c = CHR 0x27 \<or> c \<in> set ''-._~!$&()*+,;=:@''"

definition follow_location :: "string \<Rightarrow> string option" where
  "follow_location loc =
     (let p = takeWhile (\<lambda>c. c \<noteq> CHR ''?'' \<and> c \<noteq> CHR ''#'') loc; segments = split_on CHR ''/'' p in
      if \<not> has_prefix loc ''/'' \<or> has_prefix loc ''//'' \<or> ''.'' \<in> set segments \<or> ''..'' \<in> set segments \<or>
         \<not> list_all (\<lambda>c. url_char c \<or> c = CHR ''/'' \<or> c = CHR ''%'') p then None
      else percent_decode p)"

lemma percent_decode_plain: "CHR ''%'' \<notin> set s \<Longrightarrow> percent_decode s = Some s"
  by (induction s) auto

lemma url_char_marks: "\<not> url_char CHR ''?''" "\<not> url_char CHR ''#''" "\<not> url_char CHR ''%''"
  by code_simp+

lemma follow_rooted:
  assumes "safe_names cs" and "cs \<noteq> []" and "list_all (list_all url_char) cs"
  shows "follow_location (rooted_path cs @ ''/'') = Some (rooted_path cs @ ''/'')"
proof -
  let ?loc = "rooted_path cs @ ''/''"
  note plain = safe_names_plain [OF assms(1)]
  have free: "list_all (\<lambda>c. CHR ''/'' \<notin> set c) cs" using plain by (auto simp: list_all_iff plain_name_def)
  have chars: "c = CHR ''/'' \<or> url_char c" if "c \<in> set ?loc" for c
    using that set_str_join [of "''/''" cs] assms(3) by (auto simp: rooted_path_def list_all_iff)
  then have all: "\<forall>c\<in>set ?loc. c \<noteq> CHR ''?'' \<and> c \<noteq> CHR ''#'' \<and> c \<noteq> CHR ''%''" using url_char_marks by fastforce
  then have "takeWhile (\<lambda>c. c \<noteq> CHR ''?'' \<and> c \<noteq> CHR ''#'') ?loc = ?loc" by (intro takeWhile_eq_all_conv [THEN iffD2]) blast
  moreover have "percent_decode ?loc = Some ?loc" using all by (intro percent_decode_plain) blast
  moreover have "split_on CHR ''/'' (str_join ''/'' cs @ ''/'') = cs @ [[]]"
    using assms(2) free by (induction cs rule: induct_list012) (simp_all add: split_on_append_sep)
  then have "''.'' \<notin> set (split_on CHR ''/'' ?loc)" "''..'' \<notin> set (split_on CHR ''/'' ?loc)"
    using plain by (auto simp: rooted_path_def list_all_iff plain_name_def)
  moreover have "has_prefix ?loc ''/''" "\<not> has_prefix ?loc ''//''"
    using str_join_last [OF assms(2) plain] by (auto simp: rooted_path_def has_prefix_def neq_Nil_conv)
  ultimately show ?thesis using chars by (auto simp: follow_location_def Let_def list_all_iff)
qed

text \<open>C22 (liveness): a redirect leads to the page. When the server redirects a request, it is to the path itself with a slash at its end: a
  path of this server (a single slash and a name at its start, so never another host), of plain names, whose index page the site
  has. When the names are made of the characters that a URL's path holds unescaped, a client that follows the reference asks for a path
  that is answered at once with that page. (The path is not escaped in the header, so for other names the client is sent
  elsewhere.)\<close>

theorem ServeHTTP_redirect:
  assumes "an_status (ServeHTTP cfg (Some s) disk req) = 301"
  shows "\<exists>cs e loc. safe_names cs \<and> cs \<noteq> [] \<and> loc = rooted_path cs @ ''/'' \<and>
     mget (an_headers (ServeHTTP cfg (Some s) disk req)) ''Location'' = Some loc \<and>
     mget (st_files s) (rooted_path cs @ ''/index.html'') = Some e \<and>
     (list_all (list_all url_char) cs \<longrightarrow>
        (\<exists>q. follow_location loc = Some q \<and> ServeHTTP cfg (Some s) disk (req\<lparr>sr_path := q\<rparr>) = serve cfg disk (req\<lparr>sr_path := q\<rparr>) e 200))"
proof -
  from assms have meth: "sr_method req = ''GET'' \<or> sr_method req = ''HEAD''" by (auto simp: ServeHTTP_def split: if_splits)
  with assms obtain p where p: "cleanPath (sr_path req) = Some p" by (auto simp: ServeHTTP_def split: option.splits)
  with assms meth have redirect: "redirects s p" using serve_not_redirect by (auto simp: ServeHTTP_def split: option.splits if_splits)
  then have answer: "ServeHTTP cfg (Some s) disk req = site_redirect cfg (page_key p)" using meth p by (auto simp: ServeHTTP_def)
  from p obtain cs where cs: "safe_names cs" "p = rooted_path cs"
  proof (cases rule: cleanPath_shape)
    case (2 cs)
    then show thesis using redirect page_key_rooted by (simp add: redirects_def)
  qed
  have some: "cs \<noteq> []"
  proof
    assume "cs = []"
    then have "p = ''/''" using cs(2) by (simp add: rooted_path_def)
    then show False using redirect by (simp add: redirects_def asks_index_def)
  qed
  note key = page_key_rooted(1) [OF cs(1) some]
  from redirect obtain e where e: "mget (st_files s) (rooted_path cs @ ''/index.html'') = Some e"
    by (auto simp: redirects_def has_key_def cs(2) key)
  have "mget (an_headers (ServeHTTP cfg (Some s) disk req)) ''Location'' = Some (rooted_path cs @ ''/'')"
    by (simp add: answer site_redirect_def cs(2) key)
  moreover have "ServeHTTP cfg (Some s) disk (req\<lparr>sr_path := rooted_path cs @ ''/''\<rparr>) = serve cfg disk (req\<lparr>sr_path := rooted_path cs @ ''/''\<rparr>) e 200"
    by (rule ServeHTTP_slash [OF cs(1) some _ _ e]) (use meth in simp_all)
  ultimately show ?thesis using cs(1) some e follow_rooted [OF cs(1) some] by blast
qed

section \<open>The configured headers\<close>

lemma setHeaders_get:
  assumes "(k, v) \<in> set kvs" and "v \<noteq> []"
  shows "\<exists>k' v'. (k', v') \<in> set kvs \<and> canonical_key k' = canonical_key k \<and> v' \<noteq> [] \<and>
    mget (fold (\<lambda>(k, v) h. if v \<noteq> [] then header_set k v h else h) kvs h) (canonical_key k) = Some v'"
  using assms(1)
proof (induction kvs rule: rev_induct)
  case (snoc kv kvs)
  obtain j u where kv: "kv = (j, u)" by (cases kv)
  show ?case
  proof (cases "u \<noteq> [] \<and> canonical_key j = canonical_key k")
    case True
    then show ?thesis by (intro exI [of _ j] exI [of _ u]) (simp add: kv)
  next
    case False
    with snoc.prems assms(2) have "(k, v) \<in> set kvs" by (auto simp: kv)
    from snoc.IH [OF this] obtain k' v' where "(k', v') \<in> set kvs" "canonical_key k' = canonical_key k" "v' \<noteq> []"
      "mget (fold (\<lambda>(k, v) h. if v \<noteq> [] then header_set k v h else h) kvs h) (canonical_key k) = Some v'" by blast
    then show ?thesis using False by (intro exI [of _ k'] exI [of _ v']) (auto simp: kv)
  qed
qed simp

text \<open>A header set has one of the values that are configured for a name.\<close>

definition carries :: "site_config \<Rightarrow> string \<Rightarrow> string gomap \<Rightarrow> bool" where
  "carries cfg name h \<longleftrightarrow> (\<exists>k v. (k, v) \<in> set (sc_headers cfg) \<and> canonical_key k = name \<and> v \<noteq> [] \<and> mget h name = Some v)"

definition serving_start :: "site_config \<Rightarrow> string \<Rightarrow> string \<Rightarrow> string \<Rightarrow> string gomap" where
  "serving_start cfg tag cc ty = header_set ''ETag'' tag (header_set ''Cache-Control'' cc (header_set ''Content-Type'' ty (setHeaders cfg [])))"

lemma serve_found:
  "serve cfg disk req e 200 =
     (let h = serving_start cfg (se_etag e) (cacheControl cfg e 200) (se_ctype e) in
      case (if se_body e = None then disk (se_disk e) else se_body e) of
        None \<Rightarrow> site_fail cfg h 500 ''content unavailable''
      | Some sent \<Rightarrow> ServeContent req h sent)"
  by (cases "se_body e") (simp_all add: serve_def serving_start_def Let_def split: option.split)

text \<open>The headers the server and \<open>http.ServeContent\<close> set or delete after the configured ones.\<close>

definition serving_headers :: "string list" where
  "serving_headers = [''Cache-Control'', ''Content-Type'', ''Content-Length'', ''Content-Encoding'', ''Content-Range'', ''Accept-Ranges'', ''Last-Modified'',
     ''Location'', ''Etag'']"

lemma content_keeps:
  assumes "K \<notin> set serving_headers"
  shows "mget (an_headers (not_modified h)) K = mget h K" "mget (an_headers (whole_content h body c)) K = mget h K"
    "K \<noteq> ''X-Content-Type-Options'' \<Longrightarrow> mget (an_headers (range_error h msg)) K = mget h K"
    "k = ''Content-Range'' \<or> k = ''Content-Type'' \<Longrightarrow> mget (an_headers (partial_content h k v n b)) K = mget h K"
    "mget (header_set ''Content-Range'' v h) K = mget h K"
  using assms by (auto simp: not_modified_def whole_content_def range_error_def partial_content_def serving_headers_def Let_def)

lemma ServeContent_keeps:
  assumes "K \<notin> set serving_headers" and "K = ''X-Content-Type-Options'' \<Longrightarrow> an_status (ServeContent req h c) \<noteq> 416"
  shows "mget (an_headers (ServeContent req h c)) K = mget h K"
proof (cases rule: ServeContent_cases [of req h c])
  case (bad msg)
  then have "K \<noteq> ''X-Content-Type-Options''" using assms(2) by auto
  then show ?thesis using bad content_keeps(3) [OF assms(1)] by simp
next
  case (unsatisfied v msg)
  then have "K \<noteq> ''X-Content-Type-Options''" using assms(2) by auto
  then show ?thesis using unsatisfied content_keeps(3,5) [OF assms(1)] by simp
next
  case (part k v n b)
  then show ?thesis using content_keeps(4) [OF assms(1)] by simp
qed (simp_all add: content_keeps [OF assms(1)])

text \<open>C38 (invariant): every answer carries the configured headers. Whatever is asked and whatever is answered, the content or a part of it, a redirect
  or an error, for each header of the configuration with a value the answer has, under its canonical name, a value that is
  configured for that name: the value itself when the configuration spells the name in one way, and one of the values, as the order of the map
  has it, when it spells it in several. The headers of \<open>serving_headers\<close> are the server's own, and an answer 416 has the
  library's \<open>nosniff\<close> as its \<open>X-Content-Type-Options\<close>.\<close>

theorem ServeHTTP_headers:
  assumes "(k, v) \<in> set (sc_headers cfg)" and "v \<noteq> []" and "canonical_key k \<notin> set serving_headers"
    and "canonical_key k = ''X-Content-Type-Options'' \<longrightarrow> an_status (ServeHTTP cfg loaded disk req) \<noteq> 416"
  shows "\<exists>k' v'. (k', v') \<in> set (sc_headers cfg) \<and> canonical_key k' = canonical_key k \<and> v' \<noteq> [] \<and>
    mget (an_headers (ServeHTTP cfg loaded disk req)) (canonical_key k) = Some v'"
proof -
  let ?K = "canonical_key k"
  have set: "carries cfg ?K (setHeaders cfg h)" for h
    using setHeaders_get [OF assms(1,2)] unfolding setHeaders_def carries_def by blast
  have like: "carries cfg ?K h'" if "mget h' ?K = mget (setHeaders cfg h) ?K" for h' h
    using set [of h] unfolding carries_def that .
  have fail: "carries cfg ?K (an_headers (site_fail cfg h code msg))" for h code msg
    by (rule like [of _ h]) (use assms(3) in \<open>auto simp: site_fail_def serving_headers_def\<close>)
  have redirect: "carries cfg ?K (an_headers (site_redirect cfg key))" for key
    by (rule like [of _ "[]"]) (use assms(3) in \<open>auto simp: site_redirect_def serving_headers_def\<close>)
  have page: "carries cfg ?K (an_headers (serve cfg disk req e 404))" for e
    by (rule like [of _ "[]"]) (use assms(3) in \<open>auto simp: serve_def serving_headers_def Let_def\<close>)
  have missing: "carries cfg ?K (an_headers (site_notFound cfg disk req s))" for s
    using page fail by (simp add: site_notFound_def split: option.split)
  have content: "carries cfg ?K (an_headers (ServeContent req (serving_start cfg tag cc ty) c))"
    if "?K = ''X-Content-Type-Options'' \<Longrightarrow> an_status (ServeContent req (serving_start cfg tag cc ty) c) \<noteq> 416" for tag cc ty c
    by (rule like [of _ "[]"]) (use ServeContent_keeps [OF assms(3) that] assms(3) in \<open>auto simp: serving_start_def serving_headers_def\<close>)
  have served: "carries cfg ?K (an_headers (serve cfg disk req e 200))"
    if "?K = ''X-Content-Type-Options'' \<Longrightarrow> an_status (serve cfg disk req e 200) \<noteq> 416" for e
  proof (cases "if se_body e = None then disk (se_disk e) else se_body e")
    case None
    then show ?thesis using fail by (simp add: serve_found split: if_splits)
  next
    case (Some sent)
    then have "serve cfg disk req e 200 = ServeContent req (serving_start cfg (se_etag e) (cacheControl cfg e 200) (se_ctype e)) sent"
      by (auto simp: serve_found split: if_splits)
    then show ?thesis using content that by metis
  qed
  have "carries cfg ?K (an_headers (ServeHTTP cfg loaded disk req))"
    using assms(4) fail redirect missing served by (auto simp: ServeHTTP_def split: option.splits if_splits)
  then show ?thesis unfolding carries_def by blast
qed

section \<open>What is served\<close>

lemma walk_site_files:
  assumes "walk_site digest by_extension cfg root ws s = Inr s'" and "mget (st_files s') k = Some e"
  shows "mget (st_files s) k = Some e \<or>
    (\<exists>rel data. (rel, WalkedFile data) \<in> set ws \<and> k = ''/'' @ rel \<and> buildEntry digest by_extension cfg root k data = Inr e)"
  using assms
proof (induction ws arbitrary: s)
  case (Cons w ws)
  obtain rel v where w: "w = (rel, v)" by (cases w)
  show ?case
  proof (cases v)
    case WalkedDir
    then show ?thesis using Cons by (fastforce simp: w Let_def)
  next
    case (WalkedFile data)
    with Cons.prems(1) w obtain e' where built: "buildEntry digest by_extension cfg root (''/'' @ rel) data = Inr e'"
      and more: "walk_site digest by_extension cfg root ws (s\<lparr>st_files := mput (''/'' @ rel) e' (st_files s)\<rparr>) = Inr s'"
      by (auto simp: Let_def sum_bind_def split: sum.splits)
    from Cons.IH [OF more Cons.prems(2)] show ?thesis using built by (auto simp: w WalkedFile split: if_splits)
  next
    case WalkedOther
    then show ?thesis using Cons by (fastforce simp: w Let_def)
  qed
qed simp

lemma Build_site_files:
  assumes "Build_site digest by_extension cfg root ws = Inr s" and "mget (st_files s) k = Some e"
  shows "\<exists>rel data. (rel, WalkedFile data) \<in> set ws \<and> k = ''/'' @ rel \<and> buildEntry digest by_extension cfg root k data = Inr e"
proof -
  from assms(1) have "walk_site digest by_extension cfg root ws \<lparr>st_files = [], st_dirs = []\<rparr> = Inr s"
    by (auto simp: Build_site_def sum_bind_def split: sum.splits if_splits)
  from walk_site_files [OF this assms(2)] show ?thesis by simp
qed

lemma serve_ok:
  assumes "an_status (serve cfg disk req e 200) = 200" and "se_body e \<noteq> None \<or> disk (se_disk e) \<noteq> None"
  obtains sent where "se_body e = Some sent \<or> se_body e = None \<and> disk (se_disk e) = Some sent"
    and "an_body (serve cfg disk req e 200) = (if sr_method req = ''HEAD'' then NoBody else Written sent)"
    and "mget (an_headers (serve cfg disk req e 200)) ''Etag'' = Some (se_etag e)"
    and "mget (an_headers (serve cfg disk req e 200)) ''Content-Type'' = Some (se_ctype e)"
proof -
  obtain sent where found: "(if se_body e = None then disk (se_disk e) else se_body e) = Some sent" using assms(2) by (cases "se_body e") auto
  then have sent: "se_body e = Some sent \<or> se_body e = None \<and> disk (se_disk e) = Some sent" by (simp split: if_splits)
  let ?h = "serving_start cfg (se_etag e) (cacheControl cfg e 200) (se_ctype e)"
  have served: "serve cfg disk req e 200 = ServeContent req ?h sent" by (simp add: serve_found found)
  then have "serve cfg disk req e 200 = whole_content ?h (\<lambda>b. if sr_method req = ''HEAD'' then NoBody else Written b) sent"
    using assms(1) ServeContent_ok by simp
  then show thesis using that [OF sent] by (simp add: whole_content_def serving_start_def Let_def)
qed

text \<open>What an entry holds of the file it was built from.\<close>

lemma buildEntry_content:
  assumes "buildEntry digest by_extension cfg root key data = Inr e" and "disk (root @ key) = Some data"
    and "se_body e = Some sent \<or> se_body e = None \<and> disk (se_disk e) = Some sent"
  shows "sent = (let text = substitute (kindOf key) data (sc_placeholders cfg) in if text = [] then data else text)"
    and "se_etag e = [CHR 0x22] @ take 32 (digest (substitute (kindOf key) data (sc_placeholders cfg))) @ [CHR 0x22]"
    and "se_ctype e = contentType by_extension key"
proof -
  have plain: "substitute (kindOf key) data (sc_placeholders cfg) = data" if "\<not> (kindOf key \<noteq> KindNone \<and> sc_placeholders cfg \<noteq> [])"
    using that by (auto simp: substitute_def)
  have empty: "substitute (kindOf key) [] (sc_placeholders cfg) = []" by (auto simp: substitute_def pieces.simps match_token_def cut_prefix_def)
  show "sent = (let text = substitute (kindOf key) data (sc_placeholders cfg) in if text = [] then data else text)"
    and "se_etag e = [CHR 0x22] @ take 32 (digest (substitute (kindOf key) data (sc_placeholders cfg))) @ [CHR 0x22]"
    and "se_ctype e = contentType by_extension key"
    using assms plain empty by (auto simp: buildEntry_def Let_def split: if_splits)
qed

lemma serve_unavailable: "se_body e = None \<Longrightarrow> disk (se_disk e) = None \<Longrightarrow> an_status (serve cfg disk req e 200) = 500"
  by (simp add: serve_def Let_def)

text \<open>The entry that a cleaned path is looked up at.\<close>

lemma lookup_names:
  assumes "cleanPath path = Some p" and "site_lookup cfg s p = Some e"
  shows "\<exists>k. mget (st_files s) k = Some e \<and> (k = p \<or> has_suffix p ''/'' \<and> k = p @ ''index.html'' \<or> sc_spa_fallback cfg \<and> k = ''/index.html'')"
proof -
  let ?key = "page_key p"
  from assms(2) consider "sc_spa_fallback cfg" "mget (st_files s) ''/index.html'' = Some e"
    | "asks_index p" "mget (st_files s) (trim_suffix ?key ''/'' @ ''/index.html'') = Some e" | "\<not> asks_index p" "mget (st_files s) ?key = Some e"
    by (auto simp: site_lookup_def Let_def split: if_splits)
  then show ?thesis
  proof cases
    case 2
    from assms(1) have "has_suffix p ''/'' \<and> trim_suffix ?key ''/'' @ ''/index.html'' = p @ ''index.html''"
    proof (cases rule: cleanPath_shape)
      case (1 cs)
      have "cs = []" using 2(1) page_key_rooted(3) [OF 1(1)] 1(2) by auto
      then have "p = ''/''" using 1(2) by (simp add: rooted_path_def)
      then show ?thesis by (simp add: page_key_def trim_suffix_slash)
    next
      case (2 cs)
      then show ?thesis using page_key_rooted(2) [OF 2(1,2)] rooted_not_slash(3) [OF 2(1,2)] by simp
    qed
    then show ?thesis using 2(2) by metis
  next
    case 3
    from assms(1) have "?key = p"
    proof (cases rule: cleanPath_shape)
      case (1 cs)
      have "cs \<noteq> []"
      proof
        assume "cs = []"
        then have "p = ''/''" using 1(2) by (simp add: rooted_path_def)
        then show False using 3(1) by (simp add: asks_index_def)
      qed
      then show ?thesis using page_key_rooted(1) [OF 1(1)] 1(2) by simp
    next
      case (2 cs)
      then show ?thesis using 3(1) page_key_rooted(4) [OF 2(1,2)] by simp
    qed
    then show ?thesis using 3(2) by metis
  qed blast
qed

text \<open>C21 (safety): what is served. While the files on the disk are as they were at the load, an answer with status 200 has the bytes of one
  regular file met on the walk below the root: the file the cleaned path names, the index page of the directory it names with a slash,
  or, with the fallback on, the site's first page. The bytes are its text with the configured placeholders substituted as the kind of the file has it
  (and the file as it is, where nothing of the text is left), the tag is the hash of the substituted text, and the type is
  the type of the file's name.\<close>

theorem ServeHTTP_content:
  assumes "Build_site digest by_extension cfg root ws = Inr s" and "an_status (ServeHTTP cfg (Some s) disk req) = 200"
    and "\<forall>rel data. (rel, WalkedFile data) \<in> set ws \<longrightarrow> disk (root @ ''/'' @ rel) = Some data"
  shows "\<exists>p rel data text. cleanPath (sr_path req) = Some p \<and> (rel, WalkedFile data) \<in> set ws \<and>
     (p = ''/'' @ rel \<or> has_suffix p ''/'' \<and> p @ ''index.html'' = ''/'' @ rel \<or> sc_spa_fallback cfg \<and> rel = ''index.html'') \<and>
     text = substitute (kindOf (''/'' @ rel)) data (sc_placeholders cfg) \<and>
     an_body (ServeHTTP cfg (Some s) disk req) = (if sr_method req = ''HEAD'' then NoBody else Written (if text = [] then data else text)) \<and>
     mget (an_headers (ServeHTTP cfg (Some s) disk req)) ''Etag'' = Some ([CHR 0x22] @ take 32 (digest text) @ [CHR 0x22]) \<and>
     mget (an_headers (ServeHTTP cfg (Some s) disk req)) ''Content-Type'' = Some (contentType by_extension (''/'' @ rel))"
proof -
  from assms(2) have meth: "sr_method req = ''GET'' \<or> sr_method req = ''HEAD''" by (auto simp: ServeHTTP_def split: if_splits)
  with assms(2) obtain p where p: "cleanPath (sr_path req) = Some p" by (auto simp: ServeHTTP_def split: option.splits)
  with assms(2) meth obtain e where e: "ServeHTTP cfg (Some s) disk req = serve cfg disk req e 200" and found: "site_lookup cfg s p = Some e"
    by (auto simp: ServeHTTP_def site_redirect_def split: option.splits if_splits)
  from lookup_names [OF p found] obtain k where k: "mget (st_files s) k = Some e"
    "k = p \<or> has_suffix p ''/'' \<and> k = p @ ''index.html'' \<or> sc_spa_fallback cfg \<and> k = ''/index.html''" by blast
  from Build_site_files [OF assms(1) k(1)] obtain rel data where rel: "(rel, WalkedFile data) \<in> set ws" "k = ''/'' @ rel"
    "buildEntry digest by_extension cfg root k data = Inr e" by blast
  have "k = ''/index.html'' \<Longrightarrow> rel = ''index.html''" using rel(2) by simp
  then have names: "p = ''/'' @ rel \<or> has_suffix p ''/'' \<and> p @ ''index.html'' = ''/'' @ rel \<or> sc_spa_fallback cfg \<and> rel = ''index.html''"
    using k(2) rel(2) by metis
  have disk: "disk (root @ k) = Some data" using assms(3) rel(1,2) by simp
  have ok: "an_status (serve cfg disk req e 200) = 200" using assms(2) unfolding e .
  then have "se_body e \<noteq> None \<or> disk (se_disk e) \<noteq> None" using serve_unavailable [of e disk cfg req] by fastforce
  from serve_ok [OF ok this] obtain sent where sent: "se_body e = Some sent \<or> se_body e = None \<and> disk (se_disk e) = Some sent"
    and answer: "an_body (serve cfg disk req e 200) = (if sr_method req = ''HEAD'' then NoBody else Written sent)"
    "mget (an_headers (serve cfg disk req e 200)) ''Etag'' = Some (se_etag e)"
    "mget (an_headers (serve cfg disk req e 200)) ''Content-Type'' = Some (se_ctype e)" by blast
  note content = buildEntry_content [OF rel(3) disk sent]
  show ?thesis
    unfolding e answer content using p rel(1) names unfolding rel(2) Let_def by blast
qed

section \<open>A site to which the properties apply\<close>

definition sample_site_config :: site_config where
  "sample_site_config = site_Defaults\<lparr>sc_dir := ''/srv'', sc_spa_fallback := True\<rparr>"

definition sample_walk :: "(string \<times> walked) list" where
  "sample_walk = [(''docs'', WalkedDir), (''docs/index.html'', WalkedFile ''<p>docs</p>''), (''index.html'', WalkedFile ''<p>hello</p>''),
     (''socket'', WalkedOther)]"

definition sample_site :: site where
  "sample_site = (case Build_site (\<lambda>s. s) (\<lambda>e. []) sample_site_config ''/srv'' sample_walk of Inr s \<Rightarrow> s | Inl e \<Rightarrow> \<lparr>st_files = [], st_dirs = []\<rparr>)"

lemma sample_site_built: "Build_site (\<lambda>s. s) (\<lambda>e. []) sample_site_config ''/srv'' sample_walk = Inr sample_site"
proof -
  have "\<not> isl (Build_site (\<lambda>s. s) (\<lambda>e. []) sample_site_config ''/srv'' sample_walk)" by code_simp
  then show ?thesis by (auto simp: sample_site_def split: sum.splits)
qed

definition sample_disk :: "string \<Rightarrow> string option" where
  "sample_disk f = mget [(''/srv/docs/index.html'', ''<p>docs</p>''), (''/srv/index.html'', ''<p>hello</p>'')] f"

definition asks :: "string \<Rightarrow> site_request" where
  "asks path = \<lparr>sr_method = ''GET'', sr_path = path, sr_condition = (\<lambda>_. Proceed), sr_ranges = (\<lambda>_ _. Ranges []), sr_multipart = (\<lambda>_ _. ([], []))\<rparr>"

abbreviation sample_answer :: "string \<Rightarrow> answer" where
  "sample_answer path \<equiv> ServeHTTP sample_site_config (Some sample_site) sample_disk (asks path)"

lemma ServeHTTP_redirect_witness:
  "\<exists>cs. cs \<noteq> [] \<and> mget (an_headers (sample_answer ''//docs'')) ''Location'' = Some (rooted_path cs @ ''/'')"
proof -
  have "an_status (sample_answer ''//docs'') = 301" by code_simp
  from ServeHTTP_redirect [OF this] show ?thesis by blast
qed

lemma ServeHTTP_headers_witness: "mget (an_headers (sample_answer ''/missing.txt'')) ''X-Frame-Options'' = Some ''DENY''"
proof -
  have key: "canonical_key ''X-Frame-Options'' = ''X-Frame-Options''" by code_simp
  have "(''X-Frame-Options'', ''DENY'') \<in> set (sc_headers sample_site_config)" "canonical_key ''X-Frame-Options'' \<notin> set serving_headers"
    by code_simp+
  from ServeHTTP_headers [OF this(1) _ this(2), of "Some sample_site" sample_disk "asks ''/missing.txt''"]
  obtain k' v' where found: "(k', v') \<in> set (sc_headers sample_site_config)" "canonical_key k' = ''X-Frame-Options''"
    "mget (an_headers (sample_answer ''/missing.txt'')) ''X-Frame-Options'' = Some v'" unfolding key by auto
  have "list_all (\<lambda>(k, v). canonical_key k = ''X-Frame-Options'' \<longrightarrow> v = ''DENY'') (sc_headers sample_site_config)" by code_simp
  with found show ?thesis by (auto simp: list_all_iff)
qed

lemma ServeHTTP_content_witness: "\<exists>data. an_body (sample_answer ''/docs/'') = Written data \<and> data = ''<p>docs</p>''"
proof -
  have ok: "an_status (sample_answer ''/docs/'') = 200" by code_simp
  have "list_all (\<lambda>(rel, w). case w of WalkedFile data \<Rightarrow> sample_disk (''/srv'' @ ''/'' @ rel) = Some data | _ \<Rightarrow> True) sample_walk" by code_simp
  then have disk: "\<forall>rel data. (rel, WalkedFile data) \<in> set sample_walk \<longrightarrow> sample_disk (''/srv'' @ ''/'' @ rel) = Some data"
    unfolding list_all_iff by fastforce
  from ServeHTTP_content [OF sample_site_built ok disk] obtain p rel data left where found: "cleanPath (sr_path (asks ''/docs/'')) = Some p"
    "(rel, WalkedFile data) \<in> set sample_walk" "left = substitute (kindOf (''/'' @ rel)) data (sc_placeholders sample_site_config)"
    "p = ''/'' @ rel \<or> has_suffix p ''/'' \<and> p @ ''index.html'' = ''/'' @ rel \<or> sc_spa_fallback sample_site_config \<and> rel = ''index.html''"
    "an_body (sample_answer ''/docs/'') = (if sr_method (asks ''/docs/'') = ''HEAD'' then NoBody else Written (if left = [] then data else left))" by blast
  have "an_body (sample_answer ''/docs/'') = Written ''<p>docs</p>''" by code_simp
  then show ?thesis by blast
qed

text \<open>For a directory whose name holds a question mark the redirect leads to another path.\<close>

lemma redirect_elsewhere: "follow_location (rooted_path [''a?b''] @ ''/'') = Some ''/a''"
  by code_simp

text \<open>A header configured in two spellings has the value of the one the map ranges over last.\<close>

lemma headers_spelled_twice:
  "mget (an_headers (site_fail (site_Defaults\<lparr>sc_headers := [(''X-Frame-Options'', ''DENY''), (''x-frame-options'', ''SAMEORIGIN'')]\<rparr>) [] 404 [])) ''X-Frame-Options'' =
     Some ''SAMEORIGIN''"
  "mget (an_headers (site_fail (site_Defaults\<lparr>sc_headers := [(''x-frame-options'', ''SAMEORIGIN''), (''X-Frame-Options'', ''DENY'')]\<rparr>) [] 404 [])) ''X-Frame-Options'' =
     Some ''DENY''"
  by code_simp+

text \<open>A file that is nothing but a token with an empty value has a body of nil: it is served from the disk, as it was written.\<close>

lemma buildEntry_emptied:
  "\<exists>e. buildEntry (\<lambda>s. s) (\<lambda>e. []) (site_Defaults\<lparr>sc_placeholders := [(''x'', [])]\<rparr>) ''/srv'' ''/a.html'' ''{{x}}'' = Inr e \<and> se_body e = None \<and> se_size e = 0"
proof -
  have "(case buildEntry (\<lambda>s. s) (\<lambda>e. []) (site_Defaults\<lparr>sc_placeholders := [(''x'', [])]\<rparr>) ''/srv'' ''/a.html'' ''{{x}}'' of
      Inr e \<Rightarrow> se_body e = None \<and> se_size e = 0 | Inl e \<Rightarrow> False)" by code_simp
  then show ?thesis by (auto split: sum.splits)
qed

end
