(* ===== verification/Site_Unpack.thy ===== *)
theory Site_Unpack imports Site_Text Go_Int begin

text \<open>
  \<open>internal/staticsite/unpack.go\<close>: an archive unpacked below a directory, within limits. The archive is the list of what its
  reader returns; the directory is its directories and files, by the names on their path. A file's data are the bytes that can be
  read of it; \<open>te_whole\<close> says that they are all of it, and otherwise a read error follows them.
  \<open>int64\<close> is kept at its width (\<open>wrap64\<close>). The disk takes what is written to it.
\<close>

section \<open>Limits and paths\<close>

record unpack_limits =
  ul_max_bytes :: int
  ul_max_files :: int
  ul_bytes :: int
  ul_files :: int

datatype unpack_error =
    UEFiles int
  | UEBytes int
  | UEUnsafe string
  | UEAbsolute string
  | UELeaves string
  | UEArchive
  | UEType string char
  | UENotDirectory "string list"
  | UEExists "string list"
  | UERead

definition limit_file :: "unpack_limits \<Rightarrow> unpack_error option \<times> unpack_limits" where
  "limit_file lim =
     (let lim = lim\<lparr>ul_files := ul_files lim + 1\<rparr> in
      (fail_if (ul_max_files lim < ul_files lim) (UEFiles (ul_max_files lim)), lim))"

definition relPath :: "string \<Rightarrow> unpack_error + string" where
  "relPath n =
     (if n = [] \<or> contains_any n [CHR 0x00, CHR 0x5C] then Inl (UEUnsafe n)
      else if has_prefix n ''/'' then Inl (UEAbsolute n)
      else let p = path_Clean n in
        if p = ''.'' \<or> p = ''..'' \<or> has_prefix p ''../'' then Inl (UELeaves n) else Inr p)"

section \<open>The directory\<close>

record tree =
  tr_dirs :: "string list list"
  tr_files :: "(string list \<times> string) list"

definition is_file :: "tree \<Rightarrow> string list \<Rightarrow> bool" where
  "is_file t p \<longleftrightarrow> p \<in> fst ` set (tr_files t)"

definition is_dir :: "tree \<Rightarrow> string list \<Rightarrow> bool" where
  "is_dir t p \<longleftrightarrow> p = [] \<or> p \<in> set (tr_dirs t)"

text \<open>\<open>Root.MkdirAll\<close>: the directories made before an error stay.\<close>

fun mkdir_from :: "tree \<Rightarrow> string list \<Rightarrow> string list \<Rightarrow> unpack_error option \<times> tree" where
  "mkdir_from t done [] = (None, t)"
| "mkdir_from t done (c # cs) =
     (let p = done @ [c] in
      if is_file t p then (Some (UENotDirectory p), t)
      else mkdir_from (if is_dir t p then t else t\<lparr>tr_dirs := p # tr_dirs t\<rparr>) p cs)"

definition MkdirAll :: "tree \<Rightarrow> string list \<Rightarrow> unpack_error option \<times> tree" where
  "MkdirAll t cs = mkdir_from t [] cs"

text \<open>\<open>OpenFile\<close> with \<open>O_CREATE\<close> and \<open>O_EXCL\<close>.\<close>

definition create_new :: "tree \<Rightarrow> string list \<Rightarrow> unpack_error option \<times> tree" where
  "create_new t p =
     (if \<not> is_dir t (butlast p) then (Some (UENotDirectory (butlast p)), t)
      else if is_file t p \<or> is_dir t p then (Some (UEExists p), t)
      else (None, t\<lparr>tr_files := (p, []) # tr_files t\<rparr>))"

section \<open>Writing\<close>

type_synonym unpack_state = "tree \<times> unpack_limits"

text \<open>\<open>io.Copy\<close> of \<open>io.LimitReader\<close>: what is written, and whether a read error ended it.\<close>

definition copy_limited :: "int \<Rightarrow> string \<Rightarrow> bool \<Rightarrow> string \<times> bool" where
  "copy_limited n data whole = (if n \<le> 0 then ([], False) else (take (nat n) data, int (length data) < n \<and> \<not> whole))"

definition writeFile :: "unpack_state \<Rightarrow> string list \<Rightarrow> string \<Rightarrow> bool \<Rightarrow> unpack_error option \<times> unpack_state" where
  "writeFile st p data whole =
     (let (t, lim) = st; (err, t) = (if butlast p = [] then (None, t) else MkdirAll t (butlast p)) in
      case err of Some e \<Rightarrow> (Some e, t, lim)
      | None \<Rightarrow>
          (let (err, t) = create_new t p in
           case err of Some e \<Rightarrow> (Some e, t, lim)
           | None \<Rightarrow>
               (let (out, failed) = copy_limited (wrap64 (wrap64 (ul_max_bytes lim - ul_bytes lim) + 1)) data whole;
                    t = t\<lparr>tr_files := (p, out) # tl (tr_files t)\<rparr>;
                    lim = lim\<lparr>ul_bytes := wrap64 (ul_bytes lim + int (length out))\<rparr> in
                (first_of [fail_if failed UERead, fail_if (ul_max_bytes lim < ul_bytes lim) (UEBytes (ul_max_bytes lim))], t, lim))))"

section \<open>The archive\<close>

record tar_entry =
  te_name :: string
  te_type :: char
  te_data :: string
  te_whole :: bool

datatype tar_item =
    TarEntry tar_entry
  | TarBroken

definition components :: "string \<Rightarrow> string list" where
  "components p = split_on CHR ''/'' p"

definition tar_step :: "unpack_state \<Rightarrow> tar_entry \<Rightarrow> unpack_error option \<times> unpack_state" where
  "tar_step st e =
     (let n = trim_prefix (te_name e) ''./'' in
      if n = [] \<or> n = ''.'' then (None, st)
      else case relPath n of
          Inl err \<Rightarrow> (Some err, st)
        | Inr p \<Rightarrow>
            if te_type e = CHR ''5'' then (let (err, t) = MkdirAll (fst st) (components p) in (err, t, snd st))
            else if te_type e = CHR ''0'' then
              (let (err, lim) = limit_file (snd st) in
               case err of Some x \<Rightarrow> (Some x, fst st, lim) | None \<Rightarrow> writeFile (fst st, lim) (components p) (te_data e) (te_whole e))
            else if te_type e = CHR ''g'' then (None, st)
            else (Some (UEType (te_name e) (te_type e)), st))"

fun extractTar :: "unpack_state \<Rightarrow> tar_item list \<Rightarrow> unpack_error option \<times> unpack_state" where
  "extractTar st [] = (None, st)"
| "extractTar st (TarBroken # items) = (Some UEArchive, st)"
| "extractTar st (TarEntry e # items) =
     (let (err, st') = tar_step st e in case err of Some x \<Rightarrow> (Some x, st') | None \<Rightarrow> extractTar st' items)"

definition writeLayerFile :: "unpack_state \<Rightarrow> string \<Rightarrow> string \<Rightarrow> bool \<Rightarrow> unpack_error option \<times> unpack_state" where
  "writeLayerFile st p data whole = writeFile st (components p) data whole"

section \<open>Paths stay inside\<close>

lemma clean_parts_relative:
  assumes "list_all (\<lambda>c. CHR ''/'' \<notin> set c) cs" and "list_all plain_name ps"
  shows "\<exists>n qs. clean_parts False (rev ps @ replicate k ''..'') cs = replicate n ''..'' @ qs \<and> list_all plain_name qs"
  using assms
proof (induction cs arbitrary: ps k)
  case Nil
  then show ?case by (intro exI [of _ k] exI [of _ ps]) simp
next
  case (Cons c cs)
  consider "c = [] \<or> c = ''.''" | "c = ''..''" | "plain_name c" using Cons.prems(1) by (auto simp: plain_name_def)
  then show ?case
  proof cases
    case 1
    then show ?thesis using Cons by auto
  next
    case 2
    show ?thesis
    proof (cases ps rule: rev_cases)
      case Nil
      have "clean_parts False (rev ps @ replicate k ''..'') (c # cs) = clean_parts False (rev [] @ replicate (Suc k) ''..'') cs"
        using 2 Nil by (cases k) simp_all
      then show ?thesis using Cons.IH [of "[]" "Suc k"] Cons.prems by simp
    next
      case (snoc qs q)
      then have "q \<noteq> ''..''" using Cons.prems(2) by (simp add: plain_name_def)
      then have "clean_parts False (rev ps @ replicate k ''..'') (c # cs) = clean_parts False (rev qs @ replicate k ''..'') cs"
        using 2 snoc by simp
      then show ?thesis using Cons.IH [of qs k] Cons.prems snoc by simp
    qed
  next
    case 3
    then have "\<not> (c = [] \<or> c = ''.'')" "c \<noteq> ''..''" by (simp_all add: plain_name_def)
    then have "clean_parts False (rev ps @ replicate k ''..'') (c # cs) = clean_parts False (rev (ps @ [c]) @ replicate k ''..'') cs"
      unfolding clean_parts.simps by simp
    then show ?thesis using Cons.IH [of "ps @ [c]" k] Cons.prems 3 by simp
  qed
qed

lemma relPath_inside:
  assumes "relPath n = Inr p"
  shows "components p \<noteq> []" and "list_all plain_name (components p)"
proof -
  let ?cs = "clean_parts False [] (split_on CHR ''/'' n)"
  from assms have n: "n \<noteq> []" "\<not> has_prefix n ''/''" and p: "p = path_Clean n" and out: "p \<noteq> ''.''" "p \<noteq> ''..''" "\<not> has_prefix p ''../''"
    by (auto simp: relPath_def Let_def split: if_splits)
  from n have join: "p = (if str_join ''/'' ?cs = [] then ''.'' else str_join ''/'' ?cs)" by (simp add: p path_Clean_def IsAbs_def Let_def)
  with out(1) have joined: "p = str_join ''/'' ?cs" "str_join ''/'' ?cs \<noteq> []" by (auto split: if_splits)
  have "list_all (\<lambda>c. CHR ''/'' \<notin> set c) (split_on CHR ''/'' n)" by (auto simp: list_all_iff dest: split_on_sep_free)
  from clean_parts_relative [OF this, of "[]" 0] obtain m qs where parts: "?cs = replicate m ''..'' @ qs" and plain: "list_all plain_name qs" by auto
  have "m = 0"
  proof (rule ccontr)
    assume "m \<noteq> 0"
    then obtain ws where "?cs = ''..'' # ws" using parts by (cases m) simp_all
    then show False using joined(1) out(2,3) by (cases ws) simp_all
  qed
  then have "?cs = qs" using parts by simp
  moreover from this joined(2) have "qs \<noteq> []" by auto
  moreover from plain have "list_all (\<lambda>c. CHR ''/'' \<notin> set c) qs" by (auto simp: list_all_iff plain_name_def)
  ultimately have "components p = qs" using split_join_plain joined(1) by (simp add: components_def)
  then show "components p \<noteq> []" "list_all plain_name (components p)" using plain \<open>qs \<noteq> []\<close> by simp_all
qed

section \<open>What is written\<close>

lemma mkdir_files [simp]: "tr_files (snd (mkdir_from t p cs)) = tr_files t"
  by (induction t p cs rule: mkdir_from.induct) (simp_all add: Let_def)

lemma MkdirAll_files: "tr_files (snd (MkdirAll t cs)) = tr_files t"
  by (simp add: MkdirAll_def)

definition total_bytes :: "tree \<Rightarrow> int" where
  "total_bytes t = sum_list (map (\<lambda>f. int (length (snd f))) (tr_files t))"

definition sane :: "unpack_limits \<Rightarrow> bool" where
  "sane lim \<longleftrightarrow> 0 \<le> ul_bytes lim \<and> ul_bytes lim \<le> ul_max_bytes lim \<and> ul_max_bytes lim < int64_max"

lemma copy_room:
  assumes "sane lim" and "copy_limited (wrap64 (wrap64 (ul_max_bytes lim - ul_bytes lim) + 1)) data whole = (out, failed)"
  shows "out = take (nat (ul_max_bytes lim - ul_bytes lim + 1)) data" and "wrap64 (ul_bytes lim + int (length out)) = ul_bytes lim + int (length out)"
    and "ul_bytes lim + int (length out) \<le> ul_max_bytes lim + 1"
    and "ul_bytes lim + int (length out) \<le> ul_max_bytes lim \<Longrightarrow> out = data \<and> (failed \<or> whole)"
proof -
  from assms(1) have bounds: "0 \<le> ul_bytes lim" "ul_bytes lim \<le> ul_max_bytes lim" "ul_max_bytes lim < 2 ^ 63 - 1"
    by (auto simp: sane_def int64_max_def)
  then have "wrap64 (ul_max_bytes lim - ul_bytes lim) = ul_max_bytes lim - ul_bytes lim" by (intro wrap64_id) auto
  moreover have "wrap64 (ul_max_bytes lim - ul_bytes lim + 1) = ul_max_bytes lim - ul_bytes lim + 1" using bounds by (intro wrap64_id) auto
  ultimately show out: "out = take (nat (ul_max_bytes lim - ul_bytes lim + 1)) data" using assms(2) bounds by (simp add: copy_limited_def)
  then show fits: "ul_bytes lim + int (length out) \<le> ul_max_bytes lim + 1" using bounds by auto
  show "wrap64 (ul_bytes lim + int (length out)) = ul_bytes lim + int (length out)" using fits bounds by (intro wrap64_id) auto
  have failed: "failed \<longleftrightarrow> int (length data) < ul_max_bytes lim - ul_bytes lim + 1 \<and> \<not> whole"
    using assms(2) bounds \<open>wrap64 (ul_max_bytes lim - ul_bytes lim) = ul_max_bytes lim - ul_bytes lim\<close>
      \<open>wrap64 (ul_max_bytes lim - ul_bytes lim + 1) = ul_max_bytes lim - ul_bytes lim + 1\<close> by (simp add: copy_limited_def)
  assume fit: "ul_bytes lim + int (length out) \<le> ul_max_bytes lim"
  then have "out = data" using out bounds by (cases "length data < nat (ul_max_bytes lim - ul_bytes lim + 1)") auto
  with fit failed show "out = data \<and> (failed \<or> whole)" by auto
qed

lemma create_new_files:
  "create_new t p = (err, t') \<Longrightarrow> (case err of Some e \<Rightarrow> tr_files t' = tr_files t | None \<Rightarrow> tr_files t' = (p, []) # tr_files t \<and> \<not> is_file t p)"
  by (auto simp: create_new_def split: if_splits)

lemma writeFile_result:
  assumes "sane lim" and "writeFile (t, lim) p data whole = (err, t', lim')"
  shows "ul_max_bytes lim' = ul_max_bytes lim \<and> ul_max_files lim' = ul_max_files lim \<and> ul_files lim' = ul_files lim \<and>
    ul_bytes lim' \<le> ul_max_bytes lim + 1 \<and> total_bytes t' - total_bytes t = ul_bytes lim' - ul_bytes lim \<and>
    length (tr_files t') \<le> Suc (length (tr_files t)) \<and>
    (err = None \<longrightarrow> tr_files t' = (p, data) # tr_files t \<and> \<not> is_file t p \<and> sane lim' \<and> whole)"
proof -
  obtain err1 t1 where made: "(if butlast p = [] then (None, t) else MkdirAll t (butlast p)) = (err1, t1)" by fastforce
  have files: "tr_files t1 = tr_files t"
    using made MkdirAll_files [of t "butlast p"] by (simp split: if_split_asm)
  from assms(1) have bytes: "ul_bytes lim \<le> ul_max_bytes lim + 1" by (simp add: sane_def)
  show ?thesis
  proof (cases err1)
    case (Some e)
    then show ?thesis using assms(2) made files bytes by (auto simp: writeFile_def total_bytes_def)
  next
    case None
    obtain err2 t2 where created: "create_new t1 p = (err2, t2)" by fastforce
    show ?thesis
    proof (cases err2)
      case (Some e)
      then show ?thesis using assms(2) made None created create_new_files [OF created] files bytes by (auto simp: writeFile_def total_bytes_def)
    next
      case none2: None
      obtain out failed where copied: "copy_limited (wrap64 (wrap64 (ul_max_bytes lim - ul_bytes lim) + 1)) data whole = (out, failed)" by fastforce
      note room = copy_room [OF assms(1) copied]
      from create_new_files [OF created] none2 have t2: "tr_files t2 = (p, []) # tr_files t" "\<not> is_file t p"
        by (simp_all add: files is_file_def)
      from assms(2) have lim': "lim' = lim\<lparr>ul_bytes := ul_bytes lim + int (length out)\<rparr>" and t': "t' = t2\<lparr>tr_files := (p, out) # tr_files t\<rparr>"
        and err: "err = first_of [fail_if failed UERead, fail_if (ul_max_bytes lim < ul_bytes lim') (UEBytes (ul_max_bytes lim))]"
        by (auto simp: writeFile_def made None created none2 copied t2 room(2))
      have complete: "err = None \<Longrightarrow> out = data \<and> whole \<and> ul_bytes lim + int (length out) \<le> ul_max_bytes lim"
        using room(4) by (simp add: err lim')
      show ?thesis using room(3) t2(2) complete assms(1) by (auto simp: lim' t' total_bytes_def sane_def)
    qed
  qed
qed

text \<open>The regular files of an archive that are not its root, with their paths, wherever they stand in it.\<close>

fun regular_files :: "tar_item list \<Rightarrow> (string list \<times> string) list" where
  "regular_files [] = []"
| "regular_files (TarBroken # items) = regular_files items"
| "regular_files (TarEntry e # items) =
     (let n = trim_prefix (te_name e) ''./'' in
      if n \<noteq> [] \<and> n \<noteq> ''.'' \<and> te_type e = CHR ''0'' then (case relPath n of Inr p \<Rightarrow> [(components p, te_data e)] | Inl err \<Rightarrow> []) else []) @
     regular_files items"

text \<open>An item that can be taken over whole: the root, or a directory, a global header or a regular file that can be read to its end, of a
  name inside the directory.\<close>

fun intact :: "tar_item \<Rightarrow> bool" where
  "intact TarBroken = False"
| "intact (TarEntry e) =
     (let n = trim_prefix (te_name e) ''./'' in
      n = [] \<or> n = ''.'' \<or> \<not> isl (relPath n) \<and> (te_type e = CHR ''5'' \<or> te_type e = CHR ''g'' \<or> te_type e = CHR ''0'' \<and> te_whole e))"

definition well_counted :: "unpack_state \<Rightarrow> bool" where
  "well_counted st \<longleftrightarrow> total_bytes (fst st) = ul_bytes (snd st) \<and> int (length (tr_files (fst st))) \<le> ul_files (snd st) \<and>
     ul_files (snd st) \<le> ul_max_files (snd st) \<and> distinct (map fst (tr_files (fst st)))"

lemma tar_step_result:
  assumes "sane (snd st)" and "well_counted st" and "tar_step st e = (err, st')"
  shows "ul_max_bytes (snd st') = ul_max_bytes (snd st) \<and> ul_max_files (snd st') = ul_max_files (snd st) \<and>
    total_bytes (fst st') \<le> ul_max_bytes (snd st) + 1 \<and> int (length (tr_files (fst st'))) \<le> ul_max_files (snd st) \<and>
    (err = None \<longrightarrow> sane (snd st') \<and> well_counted st' \<and> tr_files (fst st') = rev (regular_files [TarEntry e]) @ tr_files (fst st) \<and>
       intact (TarEntry e))"
proof -
  obtain t lim where st: "st = (t, lim)" by (cases st)
  let ?n = "trim_prefix (te_name e) ''./''"
  from assms(1,2) have now: "total_bytes t \<le> ul_max_bytes lim + 1" "int (length (tr_files t)) \<le> ul_max_files lim"
    by (simp_all add: st sane_def well_counted_def)
  show ?thesis
  proof (cases "?n = [] \<or> ?n = ''.''")
    case True
    then show ?thesis using assms now by (auto simp: tar_step_def st)
  next
    case named: False
    show ?thesis
    proof (cases "relPath ?n")
      case (Inl x)
      then show ?thesis using assms now named by (auto simp: tar_step_def st)
    next
      case (Inr p)
      consider (dir) "te_type e = CHR ''5''" | (reg) "te_type e = CHR ''0''" | (other) "te_type e \<noteq> CHR ''5''" "te_type e \<noteq> CHR ''0''" by blast
      then show ?thesis
      proof cases
        case dir
        obtain err1 t1 where made: "MkdirAll t (components p) = (err1, t1)" by fastforce
        then have "tr_files t1 = tr_files t" using MkdirAll_files [of t "components p"] by simp
        moreover have "st' = (t1, lim)" using assms(3) named Inr dir made by (auto simp: tar_step_def st Let_def)
        ultimately show ?thesis using assms(1,2) now named Inr dir by (simp add: st total_bytes_def well_counted_def Let_def)
      next
        case reg
        show ?thesis
        proof (cases "ul_max_files lim < ul_files lim + 1")
          case True
          then show ?thesis using assms now named Inr reg by (auto simp: tar_step_def st limit_file_def Let_def fail_if_def)
        next
          case False
          let ?lim = "lim\<lparr>ul_files := ul_files lim + 1\<rparr>"
          from assms(3) named Inr reg False have writing: "writeFile (t, ?lim) (components p) (te_data e) (te_whole e) = (err, st')"
            by (simp add: tar_step_def st limit_file_def Let_def fail_if_def)
          obtain t' lim' where st': "st' = (t', lim')" by (cases st')
          have "sane ?lim" using assms(1) by (simp add: st sane_def)
          from writeFile_result [OF this writing [unfolded st']] show ?thesis
            using assms(1,2) False named Inr reg by (auto simp: st st' well_counted_def is_file_def Let_def)
        qed
      next
        case other
        then show ?thesis using assms now named Inr by (auto simp: tar_step_def st Let_def split: if_splits)
      qed
    qed
  qed
qed

lemma extract_result:
  assumes "sane (snd st)" and "well_counted st" and "extractTar st items = (err, st')"
  shows "total_bytes (fst st') \<le> ul_max_bytes (snd st) + 1 \<and> int (length (tr_files (fst st'))) \<le> ul_max_files (snd st) \<and>
    (err = None \<longrightarrow> sane (snd st') \<and> well_counted st' \<and> ul_max_bytes (snd st') = ul_max_bytes (snd st) \<and>
       tr_files (fst st') = rev (regular_files items) @ tr_files (fst st) \<and> list_all intact items)"
  using assms
proof (induction st items rule: extractTar.induct)
  case (1 st)
  then show ?case by (auto simp: sane_def well_counted_def)
next
  case (2 st items)
  then show ?case by (auto simp: sane_def well_counted_def)
next
  case (3 st e items)
  obtain err1 st1 where step: "tar_step st e = (err1, st1)" by (cases "tar_step st e")
  note one = tar_step_result [OF 3(2,3) step]
  show ?case
  proof (cases err1)
    case (Some x)
    then show ?thesis using 3(4) step one by auto
  next
    case None
    then have "extractTar st1 items = (err, st')" using 3(4) step by simp
    with 3(1) [OF step [symmetric] refl None] one None show ?thesis by (auto simp: Let_def)
  qed
qed

definition empty_tree :: tree where
  "empty_tree = \<lparr>tr_dirs = [], tr_files = []\<rparr>"

definition no_use :: "int \<Rightarrow> int \<Rightarrow> unpack_limits" where
  "no_use bytes files = \<lparr>ul_max_bytes = bytes, ul_max_files = files, ul_bytes = 0, ul_files = 0\<rparr>"

lemma regular_files_inside: "\<forall>f\<in>set (regular_files items). fst f \<noteq> [] \<and> list_all plain_name (fst f)"
proof (induction items rule: regular_files.induct)
  case (3 e items)
  have "regular_files [TarEntry e] = [] \<or>
      (\<exists>q. relPath (trim_prefix (te_name e) ''./'') = Inr q \<and> regular_files [TarEntry e] = [(components q, te_data e)])"
    by (simp add: Let_def split: sum.split)
  then have "\<forall>f\<in>set (regular_files [TarEntry e]). fst f \<noteq> [] \<and> list_all plain_name (fst f)"
    using relPath_inside by (elim disjE exE conjE) simp_all
  moreover have "regular_files (TarEntry e # items) = regular_files [TarEntry e] @ regular_files items" by (simp add: Let_def)
  ultimately show ?case using 3 by (simp only: set_append ball_Un)
qed simp_all

text \<open>C24 (functional): what a successful unpack leaves. Below a limit under the largest \<open>int64\<close>, an archive that unpacks without an error
  into an empty directory can be read to its end, every item of it is a directory, a global header or a regular file at a path of plain
  names inside the directory (or the root), and every regular file could be read whole; the directory then holds exactly those files, each
  with its whole content, none twice, and together they are within the limits of bytes and files. So a cut-off file or archive is
  an error.\<close>

theorem Unpack_faithful:
  assumes "extractTar (empty_tree, no_use bytes files) items = (None, t, lim)"
    and "0 \<le> bytes" and "bytes < int64_max" and "0 \<le> files"
  shows "tr_files t = rev (regular_files items) \<and> distinct (map fst (tr_files t)) \<and> total_bytes t \<le> bytes \<and> int (length (tr_files t)) \<le> files \<and>
    (\<forall>f\<in>set (tr_files t). fst f \<noteq> [] \<and> list_all plain_name (fst f)) \<and> (\<forall>item\<in>set items. intact item)"
proof -
  have "sane (snd (empty_tree, no_use bytes files))" "well_counted (empty_tree, no_use bytes files)"
    using assms(2-4) by (simp_all add: sane_def well_counted_def no_use_def empty_tree_def total_bytes_def)
  note result = extract_result [OF this assms(1)]
  then have "int (length (tr_files (fst (t, lim)))) \<le> ul_max_files (snd (empty_tree, no_use bytes files))" by blast
  then have "int (length (tr_files t)) \<le> files" by (simp add: no_use_def)
  moreover from result have "sane lim" "well_counted (t, lim)" "ul_max_bytes lim = bytes" "tr_files t = rev (regular_files items)" "list_all intact items"
    by (simp_all add: no_use_def empty_tree_def)
  moreover have "\<forall>f\<in>set (rev (regular_files items)). fst f \<noteq> [] \<and> list_all plain_name (fst f)"
    using regular_files_inside by simp
  ultimately show ?thesis by (simp add: sane_def well_counted_def list_all_iff)
qed

text \<open>C25 (bounds): what any unpack can write. Whether it ends well or in an error, whatever the archive, the files in the directory are at
  most the limit, and together they have at most one byte more than the limit.\<close>

theorem Unpack_bounded:
  assumes "0 \<le> bytes" and "bytes < int64_max" and "0 \<le> files"
  shows "total_bytes (fst (snd (extractTar (empty_tree, no_use bytes files) items))) \<le> bytes + 1 \<and>
    int (length (tr_files (fst (snd (extractTar (empty_tree, no_use bytes files) items))))) \<le> files"
proof -
  have "sane (snd (empty_tree, no_use bytes files))" "well_counted (empty_tree, no_use bytes files)"
    using assms by (simp_all add: sane_def well_counted_def no_use_def empty_tree_def total_bytes_def)
  moreover obtain err st where "extractTar (empty_tree, no_use bytes files) items = (err, st)"
    by (cases "extractTar (empty_tree, no_use bytes files) items")
  ultimately show ?thesis using extract_result [of "(empty_tree, no_use bytes files)" items err st] by (simp add: no_use_def)
qed

definition sample_archive :: "tar_item list" where
  "sample_archive = [TarEntry \<lparr>te_name = ''./'', te_type = CHR ''5'', te_data = [], te_whole = True\<rparr>,
     TarEntry \<lparr>te_name = ''./a/b.css'', te_type = CHR ''0'', te_data = ''p{}'', te_whole = True\<rparr>,
     TarEntry \<lparr>te_name = ''index.html'', te_type = CHR ''0'', te_data = ''hello'', te_whole = True\<rparr>]"

lemma Unpack_faithful_witness: "tr_files (fst (snd (extractTar (empty_tree, no_use 100 10) sample_archive))) = rev (regular_files sample_archive) \<and>
   total_bytes (fst (snd (extractTar (empty_tree, no_use 100 10) sample_archive))) \<le> 100"
proof -
  obtain err t lim where run: "extractTar (empty_tree, no_use 100 10) sample_archive = (err, t, lim)"
    by (metis prod_cases3)
  have "fst (extractTar (empty_tree, no_use 100 10) sample_archive) = None" by code_simp
  then have "extractTar (empty_tree, no_use 100 10) sample_archive = (None, t, lim)" using run by simp
  from Unpack_faithful [OF this] show ?thesis by (simp add: run int64_max_def)
qed

lemma Unpack_bounded_witness: "int (length (tr_files (fst (snd (extractTar (empty_tree, no_use 3 1) sample_archive))))) \<le> 1"
  using Unpack_bounded [of 3 1 sample_archive] by (simp add: int64_max_def)

text \<open>With the largest \<open>int64\<close> as the limit, the bound of the copy wraps around: every file is written empty, and no error is reported.\<close>

lemma unpack_wraps:
  "fst (extractTar (empty_tree, no_use int64_max 10) sample_archive) = None"
  "map snd (tr_files (fst (snd (extractTar (empty_tree, no_use int64_max 10) sample_archive)))) = [[], []]"
  by code_simp+

end
