(* ===== verification/Spec2Isabelle.thy ===== *)
theory Spec2Isabelle imports Catalog_Reorder Catalog_Groups Catalog_SignIn Stack_Services Preset_Rights Preset_Credential Token_Split Stack_Prototypes Site_Serve Site_Unpack begin

text \<open>
  A model of the edge library: the programs that turn an estate's catalog of exposures into the
  Cloudflare tunnels, zones, rulesets and tokens that serve it. All files are under \<open>src/\<close>.

  \<^bold>\<open>The program and its parts.\<close> A catalog (\<open>catalog/\<close>) lists exposures: groups of hostnames, the
  clusters they run on, how a request arrives there. It is read and validated, projects' own groups
  are generated into it, and it is rendered to each cluster's Gateway listeners, route grants and
  sign-in policies. The tunnel-served part of it, flattened (\<open>cloudflare/edgespec\<close>), is divided among
  tunnels, one for a cluster and an account; a tunnel's hosts are ordered so that the first match
  is the right one. \<open>cloudflare/edge\<close> deploys tunnels (\<open>cloudflare/tunnel\<close>) and zones
  (\<open>cloudflare/zone\<close>), whose arguments (\<open>cloudflare/zonespec\<close>) name settings, records and declaration
  blocks; \<open>cloudflare/rules\<close> builds one contribution of rules for each block and assembles the
  contributions into one ruleset for each phase. Separately, \<open>cloudflare/tokensplit\<close> mints from a
  root token the least-privilege tokens the other stacks run under (\<open>cloudflare/account\<close>). The
  registry (\<open>cloudflare/config\<close>) holds an estate's accounts, zones and buckets; it is checked on its
  own, joined with the catalog into its tunnels and the hosts of its zones, checked again, and cut into
  the view of each account's stacks. The presets (\<open>cloudflare/presets\<close>) are the tokens people and
  jobs run under, a table built from the registry; \<open>cloudflare/presettoken\<close> has the credential of a preset
  when a stack needs one, from the identity service sluis or, in an emergency, minted with the account's root;
  \<open>cloudflare/prototypes\<close> declares the presets of an account as the disabled tokens that sluis copies. Apart from
  these, \<open>internal/staticsite\<close> is a server of one static site: it unpacks an artifact within limits, substitutes
  placeholders in its text files and serves them.

  \<^bold>\<open>Theories.\<close> Each theory names the Go files it models; a definition has the name of its Go function
  or, where that clashes, a prefix of its type (\<open>Proxy_Validate\<close> for \<open>ClientProxy.Validate\<close>).

  \<^item> The standard library and the SDK: \<open>Go_Prelude\<close> (strings, maps, errors as values, the locale
    \<open>validator\<close>: a function that reports an error exactly when a condition fails), \<open>Go_Sort\<close>
    (comparison functions, the locales \<open>go_order\<close> and \<open>go_keyed\<close>), \<open>Go_Regexp\<close> (patterns, an
    inductive meaning and a matcher by derivatives), \<open>Go_NetIP\<close>, \<open>Go_Time\<close>, \<open>Go_Duration\<close>
    (\<open>time.ParseDuration\<close>), \<open>Go_Int\<close> (\<open>int64\<close>), \<open>Pulumi_Program\<close> (a deployment as its list of actions).
  \<^item> The catalog: \<open>Catalog_Model\<close> (data, names), \<open>Catalog_Validate\<close>, \<open>Catalog_Reorder\<close> (independence of
    map order), \<open>Catalog_Queries\<close> (the readers), \<open>Catalog_Projects\<close> (\<open>WithProjects\<close>), \<open>Catalog_Entry\<close>
    (certificate values), \<open>Catalog_Groups\<close> (ListenerSet groups and grants), \<open>Catalog_SignIn\<close>.
  \<^item> The edge: \<open>Edge_Order\<close> (\<open>OrderHosts\<close>, \<open>Covers\<close>, the locale \<open>ingress\<close> of rule lists read first match
    first), \<open>Edge_Derive\<close> (\<open>Derive\<close>, \<open>ValidateRouting\<close>, the locale \<open>zone_lookup\<close>), \<open>Tunnel_Args\<close>
    (\<open>tunnel.Args\<close>, \<open>tunnel.New\<close>), \<open>Edge_Deploy\<close> (\<open>edge.Deploy\<close>).
  \<^item> Zones and rules: \<open>Filter_Expr\<close> (the part of Cloudflare's Rules language the sources write),
    \<open>Rule_Spec\<close>, \<open>Zone_RateLimit\<close>, \<open>Zone_Spec\<close>, \<open>Rule_Assemble\<close>, \<open>Rule_Builders\<close>, \<open>Zone_New\<close>.
  \<^item> Tokens: \<open>Account_Tokens\<close> (\<open>account.New\<close>, \<open>NewChildToken\<close>, \<open>NewChildTokenSet\<close>), \<open>Token_Split\<close>.

  \<^item> The registry: \<open>Config_Model\<close> (data, conversions, \<open>Contributions\<close>), \<open>Config_Validate\<close> (the checks),
    \<open>Config_Derive\<close> (\<open>derive\<close>, \<open>Load\<close>, \<open>AddWAFHosts\<close>), \<open>Config_Load\<close> (what a loaded registry
    guarantees), \<open>Config_Stacks\<close> (stack names, \<open>ForAccount\<close>), \<open>Config_Rules\<close> (what a checked zone's
    builders accept).
  \<^item> Presets: \<open>Preset_Table\<close> (the table of \<open>cloudflare/presets\<close>, its checks and its builder, the
    requests for its tokens), \<open>Preset_Rights\<close> (what an accepted preset may do).
  \<^item> A preset's credential: \<open>Go_Path\<close> (\<open>filepath.Clean\<close>), \<open>Preset_Config\<close> (the configuration, its checks, the
    version floor, an estate), \<open>Preset_Program\<close> (programs that ask the world, as trees, and their runs),
    \<open>Preset_Token\<close> (sluis, break-glass, the wait, \<open>Token\<close>), \<open>Preset_Credential\<close> (what they guarantee).
  \<^item> The stacks of a company: \<open>Stack_Zones\<close> (\<open>cloudflare/zonestack\<close>), \<open>Stack_Services\<close>
    (\<open>cloudflare/services\<close>), \<open>Stack_Prototypes\<close> (\<open>cloudflare/prototypes\<close>).
  \<^item> The static site: \<open>Site_Config\<close> (\<open>FromEnv\<close> and its checks), \<open>Site_Text\<close> (placeholders, escapes, content
    types), \<open>Site_Serve\<close> (\<open>Build\<close>, \<open>ServeHTTP\<close>), \<open>Site_Unpack\<close> (\<open>extractTar\<close>).

  \<^bold>\<open>What the lemmas show.\<close>
  \<^item> Validation: for every check, the exact condition it accepts (the \<open>validator\<close> interpretations, the
    lemmas \<open>..._None\<close>). What a validated catalog guarantees: a hostname is answered on a cluster by
    one group of one exposure, no two listeners of a group collide; the verdict does not depend on
    the order of Go's maps (nor does the error, unless it is among the overrides of one exposure, which are ranged over unsorted). What validated rate limits, trusted clients, records and tunnel
    arguments guarantee: they stay within the plan's limits, admit no broad range, hold no record
    beside a CNAME and contain no rule that can never be reached.
  \<^item> Refinement: the loops of \<open>WithProjects\<close> and of \<open>Assemble\<close> against specifications without state
    (\<open>generated_catalog\<close>; \<open>assemble_ok\<close> and \<open>assembled\<close>).
  \<^item> Routing: \<open>Derive\<close> puts each host into exactly the tunnel of its cluster and of its zone's account;
    \<open>OrderHosts\<close> leaves no host covered by an earlier one, so a request meets its most specific rule;
    what \<open>Derive\<close> returns passes \<open>ValidateRouting\<close> and deploys to the end.
  \<^item> Rules: the text each builder writes stands for a tree (\<open>render\<close>), and the tree matches exactly
    the requests the feature is for (\<open>holds\<close>). In an assembled zone every request a cache claim
    admits is decided by that claim's rules, every other request bypasses the cache.
  \<^item> Grants: a derived group admits routes from its own namespaces alone. A minted token holds the
    named groups on the named resource, and each child of a split holds the policies listed for it
    (\<open>child_grants\<close>) and no others; what the split writes is read back.
  \<^item> The registry: what is derived passes every later check on tunnels; the managed WAF of a zone
    covers exactly its names; the view of an account of a valid registry is valid; a stack's name
    and its account determine each other.
  \<^item> Presets: the rights of each row of a built table, exactly; the table is built for exactly the
    registries its checks accept; the part of one account is cut from the table of all.
  \<^item> Stacks: what the zone stack still refuses of a checked registry, exactly; what \<open>Load\<close> returns is
    deployed by the services stack to the end, and the origin switch rewrites exactly its records; the
    prototypes stack declares one token for each preset of the account, with the preset's policies.
  \<^item> Credentials, on every run, whatever the world answers: how long a credential handed out lives and that
    Cloudflare accepted it; which commands run, in which environment, and when the root is read; what
    break-glass mints; that the wait for a new token ends, and ends well when Cloudflare comes to accept it.
  \<^item> The static site: an answer with status 200 has the bytes of one regular file, which the path names, with
    its placeholders substituted; a redirect stays on the server, and leads to a page when the names are of URL path
    characters; every answer carries the configured headers; an escaped value is read as itself; a successful unpack read
    the archive and its files whole and leaves exactly those inside the directory, and no unpack exceeds its limits by
    more than a byte.
  \<^item> Errors: a failed deployment stops at its first error with exactly the earlier resources registered.

  \<^bold>\<open>Modelling choices.\<close> Strings are byte strings, and the functions that treat letters, spaces and
  quoting (\<open>ToLower\<close>, \<open>TrimSpace\<close>, \<open>%q\<close>, \<open>json.Marshal\<close>) are modelled on ASCII; the whitespace a root token is
  refused for is that of Unicode.
  A map is an association list with distinct keys (\<open>wf_map\<close>); its order is the iteration order of Go,
  so a theorem about every list is one about every order. Slices that share an array are modelled as
  such where a write is visible through another one (\<open>compact_zone\<close>). A nil slice and an empty one
  are the same list, but for the four fields of a zone whose zero value \<open>validateManage\<close> asks for,
  which are options. Errors are values: \<open>'e option\<close> for a check, \<open>'e + 'a\<close> for a result, with a
  constructor for each return; the text of a message is left out, what it names is kept. A writer
  (\<open>WriteValues\<close> and the like) is the list of the lines it appends. A deployment is the list of the
  resources it registers and the errors it stops at; whether the SDK takes a resource is a parameter,
  and outputs are not modelled. The list of permission groups of an account and the clock are
  parameters. Durations are integers of nanoseconds. All loops of the source are bounded by their
  data, so every definition terminates by structural recursion or a measure and none has fuel; the
  only bounded iterations are those of the source's own limits.

  What Cloudflare does with what is deployed is stated as a specification, from the documents the
  sources cite: a tunnel takes the first ingress rule whose hostname is the request's or covers it by
  its wildcard (\<open>rule_matches\<close>), an expression is read as \<open>holds\<close> reads its tree.

  \<^bold>\<open>Not modelled.\<close> \<open>catalog.Load\<close> and the YAML methods (files and a third-party decoder). The
  catalog a failed \<open>WithProjects\<close> leaves behind, which no caller reads. Decoding the
  registry's file, which is a parameter of \<open>Load\<close>. The HTTP client, the process runner and the decoding of JSON of \<open>presettoken\<close>: they
  answer the questions its programs ask. The static site's access to registries, its listeners and metrics, the
  digest and the archive's decompression; what a request's conditions and ranges come to in \<open>http.ServeContent\<close>, whose effect on
  headers and bytes is modelled. The instance connector and tunnel, the AWS API gateway, \<open>r2\<close>, \<open>insights\<close>
  and \<open>securitytxt\<close>: mostly calls to the SDKs and to services. The Cloudflare API client and the commands: network and process I/O
  around the modelled functions. The cloudflared release files: data.
\<close>

end
